(* ===== verification/Prelude.thy ===== *)
theory Prelude
  imports Main "HOL-Library.Signed_Division"
begin

text \<open>
  Shared vocabulary of the development: time as Go represents it (nanoseconds), Go's
  map reads with their zero values, Go's truncated integer division, the string
  functions of package strings the modelled code calls, and the generic lemmas and fact
  collections the component theories rely on.

  Times and durations are integers counting nanoseconds. Go keeps them in an int64, whose
  range (about 292 years around the epoch) no modelled computation leaves. Strings are lists of
  bytes (\<open>string\<close>), as in Go.
\<close>

named_theorems go_simps "Evaluation rules for the Go primitives of the prelude"
named_theorems inv_intros "Introduction rules that re-establish component invariants"

section \<open>Time\<close>

type_synonym time = int
type_synonym duration = int
type_synonym ident = int

abbreviation Millisecond :: duration where "Millisecond \<equiv> 1000000"
abbreviation Second :: duration where "Second \<equiv> 1000000000"
abbreviation Minute :: duration where "Minute \<equiv> 60000000000"
abbreviation Hour :: duration where "Hour \<equiv> 3600000000000"

text \<open>Pointers to times: a nil pointer is \<open>None\<close>.\<close>

definition opt_after :: "time option \<Rightarrow> time \<Rightarrow> bool" where
  "opt_after t now = (case t of None \<Rightarrow> False | Some u \<Rightarrow> now < u)"

lemma opt_after_simps [simp]:
  "opt_after None now = False"
  "opt_after (Some u) now = (now < u)"
  by (simp_all add: opt_after_def)

section \<open>Maps\<close>

text \<open>Reading an absent key of a Go \<open>map[K]int\<close> gives 0.\<close>

definition get0 :: "('k \<rightharpoonup> int) \<Rightarrow> 'k \<Rightarrow> int" where
  "get0 m k = (case m k of None \<Rightarrow> 0 | Some v \<Rightarrow> v)"

lemma get0_empty [simp]: "get0 Map.empty k = 0"
  by (simp add: get0_def)

lemma get0_upd [simp]: "get0 (m(k \<mapsto> v)) j = (if j = k then v else get0 m j)"
  by (simp add: get0_def)

section \<open>Lists\<close>

text \<open>The first element a loop with an early return finds.\<close>

fun first_match :: "('a \<Rightarrow> bool) \<Rightarrow> 'a list \<Rightarrow> 'a option" where
  "first_match P [] = None"
| "first_match P (x # xs) = (if P x then Some x else first_match P xs)"

lemma first_match_SomeD: "first_match P xs = Some x \<Longrightarrow> x \<in> set xs \<and> P x"
  by (induction xs) (auto split: if_splits)

lemma first_match_None_iff: "first_match P xs = None \<longleftrightarrow> (\<forall>x\<in>set xs. \<not> P x)"
  by (induction xs) auto

lemma first_match_append:
  "\<forall>y\<in>set ys. \<not> P y \<Longrightarrow> first_match P (ys @ zs) = first_match P zs"
  by (induction ys) auto

lemma first_match_split:
  "first_match P xs = Some x \<longleftrightarrow>
     (\<exists>ys zs. xs = ys @ x # zs \<and> P x \<and> (\<forall>y\<in>set ys. \<not> P y))"
proof
  show "first_match P xs = Some x \<Longrightarrow>
    \<exists>ys zs. xs = ys @ x # zs \<and> P x \<and> (\<forall>y\<in>set ys. \<not> P y)"
  proof (induction xs)
    case Nil
    then show ?case by simp
  next
    case (Cons a xs)
    show ?case
    proof (cases "P a")
      case True
      with Cons.prems have "a # xs = [] @ x # xs \<and> P x \<and> (\<forall>y\<in>set []. \<not> P y)" by simp
      then show ?thesis by blast
    next
      case False
      with Cons obtain ys zs where "xs = ys @ x # zs" "P x" "\<forall>y\<in>set ys. \<not> P y"
        by auto
      with False have "a # xs = (a # ys) @ x # zs \<and> P x \<and> (\<forall>y\<in>set (a # ys). \<not> P y)"
        by simp
      then show ?thesis by blast
    qed
  qed
qed (auto simp: first_match_append)

lemma first_match_exists: "x \<in> set xs \<Longrightarrow> P x \<Longrightarrow> \<exists>y. first_match P xs = Some y"
  by (induction xs) auto

section \<open>Strings\<close>

text \<open>
  \<open>strings.TrimSpace\<close> on the ASCII white space characters, \<open>strings.ToLower\<close> on ASCII
  letters. The strings the modelled code compares (platform, endpoint and status
  names, model identifiers) are ASCII.
\<close>

definition is_space :: "char \<Rightarrow> bool" where
  "is_space c = (of_char c \<in> {9, 10, 11, 12, 13, 32 :: nat})"

definition TrimSpace :: "string \<Rightarrow> string" where
  "TrimSpace s = rev (dropWhile is_space (rev (dropWhile is_space s)))"

definition lower_char :: "char \<Rightarrow> char" where
  "lower_char c = (if 65 \<le> (of_char c :: nat) \<and> of_char c \<le> (90 :: nat)
     then char_of (of_char c + 32 :: nat) else c)"

definition ToLower :: "string \<Rightarrow> string" where
  "ToLower s = map lower_char s"

definition HasPrefix :: "string \<Rightarrow> string \<Rightarrow> bool" where
  "HasPrefix s p = (take (length p) s = p)"

definition HasSuffix :: "string \<Rightarrow> string \<Rightarrow> bool" where
  "HasSuffix s p = (length p \<le> length s \<and> drop (length s - length p) s = p)"

definition TrimSuffix :: "string \<Rightarrow> string \<Rightarrow> string" where
  "TrimSuffix s p = (if HasSuffix s p then take (length s - length p) s else s)"

fun Contains :: "string \<Rightarrow> string \<Rightarrow> bool" where
  "Contains [] p = (p = [])"
| "Contains (c # s) p = (HasPrefix (c # s) p \<or> Contains s p)"

lemma HasPrefix_iff: "HasPrefix s p \<longleftrightarrow> (\<exists>r. s = p @ r)"
  by (metis HasPrefix_def append_eq_conv_conj append_take_drop_id)

lemma HasSuffix_iff: "HasSuffix s p \<longleftrightarrow> (\<exists>r. s = r @ p)"
proof
  assume "HasSuffix s p"
  then have "s = take (length s - length p) s @ p"
    unfolding HasSuffix_def by (metis append_take_drop_id)
  then show "\<exists>r. s = r @ p" by blast
next
  assume "\<exists>r. s = r @ p"
  then show "HasSuffix s p" by (auto simp: HasSuffix_def)
qed

lemma TrimSuffix_append [simp]: "TrimSuffix (r @ p) p = r"
  by (simp add: TrimSuffix_def HasSuffix_iff)

lemma Contains_iff: "Contains s p \<longleftrightarrow> (\<exists>l r. s = l @ p @ r)"
proof (induction s)
  case Nil
  then show ?case by simp
next
  case (Cons c s)
  have "(\<exists>l r. c # s = l @ p @ r) \<longleftrightarrow> (\<exists>r. c # s = p @ r) \<or> (\<exists>l r. s = l @ p @ r)"
    by (metis (no_types) append_Cons append_Nil list.exhaust list.inject)
  then show ?case by (simp add: Cons.IH HasPrefix_iff)
qed

lemma length_ToLower [simp]: "length (ToLower s) = length s"
  by (simp add: ToLower_def)

lemma ToLower_simps [simp]:
  "ToLower [] = []"
  "ToLower (c # s) = lower_char c # ToLower s"
  "ToLower (s @ t) = ToLower s @ ToLower t"
  by (simp_all add: ToLower_def)

lemma lower_char_idem [simp]: "lower_char (lower_char c) = lower_char c"
proof (cases "65 \<le> (of_char c :: nat) \<and> of_char c \<le> (90 :: nat)")
  case True
  then have "of_char (lower_char c) = (of_char c + 32 :: nat)"
    by (simp add: lower_char_def)
  with True show ?thesis by (simp add: lower_char_def [of "lower_char c"])
next
  case False
  then have "lower_char c = c" by (auto simp: lower_char_def)
  then show ?thesis by simp
qed

lemma ToLower_idem [simp]: "ToLower (ToLower s) = ToLower s"
  by (simp add: ToLower_def)

lemma dropWhile_is_space_hd: "dropWhile P s = [] \<or> \<not> P (hd (dropWhile P s))"
  by (induction s) auto

lemma dropWhile_idem [simp]: "dropWhile P (dropWhile P s) = dropWhile P s"
  by (induction s) auto

lemma TrimSpace_Nil [simp]: "TrimSpace [] = []"
  by (simp add: TrimSpace_def)

lemma dropWhile_id: "s = [] \<or> \<not> P (hd s) \<Longrightarrow> dropWhile P s = s"
  by (cases s) auto

lemma TrimSpace_idem [simp]: "TrimSpace (TrimSpace s) = TrimSpace s"
proof -
  let ?d = "dropWhile is_space s"
  let ?t = "dropWhile is_space (rev ?d)"
  have t: "TrimSpace s = rev ?t" by (simp add: TrimSpace_def)
  have "?d = rev ?t @ rev (takeWhile is_space (rev ?d))"
    by (metis rev_append rev_rev_ident takeWhile_dropWhile_id)
  moreover have "?d = [] \<or> \<not> is_space (hd ?d)" by (rule dropWhile_is_space_hd)
  ultimately have "rev ?t = [] \<or> \<not> is_space (hd (rev ?t))"
    by (metis append_is_Nil_conv hd_append2)
  then have "dropWhile is_space (rev ?t) = rev ?t" by (rule dropWhile_id)
  then show ?thesis by (simp add: t) (simp add: TrimSpace_def)
qed

section \<open>Integer division\<close>

text \<open>Go's \<open>/\<close> and \<open>%\<close> on signed integers truncate towards zero: \<open>sdiv\<close> and \<open>smod\<close>.\<close>

lemma sdiv_nonneg: "0 \<le> a \<Longrightarrow> 0 < b \<Longrightarrow> (a::int) sdiv b = a div b"
  by (cases "a = 0") (auto simp: signed_divide_int_def sgn_if)

lemma smod_nonneg: "0 \<le> a \<Longrightarrow> 0 < b \<Longrightarrow> (a::int) smod b = a mod b"
  by (cases "a = 0") (auto simp: signed_modulo_int_def sgn_if)

declare sdiv_nonneg [go_simps] smod_nonneg [go_simps]

section \<open>Numbers as text\<close>

text \<open>
  \<open>strconv.FormatInt\<close> and \<open>strconv.ParseInt\<close> in base 10 for an int64: parsing accepts a sign and
  leading zeros, and fails on anything else and out of range.
\<close>

definition digit_char :: "nat \<Rightarrow> char" where "digit_char d = char_of (48 + d)"

fun nat_digits :: "nat \<Rightarrow> string" where
  "nat_digits n = (if n < 10 then [digit_char n] else nat_digits (n div 10) @ [digit_char (n mod 10)])"

declare nat_digits.simps [simp del]

definition FormatInt :: "int \<Rightarrow> string" where
  "FormatInt i = (if i < 0 then CHR ''-'' # nat_digits (nat (- i)) else nat_digits (nat i))"

definition is_digit :: "char \<Rightarrow> bool" where
  "is_digit c = (48 \<le> (of_char c :: nat) \<and> of_char c \<le> (57 :: nat))"

definition digits_value :: "string \<Rightarrow> int" where
  "digits_value s = foldl (\<lambda>v c. 10 * v + (of_char c - 48)) 0 s"

definition ParseInt :: "string \<Rightarrow> int option" where
  "ParseInt s =
     (let neg = (s \<noteq> [] \<and> hd s = CHR ''-'');
          ds = (if s \<noteq> [] \<and> hd s \<in> {CHR ''-'', CHR ''+''} then tl s else s);
          v = (if neg then - digits_value ds else digits_value ds)
      in if ds = [] \<or> (\<exists>c\<in>set ds. \<not> is_digit c) then None
         else if - (2 ^ 63) \<le> v \<and> v < 2 ^ 63 then Some v else None)"

lemma nat_digits_ne [simp]: "nat_digits n \<noteq> []"
  by (subst nat_digits.simps) simp

lemma of_char_digit [simp]: "d < 10 \<Longrightarrow> of_char (digit_char d) = (48 + d :: nat)"
  by (simp add: digit_char_def)

lemma of_char_digit_int [simp]: "d < 10 \<Longrightarrow> of_char (digit_char d) = (48 + int d :: int)"
  using of_char_digit [of d] by (metis of_nat_add of_nat_of_char of_nat_numeral)

lemma nat_digits_are_digits: "c \<in> set (nat_digits n) \<Longrightarrow> is_digit c"
proof (induction n rule: nat_digits.induct)
  case (1 n)
  then show ?case
    by (cases "n < 10") (auto simp: nat_digits.simps [of n] is_digit_def)
qed

lemma digits_value_nat_digits: "digits_value (nat_digits n) = int n"
proof (induction n rule: nat_digits.induct)
  case (1 n)
  then show ?case
    using mult_div_mod_eq [of "10::int" "int n"]
    by (cases "n < 10") (simp_all add: nat_digits.simps [of n] digits_value_def zdiv_int zmod_int)
qed

lemma is_digit_not_sign: "is_digit c \<Longrightarrow> c \<noteq> CHR ''-'' \<and> c \<noteq> CHR ''+''"
  by (auto simp: is_digit_def)

lemma hd_nat_digits: "hd (nat_digits n) \<noteq> CHR ''-''" "hd (nat_digits n) \<noteq> CHR ''+''"
  using nat_digits_are_digits [of "hd (nat_digits n)" n] is_digit_not_sign by (simp_all add: hd_in_set)

lemma ParseInt_digits:
  assumes "int n < 2 ^ 63"
  shows "ParseInt (nat_digits n) = Some (int n)"
proof -
  have "\<not> (\<exists>c\<in>set (nat_digits n). \<not> is_digit c)" using nat_digits_are_digits by blast
  then show ?thesis using assms hd_nat_digits [of n]
    by (simp add: ParseInt_def Let_def digits_value_nat_digits)
qed

lemma ParseInt_neg:
  assumes "int n \<le> 2 ^ 63"
  shows "ParseInt (CHR ''-'' # nat_digits n) = Some (- int n)"
proof -
  have "\<not> (\<exists>c\<in>set (nat_digits n). \<not> is_digit c)" using nat_digits_are_digits by blast
  then show ?thesis using assms
    by (simp add: ParseInt_def Let_def digits_value_nat_digits)
qed

lemma ParseInt_FormatInt: "- (2 ^ 63) \<le> i \<Longrightarrow> i < 2 ^ 63 \<Longrightarrow> ParseInt (FormatInt i) = Some i"
  using ParseInt_digits [of "nat i"] ParseInt_neg [of "nat (- i)"] by (simp add: FormatInt_def)

lemma nat_digits_inj [simp]: "nat_digits m = nat_digits n \<longleftrightarrow> m = n"
  by (metis digits_value_nat_digits of_nat_eq_iff)

lemma FormatInt_inj [simp]: "FormatInt i = FormatInt j \<longleftrightarrow> i = j"
proof -
  have "CHR ''-'' # x \<noteq> nat_digits n" "nat_digits n \<noteq> CHR ''-'' # x" for n x
    using hd_nat_digits [of n] by (metis list.sel(1))+
  then show ?thesis by (auto simp: FormatInt_def)
qed

lemma FormatInt_chars: "c \<in> set (FormatInt i) \<Longrightarrow> is_digit c \<or> c = CHR ''-''"
  using nat_digits_are_digits by (auto simp: FormatInt_def split: if_splits)

end
