(* ===== verification/Failover.thy ===== *)
theory Failover
  imports Prelude
begin

text \<open>
  The account failover logic of \<open>internal/handler/failover_loop.go\<close> and the account
  selection loop of \<open>internal/handler/gateway_handler.go\<close> that drives it.

  The request context is represented by what the code asks of it: whether it is already
  cancelled when a handler starts (\<open>ctx_err\<close>) and whether it is still alive when a
  sleep ends (\<open>awake\<close>). Log calls are left out; the calls that act on other
  components (sleeping, taking an account out of scheduling) are returned as a list of
  effects in the order the code performs them.
\<close>

section \<open>Data\<close>

datatype FailoverAction = FailoverContinue | FailoverExhausted | FailoverCanceled

datatype NextAccountAction = NextAccountLegacyRetry | NextAccountRetry | NextAccountStop

text \<open>The fields of \<open>UpstreamFailoverError\<close> the failover logic reads.\<close>

record UpstreamFailoverError =
  StatusCode :: int
  ErrForceCacheBilling :: bool
  RetryableOnSameAccount :: bool
  RequestScopedTransient :: bool
  NextAction :: NextAccountAction

record FailoverState =
  SwitchCount :: int
  MaxSwitches :: int
  FailedAccountIDs :: "ident set"
  SameAccountRetryCount :: "ident \<rightharpoonup> int"
  LastFailoverErr :: "UpstreamFailoverError option"
  ForceCacheBilling :: bool
  hasBoundSession :: bool
  profitVetoedAccountIDs :: "ident set"
  profitVetoCount :: int

datatype effect =
    Sleep duration
  | SetTempUnschedulable ident duration string

definition maxSameAccountRetries :: int where "maxSameAccountRetries = 3"
definition sameAccountRetryDelay :: duration where "sameAccountRetryDelay = 500 * Millisecond"
definition maxRequestScopedRetryDelay :: duration where "maxRequestScopedRetryDelay = 8 * Second"
definition singleAccountBackoffDelay :: duration where "singleAccountBackoffDelay = 2 * Second"
definition maxProfitVetoAttempts :: int where "maxProfitVetoAttempts = 10"
definition googleConfigErrorCooldown :: duration where "googleConfigErrorCooldown = 1 * Minute"
definition emptyResponseCooldown :: duration where "emptyResponseCooldown = 1 * Minute"
definition PlatformAntigravity :: string where "PlatformAntigravity = ''antigravity''"

lemmas failover_consts = sameAccountRetryDelay_def maxRequestScopedRetryDelay_def
  singleAccountBackoffDelay_def maxProfitVetoAttempts_def

section \<open>Operations\<close>

definition ShouldRetryNextAccount :: "UpstreamFailoverError option \<Rightarrow> bool" where
  "ShouldRetryNextAccount e = (case e of None \<Rightarrow> False | Some f \<Rightarrow> NextAction f \<noteq> NextAccountStop)"

text \<open>
  The doubling loop of \<open>sameAccountRetryDelayFor\<close>: \<open>n\<close> is the number of iterations that
  remain (\<open>retryCount - i\<close>).
\<close>

fun doubleDelay :: "nat \<Rightarrow> duration \<Rightarrow> duration" where
  "doubleDelay 0 delay = delay"
| "doubleDelay (Suc n) delay =
     (if delay \<ge> maxRequestScopedRetryDelay sdiv 2 then maxRequestScopedRetryDelay
      else doubleDelay n (delay * 2))"

definition sameAccountRetryDelayFor :: "UpstreamFailoverError option \<Rightarrow> int \<Rightarrow> duration" where
  "sameAccountRetryDelayFor failoverErr retryCount =
     (case failoverErr of
        None \<Rightarrow> sameAccountRetryDelay
      | Some e \<Rightarrow>
          if \<not> RequestScopedTransient e \<or> retryCount \<le> 1 then sameAccountRetryDelay
          else doubleDelay (nat (retryCount - 1)) sameAccountRetryDelay)"

definition NewFailoverState :: "int \<Rightarrow> bool \<Rightarrow> FailoverState" where
  "NewFailoverState maxSwitches bound =
     \<lparr>SwitchCount = 0, MaxSwitches = maxSwitches, FailedAccountIDs = {},
      SameAccountRetryCount = Map.empty, LastFailoverErr = None,
      ForceCacheBilling = False, hasBoundSession = bound,
      profitVetoedAccountIDs = {}, profitVetoCount = 0\<rparr>"

definition RecordProfitVeto :: "ident \<Rightarrow> FailoverState \<Rightarrow> FailoverAction \<times> FailoverState" where
  "RecordProfitVeto accountID s =
     (let s' = s\<lparr>FailedAccountIDs := insert accountID (FailedAccountIDs s),
                 profitVetoedAccountIDs := insert accountID (profitVetoedAccountIDs s),
                 profitVetoCount := profitVetoCount s + 1\<rparr>
      in if profitVetoCount s' \<ge> maxProfitVetoAttempts then (FailoverExhausted, s')
         else (FailoverContinue, s'))"

definition allExclusionsAreProfitVetoed :: "FailoverState \<Rightarrow> bool" where
  "allExclusionsAreProfitVetoed s =
     (if profitVetoedAccountIDs s = {} \<or> FailedAccountIDs s = {} then False
      else FailedAccountIDs s \<subseteq> profitVetoedAccountIDs s)"

definition needForceCacheBilling :: "bool \<Rightarrow> UpstreamFailoverError option \<Rightarrow> bool \<Rightarrow> bool" where
  "needForceCacheBilling bound failoverErr sameAccountRetry =
     ((bound \<and> \<not> sameAccountRetry) \<or>
      (case failoverErr of None \<Rightarrow> False | Some e \<Rightarrow> ErrForceCacheBilling e))"

text \<open>\<open>sleepWithContext\<close>: a non-positive duration returns true without looking at the context.\<close>

definition sleepWithContext :: "duration \<Rightarrow> bool \<Rightarrow> bool" where
  "sleepWithContext d awake = (if d \<le> 0 then True else awake)"

text \<open>\<open>GatewayService.TempUnscheduleRetryableError\<close>, with the two account updates it makes.\<close>

definition TempUnscheduleRetryableError ::
  "ident \<Rightarrow> UpstreamFailoverError option \<Rightarrow> effect list" where
  "TempUnscheduleRetryableError accountID failoverErr =
     (case failoverErr of
        None \<Rightarrow> []
      | Some e \<Rightarrow>
          if \<not> RetryableOnSameAccount e then []
          else if RequestScopedTransient e then []
          else if StatusCode e = 400 then
            [SetTempUnschedulable accountID googleConfigErrorCooldown
               ''400: invalid project resource name (auto temp-unschedule 1m)'']
          else if StatusCode e = 502 then
            [SetTempUnschedulable accountID emptyResponseCooldown
               ''empty stream response (auto temp-unschedule 1m)'']
          else [])"

definition HandleFailoverError ::
  "bool \<Rightarrow> bool \<Rightarrow> ident \<Rightarrow> string \<Rightarrow> int \<Rightarrow> UpstreamFailoverError option \<Rightarrow> FailoverState
     \<Rightarrow> FailoverAction \<times> effect list \<times> FailoverState" where
  "HandleFailoverError ctx_err awake accountID platform retryLimit failoverErr s =
     (if ctx_err then (FailoverCanceled, [], s)
      else
        let s1 = s\<lparr>LastFailoverErr := failoverErr\<rparr> in
        case failoverErr of
          None \<Rightarrow> (FailoverExhausted, [], s1)
        | Some e \<Rightarrow>
            if \<not> ShouldRetryNextAccount failoverErr then (FailoverExhausted, [], s1)
            else
              let sameAccountRetry =
                    (RetryableOnSameAccount e \<and> get0 (SameAccountRetryCount s1) accountID < retryLimit);
                  s2 = (if needForceCacheBilling (hasBoundSession s1) failoverErr sameAccountRetry
                        then s1\<lparr>ForceCacheBilling := True\<rparr> else s1)
              in
              if RetryableOnSameAccount e \<and> get0 (SameAccountRetryCount s2) accountID < retryLimit then
                let n = get0 (SameAccountRetryCount s2) accountID + 1;
                    s3 = s2\<lparr>SameAccountRetryCount := (SameAccountRetryCount s2)(accountID \<mapsto> n)\<rparr>;
                    retryDelay = sameAccountRetryDelayFor failoverErr n
                in (if \<not> sleepWithContext retryDelay awake then FailoverCanceled
                    else FailoverContinue, [Sleep retryDelay], s3)
              else
                let fx = (if RetryableOnSameAccount e
                          then TempUnscheduleRetryableError accountID failoverErr else []);
                    s3 = s2\<lparr>FailedAccountIDs := insert accountID (FailedAccountIDs s2)\<rparr>
                in
                if SwitchCount s3 \<ge> MaxSwitches s3 then (FailoverExhausted, fx, s3)
                else
                  let s4 = s3\<lparr>SwitchCount := SwitchCount s3 + 1\<rparr> in
                  if platform = PlatformAntigravity then
                    let delay = (SwitchCount s4 - 1) * Second
                    in (if \<not> sleepWithContext delay awake then FailoverCanceled
                        else FailoverContinue, fx @ [Sleep delay], s4)
                  else (FailoverContinue, fx, s4))"

definition HandleSelectionExhausted ::
  "bool \<Rightarrow> bool \<Rightarrow> FailoverState \<Rightarrow> FailoverAction \<times> effect list \<times> FailoverState" where
  "HandleSelectionExhausted ctx_err awake s =
     (if ctx_err then (FailoverCanceled, [], s)
      else if (case LastFailoverErr s of None \<Rightarrow> False | Some e \<Rightarrow> StatusCode e = 503)
              \<and> SwitchCount s \<le> MaxSwitches s then
        (if allExclusionsAreProfitVetoed s then (FailoverExhausted, [], s)
         else if \<not> sleepWithContext singleAccountBackoffDelay awake
           then (FailoverCanceled, [Sleep singleAccountBackoffDelay], s)
         else (FailoverContinue, [Sleep singleAccountBackoffDelay],
               s\<lparr>FailedAccountIDs := profitVetoedAccountIDs s\<rparr>))
      else (FailoverExhausted, [], s))"

section \<open>The selection loop of the gateway handler\<close>

text \<open>
  One iteration of the loop in \<open>GatewayHandler\<close> sees the outside world through one event:
  the selection failed, the selected account was vetoed by the profit gate, the forward to
  the selected account failed with a failover error (with whether response bytes had already been
  written to the client), or the request was answered (success,
  or an error that ends the request). \<open>retryLimit\<close> is the account's
  \<open>GetPoolModeRetryCount\<close>.
\<close>

datatype loop_event =
    SelectFailed bool bool
  | Vetoed ident
  | ForwardFailed ident string UpstreamFailoverError bool bool bool
  | Answered ident

datatype loop_result =
    Next FailoverState
  | NoAccountsAvailable FailoverState
  | Exhausted FailoverState
  | VetoLimit FailoverState
  | StreamCommitted FailoverState
  | ClientGone FailoverState
  | Done ident FailoverState

definition loop_iter :: "(ident \<Rightarrow> int) \<Rightarrow> loop_event \<Rightarrow> FailoverState \<Rightarrow> loop_result" where
  "loop_iter retryLimit ev fs =
     (case ev of
        SelectFailed ctx_err awake \<Rightarrow>
          if FailedAccountIDs fs = {} then NoAccountsAvailable fs
          else (case HandleSelectionExhausted ctx_err awake fs of
                  (FailoverContinue, _, fs') \<Rightarrow> Next fs'
                | (FailoverCanceled, _, fs') \<Rightarrow> ClientGone fs'
                | (FailoverExhausted, _, fs') \<Rightarrow> Exhausted fs')
      | Vetoed a \<Rightarrow>
          (case RecordProfitVeto a fs of
             (FailoverExhausted, fs') \<Rightarrow> VetoLimit fs'
           | (_, fs') \<Rightarrow> Next fs')
      | ForwardFailed a platform e written ctx_err awake \<Rightarrow>
          if written then StreamCommitted fs
          else (case HandleFailoverError ctx_err awake a platform (retryLimit a) (Some e) fs of
             (FailoverContinue, _, fs') \<Rightarrow> Next fs'
           | (FailoverExhausted, _, fs') \<Rightarrow> Exhausted fs'
           | (FailoverCanceled, _, fs') \<Rightarrow> ClientGone fs')
      | Answered a \<Rightarrow> Done a fs)"

text \<open>Running the loop over the events the outside world produces.\<close>

fun loop_run :: "(ident \<Rightarrow> int) \<Rightarrow> loop_event list \<Rightarrow> FailoverState \<Rightarrow> loop_result" where
  "loop_run lim [] fs = Next fs"
| "loop_run lim (ev # evs) fs =
     (case loop_iter lim ev fs of Next fs' \<Rightarrow> loop_run lim evs fs' | r \<Rightarrow> r)"

section \<open>Backoff delays\<close>

lemma doubleDelay_min:
  "0 < d \<Longrightarrow> d \<le> maxRequestScopedRetryDelay \<Longrightarrow>
     doubleDelay n d = min maxRequestScopedRetryDelay (d * 2 ^ n)"
proof (induction n arbitrary: d)
  case 0
  then show ?case by simp
next
  case (Suc n)
  have half: "maxRequestScopedRetryDelay sdiv 2 = 4 * Second"
    by (simp add: failover_consts go_simps)
  show ?case
  proof (cases "d \<ge> 4 * Second")
    case True
    have "4 * Second * 1 \<le> d * 2 ^ n" using True Suc.prems by (intro mult_mono) simp_all
    with True have "maxRequestScopedRetryDelay \<le> d * 2 ^ Suc n"
      by (simp add: failover_consts)
    with True show ?thesis by (simp add: half)
  next
    case False
    with Suc.IH [of "d * 2"] Suc.prems show ?thesis
      by (simp add: half failover_consts mult.assoc)
  qed
qed

lemma sameAccountRetryDelayFor_bounds:
  "sameAccountRetryDelay \<le> sameAccountRetryDelayFor e n \<and>
   sameAccountRetryDelayFor e n \<le> maxRequestScopedRetryDelay"
proof -
  have "1 \<le> (2::int) ^ k" for k by simp
  then have "sameAccountRetryDelay \<le> sameAccountRetryDelay * 2 ^ k" for k
    by (simp add: failover_consts)
  then show ?thesis
    by (auto simp: sameAccountRetryDelayFor_def doubleDelay_min failover_consts split: option.splits)
qed

section \<open>Invariant and termination measure of the loop\<close>

text \<open>
  \<open>A\<close> is the finite set of accounts the group can select, \<open>lim\<close> the per-account retry limit.
\<close>

definition fs_inv :: "ident set \<Rightarrow> (ident \<Rightarrow> int) \<Rightarrow> FailoverState \<Rightarrow> bool" where
  "fs_inv A lim s \<longleftrightarrow>
     profitVetoedAccountIDs s \<subseteq> FailedAccountIDs s \<and> FailedAccountIDs s \<subseteq> A \<and>
     0 \<le> SwitchCount s \<and> SwitchCount s \<le> max 0 (MaxSwitches s) \<and>
     0 \<le> profitVetoCount s \<and> profitVetoCount s < maxProfitVetoAttempts \<and>
     (\<forall>a. 0 \<le> get0 (SameAccountRetryCount s) a \<and>
          get0 (SameAccountRetryCount s) a \<le> max 0 (lim a))"

definition retries_left :: "ident set \<Rightarrow> (ident \<Rightarrow> int) \<Rightarrow> FailoverState \<Rightarrow> int" where
  "retries_left A lim s = (\<Sum>a\<in>A. max 0 (lim a) - get0 (SameAccountRetryCount s) a)"

definition can_clear :: "FailoverState \<Rightarrow> int" where
  "can_clear s = (if FailedAccountIDs s \<subseteq> profitVetoedAccountIDs s then 0 else 1)"

definition fs_measure :: "ident set \<Rightarrow> (ident \<Rightarrow> int) \<Rightarrow> FailoverState \<Rightarrow> int" where
  "fs_measure A lim s =
     2 * (max 0 (MaxSwitches s) - SwitchCount s) + (maxProfitVetoAttempts - profitVetoCount s)
     + retries_left A lim s + can_clear s"

lemmas fs_defs = fs_inv_def fs_measure_def can_clear_def

fun event_in :: "ident set \<Rightarrow> loop_event \<Rightarrow> bool" where
  "event_in A (SelectFailed _ _) = True"
| "event_in A (Vetoed a) = (a \<in> A)"
| "event_in A (ForwardFailed a _ _ _ _ _) = (a \<in> A)"
| "event_in A (Answered a) = (a \<in> A)"

lemma fs_inv_New: "fs_inv A lim (NewFailoverState m b)"
  by (simp add: fs_inv_def NewFailoverState_def maxProfitVetoAttempts_def)

lemma fs_measure_nonneg: "fs_inv A lim s \<Longrightarrow> 0 \<le> fs_measure A lim s"
proof -
  assume inv: "fs_inv A lim s"
  have "0 \<le> retries_left A lim s"
    unfolding retries_left_def using inv by (intro sum_nonneg) (simp add: fs_inv_def)
  with inv show ?thesis by (simp add: fs_defs)
qed

lemma retries_left_bump:
  assumes "finite A" "a \<in> A"
  shows "retries_left A lim (s\<lparr>SameAccountRetryCount :=
           (SameAccountRetryCount s)(a \<mapsto> get0 (SameAccountRetryCount s) a + 1)\<rparr>)
         = retries_left A lim s - 1"
proof -
  have "retries_left A lim (s\<lparr>SameAccountRetryCount :=
           (SameAccountRetryCount s)(a \<mapsto> get0 (SameAccountRetryCount s) a + 1)\<rparr>)
      = (\<Sum>x\<in>A. (max 0 (lim x) - get0 (SameAccountRetryCount s) x) - (if x = a then 1 else 0))"
    unfolding retries_left_def by (intro sum.cong) auto
  also have "\<dots> = retries_left A lim s - 1"
    using assms by (simp add: sum_subtractf retries_left_def)
  finally show ?thesis .
qed

lemma retries_left_cong:
  "SameAccountRetryCount s = SameAccountRetryCount t \<Longrightarrow> retries_left A lim s = retries_left A lim t"
  by (simp add: retries_left_def)

section \<open>The three handlers keep the invariant and make progress\<close>

lemma RecordProfitVeto_Continue:
  assumes "fs_inv A lim s" "a \<in> A" "RecordProfitVeto a s = (FailoverContinue, s')"
  shows "fs_inv A lim s' \<and> fs_measure A lim s' < fs_measure A lim s"
proof -
  have s': "s' = s\<lparr>FailedAccountIDs := insert a (FailedAccountIDs s),
      profitVetoedAccountIDs := insert a (profitVetoedAccountIDs s),
      profitVetoCount := profitVetoCount s + 1\<rparr>"
    and lt: "profitVetoCount s + 1 < maxProfitVetoAttempts"
    using assms(3) by (auto simp: RecordProfitVeto_def Let_def split: if_splits)
  have "retries_left A lim s' = retries_left A lim s"
    by (rule retries_left_cong) (simp add: s')
  moreover have "can_clear s' \<le> can_clear s"
    by (auto simp: s' can_clear_def)
  ultimately show ?thesis using assms(1,2) lt by (auto simp: fs_inv_def fs_measure_def s')
qed

lemma HandleFailoverError_Continue_cases:
  assumes "HandleFailoverError ctx_err awake a platform n (Some e) s = (FailoverContinue, fx, s')"
  obtains (retry) f where "RetryableOnSameAccount e" "get0 (SameAccountRetryCount s) a < n"
      "s' = s\<lparr>LastFailoverErr := Some e, ForceCacheBilling := f,
              SameAccountRetryCount := (SameAccountRetryCount s)
                (a \<mapsto> get0 (SameAccountRetryCount s) a + 1)\<rparr>"
  | (switch) f where "SwitchCount s < MaxSwitches s"
      "s' = s\<lparr>LastFailoverErr := Some e, ForceCacheBilling := f,
              FailedAccountIDs := insert a (FailedAccountIDs s),
              SwitchCount := SwitchCount s + 1\<rparr>"
proof -
  let ?same = "RetryableOnSameAccount e \<and> get0 (SameAccountRetryCount s) a < n"
  let ?f = "if needForceCacheBilling (hasBoundSession s) (Some e) ?same then True
            else ForceCacheBilling s"
  have cont: "\<not> ctx_err" "ShouldRetryNextAccount (Some e)"
    using assms by (auto simp: HandleFailoverError_def Let_def split: if_splits)
  show thesis
  proof (cases ?same)
    case True
    with assms cont show thesis
      by (intro retry [of ?f]) (auto simp: HandleFailoverError_def Let_def split: if_splits)
  next
    case False
    with assms cont have "SwitchCount s < MaxSwitches s"
      by (auto simp: HandleFailoverError_def Let_def split: if_splits)
    moreover have "s' = s\<lparr>LastFailoverErr := Some e, ForceCacheBilling := ?f,
              FailedAccountIDs := insert a (FailedAccountIDs s),
              SwitchCount := SwitchCount s + 1\<rparr>"
      using assms cont False by (auto simp: HandleFailoverError_def Let_def split: if_splits)
    ultimately show thesis by (rule switch)
  qed
qed

lemma HandleFailoverError_Continue:
  assumes "finite A" "fs_inv A lim s" "a \<in> A"
    and "HandleFailoverError ctx_err awake a platform (lim a) (Some e) s = (FailoverContinue, fx, s')"
  shows "fs_inv A lim s' \<and> fs_measure A lim s' < fs_measure A lim s"
  using assms(4)
proof (cases rule: HandleFailoverError_Continue_cases)
  case (retry f)
  have "retries_left A lim s' = retries_left A lim s - 1"
    using retries_left_bump [OF assms(1,3), of lim s]
    by (simp add: retry(3) retries_left_def)
  then show ?thesis using assms(2) retry(2) by (auto simp: fs_defs retry(3))
next
  case (switch f)
  have "retries_left A lim s' = retries_left A lim s"
    by (rule retries_left_cong) (simp add: switch(2))
  then show ?thesis using assms(2,3) switch(1) by (auto simp: fs_defs switch(2))
qed

lemma HandleSelectionExhausted_Continue:
  assumes "fs_inv A lim s" "FailedAccountIDs s \<noteq> {}"
    and "HandleSelectionExhausted ctx_err awake s = (FailoverContinue, fx, s')"
  shows "fs_inv A lim s' \<and> fs_measure A lim s' < fs_measure A lim s"
proof -
  have s': "s' = s\<lparr>FailedAccountIDs := profitVetoedAccountIDs s\<rparr>"
    and "\<not> allExclusionsAreProfitVetoed s"
    using assms(3) by (auto simp: HandleSelectionExhausted_def split: if_splits)
  then have "can_clear s = 1" "can_clear s' = 0"
    using assms(2) by (auto simp: can_clear_def allExclusionsAreProfitVetoed_def split: if_splits)
  moreover have "retries_left A lim s' = retries_left A lim s"
    by (rule retries_left_cong) (simp add: s')
  ultimately show ?thesis using assms(1) by (auto simp: fs_inv_def fs_measure_def s')
qed

lemma loop_iter_Next:
  assumes "finite A" "fs_inv A lim s" "event_in A ev" "loop_iter lim ev s = Next s'"
  shows "fs_inv A lim s' \<and> fs_measure A lim s' < fs_measure A lim s"
proof (cases ev)
  case (SelectFailed c w)
  with assms show ?thesis
    by (auto simp: loop_iter_def split: if_splits prod.splits FailoverAction.splits
        intro: HandleSelectionExhausted_Continue [THEN conjunct1]
          HandleSelectionExhausted_Continue [THEN conjunct2])
next
  case (Vetoed a)
  with assms obtain s'' where "RecordProfitVeto a s = (FailoverContinue, s')"
    by (auto simp: loop_iter_def RecordProfitVeto_def Let_def split: if_splits)
  with assms Vetoed show ?thesis by (intro RecordProfitVeto_Continue) auto
next
  case (ForwardFailed a p e w c aw)
  with assms obtain fx where
    "HandleFailoverError c aw a p (lim a) (Some e) s = (FailoverContinue, fx, s')"
    by (auto simp: loop_iter_def split: if_splits prod.splits FailoverAction.splits)
  with assms ForwardFailed show ?thesis by (intro HandleFailoverError_Continue) auto
next
  case (Answered a)
  with assms show ?thesis by (simp add: loop_iter_def)
qed

lemma loop_run_Next:
  assumes "finite A" "fs_inv A lim s" "\<forall>ev\<in>set evs. event_in A ev" "loop_run lim evs s = Next s'"
  shows "fs_inv A lim s' \<and> int (length evs) \<le> fs_measure A lim s - fs_measure A lim s'"
  using assms(2-4)
proof (induction evs arbitrary: s)
  case Nil
  then show ?case by simp
next
  case (Cons ev evs)
  from Cons.prems(3) obtain t where t: "loop_iter lim ev s = Next t" "loop_run lim evs t = Next s'"
    by (auto split: loop_result.splits)
  from loop_iter_Next [OF assms(1) Cons.prems(1) _ t(1)] Cons.prems(2)
  have "fs_inv A lim t" "fs_measure A lim t < fs_measure A lim s" by auto
  with Cons.IH [OF _ _ t(2)] Cons.prems(2) show ?case by auto
qed

section \<open>Properties\<close>

text \<open>C1. The account selection loop of the gateway handler terminates: whatever the outside world
  answers, a request over a finite set of accounts goes round the loop at most
  \<open>2 * maxSwitches + 10\<close> times plus one time for each same-account retry the accounts allow. Any
  longer sequence of answers ends the request with one of the loop's outcomes. In particular the
  503 backoff, which clears the exclusion set, cannot spin.\<close>
theorem failover_loop_terminates:
  assumes "finite A" and "\<forall>ev\<in>set evs. event_in A ev"
    and "2 * max 0 m + maxProfitVetoAttempts + (\<Sum>a\<in>A. max 0 (lim a)) < int (length evs)"
  shows "loop_run lim evs (NewFailoverState m b) \<noteq> Next s"
proof
  assume run: "loop_run lim evs (NewFailoverState m b) = Next s"
  have "int (length evs) \<le> fs_measure A lim (NewFailoverState m b) - fs_measure A lim s"
    and "fs_inv A lim s"
    using loop_run_Next [OF assms(1) fs_inv_New assms(2) run] by simp_all
  moreover have "fs_measure A lim (NewFailoverState m b)
      = 2 * max 0 m + maxProfitVetoAttempts + (\<Sum>a\<in>A. max 0 (lim a))"
    by (simp add: fs_measure_def can_clear_def retries_left_def NewFailoverState_def)
  ultimately show False using assms(3) fs_measure_nonneg [of A lim s] by simp
qed

theorem failover_loop_terminates_witness:
  "loop_run (\<lambda>_. 0) (replicate 13 (Vetoed 7)) (NewFailoverState 1 True) \<noteq> Next (NewFailoverState 1 True)"
  by (rule failover_loop_terminates [of "{7}"]) (simp_all add: maxProfitVetoAttempts_def)

lemma loop_iter_keeps_veto:
  assumes "loop_iter lim ev s = Next s'" "a \<in> profitVetoedAccountIDs s" "a \<in> FailedAccountIDs s"
  shows "a \<in> profitVetoedAccountIDs s' \<and> a \<in> FailedAccountIDs s'"
proof (cases ev)
  case (ForwardFailed x p e w c aw)
  with assms(1) obtain fx where
    "HandleFailoverError c aw x p (lim x) (Some e) s = (FailoverContinue, fx, s')"
    by (auto simp: loop_iter_def split: if_splits prod.splits FailoverAction.splits)
  then show ?thesis
    using assms(2,3) by (cases rule: HandleFailoverError_Continue_cases) auto
qed (use assms in \<open>auto simp: loop_iter_def HandleSelectionExhausted_def RecordProfitVeto_def Let_def
      split: if_splits\<close>)

lemma loop_run_keeps_veto:
  assumes "loop_run lim evs s = Next s'" "a \<in> profitVetoedAccountIDs s" "a \<in> FailedAccountIDs s"
  shows "a \<in> profitVetoedAccountIDs s' \<and> a \<in> FailedAccountIDs s'"
  using assms
proof (induction evs arbitrary: s)
  case (Cons ev evs)
  then obtain t where "loop_iter lim ev s = Next t" "loop_run lim evs t = Next s'"
    by (auto split: loop_result.splits)
  with Cons loop_iter_keeps_veto [of lim ev s t a] show ?case by blast
qed simp

lemma loop_run_append:
  "loop_run lim (xs @ ys) s = (case loop_run lim xs s of Next t \<Rightarrow> loop_run lim ys t | r \<Rightarrow> r)"
  by (induction xs arbitrary: s) (auto split: loop_result.splits)

text \<open>C14. An account the profit gate vetoed stays excluded from selection until the request ends,
  also across the 503 backoff that empties the exclusion set.\<close>
theorem vetoed_account_stays_excluded:
  assumes "loop_run lim (evs1 @ Vetoed a # evs2) (NewFailoverState m b) = Next s"
  shows "a \<in> FailedAccountIDs s"
proof -
  from assms obtain t where "loop_run lim (Vetoed a # evs2) t = Next s"
    by (auto simp: loop_run_append split: loop_result.splits)
  then obtain u where "RecordProfitVeto a t = (FailoverContinue, u)" "loop_run lim evs2 u = Next s"
    by (auto simp: loop_iter_def RecordProfitVeto_def Let_def split: if_splits)
  moreover from this have "a \<in> profitVetoedAccountIDs u" "a \<in> FailedAccountIDs u"
    by (auto simp: RecordProfitVeto_def Let_def split: if_splits)
  ultimately show ?thesis using loop_run_keeps_veto by blast
qed

definition example_503 :: UpstreamFailoverError where
  "example_503 = \<lparr>StatusCode = 503, ErrForceCacheBilling = False, RetryableOnSameAccount = False,
     RequestScopedTransient = False, NextAction = NextAccountRetry\<rparr>"

theorem vetoed_account_stays_excluded_witness:
  "\<exists>s. loop_run (\<lambda>_. 0) ([] @ Vetoed 7 # [ForwardFailed 8 ''openai'' example_503 False False True,
           SelectFailed False True]) (NewFailoverState 3 False) = Next s
       \<and> 7 \<in> FailedAccountIDs s \<and> 8 \<notin> FailedAccountIDs s"
proof -
  let ?s = "\<lparr>SwitchCount = 1, MaxSwitches = 3, FailedAccountIDs = {7},
      SameAccountRetryCount = Map.empty, LastFailoverErr = Some example_503,
      ForceCacheBilling = False, hasBoundSession = False,
      profitVetoedAccountIDs = {7}, profitVetoCount = 1\<rparr>"
  have run: "loop_run (\<lambda>_. 0) ([] @ Vetoed 7 # [ForwardFailed 8 ''openai'' example_503 False False True,
           SelectFailed False True]) (NewFailoverState 3 False) = Next ?s"
    by (simp add: loop_iter_def NewFailoverState_def RecordProfitVeto_def HandleFailoverError_def
        HandleSelectionExhausted_def ShouldRetryNextAccount_def needForceCacheBilling_def Let_def
        allExclusionsAreProfitVetoed_def sleepWithContext_def example_503_def failover_consts
        PlatformAntigravity_def insert_commute)
  from vetoed_account_stays_excluded [OF run] have "7 \<in> FailedAccountIDs ?s" .
  with run show ?thesis by (intro exI [of _ ?s]) simp
qed

text \<open>The delay before the \<open>n\<close>-th same-account retry of a request-scoped transient error doubles
  from 500ms and is cut off at 8s.\<close>
lemma sameAccountRetryDelayFor_exponential:
  assumes "RequestScopedTransient e" and "1 \<le> n"
  shows "sameAccountRetryDelayFor (Some e) n = min (8 * Second) (500 * Millisecond * 2 ^ nat (n - 1))"
  using assms by (auto simp: sameAccountRetryDelayFor_def doubleDelay_min failover_consts)

text \<open>A failover takes an account out of scheduling only when it is the failing account, its
  same-account retries are used up, and the error is one of the account (never a request-scoped
  transient one); the ban lasts one minute.\<close>
lemma temp_unschedule_only_account_errors:
  assumes "HandleFailoverError ctx_err awake a platform n (Some e) s = (act, fx, s')"
    and "SetTempUnschedulable b d r \<in> set fx"
  shows "b = a \<and> d = Minute \<and> RetryableOnSameAccount e \<and> \<not> RequestScopedTransient e
    \<and> n \<le> get0 (SameAccountRetryCount s) a \<and> a \<in> FailedAccountIDs s'"
proof -
  have fx: "set (TempUnscheduleRetryableError a (Some e)) \<subseteq>
      {SetTempUnschedulable a Minute r | r. RetryableOnSameAccount e \<and> \<not> RequestScopedTransient e}"
    by (auto simp: TempUnscheduleRetryableError_def googleConfigErrorCooldown_def
        emptyResponseCooldown_def)
  show ?thesis using assms fx
    by (auto simp: HandleFailoverError_def Let_def split: if_splits)
qed

theorem temp_unschedule_only_account_errors_witness:
  "\<exists>fx s'. HandleFailoverError False True 7 ''openai'' 0
      (Some (example_503\<lparr>StatusCode := 502, RetryableOnSameAccount := True\<rparr>)) (NewFailoverState 3 False)
      = (FailoverContinue, fx, s') \<and> fx \<noteq> [] \<and> 7 \<in> FailedAccountIDs s'"
proof -
  let ?r = "HandleFailoverError False True 7 ''openai'' 0
      (Some (example_503\<lparr>StatusCode := 502, RetryableOnSameAccount := True\<rparr>)) (NewFailoverState 3 False)"
  have eq: "?r = (FailoverContinue,
      [SetTempUnschedulable 7 Minute ''empty stream response (auto temp-unschedule 1m)''], snd (snd ?r))"
    by (simp add: NewFailoverState_def HandleFailoverError_def ShouldRetryNextAccount_def
        needForceCacheBilling_def Let_def example_503_def TempUnscheduleRetryableError_def
        PlatformAntigravity_def emptyResponseCooldown_def)
  have "7 \<in> FailedAccountIDs (snd (snd ?r))"
    using temp_unschedule_only_account_errors [OF eq, of 7 Minute] by simp
  with eq show ?thesis by blast
qed

end
