(* ===== verification/ProxyFallback.thy ===== *)
theory ProxyFallback
  imports Prelude
begin

text \<open>
  Where accounts of an expired proxy are moved: \<open>ResolveProxyFallbackTarget\<close> of
  \<open>internal/service/proxy_fallback.go\<close> over the proxies of \<open>internal/service/proxy.go\<close>.
  The snapshot \<open>byID\<close> of all proxies, a Go map, is an association list.
\<close>

record Proxy =
  ID :: ident
  Status :: string
  ExpiresAt :: "time option"
  FallbackMode :: string
  BackupProxyID :: "ident option"

definition StatusActive :: string where "StatusActive = ''active''"
definition StatusExpired :: string where "StatusExpired = ''expired''"
definition FallbackModeNone :: string where "FallbackModeNone = ''none''"
definition FallbackModeProxy :: string where "FallbackModeProxy = ''proxy''"
definition FallbackModeDirect :: string where "FallbackModeDirect = ''direct''"

lemmas fallback_modes = FallbackModeNone_def FallbackModeProxy_def FallbackModeDirect_def

definition IsActive :: "Proxy \<Rightarrow> bool" where
  "IsActive p = (Status p = StatusActive)"

definition IsExpired :: "Proxy \<Rightarrow> time \<Rightarrow> bool" where
  "IsExpired p now = (case ExpiresAt p of None \<Rightarrow> False | Some t \<Rightarrow> \<not> now < t)"

text \<open>The test the loop applies to every proxy of the chain.\<close>

definition usable :: "time \<Rightarrow> Proxy \<Rightarrow> bool" where
  "usable now p = (\<not> IsExpired p now \<and> Status p \<noteq> StatusExpired)"

type_synonym target = "ident option \<times> bool"

function resolve_chain ::
  "(ident \<times> Proxy) list \<Rightarrow> time \<Rightarrow> ident set \<Rightarrow> ident option \<Rightarrow> target" where
  "resolve_chain byID now visited curID =
     (case curID of
        None \<Rightarrow> (None, False)
      | Some i \<Rightarrow>
          if i \<in> visited then (None, False)
          else (case map_of byID i of
                  None \<Rightarrow> (None, False)
                | Some p \<Rightarrow>
                    if usable now p then (Some (ID p), True)
                    else if FallbackMode p = FallbackModeDirect then (None, True)
                    else if FallbackMode p = FallbackModeProxy
                      then resolve_chain byID now (insert i visited) (BackupProxyID p)
                    else (None, False)))"
  by pat_completeness auto
termination
proof (relation "measure (\<lambda>(byID, now, visited, curID). card (fst ` set byID - visited))", simp)
  fix byID :: "(ident \<times> Proxy) list" and now visited curID i p
  assume "i \<notin> visited" "map_of byID i = Some p"
  then have "i \<in> fst ` set byID - visited" by (force dest: map_of_SomeD)
  then have "card (fst ` set byID - visited - {i}) < card (fst ` set byID - visited)"
    by (intro card_Diff1_less) auto
  then show "((byID, now, insert i visited, BackupProxyID p), byID, now, visited, curID)
      \<in> measure (\<lambda>(byID, now, visited, curID). card (fst ` set byID - visited))"
    using Diff_insert [of "fst ` set byID" i visited] by simp
qed

declare resolve_chain.simps [simp del]

definition ResolveProxyFallbackTarget :: "Proxy \<Rightarrow> (ident \<times> Proxy) list \<Rightarrow> time \<Rightarrow> target" where
  "ResolveProxyFallbackTarget start byID now =
     (if FallbackMode start = FallbackModeDirect then (None, True)
      else if FallbackMode start = FallbackModeProxy
        then resolve_chain byID now {ID start} (BackupProxyID start)
      else (None, False))"

section \<open>Specification: following the backup pointers\<close>

text \<open>
  \<open>fallback_to byID now c t\<close>: following backup pointers from \<open>c\<close> through unusable proxies ends in
  target \<open>t\<close>. It is the least relation with these rules, so a cyclic or dangling chain has no
  target. It keeps no visited set.
\<close>

inductive fallback_to :: "(ident \<times> Proxy) list \<Rightarrow> time \<Rightarrow> ident option \<Rightarrow> ident option \<Rightarrow> bool"
  for byID now where
  found: "map_of byID i = Some p \<Longrightarrow> usable now p \<Longrightarrow> fallback_to byID now (Some i) (Some (ID p))"
| direct: "map_of byID i = Some p \<Longrightarrow> \<not> usable now p \<Longrightarrow> FallbackMode p = FallbackModeDirect \<Longrightarrow>
    fallback_to byID now (Some i) None"
| hop: "map_of byID i = Some p \<Longrightarrow> \<not> usable now p \<Longrightarrow> FallbackMode p = FallbackModeProxy \<Longrightarrow>
    fallback_to byID now (BackupProxyID p) t \<Longrightarrow> fallback_to byID now (Some i) t"

inductive_cases fallback_to_NoneE [elim!]: "fallback_to byID now None t"
inductive_cases fallback_to_SomeE: "fallback_to byID now (Some i) t"

lemma modes_differ [simp]: "FallbackModeProxy \<noteq> FallbackModeDirect" "FallbackModeDirect \<noteq> FallbackModeProxy"
  by (simp_all add: fallback_modes)

lemma resolve_chain_sound:
  "resolve_chain byID now visited c = (t, True) \<Longrightarrow> fallback_to byID now c t"
proof (induction byID now visited c rule: resolve_chain.induct)
  case (1 byID now visited c)
  then show ?case
    by (subst (asm) (2) resolve_chain.simps)
      (auto split: option.splits if_splits intro: fallback_to.intros)
qed

text \<open>
  The chain of a derivation, counted in hops. A derivation that starts at a visited proxy
  cannot be the shortest one, which is why the visited set loses no target.
\<close>

inductive fallback_in :: "(ident \<times> Proxy) list \<Rightarrow> time \<Rightarrow> nat \<Rightarrow> ident option \<Rightarrow> ident option \<Rightarrow> bool"
  for byID now where
  found_in: "map_of byID i = Some p \<Longrightarrow> usable now p \<Longrightarrow> fallback_in byID now 0 (Some i) (Some (ID p))"
| direct_in: "map_of byID i = Some p \<Longrightarrow> \<not> usable now p \<Longrightarrow> FallbackMode p = FallbackModeDirect \<Longrightarrow>
    fallback_in byID now 0 (Some i) None"
| hop_in: "map_of byID i = Some p \<Longrightarrow> \<not> usable now p \<Longrightarrow> FallbackMode p = FallbackModeProxy \<Longrightarrow>
    fallback_in byID now n (BackupProxyID p) t \<Longrightarrow> fallback_in byID now (Suc n) (Some i) t"

lemma fallback_to_in: "fallback_to byID now c t \<Longrightarrow> \<exists>n. fallback_in byID now n c t"
  by (induction rule: fallback_to.induct) (auto intro: fallback_in.intros)

inductive_cases fallback_in_NoneE [elim!]: "fallback_in byID now n None t"
inductive_cases fallback_in_SomeE: "fallback_in byID now n (Some i) t"

lemma fallback_in_unique:
  "fallback_in byID now n c t \<Longrightarrow> fallback_in byID now m c u \<Longrightarrow> n = m \<and> t = u"
proof (induction arbitrary: m u rule: fallback_in.induct)
  case (found_in i p)
  from found_in(3) show ?case by (rule fallback_in_SomeE) (use found_in in simp_all)
next
  case (direct_in i p)
  from direct_in(4) show ?case by (rule fallback_in_SomeE) (use direct_in in simp_all)
next
  case (hop_in i p n t)
  from hop_in.prems show ?case
  proof (rule fallback_in_SomeE)
    fix q k
    assume q: "m = Suc k" "map_of byID i = Some q" "fallback_in byID now k (BackupProxyID q) u"
    with hop_in.hyps(1) have "fallback_in byID now k (BackupProxyID p) u" by simp
    from hop_in.IH [OF this] q(1) show ?thesis by simp
  qed (use hop_in.hyps in simp_all)
qed

lemma resolve_chain_complete:
  "fallback_in byID now n c t \<Longrightarrow>
   (\<And>i m u. i \<in> visited \<Longrightarrow> fallback_in byID now m (Some i) u \<Longrightarrow> n < m) \<Longrightarrow>
   resolve_chain byID now visited c = (t, True)"
proof (induction arbitrary: visited rule: fallback_in.induct)
  case (found_in i p)
  from fallback_in.found_in [OF found_in.hyps] have "i \<notin> visited" using found_in.prems by blast
  with found_in.hyps show ?case by (simp add: resolve_chain.simps [of byID now visited "Some i"])
next
  case (direct_in i p)
  from fallback_in.direct_in [OF direct_in.hyps] have "i \<notin> visited" using direct_in.prems by blast
  with direct_in.hyps show ?case by (simp add: resolve_chain.simps [of byID now visited "Some i"])
next
  case (hop_in i p n t)
  have i: "fallback_in byID now (Suc n) (Some i) t" by (rule fallback_in.hop_in [OF hop_in.hyps])
  with hop_in.prems have "i \<notin> visited" by blast
  moreover have "resolve_chain byID now (insert i visited) (BackupProxyID p) = (t, True)"
  proof (rule hop_in.IH)
    fix j m u
    assume "j \<in> insert i visited" "fallback_in byID now m (Some j) u"
    then show "n < m" using hop_in.prems [of j m u] fallback_in_unique [OF i] by auto
  qed
  ultimately show ?case using hop_in by (simp add: resolve_chain.simps [of byID now visited])
qed

section \<open>Properties\<close>

text \<open>C15. For an unusable proxy of the snapshot, the loop with its visited set moves the accounts
  exactly where following the backup pointers leads: to the first usable proxy of the chain, or to a
  direct connection when an unusable proxy of the chain asks for it, and it changes nothing exactly
  when the chain is cyclic, dangling or ends in a proxy without a fallback.\<close>
theorem ResolveProxyFallbackTarget_correct:
  assumes "map_of byID (ID start) = Some start" and "\<not> usable now start"
  shows "ResolveProxyFallbackTarget start byID now = (t, True) \<longleftrightarrow>
    fallback_to byID now (Some (ID start)) t"
proof
  assume "ResolveProxyFallbackTarget start byID now = (t, True)"
  then show "fallback_to byID now (Some (ID start)) t"
    using assms by (auto simp: ResolveProxyFallbackTarget_def split: if_splits
        intro: fallback_to.intros dest: resolve_chain_sound)
next
  assume "fallback_to byID now (Some (ID start)) t"
  then obtain n where n: "fallback_in byID now n (Some (ID start)) t"
    using fallback_to_in by blast
  then show "ResolveProxyFallbackTarget start byID now = (t, True)"
  proof (rule fallback_in_SomeE)
    fix p m
    assume p: "n = Suc m" "map_of byID (ID start) = Some p" "FallbackMode p = FallbackModeProxy"
      "fallback_in byID now m (BackupProxyID p) t"
    with assms(1) have [simp]: "p = start" by simp
    have "resolve_chain byID now {ID start} (BackupProxyID start) = (t, True)"
    proof (rule resolve_chain_complete)
      show "fallback_in byID now m (BackupProxyID start) t" using p(4) by simp
      fix i k u
      assume "i \<in> {ID start}" "fallback_in byID now k (Some i) u"
      then have "n = k" using fallback_in_unique [OF n, of k u] by simp
      then show "m < k" using p(1) by simp
    qed
    then show ?thesis using p by (simp add: ResolveProxyFallbackTarget_def)
  qed (use assms in \<open>auto simp: ResolveProxyFallbackTarget_def\<close>)
qed

definition example_proxy :: "ident \<Rightarrow> string \<Rightarrow> time option \<Rightarrow> ident option \<Rightarrow> Proxy" where
  "example_proxy i mode expires backup =
     \<lparr>ID = i, Status = StatusActive, ExpiresAt = expires, FallbackMode = mode, BackupProxyID = backup\<rparr>"

theorem ResolveProxyFallbackTarget_correct_witness:
  "fallback_to [(1, example_proxy 1 ''proxy'' (Some 5) (Some 2)), (2, example_proxy 2 ''proxy'' (Some 6) (Some 3)),
      (3, example_proxy 3 ''none'' None None)] 10 (Some 1) (Some 3)"
proof -
  let ?s = "example_proxy 1 ''proxy'' (Some 5) (Some 2)"
  let ?m = "[(1, ?s), (2, example_proxy 2 ''proxy'' (Some 6) (Some 3)), (3, example_proxy 3 ''none'' None None)]"
  have "ResolveProxyFallbackTarget ?s ?m 10 = (Some 3, True)"
    by (simp add: ResolveProxyFallbackTarget_def example_proxy_def resolve_chain.simps usable_def
        IsExpired_def fallback_modes StatusActive_def StatusExpired_def)
  then show ?thesis
    using ResolveProxyFallbackTarget_correct [of ?m ?s 10 "Some 3"]
    by (simp add: example_proxy_def usable_def IsExpired_def)
qed

text \<open>The proxy an account is moved to is one of the snapshot, neither expired nor marked
  expired.\<close>
lemma ResolveProxyFallbackTarget_usable:
  assumes "ResolveProxyFallbackTarget start byID now = (Some i, True)"
  shows "\<exists>k p. map_of byID k = Some p \<and> ID p = i \<and> usable now p"
proof -
  from assms have "fallback_to byID now (BackupProxyID start) (Some i)"
    by (auto simp: ResolveProxyFallbackTarget_def split: if_splits dest: resolve_chain_sound)
  then show ?thesis
    by (induction "BackupProxyID start" "Some i" arbitrary: start rule: fallback_to.induct) blast+
qed

theorem ResolveProxyFallbackTarget_usable_witness:
  "\<exists>k p. map_of [(1::ident, example_proxy 1 ''proxy'' (Some 5) (Some 2)), (2, example_proxy 2 ''none'' None None)] k
      = Some p \<and> ID p = 2 \<and> usable 10 p"
  by (rule ResolveProxyFallbackTarget_usable [of "example_proxy 1 ''proxy'' (Some 5) (Some 2)"])
    (simp add: ResolveProxyFallbackTarget_def example_proxy_def resolve_chain.simps usable_def
        IsExpired_def fallback_modes StatusActive_def StatusExpired_def)

end
