(* ===== verification/ProxyCircuit.thy ===== *)
theory ProxyCircuit
  imports Prelude "HOL-Library.AList"
begin

text \<open>
  The proxy stream circuit of \<open>internal/service/openai_proxy_stream_circuit.go\<close>: a bounded,
  proxy-keyed breaker that quarantines proxies whose streams keep disconnecting.

  The entries, a Go map, are an association list whose order is the order a \<open>range\<close> loop happens
  to visit the map in; the properties hold for every order. The zero \<open>time.Time\<close> of an entry's
  unset field is \<open>None\<close>. The mutex makes every operation atomic, so an operation is a
  function on the circuit.
\<close>

record circuit_settings =
  disabled :: bool
  failureThreshold :: int
  failureWindow :: duration
  quarantineTTL :: duration
  collapseInterval :: duration
  maxEntries :: int

record circuit_entry =
  failureCount :: int
  windowStart :: "time option"
  lastFailureAt :: "time option"
  blockedUntil :: "time option"
  lastTouched :: time

record circuit =
  settings :: circuit_settings
  entries :: "(ident \<times> circuit_entry) list"

record circuit_config =
  Disabled :: bool
  FailureThreshold :: int
  WindowSeconds :: int
  TTLSeconds :: int

definition defaultFailureThreshold :: int where "defaultFailureThreshold = 2"
definition defaultFailureWindow :: duration where "defaultFailureWindow = Minute"
definition defaultQuarantineTTL :: duration where "defaultQuarantineTTL = 10 * Minute"
definition defaultMaxEntries :: int where "defaultMaxEntries = 4096"
definition defaultFailureCollapse :: duration where "defaultFailureCollapse = 3 * Second"

lemmas circuit_defaults = defaultFailureThreshold_def defaultFailureWindow_def
  defaultQuarantineTTL_def defaultMaxEntries_def defaultFailureCollapse_def

text \<open>The configuration is \<open>None\<close> when the service or its configuration is nil.\<close>

definition resolveSettings :: "circuit_config option \<Rightarrow> circuit_settings" where
  "resolveSettings cfg =
     (let st = \<lparr>disabled = False, failureThreshold = defaultFailureThreshold,
                failureWindow = defaultFailureWindow, quarantineTTL = defaultQuarantineTTL,
                collapseInterval = defaultFailureCollapse, maxEntries = defaultMaxEntries\<rparr>
      in case cfg of
           None \<Rightarrow> st
         | Some c \<Rightarrow>
             st\<lparr>disabled := Disabled c,
                failureThreshold := (if FailureThreshold c > 0 then FailureThreshold c else failureThreshold st),
                failureWindow := (if WindowSeconds c > 0 then WindowSeconds c * Second else failureWindow st),
                quarantineTTL := (if TTLSeconds c > 0 then TTLSeconds c * Second else quarantineTTL st)\<rparr>)"

definition newCircuit :: "circuit_settings \<Rightarrow> circuit" where
  "newCircuit st =
     \<lparr>settings = st\<lparr>
        failureThreshold := (if failureThreshold st \<le> 0 then defaultFailureThreshold else failureThreshold st),
        failureWindow := (if failureWindow st \<le> 0 then defaultFailureWindow else failureWindow st),
        quarantineTTL := (if quarantineTTL st \<le> 0 then defaultQuarantineTTL else quarantineTTL st),
        maxEntries := (if maxEntries st \<le> 0 then defaultMaxEntries else maxEntries st),
        collapseInterval := (if collapseInterval st < 0 then 0 else collapseInterval st)\<rparr>,
      entries = []\<rparr>"

section \<open>Eviction\<close>

definition stale :: "circuit_settings \<Rightarrow> time \<Rightarrow> circuit_entry \<Rightarrow> bool" where
  "stale st now e =
     ((blockedUntil e = None \<and> now - lastTouched e > failureWindow st) \<or>
      (blockedUntil e \<noteq> None \<and> \<not> opt_after (blockedUntil e) now))"

text \<open>The second loop: \<open>oid\<close> and \<open>ot\<close> are \<open>oldestProxyID\<close> and \<open>oldest\<close>.\<close>

fun oldest_loop :: "(ident \<times> circuit_entry) list \<Rightarrow> ident \<Rightarrow> time \<Rightarrow> ident" where
  "oldest_loop [] oid ot = oid"
| "oldest_loop ((i, e) # es) oid ot =
     (if oid = 0 \<or> lastTouched e < ot then oldest_loop es i (lastTouched e)
      else oldest_loop es oid ot)"

definition ensureCapacityLocked :: "time \<Rightarrow> circuit \<Rightarrow> circuit" where
  "ensureCapacityLocked now c =
     (if int (length (entries c)) < maxEntries (settings c) then c
      else
        let c1 = c\<lparr>entries := filter (\<lambda>(i, e). \<not> stale (settings c) now e) (entries c)\<rparr> in
        if int (length (entries c1)) < maxEntries (settings c1) then c1
        else
          let oldestProxyID = oldest_loop (entries c1) 0 0 in
          if oldestProxyID > 0 then c1\<lparr>entries := AList.delete oldestProxyID (entries c1)\<rparr>
          else c1)"

section \<open>Operations\<close>

definition zero_entry :: circuit_entry where
  "zero_entry = \<lparr>failureCount = 0, windowStart = None, lastFailureAt = None,
     blockedUntil = None, lastTouched = 0\<rparr>"

definition put :: "ident \<Rightarrow> circuit_entry \<Rightarrow> circuit \<Rightarrow> circuit" where
  "put i e c = c\<lparr>entries := AList.update i e (entries c)\<rparr>"

text \<open>Restarting the observation window, and the test that merges a burst into one failure.\<close>

definition rolled :: "circuit_settings \<Rightarrow> time \<Rightarrow> circuit_entry \<Rightarrow> circuit_entry" where
  "rolled st now e =
     (if (case windowStart e of None \<Rightarrow> True
          | Some w \<Rightarrow> now < w \<or> now - w > failureWindow st)
      then e\<lparr>failureCount := 0, windowStart := Some now, blockedUntil := None\<rparr> else e)"

definition collapsed :: "circuit_settings \<Rightarrow> time \<Rightarrow> circuit_entry \<Rightarrow> bool" where
  "collapsed st now e =
     (collapseInterval st > 0 \<and>
      (case lastFailureAt e of None \<Rightarrow> False
       | Some l \<Rightarrow> now - l \<ge> 0 \<and> now - l < collapseInterval st))"

definition recordFailure :: "ident \<Rightarrow> time \<Rightarrow> circuit \<Rightarrow> (bool \<times> time option) \<times> circuit" where
  "recordFailure proxyID now c =
     (if disabled (settings c) \<or> proxyID \<le> 0 then ((False, None), c)
      else
        let exists = map_of (entries c) proxyID;
            entry = (case exists of None \<Rightarrow> zero_entry | Some e \<Rightarrow> e)
        in
        if exists \<noteq> None \<and> opt_after (blockedUntil entry) now then
          ((False, blockedUntil entry), put proxyID (entry\<lparr>lastTouched := now\<rparr>) c)
        else
          let c1 = (if exists = None then ensureCapacityLocked now c else c);
              entry1 = rolled (settings c) now entry
          in
          if collapsed (settings c) now entry1 then
            ((False, None), put proxyID (entry1\<lparr>lastTouched := now\<rparr>) c1)
          else
            let entry2 = entry1\<lparr>failureCount := failureCount entry1 + 1,
                                lastFailureAt := Some now, lastTouched := now\<rparr>;
                tripped = (failureCount entry2 \<ge> failureThreshold (settings c));
                entry3 = (if tripped then entry2\<lparr>blockedUntil := Some (now + quarantineTTL (settings c))\<rparr>
                          else entry2)
            in ((tripped, blockedUntil entry3), put proxyID entry3 c1))"

definition recordSuccess :: "ident \<Rightarrow> circuit \<Rightarrow> bool \<times> circuit" where
  "recordSuccess proxyID c =
     (if proxyID \<le> 0 then (False, c)
      else case map_of (entries c) proxyID of
             None \<Rightarrow> (False, c)
           | Some _ \<Rightarrow> (True, c\<lparr>entries := AList.delete proxyID (entries c)\<rparr>))"

definition isBlocked :: "ident \<Rightarrow> time \<Rightarrow> circuit \<Rightarrow> bool \<times> circuit" where
  "isBlocked proxyID now c =
     (if disabled (settings c) \<or> proxyID \<le> 0 then (False, c)
      else case map_of (entries c) proxyID of
             None \<Rightarrow> (False, c)
           | Some entry \<Rightarrow>
               if blockedUntil entry = None then (False, c)
               else if \<not> opt_after (blockedUntil entry) now
                 then (False, c\<lparr>entries := AList.delete proxyID (entries c)\<rparr>)
               else (True, c))"

definition activeBlockCount :: "time \<Rightarrow> circuit \<Rightarrow> int" where
  "activeBlockCount now c =
     (if disabled (settings c) then 0
      else int (length (filter (\<lambda>(i, e). blockedUntil e \<noteq> None \<and> opt_after (blockedUntil e) now) (entries c))))"

section \<open>Invariant\<close>

definition circuit_inv :: "circuit \<Rightarrow> bool" where
  "circuit_inv c \<longleftrightarrow>
     distinct (map fst (entries c)) \<and> (\<forall>i\<in>set (map fst (entries c)). 0 < i) \<and>
     int (length (entries c)) \<le> maxEntries (settings c) \<and> 0 < maxEntries (settings c)"

lemma circuit_inv_new [simp]: "circuit_inv (newCircuit st)"
  by (simp add: circuit_inv_def newCircuit_def circuit_defaults)

lemma put_sel [simp]:
  "settings (put i e c) = settings c"
  "map_of (entries (put i e c)) = (map_of (entries c))(i \<mapsto> e)"
  by (simp_all add: put_def update_conv')

lemma length_update_le: "length (AList.update k v xs) \<le> Suc (length xs)"
  by (induction xs) auto

lemma length_update_mem: "k \<in> fst ` set xs \<Longrightarrow> length (AList.update k v xs) = length xs"
  by (induction xs) auto

lemma length_delete_mem:
  "k \<in> fst ` set xs \<Longrightarrow> length (AList.delete k xs) < length xs"
proof (induction xs)
  case (Cons x xs)
  have "length (AList.delete k xs) \<le> length xs" by (simp add: AList.delete_eq)
  with Cons show ?case by (cases x) auto
qed simp

lemma inv_subset_entries:
  assumes "circuit_inv c" "settings c' = settings c"
    and "distinct (map fst (entries c'))" "set (map fst (entries c')) \<subseteq> set (map fst (entries c))"
  shows "circuit_inv c'"
proof -
  have "card (set (map fst (entries c'))) \<le> card (set (map fst (entries c)))"
    using assms(4) by (intro card_mono) auto
  then have "length (entries c') \<le> length (entries c)"
    using assms(1,3) distinct_card [of "map fst (entries c)"] distinct_card [of "map fst (entries c')"]
    by (simp add: circuit_inv_def)
  moreover have "\<forall>i\<in>set (map fst (entries c')). 0 < i"
    using assms(1,4) unfolding circuit_inv_def by blast
  ultimately show ?thesis using assms by (simp add: circuit_inv_def)
qed

lemma inv_delete: "circuit_inv c \<Longrightarrow> circuit_inv (c\<lparr>entries := AList.delete i (entries c)\<rparr>)"
  by (rule inv_subset_entries [of c]) (auto simp: circuit_inv_def distinct_removeAll delete_keys)

lemma oldest_loop_mem:
  "oldest_loop es oid ot = oid \<or> oldest_loop es oid ot \<in> fst ` set es"
  by (induction es oid ot rule: oldest_loop.induct) auto

lemma oldest_loop_0_mem:
  "es \<noteq> [] \<Longrightarrow> oldest_loop es 0 ot \<in> fst ` set es"
proof (cases es)
  case (Cons a es')
  then show ?thesis using oldest_loop_mem [of es' "fst a" "lastTouched (snd a)"]
    by (cases a) auto
qed simp

lemma ensureCapacityLocked_inv:
  assumes inv: "circuit_inv c"
  shows "circuit_inv (ensureCapacityLocked now c) \<and>
    int (length (entries (ensureCapacityLocked now c))) < maxEntries (settings c) \<and>
    settings (ensureCapacityLocked now c) = settings c \<and>
    map_of (entries (ensureCapacityLocked now c)) \<subseteq>\<^sub>m map_of (entries c)"
proof -
  let ?f = "filter (\<lambda>(i, e). \<not> stale (settings c) now e) (entries c)"
  let ?c1 = "c\<lparr>entries := ?f\<rparr>"
  have d: "distinct (map fst (entries c))" using inv by (simp add: circuit_inv_def)
  have i1: "circuit_inv ?c1"
    by (rule inv_subset_entries [OF inv]) (use d in \<open>auto simp: distinct_map_filter\<close>)
  have m1: "map_of ?f \<subseteq>\<^sub>m map_of (entries c)"
    unfolding map_le_def using d
    by (metis (no_types, lifting) domD filter_is_subset map_of_SomeD map_of_is_SomeI subsetD)
  let ?o = "oldest_loop ?f 0 0"
  show ?thesis
  proof (cases "int (length (entries c)) < maxEntries (settings c) \<or> int (length ?f) < maxEntries (settings c)")
    case True
    then show ?thesis using inv i1 m1
      by (auto simp: ensureCapacityLocked_def Let_def circuit_inv_def)
  next
    case False
    then have "?f \<noteq> []" using inv by (auto simp: circuit_inv_def)
    then have o: "?o \<in> fst ` set ?f" by (rule oldest_loop_0_mem)
    then have pos: "0 < ?o" using inv by (auto simp: circuit_inv_def)
    have "length (AList.delete ?o ?f) < length ?f" using o by (rule length_delete_mem)
    moreover have "map_of (AList.delete ?o ?f) \<subseteq>\<^sub>m map_of (entries c)"
      using m1 by (auto simp: map_le_def delete_conv' split: if_splits)
    ultimately show ?thesis using False pos inv_delete [OF i1, of ?o] i1
      by (auto simp: ensureCapacityLocked_def Let_def circuit_inv_def)
  qed
qed

lemma inv_put:
  assumes "circuit_inv c" "0 < i"
    and "i \<in> fst ` set (entries c) \<or> int (length (entries c)) < maxEntries (settings c)"
  shows "circuit_inv (put i e c)"
  using assms length_update_mem [of i "entries c" e] length_update_le [of i e "entries c"]
  by (auto simp: circuit_inv_def put_def distinct_update update_keys split: if_splits)

text \<open>The calls the gateway makes: observing a broken stream, a good one, and the selection test.\<close>

datatype stream_error = NoError | ContextCanceled | ContextDeadlineExceeded | OtherError

record account_ref =
  Platform :: string
  ProxyID :: "ident option"

definition PlatformOpenAI :: string where "PlatformOpenAI = ''openai''"

definition circuitProxyID :: "account_ref option \<Rightarrow> ident option" where
  "circuitProxyID account =
     (case account of
        None \<Rightarrow> None
      | Some a \<Rightarrow>
          if Platform a \<noteq> PlatformOpenAI then None
          else (case ProxyID a of None \<Rightarrow> None | Some i \<Rightarrow> if i \<le> 0 then None else Some i))"

definition recordDisconnect :: "account_ref option \<Rightarrow> stream_error \<Rightarrow> time \<Rightarrow> circuit \<Rightarrow> circuit" where
  "recordDisconnect account err now c =
     (case circuitProxyID account of
        None \<Rightarrow> c
      | Some i \<Rightarrow>
          if err \<in> {NoError, ContextCanceled, ContextDeadlineExceeded} then c
          else snd (recordFailure i now c))"

definition clearDisconnect :: "account_ref option \<Rightarrow> circuit \<Rightarrow> circuit" where
  "clearDisconnect account c =
     (case circuitProxyID account of None \<Rightarrow> c | Some i \<Rightarrow> snd (recordSuccess i c))"

definition isQuarantined :: "bool \<Rightarrow> account_ref option \<Rightarrow> time \<Rightarrow> circuit \<Rightarrow> bool \<times> circuit" where
  "isQuarantined bypassed account now c =
     (case circuitProxyID account of
        None \<Rightarrow> (False, c)
      | Some i \<Rightarrow> if bypassed then (False, c) else isBlocked i now c)"

datatype circuit_op =
    Disconnect "account_ref option" stream_error time
  | Clear "account_ref option"
  | Check bool "account_ref option" time

definition circuit_step :: "circuit_op \<Rightarrow> circuit \<Rightarrow> circuit" where
  "circuit_step opn c =
     (case opn of
        Disconnect a e now \<Rightarrow> recordDisconnect a e now c
      | Clear a \<Rightarrow> clearDisconnect a c
      | Check b a now \<Rightarrow> snd (isQuarantined b a now c))"

section \<open>Operations keep the invariant\<close>

lemma recordFailure_settings [simp]: "settings (snd (recordFailure i now c)) = settings c"
proof -
  have "settings (ensureCapacityLocked now c) = settings c"
    by (simp add: ensureCapacityLocked_def Let_def)
  then show ?thesis by (simp add: recordFailure_def Let_def)
qed

lemma recordFailure_inv [inv_intros]:
  assumes "circuit_inv c"
  shows "circuit_inv (snd (recordFailure i now c))"
proof (cases "disabled (settings c) \<or> i \<le> 0")
  case True
  with assms show ?thesis by (auto simp: recordFailure_def)
next
  case False
  then have i: "0 < i" by simp
  show ?thesis
  proof (cases "map_of (entries c) i")
    case None
    have "circuit_inv (put i e (ensureCapacityLocked now c))" for e
      using ensureCapacityLocked_inv [OF assms, of now] i by (intro inv_put) auto
    with None False show ?thesis by (auto simp: recordFailure_def Let_def)
  next
    case (Some e0)
    then have "i \<in> fst ` set (entries c)" by (force dest: map_of_SomeD)
    then have "circuit_inv (put i e c)" for e using assms i by (intro inv_put) auto
    with Some False show ?thesis by (auto simp: recordFailure_def Let_def)
  qed
qed

lemma recordSuccess_inv [inv_intros]: "circuit_inv c \<Longrightarrow> circuit_inv (snd (recordSuccess i c))"
  by (auto simp: recordSuccess_def inv_delete split: option.splits)

lemma isBlocked_inv [inv_intros]: "circuit_inv c \<Longrightarrow> circuit_inv (snd (isBlocked i now c))"
  by (auto simp: isBlocked_def inv_delete split: option.splits)

lemma circuit_step_inv:
  "circuit_inv c \<Longrightarrow> circuit_inv (circuit_step opn c) \<and> settings (circuit_step opn c) = settings c"
  by (auto simp: circuit_step_def recordDisconnect_def clearDisconnect_def isQuarantined_def
      recordSuccess_def isBlocked_def inv_delete split: circuit_op.splits option.splits intro: inv_intros)

lemma circuit_run_inv:
  "circuit_inv c \<Longrightarrow> circuit_inv (fold circuit_step ops c) \<and> settings (fold circuit_step ops c) = settings c"
  by (induction ops arbitrary: c) (simp_all add: circuit_step_inv)

section \<open>One proxy's view\<close>

text \<open>
  What the operations do to the entry of one proxy, over the map the entries represent. These
  facts are all the timing properties need.
\<close>

definition entry_of :: "circuit \<Rightarrow> ident \<Rightarrow> circuit_entry" where
  "entry_of c i = (case map_of (entries c) i of None \<Rightarrow> zero_entry | Some e \<Rightarrow> e)"

lemma recordFailure_entry:
  assumes "circuit_inv c" "\<not> disabled (settings c)" "0 < i" "entry_of c i = e"
    and "\<not> opt_after (blockedUntil e) now"
  shows "if collapsed (settings c) now (rolled (settings c) now e)
    then fst (recordFailure i now c) = (False, None) \<and>
      map_of (entries (snd (recordFailure i now c))) i = Some ((rolled (settings c) now e)\<lparr>lastTouched := now\<rparr>)
    else
      let n = failureCount (rolled (settings c) now e) + 1;
          e2 = (rolled (settings c) now e)\<lparr>failureCount := n, lastFailureAt := Some now, lastTouched := now\<rparr>
      in map_of (entries (snd (recordFailure i now c))) i = Some
           (if n \<ge> failureThreshold (settings c)
            then e2\<lparr>blockedUntil := Some (now + quarantineTTL (settings c))\<rparr> else e2)
         \<and> fst (fst (recordFailure i now c)) = (n \<ge> failureThreshold (settings c))"
  using assms(2,3,5) unfolding assms(4) [symmetric] entry_of_def
  by (cases "map_of (entries c) i") (simp_all add: recordFailure_def Let_def)

lemma isBlocked_iff:
  "\<not> disabled (settings c) \<Longrightarrow> 0 < i \<Longrightarrow>
   fst (isBlocked i now c) \<longleftrightarrow> (\<exists>e. map_of (entries c) i = Some e \<and> opt_after (blockedUntil e) now)"
  by (auto simp: isBlocked_def split: option.splits)

text \<open>Failures of proxy \<open>i\<close> at the given times; whether any of them tripped the breaker.\<close>

fun record_all :: "ident \<Rightarrow> time list \<Rightarrow> circuit \<Rightarrow> bool \<times> circuit" where
  "record_all i [] c = (False, c)"
| "record_all i (t # ts) c =
     (let r = recordFailure i t c; r' = record_all i ts (snd r)
      in (fst (fst r) \<or> fst r', snd r'))"

lemma record_all_settings: "settings (snd (record_all i ts c)) = settings c"
  by (induction ts arbitrary: c) (simp_all add: Let_def)



text \<open>Separate failures: consecutive ones at least a collapse interval apart, all in one window.\<close>

fun spaced :: "duration \<Rightarrow> time \<Rightarrow> time list \<Rightarrow> bool" where
  "spaced d l [] = True"
| "spaced d l (t # ts) = (l \<le> t \<and> l + d \<le> t \<and> spaced d t ts)"

lemma spaced_ge: "spaced d l ts \<Longrightarrow> t \<in> set ts \<Longrightarrow> l \<le> t"
  by (induction d l ts rule: spaced.induct) (auto intro: order_trans)

lemma separate_failures:
  assumes "circuit_inv c" "\<not> disabled (settings c)" "0 < i"
    and "map_of (entries c) i = Some e" "blockedUntil e = None"
    and "windowStart e = Some w" "lastFailureAt e = Some l" "w \<le> l"
    and "spaced (collapseInterval (settings c)) l ts" "\<forall>t\<in>set ts. t - w \<le> failureWindow (settings c)"
    and "failureCount e + int (length ts) = failureThreshold (settings c)" "ts \<noteq> []"
  shows "fst (record_all i ts c) \<and>
    (\<exists>e'. map_of (entries (snd (record_all i ts c))) i = Some e' \<and>
       blockedUntil e' = Some (last ts + quarantineTTL (settings c)))"
  using assms
proof (induction ts arbitrary: c e l)
  case (Cons t ts)
  let ?r = "recordFailure i t c"
  have sp: "l \<le> t" "l + collapseInterval (settings c) \<le> t" "t - w \<le> failureWindow (settings c)"
    using Cons.prems(9,10) by auto
  have "rolled (settings c) t e = e" and "\<not> collapsed (settings c) t e"
    using Cons.prems(6-8) sp by (auto simp: rolled_def collapsed_def)
  moreover have "entry_of c i = e" using Cons.prems(4) by (simp add: entry_of_def)
  moreover have "\<not> opt_after (blockedUntil e) t" using Cons.prems(5) by simp
  ultimately have step: "map_of (entries (snd ?r)) i = Some
      (let e2 = e\<lparr>failureCount := failureCount e + 1, lastFailureAt := Some t, lastTouched := t\<rparr>
       in if failureThreshold (settings c) \<le> failureCount e + 1
          then e2\<lparr>blockedUntil := Some (t + quarantineTTL (settings c))\<rparr> else e2)"
    "fst (fst ?r) = (failureThreshold (settings c) \<le> failureCount e + 1)"
    using recordFailure_entry [OF Cons.prems(1-3), of e t] by (simp_all add: Let_def)
  show ?case
  proof (cases ts)
    case Nil
    then show ?thesis using step Cons.prems(4,5,11) by (simp add: Let_def)
  next
    case (Cons t2 ts2)
    let ?e = "e\<lparr>failureCount := failureCount e + 1, lastFailureAt := Some t, lastTouched := t\<rparr>"
    have nth: "\<not> failureThreshold (settings c) \<le> failureCount e + 1"
      using Cons.prems(11) Cons by simp
    have r: "map_of (entries (snd ?r)) i = Some ?e" "\<not> fst (fst ?r)"
      using step Cons.prems(4,5) nth by simp_all
    have "fst (record_all i ts (snd ?r)) \<and>
      (\<exists>e'. map_of (entries (snd (record_all i ts (snd ?r)))) i = Some e' \<and>
         blockedUntil e' = Some (last ts + quarantineTTL (settings (snd ?r))))"
    proof (rule Cons.IH [OF recordFailure_inv [OF Cons.prems(1)] _ Cons.prems(3) r(1), where l = t])
      show "\<not> disabled (settings (snd ?r))" using Cons.prems(2) by simp
      show "blockedUntil ?e = None" using Cons.prems(5) by simp
      show "windowStart ?e = Some w" using Cons.prems(6) by simp
      show "lastFailureAt ?e = Some t" by simp
      show "w \<le> t" using Cons.prems(8) sp by simp
      show "spaced (collapseInterval (settings (snd ?r))) t ts" using Cons.prems(9) by simp
      show "\<forall>x\<in>set ts. x - w \<le> failureWindow (settings (snd ?r))"
        using Cons.prems(10) by simp
      show "failureCount ?e + int (length ts) = failureThreshold (settings (snd ?r))"
        using Cons.prems(11) by simp
      show "ts \<noteq> []" using Cons by simp
    qed
    then show ?thesis using Cons by (simp add: Let_def)
  qed
qed simp

text \<open>Fewer failures than the threshold never trip the breaker, however they are spaced.\<close>

lemma few_failures:
  assumes "circuit_inv c" "\<not> disabled (settings c)" "0 < i"
    and "map_of (entries c) i = Some e" "blockedUntil e = None" "0 \<le> failureCount e"
    and "failureCount e + int (length ts) < failureThreshold (settings c)"
  shows "\<not> fst (record_all i ts c)"
  using assms
proof (induction ts arbitrary: c e)
  case (Cons t ts)
  let ?r = "recordFailure i t c"
  have "entry_of c i = e" using Cons.prems(4) by (simp add: entry_of_def)
  moreover have "\<not> opt_after (blockedUntil e) t" using Cons.prems(5) by simp
  moreover have "failureCount (rolled (settings c) t e) \<le> failureCount e"
    "0 \<le> failureCount (rolled (settings c) t e)" "blockedUntil (rolled (settings c) t e) = None"
    using Cons.prems(5,6) by (auto simp: rolled_def)
  ultimately have "\<not> fst (fst ?r) \<and> (\<exists>e'. map_of (entries (snd ?r)) i = Some e' \<and>
      blockedUntil e' = None \<and> 0 \<le> failureCount e' \<and> failureCount e' \<le> failureCount e + 1)"
    using recordFailure_entry [OF Cons.prems(1-3), of e t] Cons.prems(7)
    by (simp add: Let_def split: if_splits)
  then obtain e' where r: "\<not> fst (fst ?r)" "map_of (entries (snd ?r)) i = Some e'"
      "blockedUntil e' = None" "0 \<le> failureCount e'" "failureCount e' \<le> failureCount e + 1" by blast
  have "\<not> fst (record_all i ts (snd ?r))"
  proof (rule Cons.IH [OF recordFailure_inv [OF Cons.prems(1)] _ Cons.prems(3) r(2-4)])
    show "\<not> disabled (settings (snd ?r))" using Cons.prems(2) by simp
    show "failureCount e' + int (length ts) < failureThreshold (settings (snd ?r))"
      using Cons.prems(7) r(5) by simp
  qed
  with r(1) show ?case by (simp add: Let_def)
qed simp

section \<open>Properties\<close>

lemma first_failure:
  assumes "circuit_inv c" "\<not> disabled (settings c)" "0 < i" "map_of (entries c) i = None"
    and "1 < failureThreshold (settings c)"
  shows "\<not> fst (fst (recordFailure i t c)) \<and>
    map_of (entries (snd (recordFailure i t c))) i = Some \<lparr>failureCount = 1, windowStart = Some t,
      lastFailureAt = Some t, blockedUntil = None, lastTouched = t\<rparr>"
proof -
  have "entry_of c i = zero_entry" using assms(4) by (simp add: entry_of_def)
  then show ?thesis
    using recordFailure_entry [OF assms(1-3), of zero_entry t] assms(5)
    by (simp add: zero_entry_def rolled_def collapsed_def)
qed

text \<open>Whatever disconnects, successes and checks arrive, in whatever order, the circuit never
  holds more proxies than its capacity, holds no proxy twice and never a non-positive id, and its settings
  do not change.\<close>
lemma circuit_bounded:
  "int (length (entries (fold circuit_step ops (newCircuit st)))) \<le> maxEntries (settings (newCircuit st)) \<and>
   distinct (map fst (entries (fold circuit_step ops (newCircuit st)))) \<and>
   set (map fst (entries (fold circuit_step ops (newCircuit st)))) \<subseteq> {0<..} \<and>
   settings (fold circuit_step ops (newCircuit st)) = settings (newCircuit st)"
proof -
  have "circuit_inv (fold circuit_step ops (newCircuit st)) \<and>
      settings (fold circuit_step ops (newCircuit st)) = settings (newCircuit st)"
    by (rule circuit_run_inv) simp
  then show ?thesis by (auto simp: circuit_inv_def)
qed


definition example_circuit :: circuit where
  "example_circuit = newCircuit (resolveSettings None)"

lemma example_circuit_simps [simp]:
  "settings example_circuit = \<lparr>disabled = False, failureThreshold = 2, failureWindow = Minute,
     quarantineTTL = 10 * Minute, collapseInterval = 3 * Second, maxEntries = 4096\<rparr>"
  "entries example_circuit = []" "circuit_inv example_circuit"
  by (simp_all add: example_circuit_def newCircuit_def resolveSettings_def Let_def circuit_defaults
      circuit_inv_def)


text \<open>C16. Failures of a proxy that are at least a collapse interval apart and lie in one
  observation window trip the breaker when their number reaches the threshold, and not before; the proxy is
  then blocked until exactly the quarantine time after the last of them, and a single success lifts the
  block.\<close>
theorem separate_failures_trip:
  assumes "circuit_inv c" "\<not> disabled (settings c)" "0 < i" "map_of (entries c) i = None"
    and "1 < failureThreshold (settings c)"
    and "spaced (collapseInterval (settings c)) t0 (ts @ [l])"
    and "\<forall>t\<in>set (ts @ [l]). t - t0 \<le> failureWindow (settings c)"
    and "int (length (t0 # ts @ [l])) = failureThreshold (settings c)"
  shows "\<not> fst (record_all i (t0 # ts) c) \<and> fst (record_all i (t0 # ts @ [l]) c) \<and>
    (fst (isBlocked i now (snd (record_all i (t0 # ts @ [l]) c)))
      \<longleftrightarrow> now < l + quarantineTTL (settings c)) \<and>
    \<not> fst (isBlocked i now (snd (recordSuccess i (snd (record_all i (t0 # ts @ [l]) c)))))"
proof -
  let ?c = "snd (recordFailure i t0 c)"
  note f = first_failure [OF assms(1-5), of t0]
  have nd: "\<not> disabled (settings ?c)" using assms(2) by simp
  have "fst (record_all i (ts @ [l]) ?c) \<and>
    (\<exists>e'. map_of (entries (snd (record_all i (ts @ [l]) ?c))) i = Some e' \<and>
       blockedUntil e' = Some (last (ts @ [l]) + quarantineTTL (settings ?c)))"
    by (rule separate_failures [OF recordFailure_inv [OF assms(1)] nd assms(3) f [THEN conjunct2]])
      (use assms(6-8) in simp_all)
  then obtain e' where e': "fst (record_all i (ts @ [l]) ?c)"
    "map_of (entries (snd (record_all i (ts @ [l]) ?c))) i = Some e'"
    "blockedUntil e' = Some (l + quarantineTTL (settings c))" by auto
  have "\<not> fst (record_all i ts ?c)"
    by (rule few_failures [OF recordFailure_inv [OF assms(1)] nd assms(3) f [THEN conjunct2]])
      (use assms(8) in simp_all)
  then have before: "\<not> fst (record_all i (t0 # ts) c)" using f by (simp add: Let_def)
  have trips: "fst (record_all i (t0 # ts @ [l]) c)" using e'(1) by (simp add: Let_def)
  have nd': "\<not> disabled (settings (snd (record_all i (ts @ [l]) ?c)))"
    using nd by (simp add: record_all_settings)
  have blocked: "fst (isBlocked i now (snd (record_all i (t0 # ts @ [l]) c))) \<longleftrightarrow> now < l + quarantineTTL (settings c)"
    using e'(2,3) nd' assms(3) by (simp add: Let_def isBlocked_iff)
  have "\<not> fst (isBlocked i now (snd (recordSuccess i (snd (record_all i (t0 # ts @ [l]) c)))))"
    using e'(2) assms(3) by (simp add: Let_def recordSuccess_def isBlocked_def delete_conv')
  with before trips blocked show ?thesis by blast
qed

theorem separate_failures_trip_witness:
  "\<not> fst (record_all 7 [100] example_circuit) \<and>
   fst (record_all 7 [100, 100 + 3 * Second] example_circuit) \<and>
   fst (isBlocked 7 (4 * Second) (snd (record_all 7 [100, 100 + 3 * Second] example_circuit))) \<and>
   \<not> fst (isBlocked 7 (4 * Second) (snd (recordSuccess 7 (snd (record_all 7 [100, 100 + 3 * Second] example_circuit)))))"
  using separate_failures_trip [of example_circuit 7 100 "[]" "100 + 3 * Second" "4 * Second"]
  by (simp del: record_all.simps)

end
