(* ===== verification/Idempotency.thy ===== *)
theory Idempotency
  imports Prelude
begin

text \<open>
  Idempotent write requests: the coordinator of \<open>internal/service/idempotency.go\<close> and its SQL
  repository \<open>internal/repository/idempotency_repo.go\<close>.

  \<open>Execute\<close> talks to a database that other requests use at the same time, so it is modelled as
  a machine that makes one repository call, or one run of the caller's function, per step; each
  repository call is a single SQL statement and therefore atomic. Running the machine
  alone gives the sequential reading (\<open>Execute\<close>), interleaving many of them the concurrent one
  (\<open>world_step\<close>). What the repository promises is the locale \<open>idempotency_repository\<close>; the SQL
  statements over a table of rows are its interpretation.

  JSON encoding, SHA-256 and the log redaction are functions of the environment record \<open>codec\<close>.
  Metrics and audit logs are left out, as are the columns \<open>created_at\<close> and \<open>updated_at\<close>, which no
  modelled code reads.
\<close>

section \<open>Data\<close>

definition IdempotencyStatusProcessing :: string where "IdempotencyStatusProcessing = ''processing''"
definition IdempotencyStatusSucceeded :: string where "IdempotencyStatusSucceeded = ''succeeded''"
definition IdempotencyStatusFailedRetryable :: string where
  "IdempotencyStatusFailedRetryable = ''failed_retryable''"

lemmas idem_status = IdempotencyStatusProcessing_def IdempotencyStatusSucceeded_def
  IdempotencyStatusFailedRetryable_def

text \<open>The errors, with the \<open>retry_after\<close> metadata the two conflict errors carry.\<close>

datatype idem_error =
    ExecutorNil
  | KeyRequired
  | KeyInvalid
  | KeyConflict
  | InProgress "int option"
  | RetryBackoff "int option"
  | StoreUnavail
  | InvalidPayload
  | ScopeRequired
  | ExecError string

record IdempotencyRecord =
  ID :: int
  Scope :: string
  IdempotencyKeyHash :: string
  RequestFingerprint :: string
  Status :: string
  ResponseStatus :: "int option"
  ResponseBody :: "string option"
  ErrorReason :: "string option"
  LockedUntil :: "time option"
  ExpiresAt :: time

record IdempotencyConfig =
  DefaultTTL :: duration
  SystemOperationTTL :: duration
  ProcessingTimeout :: duration
  FailedRetryBackoff :: duration
  MaxStoredResponseLen :: int
  ObserveOnly :: bool

definition DefaultIdempotencyConfig :: IdempotencyConfig where
  "DefaultIdempotencyConfig =
     \<lparr>DefaultTTL = 24 * Hour, SystemOperationTTL = 1 * Hour, ProcessingTimeout = 30 * Second,
      FailedRetryBackoff = 5 * Second, MaxStoredResponseLen = 64 * 1024, ObserveOnly = True\<rparr>"

record 'd IdempotencyExecuteOptions =
  OptScope :: string
  ActorScope :: string
  Method :: string
  Route :: string
  IdempotencyKey :: string
  Payload :: 'd
  TTL :: duration
  RequireKey :: bool

text \<open>
  The repository interface. The leading Boolean of each call says whether the database answers it;
  a call that fails returns \<open>None\<close>. \<open>CreateProcessing\<close> also returns the identifier it
  stores in the record it is given.
\<close>

record 's IdempotencyRepository =
  CreateProcessing :: "bool \<Rightarrow> IdempotencyRecord \<Rightarrow> 's \<Rightarrow> (bool \<times> int) option \<times> 's"
  GetByScopeAndKeyHash :: "bool \<Rightarrow> string \<Rightarrow> string \<Rightarrow> 's \<Rightarrow> IdempotencyRecord option option"
  TryReclaim :: "bool \<Rightarrow> int \<Rightarrow> string \<Rightarrow> time \<Rightarrow> time \<Rightarrow> time \<Rightarrow> 's \<Rightarrow> bool option \<times> 's"
  ExtendProcessingLock :: "bool \<Rightarrow> int \<Rightarrow> string \<Rightarrow> time \<Rightarrow> time \<Rightarrow> 's \<Rightarrow> bool option \<times> 's"
  MarkSucceeded :: "bool \<Rightarrow> int \<Rightarrow> int \<Rightarrow> string \<Rightarrow> time \<Rightarrow> 's \<Rightarrow> unit option \<times> 's"
  MarkFailedRetryable :: "bool \<Rightarrow> int \<Rightarrow> string \<Rightarrow> time \<Rightarrow> time \<Rightarrow> 's \<Rightarrow> unit option \<times> 's"
  DeleteExpired :: "bool \<Rightarrow> time \<Rightarrow> int \<Rightarrow> 's \<Rightarrow> int option \<times> 's"

record 's IdempotencyCoordinator =
  repo :: "'s IdempotencyRepository option"
  cfg :: IdempotencyConfig

text \<open>\<open>sha\<close> is the hex SHA-256, \<open>empty_object\<close> the decoded \<open>{}\<close>.\<close>

record 'd codec =
  sha :: "string \<Rightarrow> string"
  marshal :: "'d \<Rightarrow> string option"
  unmarshal :: "string \<Rightarrow> 'd option"
  redact :: "string \<Rightarrow> string"
  empty_object :: 'd

section \<open>Helpers of the coordinator\<close>

definition DefaultWriteIdempotencyTTL :: "'s IdempotencyCoordinator option \<Rightarrow> duration" where
  "DefaultWriteIdempotencyTTL dflt =
     (case dflt of
        Some c \<Rightarrow> if DefaultTTL (cfg c) > 0 then DefaultTTL (cfg c) else DefaultTTL DefaultIdempotencyConfig
      | None \<Rightarrow> DefaultTTL DefaultIdempotencyConfig)"

definition DefaultSystemOperationIdempotencyTTL :: "'s IdempotencyCoordinator option \<Rightarrow> duration" where
  "DefaultSystemOperationIdempotencyTTL dflt =
     (case dflt of
        Some c \<Rightarrow> if SystemOperationTTL (cfg c) > 0 then SystemOperationTTL (cfg c)
                  else SystemOperationTTL DefaultIdempotencyConfig
      | None \<Rightarrow> SystemOperationTTL DefaultIdempotencyConfig)"

text \<open>Every byte of a rune above 126 is above 126, so the rune test is a test of the bytes.\<close>

definition NormalizeIdempotencyKey :: "string \<Rightarrow> idem_error + string" where
  "NormalizeIdempotencyKey raw =
     (let key = TrimSpace raw in
      if key = [] then Inr []
      else if length key > 128 then Inl KeyInvalid
      else if \<exists>r\<in>set key. (of_char r :: nat) < 33 \<or> (of_char r :: nat) > 126 then Inl KeyInvalid
      else Inr key)"

definition HashIdempotencyKey :: "'d codec \<Rightarrow> string \<Rightarrow> string" where
  "HashIdempotencyKey env key = sha env key"

definition upper_char :: "char \<Rightarrow> char" where
  "upper_char c = (if 97 \<le> (of_char c :: nat) \<and> of_char c \<le> (122 :: nat)
     then char_of (of_char c - 32 :: nat) else c)"

definition newline :: char where "newline = char_of (10 :: nat)"

definition BuildIdempotencyFingerprint ::
  "'d codec \<Rightarrow> string \<Rightarrow> string \<Rightarrow> string \<Rightarrow> 'd \<Rightarrow> idem_error + string" where
  "BuildIdempotencyFingerprint env mtd rt actor payload =
     (let mtd = (if mtd = [] then ''POST'' else mtd);
          rt = (if rt = [] then ''/'' else rt);
          actor = (if actor = [] then ''anonymous'' else actor)
      in case marshal env payload of
           None \<Rightarrow> Inl InvalidPayload
         | Some raw \<Rightarrow>
             Inr (sha env (map upper_char mtd @ newline # rt @ newline # actor @ newline # raw)))"

definition conflictWithRetryAfter ::
  "(int option \<Rightarrow> idem_error) \<Rightarrow> time option \<Rightarrow> time \<Rightarrow> idem_error" where
  "conflictWithRetryAfter base lockedUntil now =
     (case lockedUntil of
        None \<Rightarrow> base None
      | Some lu \<Rightarrow>
          let sec = (lu - now) sdiv Second in
          base (Some (if sec \<le> 0 then 1 else sec)))"

text \<open>\<open>RetryAfterSecondsFromError\<close>: the seconds the metadata of an error holds, else 0.\<close>

definition RetryAfterSecondsFromError :: "idem_error \<Rightarrow> int" where
  "RetryAfterSecondsFromError e =
     (case e of
        InProgress (Some sec) \<Rightarrow> if sec \<le> 0 then 0 else sec
      | RetryBackoff (Some sec) \<Rightarrow> if sec \<le> 0 then 0 else sec
      | _ \<Rightarrow> 0)"

subsection \<open>UTF-8\<close>

text \<open>
  \<open>rune_len bs\<close> is the length of the well-formed UTF-8 sequence at the head of \<open>bs\<close>, 0 if there is
  none; the ranges of the second byte exclude overlong forms, surrogates and values above
  U+10FFFF, as \<open>unicode/utf8\<close> does.
\<close>

definition cont :: "nat \<Rightarrow> bool" where "cont b = (128 \<le> b \<and> b \<le> 191)"

definition second_lo :: "nat \<Rightarrow> nat" where
  "second_lo b = (if b = 224 then 160 else if b = 240 then 144 else 128)"

definition second_hi :: "nat \<Rightarrow> nat" where
  "second_hi b = (if b = 237 then 159 else if b = 244 then 143 else 191)"

fun rune_len :: "nat list \<Rightarrow> nat" where
  "rune_len [] = 0"
| "rune_len (a # bs) =
     (if a < 128 then 1
      else if 194 \<le> a \<and> a \<le> 223 then
        (case bs of b # _ \<Rightarrow> if cont b then 2 else 0 | _ \<Rightarrow> 0)
      else if 224 \<le> a \<and> a \<le> 239 then
        (case bs of b # c # _ \<Rightarrow>
           if second_lo a \<le> b \<and> b \<le> second_hi a \<and> cont c then 3 else 0 | _ \<Rightarrow> 0)
      else if 240 \<le> a \<and> a \<le> 244 then
        (case bs of b # c # d # _ \<Rightarrow>
           if second_lo a \<le> b \<and> b \<le> second_hi a \<and> cont c \<and> cont d then 4 else 0 | _ \<Rightarrow> 0)
      else 0)"

function valid_utf8 :: "nat list \<Rightarrow> bool" where
  "valid_utf8 bs = (if bs = [] then True
     else let n = rune_len bs in if n = 0 then False else valid_utf8 (drop n bs))"
  by pat_completeness auto
termination by (relation "measure length") auto

declare valid_utf8.simps [simp del]

definition ValidString :: "string \<Rightarrow> bool" where
  "ValidString s = valid_utf8 (map of_char s)"

text \<open>The loop of \<open>truncateUTF8\<close>: the cut moves down until the prefix is valid.\<close>

fun cut_back :: "string \<Rightarrow> nat \<Rightarrow> nat" where
  "cut_back s 0 = 0"
| "cut_back s (Suc n) = (if \<not> ValidString (take (Suc n) s) then cut_back s n else Suc n)"

definition truncateUTF8 :: "string \<Rightarrow> int \<Rightarrow> string" where
  "truncateUTF8 s maxBytes =
     (if maxBytes \<le> 0 \<or> int (length s) \<le> maxBytes then s
      else take (cut_back s (nat maxBytes)) s)"

definition marshalStoredResponse :: "'d codec \<Rightarrow> IdempotencyConfig \<Rightarrow> 'd \<Rightarrow> string option" where
  "marshalStoredResponse env c data =
     (case marshal env data of
        None \<Rightarrow> None
      | Some raw \<Rightarrow>
          let redacted = redact env raw in
          Some (if MaxStoredResponseLen c > 0 \<and> int (length redacted) > MaxStoredResponseLen c
                then truncateUTF8 redacted (MaxStoredResponseLen c) @ ''...(truncated)''
                else redacted))"

definition decodeStoredResponse :: "'d codec \<Rightarrow> string option \<Rightarrow> 'd option" where
  "decodeStoredResponse env stored =
     (case stored of
        None \<Rightarrow> Some (empty_object env)
      | Some body \<Rightarrow> if TrimSpace body = [] then Some (empty_object env) else unmarshal env body)"

section \<open>The machine of \<open>Execute\<close>\<close>

text \<open>The local variables of \<open>Execute\<close> once the request is normalised.\<close>

record claim =
  scope :: string
  keyHash :: string
  fingerprint :: string
  now :: time
  lockedUntil :: time
  expiresAt :: time

datatype 'd outcome = Fresh 'd | Replayed 'd | Failed idem_error

text \<open>
  The point a request has reached. \<open>Reclaim\<close> carries the existing record and whether
  the reclaim is the one of an expired record; \<open>Run\<close>, \<open>MarkOk\<close> and \<open>MarkFail\<close> carry \<open>record.ID\<close>.
\<close>

datatype 'd pc =
    Begin
  | RunPlain
  | Create claim
  | GetExisting claim
  | ReclaimExpired claim IdempotencyRecord
  | GetLatest claim
  | ReclaimFailed claim IdempotencyRecord
  | Run claim int
  | MarkOk claim int 'd string
  | MarkFail claim int string time string
  | Done "'d outcome"

text \<open>
  What the outside world contributes to a step: the clock, whether the database answers, and the
  result of the caller's function (the reason of its error, empty when the error has none, or
  its data).
\<close>

record 'd input =
  clock :: time
  up :: bool
  result :: "string + 'd"

text \<open>
  The beginning of \<open>Execute\<close>, up to the first repository call. \<open>has_exec\<close>: the executor is not
  nil.
\<close>

definition begin_request ::
  "'d codec \<Rightarrow> 's IdempotencyCoordinator \<Rightarrow> bool \<Rightarrow> 'd IdempotencyExecuteOptions \<Rightarrow> time \<Rightarrow> 'd pc" where
  "begin_request env c has_exec opts t =
     (if \<not> has_exec then Done (Failed ExecutorNil)
      else case NormalizeIdempotencyKey (IdempotencyKey opts) of
        Inl e \<Rightarrow> Done (Failed e)
      | Inr key \<Rightarrow>
          if key = [] then
            (if RequireKey opts \<and> \<not> ObserveOnly (cfg c) then Done (Failed KeyRequired) else RunPlain)
          else if repo c = None then Done (Failed StoreUnavail)
          else if OptScope opts = [] then Done (Failed ScopeRequired)
          else (case BuildIdempotencyFingerprint env (Method opts) (Route opts) (ActorScope opts) (Payload opts) of
             Inl e \<Rightarrow> Done (Failed e)
           | Inr fp \<Rightarrow>
               let ttl = (if TTL opts \<le> 0 then DefaultTTL (cfg c) else TTL opts) in
               Create \<lparr>scope = OptScope opts, keyHash = HashIdempotencyKey env key, fingerprint = fp,
                  now = t, lockedUntil = t + ProcessingTimeout (cfg c), expiresAt = t + ttl\<rparr>))"

definition new_record :: "claim \<Rightarrow> IdempotencyRecord" where
  "new_record l =
     \<lparr>ID = 0, Scope = scope l, IdempotencyKeyHash = keyHash l, RequestFingerprint = fingerprint l,
      Status = IdempotencyStatusProcessing, ResponseStatus = None, ResponseBody = None,
      ErrorReason = None, LockedUntil = Some (lockedUntil l), ExpiresAt = expiresAt l\<rparr>"

text \<open>The claim is made under \<open>record.ID\<close>, which must not be 0.\<close>

definition claimed :: "claim \<Rightarrow> int \<Rightarrow> 'd pc" where
  "claimed l i = (if i = 0 then Done (Failed StoreUnavail) else Run l i)"

text \<open>The switch on the status of an existing record that was not reclaimed as expired.\<close>

definition dispatch :: "'d codec \<Rightarrow> claim \<Rightarrow> IdempotencyRecord \<Rightarrow> 'd pc" where
  "dispatch env l ex =
     (if Status ex = IdempotencyStatusSucceeded then
        (case decodeStoredResponse env (ResponseBody ex) of
           None \<Rightarrow> Done (Failed StoreUnavail)
         | Some data \<Rightarrow> Done (Replayed data))
      else if Status ex = IdempotencyStatusProcessing then
        Done (Failed (conflictWithRetryAfter InProgress (LockedUntil ex) (now l)))
      else if Status ex = IdempotencyStatusFailedRetryable then
        (if opt_after (LockedUntil ex) (now l)
         then Done (Failed (conflictWithRetryAfter RetryBackoff (LockedUntil ex) (now l)))
         else ReclaimFailed l ex)
      else Done (Failed KeyConflict))"

definition examine :: "'d codec \<Rightarrow> claim \<Rightarrow> bool \<Rightarrow> IdempotencyRecord option option \<Rightarrow> 'd pc" where
  "examine env l first found =
     (case found of
        None \<Rightarrow> Done (Failed StoreUnavail)
      | Some None \<Rightarrow> Done (Failed StoreUnavail)
      | Some (Some ex) \<Rightarrow>
          if RequestFingerprint ex \<noteq> fingerprint l then Done (Failed KeyConflict)
          else if first \<and> \<not> now l < ExpiresAt ex then ReclaimExpired l ex
          else dispatch env l ex)"

text \<open>What follows a run of the caller's function under a claim.\<close>

definition after_run ::
  "'d codec \<Rightarrow> IdempotencyConfig \<Rightarrow> claim \<Rightarrow> int \<Rightarrow> time \<Rightarrow> string + 'd \<Rightarrow> 'd pc" where
  "after_run env c l i t res =
     (case res of
        Inl reason \<Rightarrow> MarkFail l i (if reason = [] then ''EXECUTION_FAILED'' else reason)
                        (t + FailedRetryBackoff c) reason
      | Inr data \<Rightarrow>
          (case marshalStoredResponse env c data of
             None \<Rightarrow> Done (Failed StoreUnavail)
           | Some body \<Rightarrow> MarkOk l i data body))"

fun exec_step ::
  "'d codec \<Rightarrow> 's IdempotencyRepository \<Rightarrow> 's IdempotencyCoordinator \<Rightarrow> bool \<Rightarrow>
   'd IdempotencyExecuteOptions \<Rightarrow> 'd input \<Rightarrow> 'd pc \<Rightarrow> 's \<Rightarrow> 'd pc \<times> 's" where
  "exec_step env R c has_exec opts inp Begin s = (begin_request env c has_exec opts (clock inp), s)"
| "exec_step env R c has_exec opts inp RunPlain s =
     ((case result inp of Inl e \<Rightarrow> Done (Failed (ExecError e)) | Inr d \<Rightarrow> Done (Fresh d)), s)"
| "exec_step env R c has_exec opts inp (Create l) s =
     (case CreateProcessing R (up inp) (new_record l) s of
        (None, s') \<Rightarrow> (Done (Failed StoreUnavail), s')
      | (Some (owner, i), s') \<Rightarrow> (if owner then claimed l i else GetExisting l, s'))"
| "exec_step env R c has_exec opts inp (GetExisting l) s =
     (examine env l True (GetByScopeAndKeyHash R (up inp) (scope l) (keyHash l) s), s)"
| "exec_step env R c has_exec opts inp (ReclaimExpired l ex) s =
     (case TryReclaim R (up inp) (ID ex) (Status ex) (now l) (lockedUntil l) (expiresAt l) s of
        (None, s') \<Rightarrow> (Done (Failed StoreUnavail), s')
      | (Some taken, s') \<Rightarrow> (if taken then claimed l (ID ex) else GetLatest l, s'))"
| "exec_step env R c has_exec opts inp (GetLatest l) s =
     (examine env l False (GetByScopeAndKeyHash R (up inp) (scope l) (keyHash l) s), s)"
| "exec_step env R c has_exec opts inp (ReclaimFailed l ex) s =
     (case TryReclaim R (up inp) (ID ex) IdempotencyStatusFailedRetryable (now l) (lockedUntil l)
             (expiresAt l) s of
        (None, s') \<Rightarrow> (Done (Failed StoreUnavail), s')
      | (Some taken, s') \<Rightarrow>
          (if taken then claimed l (ID ex)
           else Done (Failed (conflictWithRetryAfter InProgress (LockedUntil ex) (now l))), s'))"
| "exec_step env R c has_exec opts inp (Run l i) s =
     (after_run env (cfg c) l i (clock inp) (result inp), s)"
| "exec_step env R c has_exec opts inp (MarkOk l i data body) s =
     (case MarkSucceeded R (up inp) i 200 body (expiresAt l) s of
        (None, s') \<Rightarrow> (Done (Failed StoreUnavail), s')
      | (Some _, s') \<Rightarrow> (Done (Fresh data), s'))"
| "exec_step env R c has_exec opts inp (MarkFail l i reason backoffUntil e) s =
     (Done (Failed (ExecError e)),
      snd (MarkFailedRetryable R (up inp) i reason backoffUntil (expiresAt l) s))"
| "exec_step env R c has_exec opts inp (Done out) s = (Done out, s)"

text \<open>Alone: \<open>n\<close> steps, the k-th step under the k-th input; eight are always enough.\<close>

fun run_steps ::
  "'d codec \<Rightarrow> 's IdempotencyRepository \<Rightarrow> 's IdempotencyCoordinator \<Rightarrow> bool \<Rightarrow>
   'd IdempotencyExecuteOptions \<Rightarrow> 'd input list \<Rightarrow> 'd pc \<Rightarrow> 's \<Rightarrow> 'd pc \<times> 's" where
  "run_steps env R c has_exec opts [] p s = (p, s)"
| "run_steps env R c has_exec opts (inp # inps) p s =
     (case exec_step env R c has_exec opts inp p s of
        (p', s') \<Rightarrow> run_steps env R c has_exec opts inps p' s')"

definition Execute ::
  "'d codec \<Rightarrow> 's IdempotencyRepository \<Rightarrow> 's IdempotencyCoordinator \<Rightarrow> bool \<Rightarrow>
   'd IdempotencyExecuteOptions \<Rightarrow> (nat \<Rightarrow> 'd input) \<Rightarrow> 's \<Rightarrow> 'd pc \<times> 's" where
  "Execute env R c has_exec opts inp s =
     run_steps env R c has_exec opts (map inp [0..<8]) Begin s"

section \<open>Many requests at once\<close>

text \<open>
  \<open>procs\<close> is the point each request has reached, \<open>runs\<close> the requests whose function has run
  to success under a claim, in order. An event is a step of one request, or the cleanup job.
\<close>

record ('s, 'd) world =
  store :: 's
  procs :: "nat \<Rightarrow> 'd pc"
  runs :: "nat list"

datatype 'd event = StepOf nat "'d input" | CleanupAt bool time int

definition ran :: "'d pc \<Rightarrow> 'd input \<Rightarrow> bool" where
  "ran p inp = (case p of Run _ _ \<Rightarrow> (case result inp of Inr _ \<Rightarrow> True | _ \<Rightarrow> False) | _ \<Rightarrow> False)"

definition world_step ::
  "'d codec \<Rightarrow> 's IdempotencyRepository \<Rightarrow> 's IdempotencyCoordinator \<Rightarrow>
   (nat \<Rightarrow> 'd IdempotencyExecuteOptions) \<Rightarrow> 'd event \<Rightarrow> ('s, 'd) world \<Rightarrow> ('s, 'd) world" where
  "world_step env R c reqs ev w =
     (case ev of
        StepOf i inp \<Rightarrow>
          (case exec_step env R c True (reqs i) inp (procs w i) (store w) of
             (p', s') \<Rightarrow> \<lparr>store = s', procs = (procs w)(i := p'),
                         runs = (if ran (procs w i) inp then runs w @ [i] else runs w)\<rparr>)
      | CleanupAt u t limit \<Rightarrow> w\<lparr>store := snd (DeleteExpired R u t limit (store w))\<rparr>)"

definition world_init :: "'s \<Rightarrow> ('s, 'd) world" where
  "world_init s = \<lparr>store = s, procs = (\<lambda>_. Begin), runs = []\<rparr>"

section \<open>What the repository promises\<close>

text \<open>Changing the rows that satisfy a condition, seen through the map from keys to rows.\<close>

definition upd_where ::
  "(IdempotencyRecord \<Rightarrow> bool) \<Rightarrow> (IdempotencyRecord \<Rightarrow> IdempotencyRecord) \<Rightarrow>
   ('k \<rightharpoonup> IdempotencyRecord) \<Rightarrow> ('k \<rightharpoonup> IdempotencyRecord)" where
  "upd_where P f m = (\<lambda>k. map_option (\<lambda>r. if P r then f r else r) (m k))"

lemma upd_where_Some:
  "upd_where P f m k = Some r' \<longleftrightarrow> (\<exists>r. m k = Some r \<and> r' = (if P r then f r else r))"
  unfolding upd_where_def by (cases "m k") (simp_all, blast)

lemma upd_where_None [simp]: "upd_where P f m k = None \<longleftrightarrow> m k = None"
  by (simp add: upd_where_def)

definition reclaimable :: "int \<Rightarrow> string \<Rightarrow> time \<Rightarrow> IdempotencyRecord \<Rightarrow> bool" where
  "reclaimable i from t r = (ID r = i \<and> Status r = from \<and> \<not> opt_after (LockedUntil r) t)"

definition reclaimed :: "time \<Rightarrow> time \<Rightarrow> IdempotencyRecord \<Rightarrow> IdempotencyRecord" where
  "reclaimed lu ex r = r\<lparr>Status := IdempotencyStatusProcessing, LockedUntil := Some lu,
     ErrorReason := None, ExpiresAt := ex\<rparr>"

definition succeeded :: "int \<Rightarrow> string \<Rightarrow> time \<Rightarrow> IdempotencyRecord \<Rightarrow> IdempotencyRecord" where
  "succeeded st body ex r = r\<lparr>Status := IdempotencyStatusSucceeded, ResponseStatus := Some st,
     ResponseBody := Some body, ErrorReason := None, LockedUntil := None, ExpiresAt := ex\<rparr>"

definition failed_retryable :: "string \<Rightarrow> time \<Rightarrow> time \<Rightarrow> IdempotencyRecord \<Rightarrow> IdempotencyRecord" where
  "failed_retryable reason lu ex r = r\<lparr>Status := IdempotencyStatusFailedRetryable,
     ErrorReason := Some reason, LockedUntil := Some lu, ExpiresAt := ex\<rparr>"

lemmas row_updates = reclaimed_def succeeded_def failed_retryable_def

locale idempotency_repository =
  fixes R :: "'s IdempotencyRepository"
    and lookup :: "'s \<Rightarrow> string \<times> string \<Rightarrow> IdempotencyRecord option"
    and ok :: "'s \<Rightarrow> bool"
  assumes lookup_key: "ok s \<Longrightarrow> lookup s k = Some r \<Longrightarrow> (Scope r, IdempotencyKeyHash r) = k \<and> ID r \<noteq> 0"
    and lookup_id: "ok s \<Longrightarrow> lookup s k = Some r \<Longrightarrow> lookup s k' = Some r' \<Longrightarrow> ID r = ID r' \<Longrightarrow> k = k'"
    and create_down: "CreateProcessing R False r s = (None, s)"
    and get_down: "GetByScopeAndKeyHash R False sc kh s = None"
    and reclaim_down: "TryReclaim R False i from t lu ex s = (None, s)"
    and succeeded_down: "MarkSucceeded R False i st body ex s = (None, s)"
    and failed_down: "MarkFailedRetryable R False i reason lu ex s = (None, s)"
    and delete_down: "DeleteExpired R False t n s = (None, s)"
    and create_law: "ok s \<Longrightarrow> CreateProcessing R True r s = (made, s') \<Longrightarrow>
      ok s' \<and>
      (case lookup s (Scope r, IdempotencyKeyHash r) of
         Some _ \<Rightarrow> made = Some (False, ID r) \<and> lookup s' = lookup s
       | None \<Rightarrow> \<exists>i. i \<noteq> 0 \<and> made = Some (True, i) \<and>
           lookup s' = (lookup s)((Scope r, IdempotencyKeyHash r) \<mapsto>
             r\<lparr>ID := i, ResponseStatus := None, ResponseBody := None, ErrorReason := None\<rparr>))"
    and get_law: "ok s \<Longrightarrow> GetByScopeAndKeyHash R True sc kh s = Some (lookup s (sc, kh))"
    and reclaim_law: "ok s \<Longrightarrow> TryReclaim R True i from t lu ex s = (taken, s') \<Longrightarrow>
      ok s' \<and> taken = Some (\<exists>k r. lookup s k = Some r \<and> reclaimable i from t r) \<and>
      lookup s' = upd_where (reclaimable i from t) (reclaimed lu ex) (lookup s)"
    and succeeded_law: "ok s \<Longrightarrow> MarkSucceeded R True i st body ex s = (marked, s') \<Longrightarrow>
      ok s' \<and> marked = Some () \<and>
      lookup s' = upd_where (\<lambda>r. ID r = i) (succeeded st body ex) (lookup s)"
    and failed_law: "ok s \<Longrightarrow> MarkFailedRetryable R True i reason lu ex s = (marked, s') \<Longrightarrow>
      ok s' \<and> marked = Some () \<and>
      lookup s' = upd_where (\<lambda>r. ID r = i) (failed_retryable reason lu ex) (lookup s)"
    and delete_law: "ok s \<Longrightarrow> DeleteExpired R True t n s = (gone, s') \<Longrightarrow>
      ok s' \<and> lookup s' \<subseteq>\<^sub>m lookup s \<and>
      (\<forall>k r. lookup s k = Some r \<longrightarrow> t < ExpiresAt r \<longrightarrow> lookup s' k = Some r)"

section \<open>The SQL repository\<close>

text \<open>
  The table \<open>idempotency_records\<close> and its id sequence. The unique index on scope and key hash is
  what \<open>ON CONFLICT ... DO NOTHING\<close> consults.
\<close>

record itable =
  rows :: "IdempotencyRecord list"
  next_id :: int

definition row_key :: "IdempotencyRecord \<Rightarrow> string \<times> string" where
  "row_key r = (Scope r, IdempotencyKeyHash r)"

definition update_rows ::
  "(IdempotencyRecord \<Rightarrow> bool) \<Rightarrow> (IdempotencyRecord \<Rightarrow> IdempotencyRecord) \<Rightarrow> itable \<Rightarrow> itable" where
  "update_rows P f t = t\<lparr>rows := map (\<lambda>r. if P r then f r else r) (rows t)\<rparr>"

definition affected :: "(IdempotencyRecord \<Rightarrow> bool) \<Rightarrow> itable \<Rightarrow> int" where
  "affected P t = int (length (filter P (rows t)))"

definition sql_CreateProcessing ::
  "bool \<Rightarrow> IdempotencyRecord \<Rightarrow> itable \<Rightarrow> (bool \<times> int) option \<times> itable" where
  "sql_CreateProcessing u r t =
     (if \<not> u then (None, t)
      else if \<exists>x\<in>set (rows t). row_key x = row_key r then (Some (False, ID r), t)
      else (Some (True, next_id t),
            t\<lparr>rows := rows t @ [r\<lparr>ID := next_id t, ResponseStatus := None, ResponseBody := None,
                                 ErrorReason := None\<rparr>],
              next_id := next_id t + 1\<rparr>))"

definition sql_GetByScopeAndKeyHash ::
  "bool \<Rightarrow> string \<Rightarrow> string \<Rightarrow> itable \<Rightarrow> IdempotencyRecord option option" where
  "sql_GetByScopeAndKeyHash u sc kh t =
     (if \<not> u then None
      else Some (first_match (\<lambda>r. Scope r = sc \<and> IdempotencyKeyHash r = kh) (rows t)))"

definition sql_TryReclaim ::
  "bool \<Rightarrow> int \<Rightarrow> string \<Rightarrow> time \<Rightarrow> time \<Rightarrow> time \<Rightarrow> itable \<Rightarrow> bool option \<times> itable" where
  "sql_TryReclaim u i from t newLockedUntil newExpiresAt tb =
     (let P = (\<lambda>r. ID r = i \<and> Status r = from \<and>
                   (case LockedUntil r of None \<Rightarrow> True | Some l \<Rightarrow> l \<le> t)) in
      if \<not> u then (None, tb)
      else (Some (affected P tb > 0),
            update_rows P (\<lambda>r. r\<lparr>Status := IdempotencyStatusProcessing, LockedUntil := Some newLockedUntil,
                               ErrorReason := None, ExpiresAt := newExpiresAt\<rparr>) tb))"

definition sql_ExtendProcessingLock ::
  "bool \<Rightarrow> int \<Rightarrow> string \<Rightarrow> time \<Rightarrow> time \<Rightarrow> itable \<Rightarrow> bool option \<times> itable" where
  "sql_ExtendProcessingLock u i fp newLockedUntil newExpiresAt tb =
     (let P = (\<lambda>r. ID r = i \<and> Status r = IdempotencyStatusProcessing \<and> RequestFingerprint r = fp) in
      if \<not> u then (None, tb)
      else (Some (affected P tb > 0),
            update_rows P (\<lambda>r. r\<lparr>LockedUntil := Some newLockedUntil, ExpiresAt := newExpiresAt\<rparr>) tb))"

definition sql_MarkSucceeded ::
  "bool \<Rightarrow> int \<Rightarrow> int \<Rightarrow> string \<Rightarrow> time \<Rightarrow> itable \<Rightarrow> unit option \<times> itable" where
  "sql_MarkSucceeded u i st body ex tb =
     (if \<not> u then (None, tb)
      else (Some (),
            update_rows (\<lambda>r. ID r = i)
              (\<lambda>r. r\<lparr>Status := IdempotencyStatusSucceeded, ResponseStatus := Some st,
                    ResponseBody := Some body, ErrorReason := None, LockedUntil := None,
                    ExpiresAt := ex\<rparr>) tb))"

definition sql_MarkFailedRetryable ::
  "bool \<Rightarrow> int \<Rightarrow> string \<Rightarrow> time \<Rightarrow> time \<Rightarrow> itable \<Rightarrow> unit option \<times> itable" where
  "sql_MarkFailedRetryable u i reason lu ex tb =
     (if \<not> u then (None, tb)
      else (Some (),
            update_rows (\<lambda>r. ID r = i)
              (\<lambda>r. r\<lparr>Status := IdempotencyStatusFailedRetryable, ErrorReason := Some reason,
                    LockedUntil := Some lu, ExpiresAt := ex\<rparr>) tb))"

text \<open>The victims are the expired rows in the order of their expiry, at most \<open>limit\<close> of them.\<close>

definition sql_DeleteExpired :: "bool \<Rightarrow> time \<Rightarrow> int \<Rightarrow> itable \<Rightarrow> int option \<times> itable" where
  "sql_DeleteExpired u t limit tb =
     (let limit = (if limit \<le> 0 then 500 else limit);
          victims = map ID (take (nat limit)
                      (sort_key ExpiresAt (filter (\<lambda>r. ExpiresAt r \<le> t) (rows tb))));
          P = (\<lambda>r. ID r \<in> set victims)
      in if \<not> u then (None, tb)
         else (Some (affected P tb), tb\<lparr>rows := filter (\<lambda>r. \<not> P r) (rows tb)\<rparr>))"

definition sql_repo :: "itable IdempotencyRepository" where
  "sql_repo = \<lparr>CreateProcessing = sql_CreateProcessing,
     GetByScopeAndKeyHash = sql_GetByScopeAndKeyHash, TryReclaim = sql_TryReclaim,
     ExtendProcessingLock = sql_ExtendProcessingLock, MarkSucceeded = sql_MarkSucceeded,
     MarkFailedRetryable = sql_MarkFailedRetryable, DeleteExpired = sql_DeleteExpired\<rparr>"

definition empty_table :: itable where "empty_table = \<lparr>rows = [], next_id = 1\<rparr>"

definition row_of :: "itable \<Rightarrow> string \<times> string \<Rightarrow> IdempotencyRecord option" where
  "row_of t k = first_match (\<lambda>r. row_key r = k) (rows t)"

definition table_ok :: "itable \<Rightarrow> bool" where
  "table_ok t \<longleftrightarrow> 0 < next_id t \<and> distinct (map row_key (rows t)) \<and> distinct (map ID (rows t)) \<and>
     (\<forall>r\<in>set (rows t). 0 < ID r \<and> ID r < next_id t)"

lemma row_of_iff: "table_ok t \<Longrightarrow> row_of t k = Some r \<longleftrightarrow> r \<in> set (rows t) \<and> row_key r = k"
proof
  show "row_of t k = Some r \<Longrightarrow> r \<in> set (rows t) \<and> row_key r = k"
    unfolding row_of_def by (blast dest: first_match_SomeD)
  assume ok: "table_ok t" and r: "r \<in> set (rows t) \<and> row_key r = k"
  then obtain r' where r': "row_of t k = Some r'"
    unfolding row_of_def using first_match_exists [of r "rows t" "\<lambda>r. row_key r = k"] by blast
  then have "r' \<in> set (rows t)" "row_key r' = k"
    unfolding row_of_def by (blast dest: first_match_SomeD)+
  with ok r have "r' = r" by (auto simp: table_ok_def distinct_map inj_on_def)
  with r' show "row_of t k = Some r" by simp
qed

lemma row_of_None: "row_of t k = None \<longleftrightarrow> (\<forall>r\<in>set (rows t). row_key r \<noteq> k)"
  by (simp add: row_of_def first_match_None_iff)

lemma update_rows_ok:
  assumes "table_ok t" "\<And>r. row_key (f r) = row_key r \<and> ID (f r) = ID r"
  shows "table_ok (update_rows P f t)"
    and "row_of (update_rows P f t) = upd_where P f (row_of t)"
proof -
  have [simp]: "row_key (if P r then f r else r) = row_key r" "ID (if P r then f r else r) = ID r" for r
    using assms(2) by simp_all
  show ok: "table_ok (update_rows P f t)"
    using assms by (auto simp: table_ok_def update_rows_def o_def)
  have "first_match (\<lambda>r. row_key r = k) (map (\<lambda>r. if P r then f r else r) xs)
      = map_option (\<lambda>r. if P r then f r else r) (first_match (\<lambda>r. row_key r = k) xs)" for k xs
    by (induction xs) simp_all
  then show "row_of (update_rows P f t) = upd_where P f (row_of t)"
    by (simp add: row_of_def [abs_def] update_rows_def upd_where_def fun_eq_iff)
qed

lemma affected_pos: "table_ok t \<Longrightarrow> (\<And>r. P r = Q r) \<Longrightarrow>
   affected P t > 0 \<longleftrightarrow> (\<exists>k r. row_of t k = Some r \<and> Q r)"
  unfolding affected_def by (simp add: row_of_iff filter_empty_conv) (metis surj_pair)

lemma sql_create_ok:
  assumes "table_ok t" "row_of t (row_key r) = None"
  shows "table_ok (t\<lparr>rows := rows t @ [r\<lparr>ID := next_id t, ResponseStatus := None, ResponseBody := None,
      ErrorReason := None\<rparr>], next_id := next_id t + 1\<rparr>)"
proof -
  have "row_key (r\<lparr>ID := i, ResponseStatus := None, ResponseBody := None, ErrorReason := None\<rparr>) = row_key r"
    for i by (simp add: row_key_def)
  with assms show ?thesis by (fastforce simp: table_ok_def row_of_None)
qed

lemma sql_delete_map_le:
  assumes "table_ok t"
  shows "table_ok (t\<lparr>rows := filter Q (rows t)\<rparr>) \<and> row_of (t\<lparr>rows := filter Q (rows t)\<rparr>) \<subseteq>\<^sub>m row_of t"
proof -
  have ok: "table_ok (t\<lparr>rows := filter Q (rows t)\<rparr>)"
    using assms by (auto simp: table_ok_def distinct_map_filter)
  then have "row_of t k = Some r" if "row_of (t\<lparr>rows := filter Q (rows t)\<rparr>) k = Some r" for k r
    using that assms by (auto simp: row_of_iff)
  with ok show ?thesis by (auto simp: map_le_def dom_def)
qed

lemma sql_victims_expired:
  assumes "table_ok t" "r \<in> set (rows t)" "tm < ExpiresAt r"
  shows "ID r \<notin> ID ` set (take n (sort_key ExpiresAt (filter (\<lambda>r. ExpiresAt r \<le> tm) (rows t))))"
proof
  assume "ID r \<in> ID ` set (take n (sort_key ExpiresAt (filter (\<lambda>r. ExpiresAt r \<le> tm) (rows t))))"
  then obtain v where v: "ID v = ID r" "v \<in> set (take n (sort_key ExpiresAt (filter (\<lambda>r. ExpiresAt r \<le> tm) (rows t))))"
    by auto
  from in_set_takeD [OF v(2)] have "v \<in> set (rows t)" "ExpiresAt v \<le> tm" by auto
  with v(1) assms show False by (auto simp: table_ok_def distinct_map inj_on_def)
qed

interpretation sql: idempotency_repository sql_repo row_of table_ok
proof
  fix s k r r' and k' :: "string \<times> string"
  show "table_ok s \<Longrightarrow> row_of s k = Some r \<Longrightarrow> (Scope r, IdempotencyKeyHash r) = k \<and> ID r \<noteq> 0"
    by (auto simp: row_of_iff row_key_def table_ok_def)
  show "table_ok s \<Longrightarrow> row_of s k = Some r \<Longrightarrow> row_of s k' = Some r' \<Longrightarrow> ID r = ID r' \<Longrightarrow> k = k'"
    by (auto simp: row_of_iff table_ok_def distinct_map inj_on_def)
next
  fix s s' r made
  assume ok: "table_ok s" and c: "CreateProcessing sql_repo True r s = (made, s')"
  show "table_ok s' \<and> (case row_of s (Scope r, IdempotencyKeyHash r) of
         Some _ \<Rightarrow> made = Some (False, ID r) \<and> row_of s' = row_of s
       | None \<Rightarrow> \<exists>i. i \<noteq> 0 \<and> made = Some (True, i) \<and>
           row_of s' = (row_of s)((Scope r, IdempotencyKeyHash r) \<mapsto>
             r\<lparr>ID := i, ResponseStatus := None, ResponseBody := None, ErrorReason := None\<rparr>))"
  proof (cases "row_of s (row_key r)")
    case None
    then have none: "\<not> (\<exists>x\<in>set (rows s). row_key x = row_key r)" by (simp add: row_of_None)
    let ?r = "\<lambda>i. r\<lparr>ID := i, ResponseStatus := None, ResponseBody := None, ErrorReason := None\<rparr>"
    have s': "made = Some (True, next_id s)" "s' = s\<lparr>rows := rows s @ [?r (next_id s)], next_id := next_id s + 1\<rparr>"
      using c none by (auto simp: sql_repo_def sql_CreateProcessing_def)
    have ok': "table_ok s'" using sql_create_ok [OF ok None] s'(2) by simp
    have key: "row_key (?r i) = row_key r" for i by (simp add: row_key_def)
    have "row_of s' = (row_of s)(row_key r \<mapsto> ?r (next_id s))"
    proof
      fix k
      show "row_of s' k = ((row_of s)(row_key r \<mapsto> ?r (next_id s))) k"
      proof (cases "k = row_key r")
        case True
        then show ?thesis using row_of_iff [OF ok'] key s'(2) by simp
      next
        case False
        then have "row_of s' k = Some x \<longleftrightarrow> row_of s k = Some x" for x
          using row_of_iff [OF ok'] row_of_iff [OF ok] key s'(2) by auto
        then have "row_of s' k = row_of s k" by (metis not_Some_eq)
        with False show ?thesis by simp
      qed
    qed
    moreover have "next_id s \<noteq> 0" using ok by (simp add: table_ok_def)
    ultimately show ?thesis using ok' s'(1) None by (simp add: row_key_def)
  next
    case (Some x)
    then have "\<exists>x\<in>set (rows s). row_key x = row_key r" using row_of_iff [OF ok] by blast
    with c Some ok show ?thesis
      by (auto simp: sql_repo_def sql_CreateProcessing_def row_key_def)
  qed
next
  fix s sc kh
  show "GetByScopeAndKeyHash sql_repo True sc kh s = Some (row_of s (sc, kh))"
    by (simp add: sql_repo_def sql_GetByScopeAndKeyHash_def row_of_def row_key_def)
next
  fix s s' i "from" t lu ex taken
  assume ok: "table_ok s" and c: "TryReclaim sql_repo True i from t lu ex s = (taken, s')"
  let ?P = "\<lambda>r. ID r = i \<and> Status r = from \<and> (case LockedUntil r of None \<Rightarrow> True | Some l \<Rightarrow> l \<le> t)"
  have P: "?P r = reclaimable i from t r" for r
    by (auto simp: reclaimable_def split: option.splits)
  have f: "row_key (reclaimed lu ex r) = row_key r \<and> ID (reclaimed lu ex r) = ID r" for r
    by (simp add: reclaimed_def row_key_def)
  have "taken = Some (affected ?P s > 0)" "s' = update_rows (reclaimable i from t) (reclaimed lu ex) s"
    using c by (auto simp: sql_repo_def sql_TryReclaim_def reclaimed_def [abs_def] P Let_def)
  with affected_pos [OF ok P] update_rows_ok [OF ok f]
  show "table_ok s' \<and> taken = Some (\<exists>k r. row_of s k = Some r \<and> reclaimable i from t r) \<and>
      row_of s' = upd_where (reclaimable i from t) (reclaimed lu ex) (row_of s)"
    by simp
next
  fix s s' i st body ex marked
  assume ok: "table_ok s" and c: "MarkSucceeded sql_repo True i st body ex s = (marked, s')"
  have f: "row_key (succeeded st body ex r) = row_key r \<and> ID (succeeded st body ex r) = ID r" for r
    by (simp add: succeeded_def row_key_def)
  show "table_ok s' \<and> marked = Some () \<and>
      row_of s' = upd_where (\<lambda>r. ID r = i) (succeeded st body ex) (row_of s)"
    using c update_rows_ok [OF ok f]
    by (auto simp: sql_repo_def sql_MarkSucceeded_def succeeded_def [abs_def])
next
  fix s s' i reason lu ex marked
  assume ok: "table_ok s" and c: "MarkFailedRetryable sql_repo True i reason lu ex s = (marked, s')"
  have f: "row_key (failed_retryable reason lu ex r) = row_key r \<and> ID (failed_retryable reason lu ex r) = ID r" for r
    by (simp add: failed_retryable_def row_key_def)
  show "table_ok s' \<and> marked = Some () \<and>
      row_of s' = upd_where (\<lambda>r. ID r = i) (failed_retryable reason lu ex) (row_of s)"
    using c update_rows_ok [OF ok f]
    by (auto simp: sql_repo_def sql_MarkFailedRetryable_def failed_retryable_def [abs_def])
next
  fix s s' t n gone
  assume ok: "table_ok s" and c: "DeleteExpired sql_repo True t n s = (gone, s')"
  then obtain V where V: "s' = s\<lparr>rows := filter (\<lambda>r. ID r \<notin> ID ` set (take V
      (sort_key ExpiresAt (filter (\<lambda>r. ExpiresAt r \<le> t) (rows s))))) (rows s)\<rparr>"
    by (auto simp: sql_repo_def sql_DeleteExpired_def Let_def)
  have "row_of s' k = Some r" if "row_of s k = Some r" "t < ExpiresAt r" for k r
    using that ok sql_victims_expired [OF ok] sql_delete_map_le [OF ok]
    by (simp add: V row_of_iff)
  with sql_delete_map_le [OF ok]
  show "table_ok s' \<and> row_of s' \<subseteq>\<^sub>m row_of s \<and>
      (\<forall>k r. row_of s k = Some r \<longrightarrow> t < ExpiresAt r \<longrightarrow> row_of s' k = Some r)"
    by (simp add: V)
qed (simp_all add: sql_repo_def sql_CreateProcessing_def sql_GetByScopeAndKeyHash_def
    sql_TryReclaim_def sql_MarkSucceeded_def sql_MarkFailedRetryable_def sql_DeleteExpired_def Let_def)

section \<open>At most one successful run per key\<close>

text \<open>Which claim a request works under, and whether it owns its row: from the claim to the mark.\<close>

fun claim_of :: "'d pc \<Rightarrow> claim option" where
  "claim_of (Create l) = Some l"
| "claim_of (GetExisting l) = Some l"
| "claim_of (ReclaimExpired l _) = Some l"
| "claim_of (GetLatest l) = Some l"
| "claim_of (ReclaimFailed l _) = Some l"
| "claim_of (Run l _) = Some l"
| "claim_of (MarkOk l _ _ _) = Some l"
| "claim_of (MarkFail l _ _ _ _) = Some l"
| "claim_of _ = None"

fun owns :: "'d pc \<Rightarrow> int option" where
  "owns (Run _ i) = Some i"
| "owns (MarkOk _ i _ _) = Some i"
| "owns (MarkFail _ i _ _ _) = Some i"
| "owns _ = None"

fun is_mark_ok :: "'d pc \<Rightarrow> bool" where
  "is_mark_ok (MarkOk _ _ _ _) = True"
| "is_mark_ok _ = False"

definition reclaims_ok where
  "reclaims_ok key m P \<longleftrightarrow> (\<forall>i l ex. P i = ReclaimFailed l ex \<longrightarrow> (\<exists>r. m (key i) = Some r \<and> ID r = ID ex))"

definition owners_ok where
  "owners_ok key m P \<longleftrightarrow> (\<forall>i n. owns (P i) = Some n \<longrightarrow>
     (\<exists>r. m (key i) = Some r \<and> ID r = n \<and> Status r = IdempotencyStatusProcessing))"

definition owners_unique where
  "owners_unique key P \<longleftrightarrow> (\<forall>i j. owns (P i) \<noteq> None \<longrightarrow> owns (P j) \<noteq> None \<longrightarrow> key i = key j \<longrightarrow> i = j)"

definition runs_ok where
  "runs_ok key m P L \<longleftrightarrow> (\<forall>i\<in>set L.
     (\<exists>r. m (key i) = Some r \<and> Status r \<in> {IdempotencyStatusProcessing, IdempotencyStatusSucceeded}) \<and>
     (\<forall>j. owns (P j) \<noteq> None \<longrightarrow> key j = key i \<longrightarrow> j = i \<and> is_mark_ok (P j)))"

definition runs_unique where
  "runs_unique key L \<longleftrightarrow> distinct (map key L)"

definition claims_inv where
  "claims_inv key m P L \<longleftrightarrow>
     reclaims_ok key m P \<and> owners_ok key m P \<and> owners_unique key P \<and> runs_ok key m P L \<and> runs_unique key L"

lemmas claims_inv_defs = claims_inv_def reclaims_ok_def owners_ok_def owners_unique_def runs_ok_def runs_unique_def

lemma claims_ownerD:
  "claims_inv key m P L \<Longrightarrow> owns (P i) = Some n \<Longrightarrow>
   \<exists>r. m (key i) = Some r \<and> ID r = n \<and> Status r = IdempotencyStatusProcessing"
  unfolding claims_inv_def owners_ok_def by blast

lemma claims_uniqueD:
  "claims_inv key m P L \<Longrightarrow> owns (P i) = Some a \<Longrightarrow> owns (P j) = Some b \<Longrightarrow> key i = key j \<Longrightarrow> i = j"
  unfolding claims_inv_def owners_unique_def by (metis option.distinct(1))

lemma claims_runD:
  "claims_inv key m P L \<Longrightarrow> j \<in> set L \<Longrightarrow> owns (P i) = Some n \<Longrightarrow> key i = key j \<Longrightarrow> i = j \<and> is_mark_ok (P i)"
  unfolding claims_inv_def runs_ok_def by (metis option.distinct(1))

lemma claims_reclaimD:
  "claims_inv key m P L \<Longrightarrow> P i = ReclaimFailed l ex \<Longrightarrow> \<exists>r. m (key i) = Some r \<and> ID r = ID ex"
  unfolding claims_inv_def reclaims_ok_def by blast

text \<open>A step that leaves the rows alone and gains no ownership.\<close>

lemma claims_inv_quiet:
  assumes "claims_inv key m P L" "owns p = None \<or> owns p = owns (P i) \<and> \<not> is_mark_ok (P i)"
    and "\<And>l ex. p = ReclaimFailed l ex \<Longrightarrow> \<exists>r. m (key i) = Some r \<and> ID r = ID ex"
  shows "claims_inv key m (P(i := p)) L"
  unfolding claims_inv_def
proof (intro conjI)
  show "reclaims_ok key m (P(i := p))" using assms by (auto simp: claims_inv_def reclaims_ok_def)
  show "owners_ok key m (P(i := p))" using assms(1,2) by (auto simp: claims_inv_def owners_ok_def)
  have "owns ((P(i := p)) x) = None \<or> owns ((P(i := p)) x) = owns (P x)" for x using assms(2) by auto
  then show "owners_unique key (P(i := p))"
    using assms(1) unfolding claims_inv_def owners_unique_def by metis
  show "runs_ok key m (P(i := p)) L" using assms(1,2) unfolding claims_inv_def runs_ok_def by (metis fun_upd_apply)
qed (use assms in \<open>simp add: claims_inv_def\<close>)

text \<open>A step that takes ownership of a row nobody owns and under which nothing has run.\<close>

lemma claims_inv_claim:
  assumes "claims_inv key m P L" "owns (P i) = None"
    and "m (key i) = None \<or> (\<exists>r. m (key i) = Some r \<and> Status r = IdempotencyStatusFailedRetryable)"
    and "m' = m(key i \<mapsto> r')" "ID r' = n" "Status r' = IdempotencyStatusProcessing"
    and "\<And>r. m (key i) = Some r \<Longrightarrow> ID r' = ID r"
  shows "claims_inv key m' (P(i := Run l n)) L"
proof -
  have no_owner: "owns (P j) = None" if "key j = key i" for j
  proof (cases "owns (P j)")
    case (Some n)
    from claims_ownerD [OF assms(1) Some] assms(3) that show ?thesis by (auto simp: idem_status)
  qed
  have no_run: "key j \<noteq> key i" if "j \<in> set L" for j
    using assms(1,3) that by (force simp: claims_inv_def runs_ok_def idem_status)
  show ?thesis
    unfolding claims_inv_def
  proof (intro conjI)
    show "reclaims_ok key m' (P(i := Run l n))"
      using assms(1,4,7) by (fastforce simp: claims_inv_def reclaims_ok_def)
    show "owners_ok key m' (P(i := Run l n))"
      using assms no_owner by (auto simp: claims_inv_def owners_ok_def)
    show "owners_unique key (P(i := Run l n))"
      using assms(1) no_owner by (auto simp: claims_inv_def owners_unique_def)
    show "runs_ok key m' (P(i := Run l n)) L"
      using assms(1,4) no_run [symmetric] no_run by (auto simp: claims_inv_def runs_ok_def)
  qed (use assms in \<open>simp add: claims_inv_def\<close>)
qed

text \<open>A successful run: the owner is the only one, so nothing else has run under the key.\<close>

lemma claims_inv_run:
  assumes "claims_inv key m P L" "P i = Run l n" "owns p = None \<or> (owns p = Some n \<and> is_mark_ok p)"
    and "\<And>l ex. p \<noteq> ReclaimFailed l ex"
  shows "claims_inv key m (P(i := p)) (L @ [i])"
proof -
  obtain r where r: "m (key i) = Some r" "ID r = n" "Status r = IdempotencyStatusProcessing"
    using claims_ownerD [OF assms(1), of i n] assms(2) by auto
  have no_run: "key j \<noteq> key i" if "j \<in> set L" for j
    using claims_runD [OF assms(1) that, of i n] assms(2) by auto
  have other: "owns (P j) = None" if "key j = key i" "j \<noteq> i" for j
    using claims_uniqueD [OF assms(1), of i n j] assms(2) that by (cases "owns (P j)") auto
  show ?thesis
    unfolding claims_inv_def
  proof (intro conjI)
    show "reclaims_ok key m (P(i := p))" using assms by (auto simp: claims_inv_def reclaims_ok_def)
    show "owners_ok key m (P(i := p))" using assms(1,3) r by (auto simp: claims_inv_def owners_ok_def)
    show "owners_unique key (P(i := p))" using assms(1) other by (fastforce simp: claims_inv_def owners_unique_def)
    show "runs_ok key m (P(i := p)) (L @ [i])"
      using assms(1,3) other no_run r by (fastforce simp: claims_inv_def runs_ok_def)
    show "runs_unique key (L @ [i])" using assms(1) no_run [symmetric] by (auto simp: claims_inv_def runs_unique_def)
  qed
qed

text \<open>The end of a claim: the owner marks its row, in a status its run allows, and lets go.\<close>

lemma claims_inv_mark:
  assumes "claims_inv key m P L" "owns (P i) = Some n"
    and "m' = upd_where (\<lambda>r. ID r = n) f m"
    and "\<And>k k' r r'. m k = Some r \<Longrightarrow> m k' = Some r' \<Longrightarrow> ID r = ID r' \<Longrightarrow> k = k'"
    and "\<And>r. ID (f r) = ID r"
    and "\<And>r. Status (f r) = IdempotencyStatusSucceeded \<or> \<not> is_mark_ok (P i)"
  shows "claims_inv key m' (P(i := Done out)) L"
proof -
  obtain r where r: "m (key i) = Some r" "ID r = n"
    using claims_ownerD [OF assms(1,2)] by auto
  have same: "m' k = m k" if "k \<noteq> key i" for k
    using assms(3,4) r that by (cases "m k") (auto simp: upd_where_def)
  have here: "m' (key i) = Some (f r)" using assms(3) r by (simp add: upd_where_def)
  have other: "owns (P j) = None" if "key j = key i" "j \<noteq> i" for j
    using claims_uniqueD [OF assms(1), of i n j] assms(2) that by (cases "owns (P j)") auto
  have runs_i: "j = i \<and> is_mark_ok (P i)" if "j \<in> set L" "key j = key i" for j
    using claims_runD [OF assms(1) that(1) assms(2)] that(2) by auto
  show ?thesis
    unfolding claims_inv_def
  proof (intro conjI)
    show "reclaims_ok key m' (P(i := Done out))"
      unfolding reclaims_ok_def
    proof (intro allI impI)
      fix x l ex assume "(P(i := Done out)) x = ReclaimFailed l ex"
      then have "P x = ReclaimFailed l ex" by (auto split: if_splits)
      from claims_reclaimD [OF assms(1) this] obtain r0 where "m (key x) = Some r0" "ID r0 = ID ex" by blast
      with same [of "key x"] here r assms(5) show "\<exists>r. m' (key x) = Some r \<and> ID r = ID ex"
        by (cases "key x = key i") auto
    qed
    show "owners_ok key m' (P(i := Done out))"
      unfolding owners_ok_def
    proof (intro allI impI)
      fix x n assume x: "owns ((P(i := Done out)) x) = Some n"
      then have "owns (P x) = Some n" "x \<noteq> i" by (auto split: if_splits)
      moreover from this have "key x \<noteq> key i" using other [of x] by auto
      ultimately show "\<exists>r. m' (key x) = Some r \<and> ID r = n \<and> Status r = IdempotencyStatusProcessing"
        using same [of "key x"] claims_ownerD [OF assms(1), of x n] by auto
    qed
    show "owners_unique key (P(i := Done out))"
      using assms(1) by (auto simp: claims_inv_def owners_unique_def)
    show "runs_ok key m' (P(i := Done out)) L"
      unfolding runs_ok_def
    proof (intro ballI conjI allI impI)
      fix j assume j: "j \<in> set L"
      show "\<exists>r. m' (key j) = Some r \<and> Status r \<in> {IdempotencyStatusProcessing, IdempotencyStatusSucceeded}"
      proof (cases "key j = key i")
        case True
        with runs_i [OF j] assms(6) here show ?thesis by auto
      next
        case False
        with same [OF False] assms(1) j show ?thesis by (auto simp: claims_inv_def runs_ok_def)
      qed
    next
      fix j x assume j: "j \<in> set L" "owns ((P(i := Done out)) x) \<noteq> None" "key x = key j"
      then have "owns (P x) \<noteq> None" "x \<noteq> i" by (auto split: if_splits)
      with j assms(1) show "x = j" "is_mark_ok ((P(i := Done out)) x)"
        unfolding claims_inv_def runs_ok_def by auto
    qed
  qed (use assms in \<open>simp add: claims_inv_def\<close>)
qed

text \<open>The key a request writes under, and the time its record lives.\<close>

definition request_key :: "'d codec \<Rightarrow> 'd IdempotencyExecuteOptions \<Rightarrow> string \<times> string" where
  "request_key env opts = (OptScope opts, HashIdempotencyKey env (TrimSpace (IdempotencyKey opts)))"

definition effective_ttl :: "IdempotencyConfig \<Rightarrow> 'd IdempotencyExecuteOptions \<Rightarrow> duration" where
  "effective_ttl c opts = (if TTL opts \<le> 0 then DefaultTTL c else TTL opts)"

lemma NormalizeIdempotencyKey_Inr: "NormalizeIdempotencyKey raw = Inr key \<Longrightarrow> key = TrimSpace raw"
  by (auto simp: NormalizeIdempotencyKey_def Let_def split: if_splits)

lemma begin_request_cases:
  "(\<exists>out. begin_request env c has_exec opts t = Done out) \<or>
   begin_request env c has_exec opts t = RunPlain \<or>
   (\<exists>l. begin_request env c has_exec opts t = Create l \<and> (scope l, keyHash l) = request_key env opts \<and>
     now l = t \<and> expiresAt l = t + effective_ttl (cfg c) opts)"
  by (auto simp: begin_request_def Let_def request_key_def effective_ttl_def
      split: sum.splits dest: NormalizeIdempotencyKey_Inr)

lemma dispatch_cases: "(\<exists>out. dispatch env l ex = Done out) \<or> dispatch env l ex = ReclaimFailed l ex"
  by (auto simp: dispatch_def split: option.splits)

lemma examine_cases:
  "(\<exists>out. examine env l first found = Done out) \<or>
   (\<exists>ex. found = Some (Some ex) \<and> examine env l first found = ReclaimFailed l ex) \<or>
   (\<exists>ex. found = Some (Some ex) \<and> examine env l first found = ReclaimExpired l ex \<and> first \<and> ExpiresAt ex \<le> now l)"
proof (cases found)
  case (Some f)
  then show ?thesis using dispatch_cases [of env l] by (cases f) (auto simp: examine_def)
qed (simp add: examine_def)

lemma after_run_cases:
  "(\<exists>e reason t' e'. res = Inl e \<and> after_run env c l i t res = MarkFail l i reason t' e') \<or>
   (\<exists>d. res = Inr d \<and> ((\<exists>out. after_run env c l i t res = Done out) \<or>
      (\<exists>body. after_run env c l i t res = MarkOk l i d body)))"
  by (cases res) (auto simp: after_run_def split: option.splits)

text \<open>
  The invariant of a world whose events happen before time \<open>T\<close>, at which no record has expired
  yet. \<open>step_ok\<close> is the invariant after request \<open>i\<close> has moved to \<open>p\<close>, the rows to \<open>s\<close>.
\<close>

definition claim_ok where
  "claim_ok key T i l \<longleftrightarrow> (scope l, keyHash l) = key i \<and> now l < T \<and> T \<le> expiresAt l"

definition step_ok where
  "step_ok lookup ok key T i p s P L \<longleftrightarrow>
     ok s \<and> (\<forall>k r. lookup s k = Some r \<longrightarrow> T \<le> ExpiresAt r) \<and>
     (\<forall>l. claim_of p = Some l \<longrightarrow> claim_ok key T i l) \<and> (\<forall>l ex. p \<noteq> ReclaimExpired l ex) \<and>
     claims_inv key (lookup s) (P(i := p)) L"

definition world_inv where
  "world_inv lookup ok key T w \<longleftrightarrow>
     ok (store w) \<and> (\<forall>k r. lookup (store w) k = Some r \<longrightarrow> T \<le> ExpiresAt r) \<and>
     (\<forall>i l. claim_of (procs w i) = Some l \<longrightarrow> claim_ok key T i l) \<and>
     (\<forall>i l ex. procs w i \<noteq> ReclaimExpired l ex) \<and>
     claims_inv key (lookup (store w)) (procs w) (runs w)"

context idempotency_repository
begin

lemma step_quiet:
  assumes "world_inv lookup ok key T w"
    and "owns p = None \<or> owns p = owns (procs w i) \<and> \<not> is_mark_ok (procs w i)"
    and "\<And>l. claim_of p = Some l \<Longrightarrow> claim_ok key T i l"
    and "\<And>l ex. p = ReclaimFailed l ex \<Longrightarrow> \<exists>r. lookup (store w) (key i) = Some r \<and> ID r = ID ex"
    and "\<And>l ex. p \<noteq> ReclaimExpired l ex"
  shows "step_ok lookup ok key T i p (store w) (procs w) (runs w)"
  using assms(1,3,5) claims_inv_quiet [of key "lookup (store w)" "procs w" "runs w" p i] assms(2,4)
  by (simp add: world_inv_def step_ok_def)

lemma step_done: "world_inv lookup ok key T w \<Longrightarrow>
    step_ok lookup ok key T i (Done out) (store w) (procs w) (runs w)"
  by (rule step_quiet) simp_all

lemma step_examine:
  assumes "world_inv lookup ok key T w" "claim_ok key T i l"
  shows "step_ok lookup ok key T i
     (examine env l first (GetByScopeAndKeyHash R u (scope l) (keyHash l) (store w))) (store w) (procs w) (runs w)"
proof -
  have key: "(scope l, keyHash l) = key i" and lt: "now l < T" using assms(2) by (simp_all add: claim_ok_def)
  have ok: "ok (store w)" and fresh: "\<And>k r. lookup (store w) k = Some r \<Longrightarrow> T \<le> ExpiresAt r"
    using assms(1) by (auto simp: world_inv_def)
  have found: "lookup (store w) (key i) = Some ex"
    if "GetByScopeAndKeyHash R u (scope l) (keyHash l) (store w) = Some (Some ex)" for ex
    using that get_law [OF ok, of "scope l" "keyHash l"] key by (cases u) (simp_all add: get_down)
  from examine_cases [of env l first "GetByScopeAndKeyHash R u (scope l) (keyHash l) (store w)"]
  show ?thesis
  proof (elim disjE exE conjE)
    fix ex assume "GetByScopeAndKeyHash R u (scope l) (keyHash l) (store w) = Some (Some ex)"
      "examine env l first (GetByScopeAndKeyHash R u (scope l) (keyHash l) (store w)) = ReclaimFailed l ex"
    then show ?thesis using found [of ex] assms by (simp only:) (rule step_quiet, auto)
  next
    fix ex assume "GetByScopeAndKeyHash R u (scope l) (keyHash l) (store w) = Some (Some ex)"
      "ExpiresAt ex \<le> now l"
    with found fresh lt show ?thesis by fastforce
  qed (use assms(1) in \<open>simp add: step_done\<close>)
qed

lemma step_create:
  assumes inv: "world_inv lookup ok key T w" and p: "procs w i = Create l"
    and step: "exec_step env R c True opts inp (Create l) (store w) = (p', s')"
  shows "step_ok lookup ok key T i p' s' (procs w) (runs w)"
proof -
  have cl: "claim_ok key T i l" using inv p by (auto simp: world_inv_def)
  then have key: "(scope l, keyHash l) = key i" by (simp add: claim_ok_def)
  have ok: "ok (store w)" using inv by (simp add: world_inv_def)
  obtain made s1 where c: "CreateProcessing R (up inp) (new_record l) (store w) = (made, s1)" by fastforce
  show ?thesis
  proof (cases "up inp")
    case False
    with c step create_down inv show ?thesis by (auto simp: step_done)
  next
    case True
    then have "up inp = True" by simp
    note law = create_law [OF ok c [unfolded this]]
    show ?thesis
    proof (cases "lookup (store w) (key i)")
      case (Some r)
      with law key have "made = Some (False, 0)" "lookup s1 = lookup (store w)" "ok s1"
        by (auto simp: new_record_def)
      with step c True step_quiet [OF inv, of "GetExisting l" i] cl show ?thesis
        by (auto simp: step_ok_def)
    next
      case None
      with law key obtain n where n: "n \<noteq> 0" "made = Some (True, n)" "ok s1"
        "lookup s1 = (lookup (store w))(key i \<mapsto> (new_record l)\<lparr>ID := n, ResponseStatus := None,
           ResponseBody := None, ErrorReason := None\<rparr>)"
        by (auto simp: new_record_def)
      have "p' = Run l n" "s' = s1" using step c n(1,2) by (auto simp: claimed_def)
      moreover have "claims_inv key (lookup s1) ((procs w)(i := Run l n)) (runs w)"
        by (rule claims_inv_claim [where key = key and i = i, OF _ _ _ n(4)])
          (use inv p None in \<open>auto simp: world_inv_def new_record_def\<close>)
      ultimately show ?thesis using inv n(3,4) cl
        by (auto simp: step_ok_def world_inv_def claim_ok_def new_record_def)
    qed
  qed
qed

lemma step_reclaim:
  assumes inv: "world_inv lookup ok key T w" and p: "procs w i = ReclaimFailed l ex"
    and step: "exec_step env R c True opts inp (ReclaimFailed l ex) (store w) = (p', s')"
  shows "step_ok lookup ok key T i p' s' (procs w) (runs w)"
proof -
  let ?m = "lookup (store w)"
  have cl: "claim_ok key T i l" using inv p by (auto simp: world_inv_def)
  have ok: "ok (store w)" and ci: "claims_inv key ?m (procs w) (runs w)"
    using inv by (simp_all add: world_inv_def)
  obtain r where r: "?m (key i) = Some r" "ID r = ID ex" using claims_reclaimD [OF ci p] by blast
  have r0: "ID ex \<noteq> 0" using lookup_key [OF ok r(1)] r(2) by simp
  let ?P = "reclaimable (ID ex) IdempotencyStatusFailedRetryable (now l)"
  obtain taken s1 where c: "TryReclaim R (up inp) (ID ex) IdempotencyStatusFailedRetryable (now l)
      (lockedUntil l) (expiresAt l) (store w) = (taken, s1)" by fastforce
  have only: "k = key i \<and> r1 = r" if "?m k = Some r1" "ID r1 = ID ex" for k r1
    using lookup_id [OF ok that(1) r(1)] that r by simp
  show ?thesis
  proof (cases "up inp")
    case False
    with c step reclaim_down inv show ?thesis by (auto simp: step_done)
  next
    case True
    then have "up inp = True" by simp
    note law = reclaim_law [OF ok c [unfolded this]]
    show ?thesis
    proof (cases "?P r")
      case False
      then have none: "\<not> ?P r1" if "?m k = Some r1" for k r1
        using only [OF that] by (auto simp: reclaimable_def)
      then have s1: "lookup s1 = ?m" and "taken = Some False" and ok1: "ok s1"
        using law by (auto simp: upd_where_def fun_eq_iff split: option.splits intro!: option.map_ident_strong)
      then have p': "p' = Done (Failed (conflictWithRetryAfter InProgress (LockedUntil ex) (now l)))" "s' = s1"
        using step c by simp_all
      show ?thesis using step_done [OF inv, of i] s1 ok1 by (simp add: p' step_ok_def)
    next
      case True
      with r law have "taken = Some True" by blast
      then have p': "p' = Run l (ID ex)" "s' = s1" using step c r0 by (auto simp: claimed_def)
      have m': "lookup s1 = ?m(key i \<mapsto> reclaimed (lockedUntil l) (expiresAt l) r)"
      proof
        fix k
        show "lookup s1 k = (?m(key i \<mapsto> reclaimed (lockedUntil l) (expiresAt l) r)) k"
        proof (cases "k = key i")
          case True
          with law \<open>?P r\<close> r show ?thesis by (simp add: upd_where_def)
        next
          case False
          then have "\<not> ?P r1" if "?m k = Some r1" for r1
            using only [OF that] by (auto simp: reclaimable_def)
          with law False show ?thesis by (cases "?m k") (auto simp: upd_where_def)
        qed
      qed
      have "claims_inv key (lookup s1) ((procs w)(i := Run l (ID ex))) (runs w)"
        by (rule claims_inv_claim [where key = key and i = i, OF ci _ _ m'])
          (use p r True in \<open>auto simp: reclaimable_def reclaimed_def\<close>)
      then show ?thesis using inv p' m' law cl
        by (auto simp: step_ok_def world_inv_def claim_ok_def reclaimed_def)
    qed
  qed
qed
end

context idempotency_repository
begin

lemma step_mark_ok:
  assumes inv: "world_inv lookup ok key T w" and p: "procs w i = MarkOk l n d body"
    and step: "exec_step env R c True opts inp (MarkOk l n d body) (store w) = (p', s')"
  shows "step_ok lookup ok key T i p' s' (procs w) (runs w)"
proof (cases "up inp")
  case False
  with step succeeded_down inv show ?thesis by (auto simp: step_done)
next
  case True
  have ok: "ok (store w)" and ci: "claims_inv key (lookup (store w)) (procs w) (runs w)"
    and cl: "claim_ok key T i l" and ow: "owns (procs w i) = Some n"
    using inv p by (auto simp: world_inv_def)
  have "MarkSucceeded R True n 200 body (expiresAt l) (store w)
      = (fst (MarkSucceeded R True n 200 body (expiresAt l) (store w)), s')"
    using step True by (auto split: prod.splits option.splits)
  note law = succeeded_law [OF ok this]
  have "p' = Done (Fresh d)" using step True law by (auto split: prod.splits option.splits)
  moreover have "claims_inv key (lookup s') ((procs w)(i := Done (Fresh d))) (runs w)"
    by (rule claims_inv_mark [OF ci ow, of _ "succeeded 200 body (expiresAt l)"])
      (use law lookup_id [OF ok] in \<open>auto simp: succeeded_def\<close>)
  ultimately show ?thesis using law inv cl
    by (auto simp: step_ok_def world_inv_def claim_ok_def upd_where_Some succeeded_def split: if_splits)
qed

lemma step_mark_fail:
  assumes inv: "world_inv lookup ok key T w" and p: "procs w i = MarkFail l n reason t e"
    and step: "exec_step env R c True opts inp (MarkFail l n reason t e) (store w) = (p', s')"
  shows "step_ok lookup ok key T i p' s' (procs w) (runs w)"
proof (cases "up inp")
  case False
  with step failed_down inv show ?thesis by (auto simp: step_done)
next
  case True
  have ok: "ok (store w)" and ci: "claims_inv key (lookup (store w)) (procs w) (runs w)"
    and cl: "claim_ok key T i l" and ow: "owns (procs w i) = Some n"
    using inv p by (auto simp: world_inv_def)
  have "MarkFailedRetryable R True n reason t (expiresAt l) (store w)
      = (fst (MarkFailedRetryable R True n reason t (expiresAt l) (store w)), s')"
    using step True by (auto split: prod.splits)
  note law = failed_law [OF ok this]
  have "p' = Done (Failed (ExecError e))" using step by simp
  moreover have "claims_inv key (lookup s') ((procs w)(i := Done (Failed (ExecError e)))) (runs w)"
    by (rule claims_inv_mark [OF ci ow, of _ "failed_retryable reason t (expiresAt l)"])
      (use law lookup_id [OF ok] p in \<open>auto simp: failed_retryable_def\<close>)
  ultimately show ?thesis using law inv cl
    by (auto simp: step_ok_def world_inv_def claim_ok_def upd_where_Some failed_retryable_def split: if_splits)
qed

lemma step_run:
  assumes inv: "world_inv lookup ok key T w" and p: "procs w i = Run l n"
  shows "step_ok lookup ok key T i (after_run env c l n t res) (store w) (procs w)
     (if \<exists>d. res = Inr d then runs w @ [i] else runs w)"
proof -
  have ci: "claims_inv key (lookup (store w)) (procs w) (runs w)" and cl: "claim_ok key T i l"
    using inv p by (auto simp: world_inv_def)
  from after_run_cases [of res env c l n t] show ?thesis
  proof (elim disjE exE conjE)
    fix e reason t' e'
    assume "res = Inl e" "after_run env c l n t res = MarkFail l n reason t' e'"
    then show ?thesis using step_quiet [OF inv, of "MarkFail l n reason t' e'" i] p cl by simp
  next
    fix d out assume "res = Inr d" "after_run env c l n t res = Done out"
    then show ?thesis using claims_inv_run [OF ci p, of "Done out"] inv
      by (auto simp: step_ok_def world_inv_def)
  next
    fix d body assume "res = Inr d" "after_run env c l n t res = MarkOk l n d body"
    then show ?thesis using claims_inv_run [OF ci p, of "MarkOk l n d body"] inv cl
      by (auto simp: step_ok_def world_inv_def)
  qed
qed

lemma world_step_inv:
  assumes inv: "world_inv lookup ok key T w"
    and keys: "\<And>i. key i = request_key env (reqs i)"
    and time: "case ev of StepOf i inp \<Rightarrow> clock inp < T \<and> T \<le> clock inp + effective_ttl (cfg c) (reqs i)
                 | CleanupAt u t n \<Rightarrow> t < T"
  shows "world_inv lookup ok key T (world_step env R c reqs ev w)"
proof (cases ev)
  case (CleanupAt u t n)
  then have t: "t < T" using time by simp
  have ok: "ok (store w)" and fresh: "\<And>k r. lookup (store w) k = Some r \<Longrightarrow> T \<le> ExpiresAt r"
    using inv by (auto simp: world_inv_def)
  obtain gone s1 where d: "DeleteExpired R u t n (store w) = (gone, s1)" by fastforce
  have "ok s1 \<and> lookup s1 = lookup (store w)"
  proof (cases u)
    case True
    have law: "ok s1 \<and> lookup s1 \<subseteq>\<^sub>m lookup (store w) \<and>
        (\<forall>k r. lookup (store w) k = Some r \<longrightarrow> t < ExpiresAt r \<longrightarrow> lookup s1 k = Some r)"
      by (rule delete_law [OF ok]) (use d True in simp)
    have "lookup s1 k = lookup (store w) k" for k
    proof (cases "lookup (store w) k")
      case None
      with law show ?thesis by (metis (no_types) domIff map_le_def)
    next
      case (Some r)
      with law fresh [OF Some] t show ?thesis by (cases k) auto
    qed
    with law show ?thesis by blast
  qed (use d delete_down ok in simp)
  with inv CleanupAt d show ?thesis by (simp add: world_step_def world_inv_def)
next
  case (StepOf i inp)
  obtain p' s' where st: "exec_step env R c True (reqs i) inp (procs w i) (store w) = (p', s')" by fastforce
  let ?L = "if ran (procs w i) inp then runs w @ [i] else runs w"
  have cl: "claim_ok key T i l" if "claim_of (procs w i) = Some l" for l
    using inv that by (auto simp: world_inv_def)
  have "step_ok lookup ok key T i p' s' (procs w) ?L"
  proof (cases "procs w i")
    case Begin
    from begin_request_cases [of env c True "reqs i" "clock inp"] show ?thesis
    proof (elim disjE exE conjE)
      fix l assume b: "begin_request env c True (reqs i) (clock inp) = Create l"
        and l: "(scope l, keyHash l) = request_key env (reqs i)" "now l = clock inp"
        "expiresAt l = clock inp + effective_ttl (cfg c) (reqs i)"
      have "p' = Create l" "s' = store w" using st Begin b by simp_all
      moreover have "claim_ok key T i l" using l time StepOf keys by (simp add: claim_ok_def)
      ultimately show ?thesis using Begin step_quiet [OF inv, of "Create l" i]
        by (simp add: ran_def)
    next
      fix out assume "begin_request env c True (reqs i) (clock inp) = Done out"
      then have "p' = Done out" "s' = store w" using st Begin by simp_all
      then show ?thesis using Begin step_done [OF inv] by (simp add: ran_def)
    next
      assume "begin_request env c True (reqs i) (clock inp) = RunPlain"
      then have "p' = RunPlain" "s' = store w" using st Begin by simp_all
      then show ?thesis using Begin step_quiet [OF inv, of RunPlain i] by (simp add: ran_def)
    qed
  next
    case RunPlain
    then obtain out where "p' = Done out" "s' = store w" using st by (cases "result inp") auto
    then show ?thesis using RunPlain step_done [OF inv] by (simp add: ran_def)
  next
    case (Create l)
    then show ?thesis using st step_create [OF inv Create] by (simp add: ran_def)
  next
    case (GetExisting l)
    then show ?thesis using st step_examine [OF inv, of i l] cl by (auto simp: ran_def)
  next
    case (ReclaimExpired l ex)
    then show ?thesis using inv by (auto simp: world_inv_def)
  next
    case (GetLatest l)
    then show ?thesis using st step_examine [OF inv, of i l] cl by (auto simp: ran_def)
  next
    case (ReclaimFailed l ex)
    then show ?thesis using st step_reclaim [OF inv ReclaimFailed] by (simp add: ran_def)
  next
    case (Run l n)
    have "ran (procs w i) inp \<longleftrightarrow> (\<exists>d. result inp = Inr d)"
      using Run by (auto simp: ran_def split: sum.splits)
    then show ?thesis using st Run step_run [OF inv Run, of env "cfg c" "clock inp" "result inp"] by simp
  next
    case (MarkOk l n d body)
    then show ?thesis using st step_mark_ok [OF inv MarkOk] by (simp add: ran_def)
  next
    case (MarkFail l n reason t e)
    show ?thesis using step_mark_fail [OF inv MarkFail st [unfolded MarkFail]] MarkFail by (simp add: ran_def)
  next
    case (Done out)
    have "\<not> ran (procs w i) inp" unfolding Done ran_def by simp
    moreover have "p' = Done out" "s' = store w" using st Done by simp_all
    ultimately show ?thesis using step_done [OF inv, of i out] by simp
  qed
  then show ?thesis using inv st StepOf by (auto simp: world_step_def world_inv_def step_ok_def)
qed

lemma world_run_inv:
  assumes "world_inv lookup ok key T w" "\<And>i. key i = request_key env (reqs i)"
    and "\<forall>ev\<in>set evs. case ev of
           StepOf i inp \<Rightarrow> clock inp < T \<and> T \<le> clock inp + effective_ttl (cfg c) (reqs i)
         | CleanupAt u t n \<Rightarrow> t < T"
  shows "world_inv lookup ok key T (fold (world_step env R c reqs) evs w)"
  using assms(1,3)
proof (induction evs arbitrary: w)
  case (Cons ev evs)
  have "world_inv lookup ok key T (world_step env R c reqs ev w)"
    by (rule world_step_inv [OF Cons.prems(1) assms(2)]) (use Cons.prems(2) in simp)
  with Cons.IH Cons.prems(2) show ?case by simp
qed simp

lemma runs_distinct:
  assumes "ok s" "\<And>k. lookup s k = None"
    and "\<forall>ev\<in>set evs. case ev of
           StepOf i inp \<Rightarrow> clock inp < T \<and> T \<le> clock inp + effective_ttl (cfg c) (reqs i)
         | CleanupAt u t n \<Rightarrow> t < T"
  shows "distinct (map (\<lambda>i. request_key env (reqs i)) (runs (fold (world_step env R c reqs) evs (world_init s))))"
proof -
  have "world_inv lookup ok (\<lambda>i. request_key env (reqs i)) T (world_init s)"
    using assms(1,2) by (simp add: world_inv_def world_init_def claims_inv_defs)
  from world_run_inv [OF this _ assms(3), of env] show ?thesis
    by (simp add: world_inv_def claims_inv_def runs_unique_def)
qed

end

section \<open>One request after another\<close>

text \<open>Every step of a request brings it closer to an answer, so eight of them suffice.\<close>

fun rank :: "'d pc \<Rightarrow> nat" where
  "rank Begin = 8"
| "rank RunPlain = 1"
| "rank (Create _) = 7"
| "rank (GetExisting _) = 6"
| "rank (ReclaimExpired _ _) = 5"
| "rank (GetLatest _) = 4"
| "rank (ReclaimFailed _ _) = 3"
| "rank (Run _ _) = 2"
| "rank (MarkOk _ _ _ _) = 1"
| "rank (MarkFail _ _ _ _ _) = 1"
| "rank (Done _) = 0"


lemma claimed_rank [simp]: "rank (claimed l i) \<le> 2" "rank (claimed l i) \<le> 6" "rank (claimed l i) \<le> 4"
  by (simp_all add: claimed_def)




lemma run_steps_Done [simp]: "run_steps env R c has_exec opts inps (Done out) s = (Done out, s)"
  by (induction inps) simp_all

lemma Execute_unfold:
  "Execute env R c has_exec opts inp s =
     run_steps env R c has_exec opts
       [inp 0, inp 1, inp 2, inp 3, inp 4, inp 5, inp 6, inp 7] Begin s"
  by (simp add: Execute_def upt_rec numeral_eq_Suc)

definition live :: "(nat \<Rightarrow> 'd input) \<Rightarrow> bool" where
  "live inp \<longleftrightarrow> (\<forall>i<8. up (inp i))"

context idempotency_repository
begin

lemma create_claim:
  assumes "ok s" "lookup s (scope l, keyHash l) = None" "up inp"
  obtains n s' where "exec_step env R c True opts inp (Create l) s = (Run l n, s')" "ok s'"
    "lookup s' (scope l, keyHash l) = Some ((new_record l)\<lparr>ID := n\<rparr>)"
proof -
  obtain made s' where cr: "CreateProcessing R True (new_record l) s = (made, s')" by fastforce
  from create_law [OF assms(1) cr] assms(2) that cr assms(3) show thesis
    by (auto simp: new_record_def claimed_def)
qed

lemma create_present:
  assumes "ok s" "lookup s (scope l, keyHash l) = Some r" "up inp"
  obtains s' where "exec_step env R c True opts inp (Create l) s = (GetExisting l, s')" "ok s'"
    "lookup s' = lookup s"
proof -
  obtain made s' where cr: "CreateProcessing R True (new_record l) s = (made, s')" by fastforce
  from create_law [OF assms(1) cr] assms(2) that cr assms(3) show thesis
    by (auto simp: new_record_def)
qed

lemma mark_ok_stores:
  assumes "ok s" "lookup s k = Some r" "ID r = n" "up inp"
  obtains s' where "exec_step env R c True opts inp (MarkOk l n d body) s = (Done (Fresh d), s')" "ok s'"
    "lookup s' k = Some (succeeded 200 body (expiresAt l) r)"
proof -
  obtain marked s' where m: "MarkSucceeded R True n 200 body (expiresAt l) s = (marked, s')" by fastforce
  from succeeded_law [OF assms(1) m] that m assms(2-4) show thesis
    by (auto simp: upd_where_def)
qed

text \<open>A first request runs the function, stores its response and answers with it.\<close>

lemma Execute_first:
  assumes "ok s" "begin_request env c True opts (clock (inp 0)) = Create l"
    and "lookup s (scope l, keyHash l) = None" "live inp"
    and "result (inp 2) = Inr d" "marshalStoredResponse env (cfg c) d = Some body"
  obtains s' r where "Execute env R c True opts inp s = (Done (Fresh d), s')" "ok s'"
    "lookup s' (scope l, keyHash l) = Some r" "Status r = IdempotencyStatusSucceeded"
    "RequestFingerprint r = fingerprint l" "ResponseBody r = Some body" "ExpiresAt r = expiresAt l"
proof -
  have up: "up (inp 1)" "up (inp 3)" using assms(4) by (simp_all add: live_def)
  obtain n s1 where s1: "exec_step env R c True opts (inp 1) (Create l) s = (Run l n, s1)" "ok s1"
    "lookup s1 (scope l, keyHash l) = Some ((new_record l)\<lparr>ID := n\<rparr>)"
    by (rule create_claim [OF assms(1,3) up(1)])
  obtain s2 where s2: "exec_step env R c True opts (inp 3) (MarkOk l n d body) s1 = (Done (Fresh d), s2)" "ok s2"
    "lookup s2 (scope l, keyHash l) = Some (succeeded 200 body (expiresAt l) ((new_record l)\<lparr>ID := n\<rparr>))"
    by (rule mark_ok_stores [OF s1(2,3) _ up(2)]) simp
  have "Execute env R c True opts inp s = (Done (Fresh d), s2)"
    using assms(2,5,6) s1(1) s2(1) by (simp add: Execute_unfold after_run_def)
  with s2(2,3) show thesis by (intro that) (auto simp: succeeded_def new_record_def)
qed

text \<open>A request that finds a live record is answered from it, or reclaims it after a failure.\<close>

lemma Execute_existing:
  assumes "ok s" "begin_request env c True opts (clock (inp 0)) = Create l" "live inp"
    and "lookup s (scope l, keyHash l) = Some r" "RequestFingerprint r = fingerprint l"
    and "now l < ExpiresAt r" "dispatch env l r = Done out"
  obtains s' where "Execute env R c True opts inp s = (Done out, s')" "lookup s' = lookup s"
proof -
  have up: "up (inp 1)" "up (inp 2)" using assms(3) by (simp_all add: live_def)
  obtain s1 where s1: "exec_step env R c True opts (inp 1) (Create l) s = (GetExisting l, s1)" "ok s1"
    "lookup s1 = lookup s"
    by (rule create_present [OF assms(1,4) up(1)])
  have "exec_step env R c True opts (inp 2) (GetExisting l) s1 = (Done out, s1)"
    using get_law [OF s1(2), of "scope l" "keyHash l"] s1(3) assms(4-7) up(2)
    by (simp add: examine_def)
  then have "Execute env R c True opts inp s = (Done out, s1)"
    using assms(2) s1(1) by (simp add: Execute_unfold)
  with s1(3) show thesis by (intro that)
qed

end

lemma begin_again:
  "begin_request env c True opts t = Create l \<Longrightarrow> begin_request env c True opts t' =
     Create (l\<lparr>now := t', lockedUntil := t' + ProcessingTimeout (cfg c), expiresAt := t' + effective_ttl (cfg c) opts\<rparr>)"
  by (auto simp: begin_request_def Let_def effective_ttl_def split: sum.splits if_splits)

text \<open>The same request, made again while its stored success lives.\<close>

lemma success_then_again:
  assumes "table_ok s" "begin_request env c True opts (clock (inp 0)) = Create l"
    and "row_of s (request_key env opts) = None" "live inp" "live inp'"
    and "result (inp 2) = Inr d" "marshalStoredResponse env (cfg c) d = Some body"
    and "clock (inp' 0) < clock (inp 0) + effective_ttl (cfg c) opts"
  obtains s' where "Execute env sql_repo c True opts inp s = (Done (Fresh d), s')"
    "\<And>out. (case decodeStoredResponse env (Some body) of None \<Rightarrow> Failed StoreUnavail | Some x \<Rightarrow> Replayed x) = out \<Longrightarrow>
       \<exists>s''. Execute env sql_repo c True opts inp' s' = (Done out, s'') \<and> row_of s'' = row_of s'"
proof -
  have l: "(scope l, keyHash l) = request_key env opts"
    "expiresAt l = clock (inp 0) + effective_ttl (cfg c) opts"
    using begin_request_cases [of env c True opts "clock (inp 0)"] assms(2) by auto
  have none: "row_of s (scope l, keyHash l) = None" using assms(3) l(1) by simp
  obtain s' r where s': "Execute env sql_repo c True opts inp s = (Done (Fresh d), s')" "table_ok s'"
    "row_of s' (scope l, keyHash l) = Some r" "Status r = IdempotencyStatusSucceeded"
    "RequestFingerprint r = fingerprint l" "ResponseBody r = Some body" "ExpiresAt r = expiresAt l"
    by (rule sql.Execute_first [OF assms(1,2) none assms(4,6,7)])
  let ?l = "l\<lparr>now := clock (inp' 0), lockedUntil := clock (inp' 0) + ProcessingTimeout (cfg c),
      expiresAt := clock (inp' 0) + effective_ttl (cfg c) opts\<rparr>"
  have b: "begin_request env c True opts (clock (inp' 0)) = Create ?l" by (rule begin_again [OF assms(2)])
  show thesis
  proof (rule that [OF s'(1)])
    fix out
    assume out: "(case decodeStoredResponse env (Some body) of None \<Rightarrow> Failed StoreUnavail | Some x \<Rightarrow> Replayed x) = out"
    have "dispatch env ?l r = Done out"
      using s'(4,6) out by (auto simp: dispatch_def split: option.splits)
    then obtain s'' where "Execute env sql_repo c True opts inp' s' = (Done out, s'')" "row_of s'' = row_of s'"
      using sql.Execute_existing [OF s'(2) b assms(5), of r out] s'(3,5,7) l(2) assms(8) by auto
    then show "\<exists>s''. Execute env sql_repo c True opts inp' s' = (Done out, s'') \<and> row_of s'' = row_of s'" by blast
  qed
qed

section \<open>Truncation keeps whole runes\<close>

lemma rune_len_append: "rune_len bs \<noteq> 0 \<Longrightarrow> rune_len (bs @ cs) = rune_len bs"
  by (induction bs rule: rune_len.induct) (auto split: list.splits if_splits)

lemma rune_len_take: "rune_len bs \<noteq> 0 \<Longrightarrow> rune_len (take (rune_len bs) bs) = rune_len bs"
  by (induction bs rule: rune_len.induct) (auto split: list.splits if_splits simp: numeral_eq_Suc)

lemma rune_len_le: "rune_len bs \<le> length bs" "rune_len bs \<le> 4"
  by (induction bs rule: rune_len.induct) (auto split: list.splits)

lemma rune_len_take_le: "rune_len bs \<le> n \<Longrightarrow> rune_len (take n bs) = rune_len bs \<or> rune_len bs = 0"
  using rune_len_append [of "take (rune_len bs) bs" "take (n - rune_len bs) (drop (rune_len bs) bs)"]
    rune_len_take [of bs]
  by (metis le_add_diff_inverse take_add)

text \<open>A valid string has a valid prefix that ends less than a rune before any cut.\<close>

lemma valid_prefix_near:
  "valid_utf8 bs \<Longrightarrow> n \<le> length bs \<Longrightarrow> \<exists>m. m \<le> n \<and> n < m + 4 \<and> valid_utf8 (take m bs)"
proof (induction bs arbitrary: n rule: valid_utf8.induct)
  case (1 bs)
  show ?case
  proof (cases "n < rune_len bs")
    case True
    with rune_len_le(2) [of bs] show ?thesis
      by (intro exI [of _ 0]) (simp add: valid_utf8.simps [of "[]"])
  next
    case False
    show ?thesis
    proof (cases "bs = []")
      case True
      with 1 show ?thesis by (intro exI [of _ 0]) (simp add: valid_utf8.simps [of "[]"])
    next
      case ne: False
      let ?k = "rune_len bs"
      have k: "?k \<noteq> 0" "valid_utf8 (drop ?k bs)"
        using 1(2) ne by (simp_all add: valid_utf8.simps [of bs] Let_def split: if_splits)
      obtain m where m: "m \<le> n - ?k" "n - ?k < m + 4" "valid_utf8 (take m (drop ?k bs))"
        using "1.IH" [OF ne refl k(1,2), of "n - ?k"] 1(3) diff_le_mono [of n "length bs" ?k] by auto
      have "valid_utf8 (take (?k + m) bs)"
        using m(3) k(1) ne rune_len_take_le [of bs "?k + m"]
        by (simp add: valid_utf8.simps [of "take (?k + m) bs"] Let_def drop_take)
      moreover have "?k + m \<le> n \<and> n < ?k + m + 4" using m(1,2) False by arith
      ultimately show ?thesis by blast
    qed
  qed
qed

lemma cut_back_props:
  "cut_back s n \<le> n \<and> ValidString (take (cut_back s n) s) \<and>
   (\<forall>m\<le>n. ValidString (take m s) \<longrightarrow> m \<le> cut_back s n)"
proof (induction n)
  case 0
  then show ?case by (simp add: ValidString_def valid_utf8.simps [of "[]"])
next
  case (Suc n)
  then show ?case by (auto simp: le_Suc_eq)
qed

section \<open>Properties\<close>

text \<open>C3. However the steps of any number of requests and of the cleanup job interleave, whatever runs
  of the callers' functions fail, and whichever database calls fail or requests stop in the
  middle: within a period not longer than the time to live of the requests, the function runs to
  success at most once per scope and idempotency key.\<close>
theorem at_most_one_successful_run:
  assumes "\<forall>ev\<in>set evs. case ev of
      StepOf i inp \<Rightarrow> clock inp < T \<and> T \<le> clock inp + effective_ttl (cfg c) (reqs i)
    | CleanupAt u t n \<Rightarrow> t < T"
  shows "distinct (map (\<lambda>i. request_key env (reqs i))
    (runs (fold (world_step env sql_repo c reqs) evs (world_init empty_table))))"
  by (rule sql.runs_distinct [OF _ _ assms])
    (simp_all add: table_ok_def empty_table_def row_of_def)

definition example_codec :: "string codec" where
  "example_codec = \<lparr>sha = (\<lambda>s. s), marshal = Some,
     unmarshal = (\<lambda>s. if HasSuffix s '')'' then None else Some s), redact = (\<lambda>s. s), empty_object = ''{}''\<rparr>"

definition example_coordinator :: "itable IdempotencyCoordinator" where
  "example_coordinator = \<lparr>repo = Some sql_repo, cfg = DefaultIdempotencyConfig\<rparr>"

definition example_request :: "string IdempotencyExecuteOptions" where
  "example_request = \<lparr>OptScope = ''pay'', ActorScope = ''u1'', Method = ''POST'', Route = ''/pay'',
     IdempotencyKey = ''k1'', Payload = ''{}'', TTL = 0, RequireKey = True\<rparr>"

definition example_input :: "time \<Rightarrow> string input" where
  "example_input t = \<lparr>clock = t, up = True, result = Inr ''[1]''\<rparr>"

lemmas example_idem = example_codec_def example_coordinator_def example_request_def example_input_def
  DefaultIdempotencyConfig_def

definition example_claim :: "time \<Rightarrow> claim" where
  "example_claim t = \<lparr>scope = ''pay'', keyHash = ''k1'',
     fingerprint = ''POST'' @ newline # ''/pay'' @ newline # ''u1'' @ newline # ''{}'',
     now = t, lockedUntil = t + 30 * Second, expiresAt = t + 24 * Hour\<rparr>"

text \<open>A row whose request stopped before it could mark it; its lock ran out after 30 seconds.\<close>

definition example_row :: IdempotencyRecord where
  "example_row = (new_record (example_claim 0))\<lparr>ID := 1\<rparr>"

lemma example_sel [simp]:
  "clock (example_input t) = t" "up (example_input t)" "result (example_input t) = Inr ''[1]''"
  "repo example_coordinator = Some sql_repo" "cfg example_coordinator = DefaultIdempotencyConfig"
  "DefaultTTL DefaultIdempotencyConfig = 24 * Hour" "MaxStoredResponseLen DefaultIdempotencyConfig = 65536"
  "ProcessingTimeout DefaultIdempotencyConfig = 30 * Second" "TTL example_request = 0"
  "marshal example_codec = Some" "redact example_codec s = s"
  "unmarshal example_codec s = (if HasSuffix s '')'' then None else Some s)"
  by (simp_all add: example_idem)

lemma example_begins:
  "begin_request example_codec c True example_request t = Create (example_claim t)"
  if "repo c = Some sql_repo" "ProcessingTimeout (cfg c) = 30 * Second" "DefaultTTL (cfg c) = 24 * Hour"
  using that by (simp add: example_idem example_claim_def begin_request_def Let_def
      NormalizeIdempotencyKey_def TrimSpace_def is_space_def BuildIdempotencyFingerprint_def
      HashIdempotencyKey_def upper_char_def)

lemma example_request_key: "request_key example_codec example_request = (''pay'', ''k1'')"
  by (simp add: request_key_def example_idem HashIdempotencyKey_def TrimSpace_def is_space_def)

theorem at_most_one_successful_run_witness:
  "distinct (map (\<lambda>i. request_key example_codec ((\<lambda>_. example_request) (i::nat)))
    (runs (fold (world_step example_codec sql_repo example_coordinator (\<lambda>_. example_request))
      [StepOf 0 (example_input 1), StepOf 1 (example_input 2), StepOf 1 (example_input 3),
       StepOf 0 (example_input 4), StepOf 1 (example_input 5), CleanupAt True 6 10] (world_init empty_table))))"
  by (rule at_most_one_successful_run [where T = Hour])
    (simp add: example_idem effective_ttl_def)



text \<open>C36. A response longer than the configured length is stored cut off and with a marker appended,
  which no JSON decoder accepts: the same request made again is not replayed but answered with the
  error for an unavailable store until the record expires.\<close>
theorem long_response_cannot_be_replayed:
  assumes "table_ok s" "begin_request env c True opts (clock (inp 0)) = Create l"
    and "row_of s (request_key env opts) = None" "live inp" "live inp'"
    and "result (inp 2) = Inr d" "marshal env d = Some raw"
    and "0 < MaxStoredResponseLen (cfg c)" "MaxStoredResponseLen (cfg c) < int (length (redact env raw))"
    and "\<And>t. unmarshal env (t @ ''...(truncated)'') = None"
    and "clock (inp' 0) < clock (inp 0) + effective_ttl (cfg c) opts"
  shows "\<exists>s' s''. Execute env sql_repo c True opts inp s = (Done (Fresh d), s') \<and>
    Execute env sql_repo c True opts inp' s' = (Done (Failed StoreUnavail), s'')"
proof -
  let ?b = "truncateUTF8 (redact env raw) (MaxStoredResponseLen (cfg c)) @ ''...(truncated)''"
  have body: "marshalStoredResponse env (cfg c) d = Some ?b"
    using assms(7-9) by (simp add: marshalStoredResponse_def Let_def)
  have "dropWhile is_space (rev (t @ ''...(truncated)'')) = rev (t @ ''...(truncated)'')" for t
    by (simp add: is_space_def)
  then have "TrimSpace ?b \<noteq> []"
    by (auto simp: TrimSpace_def is_space_def dropWhile_append)
  then have "(case decodeStoredResponse env (Some ?b) of None \<Rightarrow> Failed StoreUnavail | Some x \<Rightarrow> Replayed x)
      = Failed StoreUnavail" using assms(10) by (simp add: decodeStoredResponse_def)
  then show ?thesis
    using success_then_again [OF assms(1-6) body assms(11)] by metis
qed

theorem long_response_cannot_be_replayed_witness:
  "\<exists>s' s''. Execute example_codec sql_repo
        (example_coordinator\<lparr>cfg := DefaultIdempotencyConfig\<lparr>MaxStoredResponseLen := 2\<rparr>\<rparr>)
        True example_request (\<lambda>_. example_input 1) empty_table = (Done (Fresh ''[1]''), s') \<and>
    Execute example_codec sql_repo
        (example_coordinator\<lparr>cfg := DefaultIdempotencyConfig\<lparr>MaxStoredResponseLen := 2\<rparr>\<rparr>)
        True example_request (\<lambda>_. example_input 2) s' = (Done (Failed StoreUnavail), s'')"
  by (rule long_response_cannot_be_replayed [where l = "example_claim 1" and raw = "''[1]''"])
    (simp_all add: example_begins example_request_key table_ok_def empty_table_def
      row_of_def live_def TrimSpace_def is_space_def effective_ttl_def HasSuffix_def)

text \<open>C37. A record left in status processing (its request crashed, or its mark failed) blocks its key
  until it expires: every repetition is refused with the in-progress conflict, also after the
  processing lock of the record has run out, which is not looked at.\<close>
theorem abandoned_claim_blocks_until_expiry:
  assumes "table_ok s" "begin_request env c True opts (clock (inp 0)) = Create l" "live inp"
    and "row_of s (request_key env opts) = Some r" "RequestFingerprint r = fingerprint l"
    and "Status r = IdempotencyStatusProcessing" "clock (inp 0) < ExpiresAt r"
  shows "\<exists>s'. Execute env sql_repo c True opts inp s
      = (Done (Failed (conflictWithRetryAfter InProgress (LockedUntil r) (clock (inp 0)))), s') \<and>
    row_of s' = row_of s"
proof -
  have l: "(scope l, keyHash l) = request_key env opts" "now l = clock (inp 0)"
    using begin_request_cases [of env c True opts "clock (inp 0)"] assms(2) by auto
  have "dispatch env l r = Done (Failed (conflictWithRetryAfter InProgress (LockedUntil r) (now l)))"
    using assms(6) by (simp add: dispatch_def idem_status)
  from sql.Execute_existing [OF assms(1-3) _ assms(5) _ this] assms(4,7) l
  show ?thesis by auto
qed

theorem abandoned_claim_blocks_until_expiry_witness:
  "\<exists>s'. Execute example_codec sql_repo example_coordinator True example_request (\<lambda>_. example_input (3 * Hour))
      \<lparr>rows = [example_row], next_id = 2\<rparr> = (Done (Failed (InProgress (Some 1))), s')"
proof -
  have "\<exists>s'. Execute example_codec sql_repo example_coordinator True example_request
      (\<lambda>_. example_input (3 * Hour)) \<lparr>rows = [example_row], next_id = 2\<rparr>
      = (Done (Failed (conflictWithRetryAfter InProgress (LockedUntil example_row) (clock (example_input (3 * Hour))))), s')
      \<and> row_of s' = row_of \<lparr>rows = [example_row], next_id = 2\<rparr>"
    by (rule abandoned_claim_blocks_until_expiry [where l = "example_claim (3 * Hour)"])
      (simp_all add: example_begins example_request_key table_ok_def row_of_def row_key_def live_def
        example_row_def new_record_def, simp_all add: example_claim_def)
  then show ?thesis
    by (auto simp: example_row_def example_claim_def new_record_def conflictWithRetryAfter_def signed_divide_int_def)
qed


text \<open>\<open>truncateUTF8\<close> returns the longest prefix within the limit that is valid UTF-8, and a
  valid string loses less than one rune to the limit.\<close>
lemma truncateUTF8_longest_valid_prefix:
  assumes "0 < maxBytes" "maxBytes < int (length s)"
  shows "ValidString (truncateUTF8 s maxBytes) \<and> int (length (truncateUTF8 s maxBytes)) \<le> maxBytes \<and>
    (\<exists>r. s = truncateUTF8 s maxBytes @ r) \<and>
    (\<forall>m. int m \<le> maxBytes \<longrightarrow> ValidString (take m s) \<longrightarrow> m \<le> length (truncateUTF8 s maxBytes)) \<and>
    (ValidString s \<longrightarrow> maxBytes < int (length (truncateUTF8 s maxBytes)) + 4)"
proof -
  let ?n = "nat maxBytes" let ?k = "cut_back s ?n"
  have t: "truncateUTF8 s maxBytes = take ?k s" using assms by (simp add: truncateUTF8_def)
  note k = cut_back_props [of s ?n]
  have "?n \<le> length s" using assms by simp
  with k have len: "length (take ?k s) = ?k" by simp
  have near: "maxBytes < int ?k + 4" if "ValidString s"
  proof -
    have v: "valid_utf8 (map of_char s)" using that by (simp add: ValidString_def)
    obtain m where "m \<le> ?n" "?n < m + 4" "valid_utf8 (take m (map of_char s))"
      using valid_prefix_near [OF v, of ?n] \<open>?n \<le> length s\<close> by auto
    then show ?thesis using k assms by (auto simp: ValidString_def take_map)
  qed
  have "s = take ?k s @ drop ?k s" by simp
  then have "\<exists>r. s = take ?k s @ r" by blast
  moreover have "m \<le> ?k" if "int m \<le> maxBytes" "ValidString (take m s)" for m
    using k that assms by auto
  ultimately show ?thesis using t len k near assms by auto
qed

theorem truncateUTF8_longest_valid_prefix_witness:
  "ValidString (truncateUTF8 (''a'' @ map char_of [226 :: nat, 130, 172] @ ''b'') 3) \<and>
   truncateUTF8 (''a'' @ map char_of [226 :: nat, 130, 172] @ ''b'') 3 = ''a''"
proof
  show "ValidString (truncateUTF8 (''a'' @ map char_of [226 :: nat, 130, 172] @ ''b'') 3)"
    using truncateUTF8_longest_valid_prefix [of 3 "''a'' @ map char_of [226 :: nat, 130, 172] @ ''b''"] by simp
  show "truncateUTF8 (''a'' @ map char_of [226 :: nat, 130, 172] @ ''b'') 3 = ''a''" by code_simp
qed

end
