(* ===== verification/ConcurrencyCache.thy ===== *)
theory ConcurrencyCache
  imports Prelude
begin

text \<open>
  The Redis side of concurrency control: \<open>internal/repository/concurrency_cache.go\<close>, its Lua
  scripts and the methods that run them.

  Redis is not part of the repository: its commands are the fields of the record \<open>redis\<close>, a
  parameter of every definition, and what the code relies on are the laws of the locale
  \<open>redis_store\<close>, stated over the sorted sets and counters a store holds. A script runs atomically, so
  it is a function on the store.

  Every command of a method can fail in two ways (\<open>reply\<close>): it does not reach the server, or it runs
  there and its answer is lost. \<open>clock e k\<close> is the server's Unix time at the \<open>k\<close>-th
  command of a method, \<open>reply e k\<close> what becomes of that command. Logging is left out. Keys expire on the
  server by EXPIRE; the expiry itself is an event of the environment (\<open>KeyExpires\<close>).
\<close>

section \<open>Redis\<close>

record 's redis =
  ZREMRANGEBYSCORE :: "string \<Rightarrow> int \<Rightarrow> 's \<Rightarrow> 's"
  ZSCORE :: "string \<Rightarrow> string \<Rightarrow> 's \<Rightarrow> int option"
  ZADD :: "string \<Rightarrow> int \<Rightarrow> string \<Rightarrow> 's \<Rightarrow> 's"
  ZREM :: "string \<Rightarrow> string \<Rightarrow> 's \<Rightarrow> int \<times> 's"
  ZCARD :: "string \<Rightarrow> 's \<Rightarrow> int"
  ZRANGE :: "string \<Rightarrow> 's \<Rightarrow> string list"
  ZRANGEBYSCORE :: "string \<Rightarrow> int \<Rightarrow> nat \<Rightarrow> 's \<Rightarrow> string list"
  GET :: "string \<Rightarrow> 's \<Rightarrow> int option"
  INCR :: "string \<Rightarrow> 's \<Rightarrow> 's"
  DECR :: "string \<Rightarrow> 's \<Rightarrow> 's"
  DEL :: "string \<Rightarrow> 's \<Rightarrow> 's"
  EXPIRE :: "string \<Rightarrow> int \<Rightarrow> 's \<Rightarrow> 's"

text \<open>Removing the members of a sorted set whose score is at most \<open>b\<close>.\<close>

definition reap :: "int \<Rightarrow> (string \<Rightarrow> int option) \<Rightarrow> (string \<Rightarrow> int option)" where
  "reap b m = (\<lambda>x. case m x of Some sc \<Rightarrow> if sc \<le> b then None else Some sc | None \<Rightarrow> None)"

text \<open>
  The laws: \<open>zs s k\<close> is the sorted set at key \<open>k\<close>, from members to scores, \<open>ctr s k\<close> the number
  stored at \<open>k\<close>. Commands change no other key, and EXPIRE changes no value.
\<close>

locale redis_store =
  fixes R :: "'s redis"
    and zs :: "'s \<Rightarrow> string \<Rightarrow> string \<Rightarrow> int option"
    and ctr :: "'s \<Rightarrow> string \<Rightarrow> int option"
  assumes fin [simp]: "finite (dom (zs s k))"
    and zremrange [simp]: "zs (ZREMRANGEBYSCORE R k b s) = (zs s)(k := reap b (zs s k))"
    and zremrange_ctr [simp]: "ctr (ZREMRANGEBYSCORE R k b s) = ctr s"
    and zscore [simp]: "ZSCORE R k m s = zs s k m"
    and zadd [simp]: "zs (ZADD R k sc m s) = (zs s)(k := (zs s k)(m \<mapsto> sc))"
    and zadd_ctr [simp]: "ctr (ZADD R k sc m s) = ctr s"
    and zrem [simp]: "fst (ZREM R k m s) = (if zs s k m = None then 0 else 1)"
      "zs (snd (ZREM R k m s)) = (zs s)(k := (zs s k)(m := None))"
    and zrem_ctr [simp]: "ctr (snd (ZREM R k m s)) = ctr s"
    and zcard [simp]: "ZCARD R k s = int (card (dom (zs s k)))"
    and zrange: "distinct (ZRANGE R k s)" "set (ZRANGE R k s) = dom (zs s k)"
    and zrangebyscore: "distinct (ZRANGEBYSCORE R k b n s)"
      "set (ZRANGEBYSCORE R k b n s) \<subseteq> {m. \<exists>sc. zs s k m = Some sc \<and> sc \<le> b}"
    and get [simp]: "GET R k s = ctr s k"
    and incr [simp]: "ctr (INCR R k s) = (ctr s)(k \<mapsto> (case ctr s k of None \<Rightarrow> 0 | Some v \<Rightarrow> v) + 1)"
      "zs (INCR R k s) = zs s"
    and decr [simp]: "ctr (DECR R k s) = (ctr s)(k \<mapsto> (case ctr s k of None \<Rightarrow> 0 | Some v \<Rightarrow> v) - 1)"
      "zs (DECR R k s) = zs s"
    and del [simp]: "zs (DEL R k s) = (zs s)(k := Map.empty)" "ctr (DEL R k s) = (ctr s)(k := None)"
    and expire [simp]: "zs (EXPIRE R k t s) = zs s" "ctr (EXPIRE R k t s) = ctr s"

datatype reply = Answered | ReplyLost | NotSent

record redis_env =
  clock :: "nat \<Rightarrow> int"
  reply :: "nat \<Rightarrow> reply"

definition call :: "reply \<Rightarrow> ('s \<Rightarrow> 'a \<times> 's) \<Rightarrow> 's \<Rightarrow> 'a option \<times> 's" where
  "call r f s =
     (case r of
        Answered \<Rightarrow> (Some (fst (f s)), snd (f s))
      | ReplyLost \<Rightarrow> (None, snd (f s))
      | NotSent \<Rightarrow> (None, s))"

section \<open>Keys\<close>

definition accountSlotKeyPrefix :: string where "accountSlotKeyPrefix = ''concurrency:account:''"
definition userSlotKeyPrefix :: string where "userSlotKeyPrefix = ''concurrency:user:''"
definition apiKeySlotKeyPrefix :: string where "apiKeySlotKeyPrefix = ''concurrency:api_key:''"
definition liveAccountSlotKeyPrefix :: string where "liveAccountSlotKeyPrefix = ''concurrency:live:account:''"
definition liveUserSlotKeyPrefix :: string where "liveUserSlotKeyPrefix = ''concurrency:live:user:''"
definition liveAPIKeySlotKeyPrefix :: string where "liveAPIKeySlotKeyPrefix = ''concurrency:live:api_key:''"
definition openAIWSIngressLeaseKeyPrefix :: string where
  "openAIWSIngressLeaseKeyPrefix = ''concurrency:openai_ws_ingress:api_key:''"
definition waitQueueKeyPrefix :: string where "waitQueueKeyPrefix = ''concurrency:wait:''"
definition accountWaitKeyPrefix :: string where "accountWaitKeyPrefix = ''wait:account:''"
definition accountActiveIndexKey :: string where "accountActiveIndexKey = ''concurrency:account:active_index''"
definition userActiveIndexKey :: string where "userActiveIndexKey = ''concurrency:user:active_index''"
definition openAIWSIngressLeaseTTLSeconds :: int where "openAIWSIngressLeaseTTLSeconds = 60"
definition liveLeaseTTLSeconds :: int where "liveLeaseTTLSeconds = 60"
definition defaultSlotTTLMinutes :: int where "defaultSlotTTLMinutes = 15"
definition activeIndexCleanupBatchSize :: nat where "activeIndexCleanupBatchSize = 1000"

definition accountSlotKey :: "ident \<Rightarrow> string" where "accountSlotKey i = accountSlotKeyPrefix @ FormatInt i"
definition userSlotKey :: "ident \<Rightarrow> string" where "userSlotKey i = userSlotKeyPrefix @ FormatInt i"
definition apiKeySlotKey :: "ident \<Rightarrow> string" where "apiKeySlotKey i = apiKeySlotKeyPrefix @ FormatInt i"
definition liveAccountSlotKey :: "ident \<Rightarrow> string" where "liveAccountSlotKey i = liveAccountSlotKeyPrefix @ FormatInt i"
definition liveUserSlotKey :: "ident \<Rightarrow> string" where "liveUserSlotKey i = liveUserSlotKeyPrefix @ FormatInt i"
definition liveAPIKeySlotKey :: "ident \<Rightarrow> string" where "liveAPIKeySlotKey i = liveAPIKeySlotKeyPrefix @ FormatInt i"
definition openAIWSIngressLeaseKey :: "ident \<Rightarrow> string" where
  "openAIWSIngressLeaseKey i = openAIWSIngressLeaseKeyPrefix @ FormatInt i"
definition waitQueueKey :: "ident \<Rightarrow> string" where "waitQueueKey i = waitQueueKeyPrefix @ FormatInt i"
definition accountWaitKey :: "ident \<Rightarrow> string" where "accountWaitKey i = accountWaitKeyPrefix @ FormatInt i"

lemmas key_prefixes = accountSlotKeyPrefix_def userSlotKeyPrefix_def apiKeySlotKeyPrefix_def
  liveAccountSlotKeyPrefix_def liveUserSlotKeyPrefix_def liveAPIKeySlotKeyPrefix_def
  openAIWSIngressLeaseKeyPrefix_def waitQueueKeyPrefix_def accountWaitKeyPrefix_def
  accountActiveIndexKey_def userActiveIndexKey_def
lemmas key_defs = accountSlotKey_def userSlotKey_def apiKeySlotKey_def liveAccountSlotKey_def
  liveUserSlotKey_def liveAPIKeySlotKey_def openAIWSIngressLeaseKey_def waitQueueKey_def accountWaitKey_def

section \<open>Scripts\<close>

definition acquireScript ::
  "'s redis \<Rightarrow> int \<Rightarrow> string \<Rightarrow> string \<Rightarrow> int \<Rightarrow> int \<Rightarrow> string \<Rightarrow> 's \<Rightarrow> (int \<times> int) \<times> 's" where
  "acquireScript R t key liveKey maxConcurrency ttl requestID s =
     (let s = ZREMRANGEBYSCORE R key (t - ttl) s;
          s = ZREMRANGEBYSCORE R liveKey (t - 60) s
      in if ZSCORE R key requestID s \<noteq> None then
           ((1, t), EXPIRE R key ttl (ZADD R key t requestID s))
         else if ZCARD R key s + ZCARD R liveKey s < maxConcurrency then
           ((1, t), EXPIRE R key ttl (ZADD R key t requestID s))
         else ((0, t), s))"

definition getCountScript :: "'s redis \<Rightarrow> int \<Rightarrow> string \<Rightarrow> string \<Rightarrow> int \<Rightarrow> 's \<Rightarrow> int \<times> 's" where
  "getCountScript R t key liveKey ttl s =
     (let s = ZREMRANGEBYSCORE R key (t - ttl) s;
          s = ZREMRANGEBYSCORE R liveKey (t - 60) s
      in (ZCARD R key s + ZCARD R liveKey s, s))"

definition acquireLiveLeaseScript ::
  "'s redis \<Rightarrow> int \<Rightarrow> string \<Rightarrow> string \<Rightarrow> string \<Rightarrow> string \<Rightarrow> string \<Rightarrow> int \<Rightarrow> int \<Rightarrow> int \<Rightarrow> string \<Rightarrow> int
     \<Rightarrow> 's \<Rightarrow> int \<times> 's" where
  "acquireLiveLeaseScript R t accountRegular accountLive userRegular userLive apiLive
       accountMax userMax ttl leaseID replacing s =
     (let s = ZREMRANGEBYSCORE R accountLive (t - ttl) s;
          s = ZREMRANGEBYSCORE R userLive (t - ttl) s;
          s = ZREMRANGEBYSCORE R apiLive (t - ttl) s
      in if ZSCORE R accountLive leaseID s \<noteq> None then (1, s)
         else
           let accountCount = ZCARD R accountRegular s + ZCARD R accountLive s;
               userCount = ZCARD R userRegular s + ZCARD R userLive s;
               allowance = (if replacing = 1 then 1 else 0)
           in if accountMax > 0 \<and> accountCount \<ge> accountMax + allowance then (0, s)
              else if userMax > 0 \<and> userCount \<ge> userMax + allowance then (0, s)
              else
                let s = ZADD R accountLive t leaseID s;
                    s = ZADD R userLive t leaseID s;
                    s = ZADD R apiLive t leaseID s
                in (1, EXPIRE R apiLive ttl (EXPIRE R userLive ttl (EXPIRE R accountLive ttl s))))"

text \<open>The first loop of the refresh script returns from the script at the first key without the lease.\<close>

fun refresh_check :: "'s redis \<Rightarrow> int \<Rightarrow> string \<Rightarrow> string list \<Rightarrow> 's \<Rightarrow> bool \<times> 's" where
  "refresh_check R expireBefore leaseID [] s = (True, s)"
| "refresh_check R expireBefore leaseID (key # keys) s =
     (let s = ZREMRANGEBYSCORE R key expireBefore s
      in if ZSCORE R key leaseID s = None then (False, s)
         else refresh_check R expireBefore leaseID keys s)"

definition refreshLiveLeaseScript ::
  "'s redis \<Rightarrow> int \<Rightarrow> string list \<Rightarrow> int \<Rightarrow> string \<Rightarrow> 's \<Rightarrow> int \<times> 's" where
  "refreshLiveLeaseScript R t keys ttl leaseID s =
     (case refresh_check R (t - ttl) leaseID keys s of
        (False, s) \<Rightarrow> (0, s)
      | (True, s) \<Rightarrow> (1, fold (\<lambda>key s. EXPIRE R key ttl (ZADD R key t leaseID s)) keys s))"

definition trackSlotScript :: "'s redis \<Rightarrow> int \<Rightarrow> string \<Rightarrow> int \<Rightarrow> string \<Rightarrow> 's \<Rightarrow> int \<times> 's" where
  "trackSlotScript R t key ttl requestID s =
     (let s = ZREMRANGEBYSCORE R key (t - ttl) s
      in (1, EXPIRE R key ttl (ZADD R key t requestID s)))"

definition acquireOpenAIWSIngressLeaseScript ::
  "'s redis \<Rightarrow> int \<Rightarrow> string \<Rightarrow> int \<Rightarrow> int \<Rightarrow> string \<Rightarrow> 's \<Rightarrow> int \<times> 's" where
  "acquireOpenAIWSIngressLeaseScript R t key maxConnections ttl leaseID s =
     (let s = ZREMRANGEBYSCORE R key (t - ttl) s
      in if ZSCORE R key leaseID s \<noteq> None then (1, EXPIRE R key ttl (ZADD R key t leaseID s))
         else if ZCARD R key s < maxConnections then (1, EXPIRE R key ttl (ZADD R key t leaseID s))
         else (0, s))"

definition refreshOpenAIWSIngressLeaseScript ::
  "'s redis \<Rightarrow> int \<Rightarrow> string \<Rightarrow> int \<Rightarrow> string \<Rightarrow> 's \<Rightarrow> int \<times> 's" where
  "refreshOpenAIWSIngressLeaseScript R t key ttl leaseID s =
     (let s = ZREMRANGEBYSCORE R key (t - ttl) s
      in if ZSCORE R key leaseID s = None then (0, s)
         else (1, EXPIRE R key ttl (ZADD R key t leaseID s)))"

definition incrementWaitScript :: "'s redis \<Rightarrow> int \<Rightarrow> string \<Rightarrow> int \<Rightarrow> int \<Rightarrow> 's \<Rightarrow> (int \<times> int) \<times> 's" where
  "incrementWaitScript R t key maxWait ttl s =
     (let current = (case GET R key s of None \<Rightarrow> 0 | Some v \<Rightarrow> v)
      in if current \<ge> maxWait then ((0, t), s)
         else ((1, t), EXPIRE R key ttl (INCR R key s)))"

definition incrementAccountWaitScript ::
  "'s redis \<Rightarrow> int \<Rightarrow> string \<Rightarrow> int \<Rightarrow> int \<Rightarrow> 's \<Rightarrow> (int \<times> int) \<times> 's" where
  "incrementAccountWaitScript R t key maxWait ttl s =
     (let current = (case GET R key s of None \<Rightarrow> 0 | Some v \<Rightarrow> v)
      in if current \<ge> maxWait then ((0, t), s)
         else ((1, t), EXPIRE R key ttl (INCR R key s)))"

definition decrementWaitScript :: "'s redis \<Rightarrow> string \<Rightarrow> 's \<Rightarrow> int \<times> 's" where
  "decrementWaitScript R key s =
     (1, case GET R key s of
           Some v \<Rightarrow> if v > 0 then DECR R key s else s
         | None \<Rightarrow> s)"

definition cleanupExpiredSlotsScript :: "'s redis \<Rightarrow> int \<Rightarrow> string \<Rightarrow> int \<Rightarrow> 's \<Rightarrow> int \<times> 's" where
  "cleanupExpiredSlotsScript R t key ttl s =
     (let s = ZREMRANGEBYSCORE R key (t - ttl) s
      in (1, if ZCARD R key s = 0 then DEL R key s else EXPIRE R key ttl s))"

fun startup_loop :: "'s redis \<Rightarrow> string \<Rightarrow> string \<Rightarrow> string list \<Rightarrow> int \<Rightarrow> 's \<Rightarrow> int \<times> 's" where
  "startup_loop R key activePrefix [] removed s = (removed, s)"
| "startup_loop R key activePrefix (m # ms) removed s =
     (if take (length activePrefix) m \<noteq> activePrefix then
        startup_loop R key activePrefix ms (removed + fst (ZREM R key m s)) (snd (ZREM R key m s))
      else startup_loop R key activePrefix ms removed s)"

definition startupCleanupSlotScript :: "'s redis \<Rightarrow> string \<Rightarrow> string \<Rightarrow> int \<Rightarrow> 's \<Rightarrow> (int \<times> int) \<times> 's" where
  "startupCleanupSlotScript R key activePrefix slotTTL s =
     (let (removed, s) = startup_loop R key activePrefix (ZRANGE R key s) 0 s;
          remaining = ZCARD R key s
      in ((removed, remaining), if remaining = 0 then DEL R key s else EXPIRE R key slotTTL s))"

section \<open>The cache\<close>

record concurrencyCache =
  slotTTLSeconds :: int
  waitQueueTTLSeconds :: int

definition NewConcurrencyCache :: "int \<Rightarrow> int \<Rightarrow> concurrencyCache" where
  "NewConcurrencyCache slotTTLMinutes waitTTL =
     (let slotTTLMinutes = (if slotTTLMinutes \<le> 0 then defaultSlotTTLMinutes else slotTTLMinutes);
          waitTTL = (if waitTTL \<le> 0 then slotTTLMinutes * 60 else waitTTL)
      in \<lparr>slotTTLSeconds = slotTTLMinutes * 60, waitQueueTTLSeconds = waitTTL\<rparr>)"

text \<open>Commands without an answer the code reads, and commands that only read.\<close>

definition cmd :: "reply \<Rightarrow> ('s \<Rightarrow> 's) \<Rightarrow> 's \<Rightarrow> unit option \<times> 's" where
  "cmd r f = call r (\<lambda>s. ((), f s))"

definition ask :: "reply \<Rightarrow> ('s \<Rightarrow> 'a) \<Rightarrow> 's \<Rightarrow> 'a option" where
  "ask r f s = fst (call r (\<lambda>s. (f s, s)) s)"

subsection \<open>The active index\<close>

record slotIndexSpec =
  indexKey :: string
  slotKey :: "ident \<Rightarrow> string"
  waitKey :: "ident \<Rightarrow> string"

definition accountSlotIndex :: slotIndexSpec where
  "accountSlotIndex = \<lparr>indexKey = accountActiveIndexKey, slotKey = accountSlotKey, waitKey = accountWaitKey\<rparr>"

definition userSlotIndex :: slotIndexSpec where
  "userSlotIndex = \<lparr>indexKey = userActiveIndexKey, slotKey = userSlotKey, waitKey = waitQueueKey\<rparr>"

definition touchActiveIndexAt :: "'s redis \<Rightarrow> reply \<Rightarrow> string \<Rightarrow> ident \<Rightarrow> int \<Rightarrow> 's \<Rightarrow> 's" where
  "touchActiveIndexAt R r index i expireAt s =
     (if i \<le> 0 \<or> expireAt \<le> 0 then s
      else snd (cmd r (ZADD R index expireAt (FormatInt i)) s))"

record activeIndexLoad =
  load_id :: ident
  member :: string
  slotCount :: int
  waitCount :: int

definition activeIndexTTL :: "concurrencyCache \<Rightarrow> int \<Rightarrow> int \<Rightarrow> int" where
  "activeIndexTTL c slots waits =
     (let ttlSeconds = (if slots > 0 then slotTTLSeconds c else 0)
      in if waits > 0 \<and> waitQueueTTLSeconds c > ttlSeconds then waitQueueTTLSeconds c else ttlSeconds)"

text \<open>A pipeline is one round trip: its commands all run or none does.\<close>

definition readActiveLoadForKey ::
  "'s redis \<Rightarrow> concurrencyCache \<Rightarrow> reply \<Rightarrow> ident \<Rightarrow> string \<Rightarrow> string \<Rightarrow> int \<Rightarrow> 's \<Rightarrow> activeIndexLoad option \<times> 's" where
  "readActiveLoadForKey R c r i slot_key wait_key t =
     call r (\<lambda>s.
       let s = ZREMRANGEBYSCORE R slot_key (t - slotTTLSeconds c) s;
           waits = (case GET R wait_key s of Some v \<Rightarrow> if v > 0 then v else 0 | None \<Rightarrow> 0)
       in (\<lparr>load_id = i, member = FormatInt i, slotCount = ZCARD R slot_key s, waitCount = waits\<rparr>, s))"

text \<open>The commands are TIME (\<open>k\<close>), the pipeline (\<open>k + 1\<close>) and the index update (\<open>k + 2\<close>).\<close>

definition refreshActiveIndex ::
  "'s redis \<Rightarrow> concurrencyCache \<Rightarrow> redis_env \<Rightarrow> nat \<Rightarrow> string \<Rightarrow> ident \<Rightarrow> string \<Rightarrow> string \<Rightarrow> 's \<Rightarrow> 's" where
  "refreshActiveIndex R c e k index i slot_key wait_key s =
     (if i \<le> 0 then s
      else if reply e k \<noteq> Answered then s
      else
        let t = clock e k in
        case readActiveLoadForKey R c (reply e (k + 1)) i slot_key wait_key t s of
          (None, s) \<Rightarrow> s
        | (Some load, s) \<Rightarrow>
            if slotCount load = 0 \<and> waitCount load \<le> 0 then
              snd (call (reply e (k + 2)) (ZREM R index (FormatInt i)) s)
            else
              let ttlSeconds = activeIndexTTL c (slotCount load) (waitCount load)
              in if ttlSeconds \<le> 0 then s
                 else touchActiveIndexAt R (reply e (k + 2)) index i (t + ttlSeconds) s)"

definition refreshAccountActiveIndex :: "'s redis \<Rightarrow> concurrencyCache \<Rightarrow> redis_env \<Rightarrow> nat \<Rightarrow> ident \<Rightarrow> 's \<Rightarrow> 's" where
  "refreshAccountActiveIndex R c e k i =
     refreshActiveIndex R c e k accountActiveIndexKey i (accountSlotKey i) (accountWaitKey i)"

definition refreshUserActiveIndex :: "'s redis \<Rightarrow> concurrencyCache \<Rightarrow> redis_env \<Rightarrow> nat \<Rightarrow> ident \<Rightarrow> 's \<Rightarrow> 's" where
  "refreshUserActiveIndex R c e k i =
     refreshActiveIndex R c e k userActiveIndexKey i (userSlotKey i) (waitQueueKey i)"

subsection \<open>Account, user and API key slots\<close>

text \<open>Answers are \<open>None\<close> for an error.\<close>

definition AcquireAccountSlot ::
  "'s redis \<Rightarrow> concurrencyCache \<Rightarrow> redis_env \<Rightarrow> ident \<Rightarrow> int \<Rightarrow> string \<Rightarrow> 's \<Rightarrow> bool option \<times> 's" where
  "AcquireAccountSlot R c e accountID maxConcurrency requestID s =
     (case call (reply e 0) (acquireScript R (clock e 0) (accountSlotKey accountID)
             (liveAccountSlotKey accountID) maxConcurrency (slotTTLSeconds c) requestID) s of
        (None, s) \<Rightarrow> (None, s)
      | (Some (res, t), s) \<Rightarrow>
          (Some (res = 1),
           if res = 1 then touchActiveIndexAt R (reply e 1) accountActiveIndexKey accountID
                             (t + slotTTLSeconds c) s
           else s))"

definition ReleaseAccountSlot ::
  "'s redis \<Rightarrow> concurrencyCache \<Rightarrow> redis_env \<Rightarrow> ident \<Rightarrow> string \<Rightarrow> 's \<Rightarrow> unit option \<times> 's" where
  "ReleaseAccountSlot R c e accountID requestID s =
     (case call (reply e 0) (ZREM R (accountSlotKey accountID) requestID) s of
        (None, s) \<Rightarrow> (None, s)
      | (Some _, s) \<Rightarrow> (Some (), refreshAccountActiveIndex R c e 1 accountID s))"

definition GetAccountConcurrency ::
  "'s redis \<Rightarrow> concurrencyCache \<Rightarrow> redis_env \<Rightarrow> ident \<Rightarrow> 's \<Rightarrow> int option \<times> 's" where
  "GetAccountConcurrency R c e accountID =
     call (reply e 0) (getCountScript R (clock e 0) (accountSlotKey accountID)
       (liveAccountSlotKey accountID) (slotTTLSeconds c))"

text \<open>One entry of the pipelines that count slots: reap both sets, then read their sizes.\<close>

definition count_slots :: "'s redis \<Rightarrow> concurrencyCache \<Rightarrow> int \<Rightarrow> string \<Rightarrow> string \<Rightarrow> 's \<Rightarrow> int \<times> 's" where
  "count_slots R c t slot_key live_key s =
     (let s = ZREMRANGEBYSCORE R slot_key (t - slotTTLSeconds c) s;
          s = ZREMRANGEBYSCORE R live_key (t - liveLeaseTTLSeconds) s
      in (ZCARD R slot_key s + ZCARD R live_key s, s))"

fun count_all ::
  "'s redis \<Rightarrow> concurrencyCache \<Rightarrow> int \<Rightarrow> (ident \<Rightarrow> string) \<Rightarrow> (ident \<Rightarrow> string) \<Rightarrow> ident list \<Rightarrow> 's
     \<Rightarrow> (ident \<rightharpoonup> int) \<times> 's" where
  "count_all R c t slot live [] s = (Map.empty, s)"
| "count_all R c t slot live (i # is) s =
     (let (n, s) = count_slots R c t (slot i) (live i) s;
          (m, s) = count_all R c t slot live is s
      in (if m i = None then m(i \<mapsto> n) else m, s))"

definition GetAccountConcurrencyBatch ::
  "'s redis \<Rightarrow> concurrencyCache \<Rightarrow> redis_env \<Rightarrow> ident list \<Rightarrow> 's \<Rightarrow> (ident \<rightharpoonup> int) option \<times> 's" where
  "GetAccountConcurrencyBatch R c e accountIDs s =
     (if accountIDs = [] then (Some Map.empty, s)
      else if reply e 0 \<noteq> Answered then (None, s)
      else call (reply e 1) (count_all R c (clock e 0) accountSlotKey liveAccountSlotKey accountIDs) s)"

definition AcquireUserSlot ::
  "'s redis \<Rightarrow> concurrencyCache \<Rightarrow> redis_env \<Rightarrow> ident \<Rightarrow> int \<Rightarrow> string \<Rightarrow> 's \<Rightarrow> bool option \<times> 's" where
  "AcquireUserSlot R c e userID maxConcurrency requestID s =
     (case call (reply e 0) (acquireScript R (clock e 0) (userSlotKey userID)
             (liveUserSlotKey userID) maxConcurrency (slotTTLSeconds c) requestID) s of
        (None, s) \<Rightarrow> (None, s)
      | (Some (res, t), s) \<Rightarrow>
          (Some (res = 1),
           if res = 1 then touchActiveIndexAt R (reply e 1) userActiveIndexKey userID
                             (t + slotTTLSeconds c) s
           else s))"

definition ReleaseUserSlot ::
  "'s redis \<Rightarrow> concurrencyCache \<Rightarrow> redis_env \<Rightarrow> ident \<Rightarrow> string \<Rightarrow> 's \<Rightarrow> unit option \<times> 's" where
  "ReleaseUserSlot R c e userID requestID s =
     (case call (reply e 0) (ZREM R (userSlotKey userID) requestID) s of
        (None, s) \<Rightarrow> (None, s)
      | (Some _, s) \<Rightarrow> (Some (), refreshUserActiveIndex R c e 1 userID s))"

definition GetUserConcurrency ::
  "'s redis \<Rightarrow> concurrencyCache \<Rightarrow> redis_env \<Rightarrow> ident \<Rightarrow> 's \<Rightarrow> int option \<times> 's" where
  "GetUserConcurrency R c e userID =
     call (reply e 0) (getCountScript R (clock e 0) (userSlotKey userID)
       (liveUserSlotKey userID) (slotTTLSeconds c))"

definition TrackAPIKeySlot ::
  "'s redis \<Rightarrow> concurrencyCache \<Rightarrow> redis_env \<Rightarrow> ident \<Rightarrow> string \<Rightarrow> 's \<Rightarrow> int option \<times> 's" where
  "TrackAPIKeySlot R c e apiKeyID requestID =
     call (reply e 0) (trackSlotScript R (clock e 0) (apiKeySlotKey apiKeyID) (slotTTLSeconds c) requestID)"

definition ReleaseAPIKeySlot :: "'s redis \<Rightarrow> redis_env \<Rightarrow> ident \<Rightarrow> string \<Rightarrow> 's \<Rightarrow> int option \<times> 's" where
  "ReleaseAPIKeySlot R e apiKeyID requestID = call (reply e 0) (ZREM R (apiKeySlotKey apiKeyID) requestID)"

definition GetAPIKeyConcurrencyBatch ::
  "'s redis \<Rightarrow> concurrencyCache \<Rightarrow> redis_env \<Rightarrow> ident list \<Rightarrow> 's \<Rightarrow> (ident \<rightharpoonup> int) option \<times> 's" where
  "GetAPIKeyConcurrencyBatch R c e apiKeyIDs s =
     (if apiKeyIDs = [] then (Some Map.empty, s)
      else if reply e 0 \<noteq> Answered then (None, s)
      else call (reply e 1) (count_all R c (clock e 0) apiKeySlotKey liveAPIKeySlotKey apiKeyIDs) s)"

subsection \<open>Leases\<close>

definition AcquireOpenAIWSIngressLease ::
  "'s redis \<Rightarrow> redis_env \<Rightarrow> ident \<Rightarrow> int \<Rightarrow> string \<Rightarrow> 's \<Rightarrow> bool option \<times> 's" where
  "AcquireOpenAIWSIngressLease R e apiKeyID maxConnections leaseID s =
     (if apiKeyID \<le> 0 \<or> maxConnections \<le> 0 \<or> leaseID = [] then (Some False, s)
      else case call (reply e 0) (acquireOpenAIWSIngressLeaseScript R (clock e 0)
             (openAIWSIngressLeaseKey apiKeyID) maxConnections openAIWSIngressLeaseTTLSeconds leaseID) s of
        (None, s) \<Rightarrow> (None, s)
      | (Some res, s) \<Rightarrow> (Some (res = 1), s))"

definition RefreshOpenAIWSIngressLease ::
  "'s redis \<Rightarrow> redis_env \<Rightarrow> ident \<Rightarrow> string \<Rightarrow> 's \<Rightarrow> bool option \<times> 's" where
  "RefreshOpenAIWSIngressLease R e apiKeyID leaseID s =
     (if apiKeyID \<le> 0 \<or> leaseID = [] then (Some False, s)
      else case call (reply e 0) (refreshOpenAIWSIngressLeaseScript R (clock e 0)
             (openAIWSIngressLeaseKey apiKeyID) openAIWSIngressLeaseTTLSeconds leaseID) s of
        (None, s) \<Rightarrow> (None, s)
      | (Some res, s) \<Rightarrow> (Some (res = 1), s))"

definition ReleaseOpenAIWSIngressLease ::
  "'s redis \<Rightarrow> redis_env \<Rightarrow> ident \<Rightarrow> string \<Rightarrow> 's \<Rightarrow> unit option \<times> 's" where
  "ReleaseOpenAIWSIngressLease R e apiKeyID leaseID s =
     (if apiKeyID \<le> 0 \<or> leaseID = [] then (Some (), s)
      else cmd (reply e 0) (\<lambda>s. snd (ZREM R (openAIWSIngressLeaseKey apiKeyID) leaseID s)) s)"

definition AcquireLiveLease ::
  "'s redis \<Rightarrow> redis_env \<Rightarrow> ident \<Rightarrow> int \<Rightarrow> ident \<Rightarrow> int \<Rightarrow> ident \<Rightarrow> string \<Rightarrow> bool \<Rightarrow> 's \<Rightarrow> bool option \<times> 's" where
  "AcquireLiveLease R e accountID accountMax userID userMax apiKeyID leaseID replacingRegularSlots s =
     (if accountID \<le> 0 \<or> userID \<le> 0 \<or> apiKeyID \<le> 0 \<or> leaseID = [] then (Some False, s)
      else case call (reply e 0) (acquireLiveLeaseScript R (clock e 0) (accountSlotKey accountID)
             (liveAccountSlotKey accountID) (userSlotKey userID) (liveUserSlotKey userID)
             (liveAPIKeySlotKey apiKeyID) accountMax userMax liveLeaseTTLSeconds leaseID
             (if replacingRegularSlots then 1 else 0)) s of
        (None, s) \<Rightarrow> (None, s)
      | (Some res, s) \<Rightarrow> (Some (res = 1), s))"

definition RefreshLiveLease ::
  "'s redis \<Rightarrow> redis_env \<Rightarrow> ident \<Rightarrow> ident \<Rightarrow> ident \<Rightarrow> string \<Rightarrow> 's \<Rightarrow> bool option \<times> 's" where
  "RefreshLiveLease R e accountID userID apiKeyID leaseID s =
     (if leaseID = [] then (Some False, s)
      else case call (reply e 0) (refreshLiveLeaseScript R (clock e 0)
             [liveAccountSlotKey accountID, liveUserSlotKey userID, liveAPIKeySlotKey apiKeyID]
             liveLeaseTTLSeconds leaseID) s of
        (None, s) \<Rightarrow> (None, s)
      | (Some res, s) \<Rightarrow> (Some (res = 1), s))"

definition ReleaseLiveLease ::
  "'s redis \<Rightarrow> redis_env \<Rightarrow> ident \<Rightarrow> ident \<Rightarrow> ident \<Rightarrow> string \<Rightarrow> 's \<Rightarrow> unit option \<times> 's" where
  "ReleaseLiveLease R e accountID userID apiKeyID leaseID s =
     (if leaseID = [] then (Some (), s)
      else cmd (reply e 0)
        (\<lambda>s. snd (ZREM R (liveAPIKeySlotKey apiKeyID) leaseID
               (snd (ZREM R (liveUserSlotKey userID) leaseID
                 (snd (ZREM R (liveAccountSlotKey accountID) leaseID s)))))) s)"

subsection \<open>Wait queues\<close>

definition IncrementWaitCount ::
  "'s redis \<Rightarrow> concurrencyCache \<Rightarrow> redis_env \<Rightarrow> ident \<Rightarrow> int \<Rightarrow> 's \<Rightarrow> bool option \<times> 's" where
  "IncrementWaitCount R c e userID maxWait s =
     (case call (reply e 0) (incrementWaitScript R (clock e 0) (waitQueueKey userID) maxWait
             (waitQueueTTLSeconds c)) s of
        (None, s) \<Rightarrow> (None, s)
      | (Some (res, t), s) \<Rightarrow>
          (Some (res = 1),
           if res = 1 then touchActiveIndexAt R (reply e 1) userActiveIndexKey userID
                             (t + waitQueueTTLSeconds c) s
           else s))"

definition DecrementWaitCount ::
  "'s redis \<Rightarrow> concurrencyCache \<Rightarrow> redis_env \<Rightarrow> ident \<Rightarrow> 's \<Rightarrow> unit option \<times> 's" where
  "DecrementWaitCount R c e userID s =
     (case call (reply e 0) (decrementWaitScript R (waitQueueKey userID)) s of
        (None, s) \<Rightarrow> (None, s)
      | (Some _, s) \<Rightarrow> (Some (), refreshUserActiveIndex R c e 1 userID s))"

definition IncrementAccountWaitCount ::
  "'s redis \<Rightarrow> concurrencyCache \<Rightarrow> redis_env \<Rightarrow> ident \<Rightarrow> int \<Rightarrow> 's \<Rightarrow> bool option \<times> 's" where
  "IncrementAccountWaitCount R c e accountID maxWait s =
     (case call (reply e 0) (incrementAccountWaitScript R (clock e 0) (accountWaitKey accountID) maxWait
             (waitQueueTTLSeconds c)) s of
        (None, s) \<Rightarrow> (None, s)
      | (Some (res, t), s) \<Rightarrow>
          (Some (res = 1),
           if res = 1 then touchActiveIndexAt R (reply e 1) accountActiveIndexKey accountID
                             (t + waitQueueTTLSeconds c) s
           else s))"

definition DecrementAccountWaitCount ::
  "'s redis \<Rightarrow> concurrencyCache \<Rightarrow> redis_env \<Rightarrow> ident \<Rightarrow> 's \<Rightarrow> unit option \<times> 's" where
  "DecrementAccountWaitCount R c e accountID s =
     (case call (reply e 0) (decrementWaitScript R (accountWaitKey accountID)) s of
        (None, s) \<Rightarrow> (None, s)
      | (Some _, s) \<Rightarrow> (Some (), refreshAccountActiveIndex R c e 1 accountID s))"

definition GetAccountWaitingCount :: "'s redis \<Rightarrow> redis_env \<Rightarrow> ident \<Rightarrow> 's \<Rightarrow> int option" where
  "GetAccountWaitingCount R e accountID s =
     (case ask (reply e 0) (GET R (accountWaitKey accountID)) s of
        None \<Rightarrow> None
      | Some None \<Rightarrow> Some 0
      | Some (Some v) \<Rightarrow> Some v)"

subsection \<open>Load of accounts and users\<close>

record with_concurrency =
  wc_id :: ident
  MaxConcurrency :: int

record load_info =
  info_id :: ident
  CurrentConcurrency :: int
  WaitingCount :: int
  LoadRate :: int

definition load_one ::
  "'s redis \<Rightarrow> concurrencyCache \<Rightarrow> int \<Rightarrow> (ident \<Rightarrow> string) \<Rightarrow> (ident \<Rightarrow> string) \<Rightarrow> (ident \<Rightarrow> string) \<Rightarrow>
   with_concurrency \<Rightarrow> 's \<Rightarrow> load_info \<times> 's" where
  "load_one R c t slot live wait_key acc s =
     (let i = wc_id acc;
          (currentConcurrency, s) = count_slots R c t (slot i) (live i) s;
          waitingCount = (case GET R (wait_key i) s of Some v \<Rightarrow> v | None \<Rightarrow> 0);
          loadRate = (if MaxConcurrency acc > 0
                      then (currentConcurrency + waitingCount) * 100 sdiv MaxConcurrency acc else 0)
      in (\<lparr>info_id = i, CurrentConcurrency = currentConcurrency, WaitingCount = waitingCount,
           LoadRate = loadRate\<rparr>, s))"

fun load_all ::
  "'s redis \<Rightarrow> concurrencyCache \<Rightarrow> int \<Rightarrow> (ident \<Rightarrow> string) \<Rightarrow> (ident \<Rightarrow> string) \<Rightarrow> (ident \<Rightarrow> string) \<Rightarrow>
   with_concurrency list \<Rightarrow> 's \<Rightarrow> (ident \<rightharpoonup> load_info) \<times> 's" where
  "load_all R c t slot live wait_key [] s = (Map.empty, s)"
| "load_all R c t slot live wait_key (acc # accs) s =
     (let (li, s) = load_one R c t slot live wait_key acc s;
          (m, s) = load_all R c t slot live wait_key accs s
      in (if m (wc_id acc) = None then m(wc_id acc \<mapsto> li) else m, s))"

definition GetAccountsLoadBatch ::
  "'s redis \<Rightarrow> concurrencyCache \<Rightarrow> redis_env \<Rightarrow> with_concurrency list \<Rightarrow> 's
     \<Rightarrow> (ident \<rightharpoonup> load_info) option \<times> 's" where
  "GetAccountsLoadBatch R c e accounts s =
     (if accounts = [] then (Some Map.empty, s)
      else if reply e 0 \<noteq> Answered then (None, s)
      else call (reply e 1)
             (load_all R c (clock e 0) accountSlotKey liveAccountSlotKey accountWaitKey accounts) s)"

definition GetUsersLoadBatch ::
  "'s redis \<Rightarrow> concurrencyCache \<Rightarrow> redis_env \<Rightarrow> with_concurrency list \<Rightarrow> 's
     \<Rightarrow> (ident \<rightharpoonup> load_info) option \<times> 's" where
  "GetUsersLoadBatch R c e users s =
     (if users = [] then (Some Map.empty, s)
      else if reply e 0 \<noteq> Answered then (None, s)
      else call (reply e 1)
             (load_all R c (clock e 0) userSlotKey liveUserSlotKey waitQueueKey users) s)"

subsection \<open>Cleanup\<close>

definition CleanupExpiredAccountSlots ::
  "'s redis \<Rightarrow> concurrencyCache \<Rightarrow> redis_env \<Rightarrow> ident \<Rightarrow> 's \<Rightarrow> unit option \<times> 's" where
  "CleanupExpiredAccountSlots R c e accountID s =
     (case call (reply e 0) (cleanupExpiredSlotsScript R (clock e 0) (accountSlotKey accountID)
             (slotTTLSeconds c)) s of
        (None, s) \<Rightarrow> (None, s)
      | (Some _, s) \<Rightarrow> (Some (), refreshAccountActiveIndex R c e 1 accountID s))"

text \<open>
  \<open>readIndexLoads\<close> reads the candidates in chunks of one pipeline each; the \<open>j\<close>-th chunk is the
  command \<open>k + j\<close>. Members that are not positive numbers are stale.
\<close>

definition activeIndexPipelineChunkSize :: nat where "activeIndexPipelineChunkSize = 500"

fun candidates :: "string list \<Rightarrow> (ident \<times> string) list \<times> string list" where
  "candidates [] = ([], [])"
| "candidates (m # ms) =
     (let (cs, stale) = candidates ms in
      case ParseInt m of
        None \<Rightarrow> (cs, m # stale)
      | Some i \<Rightarrow> if i \<le> 0 then (cs, m # stale) else ((i, m) # cs, stale))"

fun read_chunk ::
  "'s redis \<Rightarrow> concurrencyCache \<Rightarrow> slotIndexSpec \<Rightarrow> int \<Rightarrow> (ident \<times> string) list \<Rightarrow> 's \<Rightarrow> activeIndexLoad list \<times> 's" where
  "read_chunk R c spec t [] s = ([], s)"
| "read_chunk R c spec t ((i, m) # cs) s =
     (let s = ZREMRANGEBYSCORE R (slotKey spec i) (t - slotTTLSeconds c) s;
          waits = (case GET R (waitKey spec i) s of Some v \<Rightarrow> if v > 0 then v else 0 | None \<Rightarrow> 0);
          load = \<lparr>load_id = i, member = m, slotCount = ZCARD R (slotKey spec i) s, waitCount = waits\<rparr>;
          (loads, s) = read_chunk R c spec t cs s
      in (load # loads, s))"

function read_chunks ::
  "'s redis \<Rightarrow> concurrencyCache \<Rightarrow> slotIndexSpec \<Rightarrow> redis_env \<Rightarrow> nat \<Rightarrow> int \<Rightarrow> (ident \<times> string) list \<Rightarrow> 's
     \<Rightarrow> activeIndexLoad list option \<times> 's" where
  "read_chunks R c spec e k t cs s =
     (if cs = [] then (Some [], s)
      else case call (reply e k) (read_chunk R c spec t (take activeIndexPipelineChunkSize cs)) s of
        (None, s) \<Rightarrow> (None, s)
      | (Some loads, s) \<Rightarrow>
          (case read_chunks R c spec e (k + 1) t (drop activeIndexPipelineChunkSize cs) s of
             (None, s) \<Rightarrow> (None, s)
           | (Some rest, s) \<Rightarrow> (Some (loads @ rest), s)))"
  by pat_completeness auto
termination by (relation "measure (\<lambda>(_, _, _, _, _, _, cs, _). length cs)")
    (auto simp: activeIndexPipelineChunkSize_def)

declare read_chunks.simps [simp del]

definition readIndexLoads ::
  "'s redis \<Rightarrow> concurrencyCache \<Rightarrow> slotIndexSpec \<Rightarrow> redis_env \<Rightarrow> nat \<Rightarrow> string list \<Rightarrow> int \<Rightarrow> 's
     \<Rightarrow> (activeIndexLoad list \<times> string list) option \<times> 's" where
  "readIndexLoads R c spec e k members t s =
     (let (cs, stale) = candidates members in
      case read_chunks R c spec e k t cs s of
        (None, s) \<Rightarrow> (None, s)
      | (Some loads, s) \<Rightarrow> (Some (loads, stale), s))"

definition zadd_all :: "'s redis \<Rightarrow> string \<Rightarrow> (int \<times> string) list \<Rightarrow> 's \<Rightarrow> 's" where
  "zadd_all R key zs s = fold (\<lambda>(sc, m) s. ZADD R key sc m s) zs s"

definition zrem_all :: "'s redis \<Rightarrow> string \<Rightarrow> string list \<Rightarrow> 's \<Rightarrow> 's" where
  "zrem_all R key ms s = fold (\<lambda>m s. snd (ZREM R key m s)) ms s"

definition removeActiveIndexMembers :: "'s redis \<Rightarrow> reply \<Rightarrow> string \<Rightarrow> string list \<Rightarrow> 's \<Rightarrow> 's" where
  "removeActiveIndexMembers R r index members s =
     (if members = [] then s else snd (cmd r (zrem_all R index members) s))"

text \<open>The loop of \<open>reconcileExpiredIndexCandidates\<close>: members to refresh with their scores, stale members.\<close>

fun sort_loads ::
  "concurrencyCache \<Rightarrow> int \<Rightarrow> activeIndexLoad list \<Rightarrow> (int \<times> string) list \<times> string list" where
  "sort_loads c t [] = ([], [])"
| "sort_loads c t (l # ls) =
     (let (refreshed, stale) = sort_loads c t ls in
      if slotCount l = 0 \<and> waitCount l \<le> 0 then (refreshed, member l # stale)
      else ((t + activeIndexTTL c (slotCount l) (waitCount l), member l) # refreshed, stale))"

text \<open>
  The commands: TIME (\<open>k\<close>), ZRANGEBYSCORE (\<open>k + 1\<close>), ZADD (\<open>k + 2\<close>), ZREM (\<open>k + 3\<close>), the
  pipelines from \<open>k + 4\<close> on.
\<close>

definition reconcileExpiredIndexCandidates ::
  "'s redis \<Rightarrow> concurrencyCache \<Rightarrow> redis_env \<Rightarrow> nat \<Rightarrow> slotIndexSpec \<Rightarrow> 's \<Rightarrow> unit option \<times> 's" where
  "reconcileExpiredIndexCandidates R c e k spec s =
     (if reply e k \<noteq> Answered then (None, s)
      else
        let t = clock e k in
        case ask (reply e (k + 1)) (ZRANGEBYSCORE R (indexKey spec) t activeIndexCleanupBatchSize) s of
          None \<Rightarrow> (None, s)
        | Some members \<Rightarrow>
            (case readIndexLoads R c spec e (k + 4) members t s of
               (None, s) \<Rightarrow> (None, s)
             | (Some (loads, stale), s) \<Rightarrow>
                 let (refreshed, stale') = sort_loads c t loads;
                     s = (if refreshed = [] then s
                          else snd (cmd (reply e (k + 2)) (zadd_all R (indexKey spec) refreshed) s))
                 in (Some (), removeActiveIndexMembers R (reply e (k + 3)) (indexKey spec) (stale @ stale') s)))"

text \<open>The batch is bounded, so eight commands per index leave room for all pipelines.\<close>

definition CleanupExpiredAccountSlotKeys ::
  "'s redis \<Rightarrow> concurrencyCache \<Rightarrow> redis_env \<Rightarrow> 's \<Rightarrow> unit option \<times> 's" where
  "CleanupExpiredAccountSlotKeys R c e s =
     (case reconcileExpiredIndexCandidates R c e 0 accountSlotIndex s of
        (None, s) \<Rightarrow> (None, s)
      | (Some _, s) \<Rightarrow> reconcileExpiredIndexCandidates R c e 8 userSlotIndex s)"

text \<open>
  The loop of \<open>cleanupStaleProcessSlotsForIndex\<close>: for each member the script (command \<open>k\<close>) and the
  deletion of the wait counter (\<open>k + 1\<close>). It returns what is to be refreshed and the stale
  members; an error ends it.
\<close>

fun cleanup_members ::
  "'s redis \<Rightarrow> concurrencyCache \<Rightarrow> redis_env \<Rightarrow> nat \<Rightarrow> slotIndexSpec \<Rightarrow> string \<Rightarrow> int \<Rightarrow> string list \<Rightarrow> 's
     \<Rightarrow> ((int \<times> string) list \<times> string list) option \<times> 's" where
  "cleanup_members R c e k spec prefix t [] s = (Some ([], []), s)"
| "cleanup_members R c e k spec prefix t (m # ms) s =
     (let skip = (case cleanup_members R c e k spec prefix t ms s of
                    (None, s) \<Rightarrow> (None, s)
                  | (Some (refreshed, stale), s) \<Rightarrow> (Some (refreshed, m # stale), s))
      in case ParseInt m of
        None \<Rightarrow> skip
      | Some i \<Rightarrow>
          if i \<le> 0 then skip
          else
            case call (reply e k) (startupCleanupSlotScript R (slotKey spec i) prefix (slotTTLSeconds c)) s of
              (None, s) \<Rightarrow> (None, s)
            | (Some (_, remaining), s) \<Rightarrow>
                (case cmd (reply e (k + 1)) (DEL R (waitKey spec i)) s of
                   (None, s) \<Rightarrow> (None, s)
                 | (Some _, s) \<Rightarrow>
                     (case cleanup_members R c e (k + 2) spec prefix t ms s of
                        (None, s) \<Rightarrow> (None, s)
                      | (Some (refreshed, stale), s) \<Rightarrow>
                          if remaining > 0 then (Some ((t + slotTTLSeconds c, m) # refreshed, stale), s)
                          else (Some (refreshed, m # stale), s))))"

definition cleanupStaleProcessSlotsForIndex ::
  "'s redis \<Rightarrow> concurrencyCache \<Rightarrow> redis_env \<Rightarrow> nat \<Rightarrow> slotIndexSpec \<Rightarrow> string list \<Rightarrow> string \<Rightarrow> int \<Rightarrow> 's
     \<Rightarrow> unit option \<times> 's" where
  "cleanupStaleProcessSlotsForIndex R c e k spec members prefix t s =
     (case cleanup_members R c e (k + 2) spec prefix t members s of
        (None, s) \<Rightarrow> (None, s)
      | (Some (refreshed, stale), s) \<Rightarrow>
          let s = (if refreshed = [] then s
                   else snd (cmd (reply e k) (zadd_all R (indexKey spec) refreshed) s))
          in (Some (), removeActiveIndexMembers R (reply e (k + 1)) (indexKey spec) stale s))"

text \<open>
  The startup cleanup. \<open>sweep\<close> is the one-time deletion of legacy wait counters, which walks the whole
  key space with SCAN. The environments of the two indexes are independent.
\<close>

definition CleanupStaleProcessSlots ::
  "'s redis \<Rightarrow> concurrencyCache \<Rightarrow> ('s \<Rightarrow> unit option \<times> 's) \<Rightarrow> redis_env \<Rightarrow> redis_env \<Rightarrow> redis_env \<Rightarrow> string \<Rightarrow> 's
     \<Rightarrow> unit option \<times> 's" where
  "CleanupStaleProcessSlots R c sweep e ea eu activeRequestPrefix s =
     (if activeRequestPrefix = [] then (Some (), s)
      else case sweep s of
        (None, s) \<Rightarrow> (None, s)
      | (Some _, s) \<Rightarrow>
          if reply e 0 \<noteq> Answered then (None, s)
          else case ask (reply e 1) (ZRANGE R accountActiveIndexKey) s of
            None \<Rightarrow> (None, s)
          | Some accountMembers \<Rightarrow>
              (case cleanupStaleProcessSlotsForIndex R c ea 0 accountSlotIndex accountMembers
                      activeRequestPrefix (clock e 0) s of
                 (None, s) \<Rightarrow> (None, s)
               | (Some _, s) \<Rightarrow>
                   (case ask (reply e 2) (ZRANGE R userActiveIndexKey) s of
                      None \<Rightarrow> (None, s)
                    | Some userMembers \<Rightarrow>
                        cleanupStaleProcessSlotsForIndex R c eu 0 userSlotIndex userMembers
                          activeRequestPrefix (clock e 0) s)))"

section \<open>Keys of different purposes differ\<close>

lemma FormatInt_not_index [simp]:
  "FormatInt i \<noteq> ''active_index''" "''active_index'' \<noteq> FormatInt i"
proof -
  have "CHR ''a'' \<notin> set (FormatInt i)" using FormatInt_chars [of "CHR ''a''" i] by (auto simp: is_digit_def)
  moreover have "CHR ''a'' \<in> set ''active_index''" by simp
  ultimately show "FormatInt i \<noteq> ''active_index''" "''active_index'' \<noteq> FormatInt i" by metis+
qed

lemma key_inj [simp]:
  "accountSlotKey i = accountSlotKey j \<longleftrightarrow> i = j" "userSlotKey i = userSlotKey j \<longleftrightarrow> i = j"
  "apiKeySlotKey i = apiKeySlotKey j \<longleftrightarrow> i = j" "liveAccountSlotKey i = liveAccountSlotKey j \<longleftrightarrow> i = j"
  "liveUserSlotKey i = liveUserSlotKey j \<longleftrightarrow> i = j" "liveAPIKeySlotKey i = liveAPIKeySlotKey j \<longleftrightarrow> i = j"
  "openAIWSIngressLeaseKey i = openAIWSIngressLeaseKey j \<longleftrightarrow> i = j"
  "waitQueueKey i = waitQueueKey j \<longleftrightarrow> i = j" "accountWaitKey i = accountWaitKey j \<longleftrightarrow> i = j"
  by (simp_all add: key_defs)

lemma account_key_neq [simp]:
  "accountSlotKey i \<noteq> userSlotKey j" "accountSlotKey i \<noteq> apiKeySlotKey j"
  "accountSlotKey i \<noteq> liveAccountSlotKey j" "accountSlotKey i \<noteq> liveUserSlotKey j"
  "accountSlotKey i \<noteq> liveAPIKeySlotKey j" "accountSlotKey i \<noteq> openAIWSIngressLeaseKey j"
  "accountSlotKey i \<noteq> waitQueueKey j" "accountSlotKey i \<noteq> accountWaitKey j"
  "accountSlotKey i \<noteq> accountActiveIndexKey" "accountSlotKey i \<noteq> userActiveIndexKey"
  by (simp_all add: key_defs key_prefixes)

lemma live_key_neq [simp]:
  "liveAccountSlotKey i \<noteq> userSlotKey j" "liveAccountSlotKey i \<noteq> apiKeySlotKey j"
  "liveAccountSlotKey i \<noteq> accountSlotKey j" "liveAccountSlotKey i \<noteq> liveUserSlotKey j"
  "liveAccountSlotKey i \<noteq> liveAPIKeySlotKey j" "liveAccountSlotKey i \<noteq> openAIWSIngressLeaseKey j"
  "liveAccountSlotKey i \<noteq> waitQueueKey j" "liveAccountSlotKey i \<noteq> accountWaitKey j"
  "liveAccountSlotKey i \<noteq> accountActiveIndexKey" "liveAccountSlotKey i \<noteq> userActiveIndexKey"
  by (simp_all add: key_defs key_prefixes)

lemma user_key_neq [simp]:
  "userSlotKey i \<noteq> accountSlotKey j" "userSlotKey i \<noteq> liveUserSlotKey j"
  "userSlotKey i \<noteq> liveAPIKeySlotKey j" "userSlotKey i \<noteq> apiKeySlotKey j"
  "userSlotKey i \<noteq> userActiveIndexKey" "userSlotKey i \<noteq> accountActiveIndexKey"
  "liveUserSlotKey i \<noteq> accountSlotKey j" "liveUserSlotKey i \<noteq> liveAccountSlotKey j"
  "liveUserSlotKey i \<noteq> liveAPIKeySlotKey j" "liveUserSlotKey i \<noteq> userSlotKey j"
  "liveAPIKeySlotKey i \<noteq> liveAccountSlotKey j" "liveAPIKeySlotKey i \<noteq> liveUserSlotKey j"
  "liveAPIKeySlotKey i \<noteq> accountSlotKey j" "liveAPIKeySlotKey i \<noteq> userSlotKey j"
  "accountActiveIndexKey \<noteq> userActiveIndexKey" "userActiveIndexKey \<noteq> accountActiveIndexKey"
  "accountActiveIndexKey \<noteq> accountSlotKey i" "userActiveIndexKey \<noteq> userSlotKey i"
  "userActiveIndexKey \<noteq> accountSlotKey i" "accountActiveIndexKey \<noteq> userSlotKey i"
  "accountWaitKey i \<noteq> accountActiveIndexKey" "accountWaitKey i \<noteq> userActiveIndexKey"
  "accountWaitKey i \<noteq> accountSlotKey j" "waitQueueKey i \<noteq> accountSlotKey j"
  "accountWaitKey i \<noteq> waitQueueKey j" "waitQueueKey i \<noteq> accountWaitKey j"
  by (simp_all add: key_defs key_prefixes)

lemmas key_neq_sym [simp] = account_key_neq [THEN not_sym] live_key_neq [THEN not_sym]

section \<open>Occupancy\<close>

text \<open>The members of a sorted set that are younger than \<open>ttl\<close> at time \<open>t\<close>.\<close>

definition alive :: "int \<Rightarrow> int \<Rightarrow> (string \<Rightarrow> int option) \<Rightarrow> string set" where
  "alive t ttl m = {x. \<exists>sc. m x = Some sc \<and> t - ttl < sc}"

lemma alive_subset_dom: "alive t ttl m \<subseteq> dom m"
  by (auto simp: alive_def)

lemma alive_mono: "m \<subseteq>\<^sub>m m' \<Longrightarrow> t' \<le> t \<Longrightarrow> alive t ttl m \<subseteq> alive t' ttl m'"
  by (fastforce simp: alive_def map_le_def dom_def)

lemma reap_Some [simp]: "reap b m x = Some sc \<longleftrightarrow> m x = Some sc \<and> b < sc"
  by (auto simp: reap_def split: option.splits)

lemma reap_None [simp]: "reap b m x = None \<longleftrightarrow> (\<forall>sc. m x = Some sc \<longrightarrow> sc \<le> b)"
  by (auto simp: reap_def split: option.splits)

lemma dom_reap [simp]: "dom (reap (t - ttl) m) = alive t ttl m"
  by (auto simp: alive_def)

lemma mem_alive [simp]: "x \<in> alive t ttl m \<longleftrightarrow> (\<exists>sc. m x = Some sc \<and> t - ttl < sc)"
  by (simp add: alive_def)

lemma alive_reap [simp]: "alive t ttl (reap (t - ttl) m) = alive t ttl m"
  by (auto simp: alive_def)

lemma alive_upd: "0 < ttl \<Longrightarrow> alive t ttl (m(x \<mapsto> t)) = insert x (alive t ttl m)"
  by (auto simp: alive_def)

lemma reap_le: "reap b m \<subseteq>\<^sub>m m"
  by (auto simp: map_le_def dom_def)

text \<open>The slots of an account in use at time \<open>t\<close>: its regular slots and its live leases.\<close>

definition slots_in_use ::
  "('s \<Rightarrow> string \<Rightarrow> string \<Rightarrow> int option) \<Rightarrow> int \<Rightarrow> int \<Rightarrow> ident \<Rightarrow> 's \<Rightarrow> nat" where
  "slots_in_use zs t ttl a s =
     card (alive t ttl (zs s (accountSlotKey a))) + card (alive t 60 (zs s (liveAccountSlotKey a)))"

lemma upd_None_le: "m(x := None) \<subseteq>\<^sub>m m"
  by (auto simp: map_le_def)

context redis_store
begin

text \<open>The store lost members at a key, or nothing: what every operation but the acquisitions does.\<close>

definition shrinks :: "string set \<Rightarrow> 's \<Rightarrow> 's \<Rightarrow> bool" where
  "shrinks K s s' \<longleftrightarrow> (\<forall>k\<in>K. zs s' k \<subseteq>\<^sub>m zs s k)"

lemma shrinks_refl [simp]: "shrinks K s s"
  by (simp add: shrinks_def)

lemma shrinks_trans: "shrinks K s s' \<Longrightarrow> shrinks K s' s'' \<Longrightarrow> shrinks K s s''"
  by (meson map_le_trans shrinks_def)

lemma alive_finite [simp]: "finite (alive t ttl (zs s k))"
  using alive_subset_dom fin by (rule finite_subset)

lemma occupancy_mono:
  assumes "shrinks {accountSlotKey a, liveAccountSlotKey a} s s'" "t \<le> t'"
  shows "slots_in_use zs t' ttl a s' \<le> slots_in_use zs t ttl a s"
proof -
  have "card (alive t' ttl (zs s' (accountSlotKey a))) \<le> card (alive t ttl (zs s (accountSlotKey a)))"
    using assms by (intro card_mono alive_mono) (simp_all add: shrinks_def)
  moreover have "card (alive t' 60 (zs s' (liveAccountSlotKey a))) \<le> card (alive t 60 (zs s (liveAccountSlotKey a)))"
    using assms by (intro card_mono alive_mono) (simp_all add: shrinks_def)
  ultimately show ?thesis by (simp add: slots_in_use_def)
qed

lemma shrinks_simps [simp]:
  "shrinks K s (ZREMRANGEBYSCORE R k b s)" "shrinks K s (snd (ZREM R k m s))"
  "shrinks K s (DEL R k s)" "shrinks K s (EXPIRE R k t s)" "shrinks K s (INCR R k s)" "shrinks K s (DECR R k s)"
  by (auto simp: shrinks_def reap_le upd_None_le)

lemma shrinks_zadd [simp]: "k \<notin> K \<Longrightarrow> shrinks K s (ZADD R k sc m s)"
  by (auto simp: shrinks_def)

lemma shrinks_call:
  "(\<And>s. shrinks K s (snd (f s))) \<Longrightarrow> shrinks K s (snd (call r f s))"
  by (simp add: call_def split: reply.split)

lemma shrinks_fold:
  "(\<And>x s. x \<in> set xs \<Longrightarrow> shrinks K s (f x s)) \<Longrightarrow> shrinks K s (fold f xs s)"
  by (induction xs arbitrary: s) (auto intro: shrinks_trans)

text \<open>An acquisition under the account's limit.\<close>

lemma acquire_occupancy:
  assumes "0 < ttl" "maxC \<le> int M" "slots_in_use zs t ttl a s \<le> B" "M \<le> B"
  shows "slots_in_use zs t ttl a (snd (acquireScript R t (accountSlotKey a) (liveAccountSlotKey a) maxC ttl req s)) \<le> B"
proof -
  let ?A = "alive t ttl (zs s (accountSlotKey a))" and ?L = "alive t 60 (zs s (liveAccountSlotKey a))"
  have "card (insert req ?A) + card ?L \<le> B" if "req \<in> ?A \<or> int (card ?A) + int (card ?L) < maxC"
  proof (cases "req \<in> ?A")
    case True
    then show ?thesis using assms(3) by (simp add: slots_in_use_def insert_absorb)
  next
    case False
    with that assms(2,4) have "Suc (card ?A) + card ?L \<le> B" by linarith
    with False show ?thesis by simp
  qed
  moreover have "alive t 60 (reap (t - 60) m) = alive t 60 m" for m by (rule alive_reap)
  moreover have "dom (reap (t - 60) m) = alive t 60 m" for m by (rule dom_reap)
  ultimately show ?thesis
    using assms(1,3)
    by (cases "\<exists>sc. zs s (accountSlotKey a) req = Some sc \<and> t - ttl < sc";
        cases "int (card ?A) + int (card ?L) < maxC")
      (auto simp: acquireScript_def Let_def slots_in_use_def alive_upd)
qed

end

context redis_store
begin

lemma live_acquire_occupancy:
  assumes "amax = int M" "0 < M" "slots_in_use zs t ttl a s \<le> M + allow" "repl \<longrightarrow> allow = 1"
  shows "slots_in_use zs t ttl a (snd (acquireLiveLeaseScript R t (accountSlotKey a) (liveAccountSlotKey a)
     (userSlotKey u) (liveUserSlotKey u) (liveAPIKeySlotKey k) amax umax 60 lease (if repl then 1 else 0) s)) \<le> M + allow"
proof -
  let ?A = "alive t ttl (zs s (accountSlotKey a))" and ?L = "alive t 60 (zs s (liveAccountSlotKey a))"
  have A: "card ?A \<le> card (dom (zs s (accountSlotKey a)))"
    by (intro card_mono fin alive_subset_dom)
  have "card ?A + card (insert lease ?L) \<le> M + allow"
    if "int (card (dom (zs s (accountSlotKey a)))) + int (card ?L) < int M + (if repl then 1 else 0)"
  proof -
    have "card (insert lease ?L) \<le> Suc (card ?L)" by (simp add: card_insert_if)
    with that A assms(4) show ?thesis by (auto split: if_splits)
  qed
  moreover have r: "alive t 60 (reap (t - 60) m) = alive t 60 m" "dom (reap (t - 60) m) = alive t 60 m" for m
    by (rule alive_reap, rule dom_reap)
  moreover let ?s3 = "ZREMRANGEBYSCORE R (liveAPIKeySlotKey k) (t - 60)
    (ZREMRANGEBYSCORE R (liveUserSlotKey u) (t - 60) (ZREMRANGEBYSCORE R (liveAccountSlotKey a) (t - 60) s))"
  have "slots_in_use zs t ttl a ?s3 = slots_in_use zs t ttl a s" by (simp add: slots_in_use_def r)
  ultimately show ?thesis using assms
    by (cases repl; cases "\<exists>sc. zs s (liveAccountSlotKey a) lease = Some sc \<and> t - 60 < sc";
        cases "amax > 0 \<and> int (card (dom (zs ?s3 (accountSlotKey a)))) + int (card (dom (zs ?s3 (liveAccountSlotKey a)))) \<ge> amax + (if repl then 1 else 0)";
        cases "umax > 0 \<and> int (card (dom (zs ?s3 (userSlotKey u)))) + int (card (dom (zs ?s3 (liveUserSlotKey u)))) \<ge> umax + (if repl then 1 else 0)")
      (auto simp: acquireLiveLeaseScript_def Let_def slots_in_use_def alive_upd)
qed

lemma refresh_check_shrinks: "shrinks K s (snd (refresh_check R b lease keys s))"
  by (induction keys arbitrary: s) (auto simp: Let_def intro: shrinks_trans [OF shrinks_simps(1)])

lemma refresh_check_present:
  "fst (refresh_check R b lease keys s) \<Longrightarrow> distinct keys \<Longrightarrow> k \<in> set keys \<Longrightarrow>
    \<exists>sc. zs (snd (refresh_check R b lease keys s)) k lease = Some sc \<and> b < sc"
proof (induction keys arbitrary: s)
  case (Cons k0 ks)
  let ?s = "ZREMRANGEBYSCORE R k0 b s"
  from Cons.prems(1) obtain sc where h: "zs ?s k0 lease = Some sc" "b < sc"
    and c: "fst (refresh_check R b lease ks ?s)" "refresh_check R b lease (k0 # ks) s = refresh_check R b lease ks ?s"
    by (auto simp: Let_def split: if_splits)
  have other: "k' \<notin> set ks' \<Longrightarrow> zs (snd (refresh_check R b lease ks' s')) k' = zs s' k'" for k' ks' s'
    by (induction ks' arbitrary: s') (auto simp: Let_def)
  show ?case
  proof (cases "k = k0")
    case True
    with Cons.prems(2) h c(2) other [of k0 ks ?s] show ?thesis by auto
  next
    case False
    with Cons.prems(2,3) Cons.IH [OF c(1)] c(2) show ?thesis by auto
  qed
qed simp

lemma refresh_check_iff:
  "distinct keys \<Longrightarrow> fst (refresh_check R b lease keys s) \<longleftrightarrow>
    (\<forall>k\<in>set keys. \<exists>sc. zs s k lease = Some sc \<and> b < sc)"
proof (induction keys arbitrary: s)
  case (Cons k0 ks)
  have "zs (ZREMRANGEBYSCORE R k0 b s) k = zs s k" if "k \<in> set ks" for k
    using that Cons.prems by auto
  with Cons show ?case by (auto simp: Let_def)
qed simp

lemma refresh_fold_zs:
  "distinct keys \<Longrightarrow> zs (fold (\<lambda>key s. EXPIRE R key ttl (ZADD R key t lease s)) keys s) k
     = (if k \<in> set keys then (zs s k)(lease \<mapsto> t) else zs s k)"
  by (induction keys arbitrary: s) auto

lemma live_refresh_occupancy:
  assumes "slots_in_use zs t ttl a s \<le> B"
  shows "slots_in_use zs t ttl a (snd (refreshLiveLeaseScript R t
      [liveAccountSlotKey x, liveUserSlotKey u, liveAPIKeySlotKey k] 60 lease s)) \<le> B"
proof -
  let ?keys = "[liveAccountSlotKey x, liveUserSlotKey u, liveAPIKeySlotKey k]"
  obtain b s1 where c: "refresh_check R (t - 60) lease ?keys s = (b, s1)" by fastforce
  have sh: "shrinks K s s1" for K using refresh_check_shrinks [of K s "t - 60" lease ?keys] c by simp
  have le: "slots_in_use zs t ttl a s1 \<le> B" using occupancy_mono [OF sh order_refl] assms by (rule order_trans)
  show ?thesis
  proof (cases b)
    case False
    with c le show ?thesis by (simp add: refreshLiveLeaseScript_def)
  next
    case True
    let ?s2 = "fold (\<lambda>key s. EXPIRE R key 60 (ZADD R key t lease s)) ?keys s1"
    have s2: "snd (refreshLiveLeaseScript R t ?keys 60 lease s) = ?s2"
      using c True by (simp add: refreshLiveLeaseScript_def)
    have z: "zs ?s2 k' = (if k' \<in> set ?keys then (zs s1 k')(lease \<mapsto> t) else zs s1 k')" for k'
      by (rule refresh_fold_zs) auto
    have in1: "\<exists>sc. zs s1 (liveAccountSlotKey x) lease = Some sc \<and> t - 60 < sc"
      using refresh_check_present [of "t - 60" lease ?keys s "liveAccountSlotKey x"] c True by simp
    have "alive t 60 (zs ?s2 (liveAccountSlotKey a)) = alive t 60 (zs s1 (liveAccountSlotKey a))"
      using in1 by (cases "a = x") (auto simp: z alive_upd)
    moreover have "zs ?s2 (accountSlotKey a) = zs s1 (accountSlotKey a)" by (simp add: z)
    ultimately have "slots_in_use zs t ttl a ?s2 = slots_in_use zs t ttl a s1" by (simp add: slots_in_use_def)
    with le s2 show ?thesis by simp
  qed
qed

end

section \<open>Operations\<close>

datatype cache_op =
    OpAcquireAccount ident int string
  | OpReleaseAccount ident string
  | OpGetAccount ident
  | OpGetAccounts "ident list"
  | OpAcquireUser ident int string
  | OpReleaseUser ident string
  | OpGetUser ident
  | OpTrackAPIKey ident string
  | OpReleaseAPIKey ident string
  | OpGetAPIKeys "ident list"
  | OpAcquireIngress ident int string
  | OpRefreshIngress ident string
  | OpReleaseIngress ident string
  | OpAcquireLive ident int ident int ident string bool
  | OpRefreshLive ident ident ident string
  | OpReleaseLive ident ident ident string
  | OpIncrementWait ident int
  | OpDecrementWait ident
  | OpIncrementAccountWait ident int
  | OpDecrementAccountWait ident
  | OpAccountsLoad "with_concurrency list"
  | OpUsersLoad "with_concurrency list"
  | OpCleanupAccount ident
  | OpCleanupKeys
  | OpStartup string redis_env redis_env
  | KeyExpires string

fun cache_step ::
  "'s redis \<Rightarrow> concurrencyCache \<Rightarrow> ('s \<Rightarrow> unit option \<times> 's) \<Rightarrow> cache_op \<times> redis_env \<Rightarrow> 's \<Rightarrow> 's" where
  "cache_step R c sweep (OpAcquireAccount a m r, e) s = snd (AcquireAccountSlot R c e a m r s)"
| "cache_step R c sweep (OpReleaseAccount a r, e) s = snd (ReleaseAccountSlot R c e a r s)"
| "cache_step R c sweep (OpGetAccount a, e) s = snd (GetAccountConcurrency R c e a s)"
| "cache_step R c sweep (OpGetAccounts as, e) s = snd (GetAccountConcurrencyBatch R c e as s)"
| "cache_step R c sweep (OpAcquireUser u m r, e) s = snd (AcquireUserSlot R c e u m r s)"
| "cache_step R c sweep (OpReleaseUser u r, e) s = snd (ReleaseUserSlot R c e u r s)"
| "cache_step R c sweep (OpGetUser u, e) s = snd (GetUserConcurrency R c e u s)"
| "cache_step R c sweep (OpTrackAPIKey k r, e) s = snd (TrackAPIKeySlot R c e k r s)"
| "cache_step R c sweep (OpReleaseAPIKey k r, e) s = snd (ReleaseAPIKeySlot R e k r s)"
| "cache_step R c sweep (OpGetAPIKeys ks, e) s = snd (GetAPIKeyConcurrencyBatch R c e ks s)"
| "cache_step R c sweep (OpAcquireIngress k m l, e) s = snd (AcquireOpenAIWSIngressLease R e k m l s)"
| "cache_step R c sweep (OpRefreshIngress k l, e) s = snd (RefreshOpenAIWSIngressLease R e k l s)"
| "cache_step R c sweep (OpReleaseIngress k l, e) s = snd (ReleaseOpenAIWSIngressLease R e k l s)"
| "cache_step R c sweep (OpAcquireLive a am u um k l rp, e) s = snd (AcquireLiveLease R e a am u um k l rp s)"
| "cache_step R c sweep (OpRefreshLive a u k l, e) s = snd (RefreshLiveLease R e a u k l s)"
| "cache_step R c sweep (OpReleaseLive a u k l, e) s = snd (ReleaseLiveLease R e a u k l s)"
| "cache_step R c sweep (OpIncrementWait u m, e) s = snd (IncrementWaitCount R c e u m s)"
| "cache_step R c sweep (OpDecrementWait u, e) s = snd (DecrementWaitCount R c e u s)"
| "cache_step R c sweep (OpIncrementAccountWait a m, e) s = snd (IncrementAccountWaitCount R c e a m s)"
| "cache_step R c sweep (OpDecrementAccountWait a, e) s = snd (DecrementAccountWaitCount R c e a s)"
| "cache_step R c sweep (OpAccountsLoad as, e) s = snd (GetAccountsLoadBatch R c e as s)"
| "cache_step R c sweep (OpUsersLoad us, e) s = snd (GetUsersLoadBatch R c e us s)"
| "cache_step R c sweep (OpCleanupAccount a, e) s = snd (CleanupExpiredAccountSlots R c e a s)"
| "cache_step R c sweep (OpCleanupKeys, e) s = snd (CleanupExpiredAccountSlotKeys R c e s)"
| "cache_step R c sweep (OpStartup p ea eu, e) s = snd (CleanupStaleProcessSlots R c sweep e ea eu p s)"
| "cache_step R c sweep (KeyExpires k, e) s = DEL R k s"

text \<open>
  The acquisitions for account \<open>a\<close> name a positive limit of at most \<open>M\<close>; live leases may ask for
  the place of the regular slot they replace when \<open>allow\<close> is 1.
\<close>

fun within_limit :: "ident \<Rightarrow> nat \<Rightarrow> nat \<Rightarrow> cache_op \<Rightarrow> bool" where
  "within_limit a M allow (OpAcquireAccount a' m r) = (a' = a \<longrightarrow> m \<le> int M)"
| "within_limit a M allow (OpAcquireLive a' am u um k l rp) = (a' = a \<longrightarrow> am = int M \<and> (rp \<longrightarrow> allow = 1))"
| "within_limit a M allow _ = True"

context redis_store
begin

lemma shrinks_callD:
  "call r f s = (x, s') \<Longrightarrow> (\<And>s. shrinks K s (snd (f s))) \<Longrightarrow> shrinks K s s'"
  using shrinks_call [of K f s r] by simp

lemma shrinks_cmd: "(\<And>s. shrinks K s (f s)) \<Longrightarrow> shrinks K s (snd (cmd r f s))"
  unfolding cmd_def by (rule shrinks_call) simp

lemma shrinks_cmdD: "cmd r f s = (x, s') \<Longrightarrow> (\<And>s. shrinks K s (f s)) \<Longrightarrow> shrinks K s s'"
  using shrinks_cmd [of K f s r] by simp

lemma shrinks_touch [simp]: "index \<notin> K \<Longrightarrow> shrinks K s (touchActiveIndexAt R r index i t s)"
  unfolding touchActiveIndexAt_def by (auto intro: shrinks_cmd)

lemma shrinks_readActiveLoad:
  "readActiveLoadForKey R c r i sk wk t s = (x, s') \<Longrightarrow> shrinks K s s'"
  unfolding readActiveLoadForKey_def by (erule shrinks_callD) (simp add: Let_def)

lemma shrinks_call_zrem: "shrinks K s s1 \<Longrightarrow> shrinks K s (snd (call r (ZREM R k m) s1))"
  by (rule shrinks_trans, assumption) (simp add: shrinks_call)

lemma shrinks_refreshActiveIndex [simp]:
  "index \<notin> K \<Longrightarrow> shrinks K s (refreshActiveIndex R c e k index i sk wk s)"
  by (auto simp: refreshActiveIndex_def Let_def split: option.split prod.split
      intro: shrinks_readActiveLoad shrinks_call_zrem shrinks_trans [OF shrinks_readActiveLoad shrinks_touch])

lemma shrinks_count_slots: "shrinks K s (snd (count_slots R c t a b s))"
  by (simp add: count_slots_def Let_def) (metis shrinks_simps(1) shrinks_trans)

lemma shrinks_count_all: "shrinks K s (snd (count_all R c t slot live is s))"
proof (induction "is" arbitrary: s)
  case (Cons i "is")
  then show ?case using shrinks_count_slots [of K s c t "slot i" "live i"]
    by (auto simp: Let_def split: prod.split intro: shrinks_trans) (metis shrinks_trans snd_conv)
qed simp

lemma shrinks_load_one: "shrinks K s (snd (load_one R c t slot live wk acc s))"
  using shrinks_count_slots [of K s c t "slot (wc_id acc)" "live (wc_id acc)"]
  by (auto simp: load_one_def Let_def split: prod.split)

lemma shrinks_load_all: "shrinks K s (snd (load_all R c t slot live wk accs s))"
proof (induction accs arbitrary: s)
  case (Cons a accs)
  then show ?case using shrinks_load_one [of K s c t slot live wk a]
    by (auto simp: Let_def split: prod.split) (metis shrinks_trans snd_conv)
qed simp

lemma shrinks_zadd_all: "key \<notin> K \<Longrightarrow> shrinks K s (zadd_all R key xs s)"
  unfolding zadd_all_def by (rule shrinks_fold) (auto split: prod.split)

lemma shrinks_zrem_all: "shrinks K s (zrem_all R key xs s)"
  unfolding zrem_all_def by (rule shrinks_fold) simp

lemma shrinks_removeActive: "shrinks K s (removeActiveIndexMembers R r index ms s)"
  unfolding removeActiveIndexMembers_def by (auto intro: shrinks_cmd shrinks_zrem_all)

lemma shrinks_read_chunk: "shrinks K s (snd (read_chunk R c spec t cs s))"
proof (induction cs arbitrary: s)
  case (Cons x cs)
  then show ?case
    by (cases x) (auto simp: Let_def split: prod.split, metis shrinks_simps(1) shrinks_trans snd_conv)
qed simp

lemma shrinks_read_chunks: "shrinks K s (snd (read_chunks R c spec e k t cs s))"
proof (induction cs arbitrary: s k rule: length_induct)
  case (1 cs)
  show ?case
  proof (cases "cs = []")
    case False
    let ?chunk = "read_chunk R c spec t (take activeIndexPipelineChunkSize cs)"
    let ?rest = "drop activeIndexPipelineChunkSize cs"
    have IH: "shrinks K s' (snd (read_chunks R c spec e (k + 1) t ?rest s'))" for s'
      using 1 False by (simp add: activeIndexPipelineChunkSize_def)
    obtain x s1 where x: "call (reply e k) ?chunk s = (x, s1)" by fastforce
    then have "shrinks K s s1" using shrinks_callD shrinks_read_chunk by blast
    then have "shrinks K s (snd (read_chunks R c spec e (k + 1) t ?rest s1))"
      using IH shrinks_trans by blast
    with False x \<open>shrinks K s s1\<close> show ?thesis
      by (subst read_chunks.simps) (auto split: option.split prod.split)
  qed (simp add: read_chunks.simps)
qed

lemma shrinks_readIndexLoads: "shrinks K s (snd (readIndexLoads R c spec e k ms t s))"
proof -
  obtain cs st where "candidates ms = (cs, st)" by fastforce
  then show ?thesis using shrinks_read_chunks [of K s c spec e k t cs]
    by (auto simp: readIndexLoads_def split: prod.split option.split)
qed

lemma shrinks_reconcile:
  assumes "indexKey spec \<notin> K"
  shows "shrinks K s (snd (reconcileExpiredIndexCandidates R c e k spec s))"
proof -
  have r: "shrinks K s s'" if "readIndexLoads R c spec e n ms t s = (x, s')" for n ms t x s'
    using shrinks_readIndexLoads [of K s c spec e n ms t] that by simp
  have z: "shrinks K s' (snd (cmd r (zadd_all R (indexKey spec) xs) s'))" for r xs s'
    using assms by (intro shrinks_cmd shrinks_zadd_all)
  show ?thesis
    by (auto simp: reconcileExpiredIndexCandidates_def Let_def split: option.split prod.split
        intro: r shrinks_trans [OF r shrinks_removeActive]
          shrinks_trans [OF shrinks_trans [OF r z] shrinks_removeActive])
qed

lemma shrinks_startup_loop: "shrinks K s (snd (startup_loop R key p ms n s))"
proof (induction ms arbitrary: n s)
  case (Cons m ms)
  show ?case
    using Cons.IH [of s n] shrinks_trans [OF shrinks_simps(2) Cons.IH] by simp
qed simp

lemma shrinks_startup_script: "shrinks K s (snd (startupCleanupSlotScript R key p ttl s))"
proof -
  obtain n s1 where l: "startup_loop R key p (ZRANGE R key s) 0 s = (n, s1)" by fastforce
  with shrinks_startup_loop [of K s key p "ZRANGE R key s" 0] have "shrinks K s s1" by simp
  with l show ?thesis
    by (auto simp: startupCleanupSlotScript_def Let_def intro: shrinks_trans [OF _ shrinks_simps(3)]
        shrinks_trans [OF _ shrinks_simps(4)])
qed

lemma shrinks_cleanup_members: "shrinks K s (snd (cleanup_members R c e k spec p t ms s))"
proof (induction ms arbitrary: k s)
  case (Cons m ms)
  have skip: "shrinks K s s'" if "cleanup_members R c e k spec p t ms s = (x, s')" for k s x s'
    using Cons.IH [of s k] that by simp
  have script: "shrinks K s s'" if "call r (startupCleanupSlotScript R key p ttl) s = (x, s')" for r key ttl s x s'
    using shrinks_callD [OF that] shrinks_startup_script by blast
  have del: "shrinks K s s'" if "cmd r (DEL R key) s = (x, s')" for r key s x s'
    using shrinks_cmdD [OF that] by simp
  show ?case
    by (auto simp: Let_def split: option.split prod.split
        intro: skip script shrinks_trans [OF script del] shrinks_trans [OF shrinks_trans [OF script del] skip])
qed simp

lemma shrinks_cleanupIndex:
  assumes "indexKey spec \<notin> K"
  shows "shrinks K s (snd (cleanupStaleProcessSlotsForIndex R c e k spec ms p t s))"
proof -
  have r: "shrinks K s s'" if "cleanup_members R c e n spec p t ms s = (x, s')" for n x s'
    using shrinks_cleanup_members [of K s c e n spec p t ms] that by simp
  have z: "shrinks K s' (snd (cmd r (zadd_all R (indexKey spec) xs) s'))" for r xs s'
    using assms by (intro shrinks_cmd shrinks_zadd_all)
  show ?thesis
    by (auto simp: cleanupStaleProcessSlotsForIndex_def Let_def split: option.split prod.split
        intro: r shrinks_trans [OF r shrinks_removeActive]
          shrinks_trans [OF shrinks_trans [OF r z] shrinks_removeActive])
qed

end

context redis_store
begin

text \<open>The same facts as rules that follow the structure of a store expression.\<close>

lemma shrinks_if: "shrinks K s (snd a) \<Longrightarrow> shrinks K s (snd b) \<Longrightarrow> shrinks K s (snd (if c then a else b))"
  by simp

lemma shrinks_if': "shrinks K s a \<Longrightarrow> shrinks K s b \<Longrightarrow> shrinks K s (if c then a else b)"
  by simp

lemma shrinks_pair: "shrinks K s s1 \<Longrightarrow> shrinks K s (snd (x, s1))"
  by simp

lemmas sh = shrinks_if shrinks_if' shrinks_pair shrinks_refl shrinks_trans [OF _ shrinks_simps(1)] shrinks_trans [OF _ shrinks_simps(2)]
  shrinks_trans [OF _ shrinks_simps(3)] shrinks_trans [OF _ shrinks_simps(4)]
  shrinks_trans [OF _ shrinks_simps(5)] shrinks_trans [OF _ shrinks_simps(6)]
  shrinks_trans [OF _ shrinks_zadd] shrinks_trans [OF _ shrinks_touch]
  shrinks_trans [OF _ shrinks_refreshActiveIndex]

lemma shrinks_getCount: "shrinks K s (snd (getCountScript R t a b ttl s))"
  unfolding getCountScript_def Let_def by (intro sh)

lemma shrinks_acquireScript: "key \<notin> K \<Longrightarrow> shrinks K s (snd (acquireScript R t key live m ttl r s))"
  unfolding acquireScript_def Let_def by (intro sh)

lemma shrinks_lease_scripts:
  "key \<notin> K \<Longrightarrow> shrinks K s (snd (trackSlotScript R t key ttl r s))"
  "key \<notin> K \<Longrightarrow> shrinks K s (snd (acquireOpenAIWSIngressLeaseScript R t key m ttl l s))"
  "key \<notin> K \<Longrightarrow> shrinks K s (snd (refreshOpenAIWSIngressLeaseScript R t key ttl l s))"
  unfolding trackSlotScript_def acquireOpenAIWSIngressLeaseScript_def
    refreshOpenAIWSIngressLeaseScript_def Let_def by (intro sh; assumption)+

lemma shrinks_wait_scripts:
  "shrinks K s (snd (incrementWaitScript R t key m ttl s))"
  "shrinks K s (snd (incrementAccountWaitScript R t key m ttl s))"
  "shrinks K s (snd (decrementWaitScript R key s))"
  "shrinks K s (snd (cleanupExpiredSlotsScript R t key ttl s))"
  unfolding incrementWaitScript_def incrementAccountWaitScript_def cleanupExpiredSlotsScript_def Let_def
  by (intro sh)+ (simp add: decrementWaitScript_def split: option.split, intro sh)

lemma shrinks_liveScript:
  "la \<notin> K \<Longrightarrow> lu \<notin> K \<Longrightarrow> lk \<notin> K \<Longrightarrow>
    shrinks K s (snd (acquireLiveLeaseScript R t ra la ru lu lk am um ttl l rp s))"
  unfolding acquireLiveLeaseScript_def Let_def by (intro sh)

text \<open>A method that runs one command and goes on from its store.\<close>

lemma shrinks_case_call:
  assumes "\<And>s. shrinks K s (snd (f s))" "\<And>y s1. shrinks K s s1 \<Longrightarrow> shrinks K s (snd (g y s1))"
  shows "shrinks K s (snd (case call r f s of (None, s1) \<Rightarrow> (n, s1) | (Some y, s1) \<Rightarrow> g y s1))"
proof -
  obtain x s1 where x: "call r f s = (x, s1)" by fastforce
  then have "shrinks K s s1" by (rule shrinks_callD) (rule assms(1))
  with x assms(2) show ?thesis by (cases x) simp_all
qed

text \<open>The keys whose contents bound the concurrency of one account.\<close>

definition keys_of :: "ident \<Rightarrow> string set" where
  "keys_of a = {accountSlotKey a, liveAccountSlotKey a}"

end

context redis_store
begin

lemma shrinks_pair_case: "(\<And>a b. shrinks K s (snd (f a b))) \<Longrightarrow> shrinks K s (snd (case y of (a, b) \<Rightarrow> f a b))"
  by (cases y) simp

lemma method_shrinks_account:
  assumes "accountSlotKey x \<notin> K" "accountActiveIndexKey \<notin> K"
  shows "shrinks K s (snd (AcquireAccountSlot R c e x m r s))"
  unfolding AcquireAccountSlot_def
  by (rule shrinks_case_call, rule shrinks_acquireScript [OF assms(1)])
    (rule shrinks_pair_case, intro sh assms)

lemma method_shrinks_user:
  assumes "userSlotKey x \<notin> K" "userActiveIndexKey \<notin> K"
  shows "shrinks K s (snd (AcquireUserSlot R c e x m r s))"
  unfolding AcquireUserSlot_def
  by (rule shrinks_case_call, rule shrinks_acquireScript [OF assms(1)])
    (rule shrinks_pair_case, intro sh assms)

lemma method_shrinks_release:
  assumes "accountActiveIndexKey \<notin> K" "userActiveIndexKey \<notin> K"
  shows "shrinks K s (snd (ReleaseAccountSlot R c e x r s))"
    and "shrinks K s (snd (ReleaseUserSlot R c e x r s))"
    and "shrinks K s (snd (DecrementWaitCount R c e x s))"
    and "shrinks K s (snd (DecrementAccountWaitCount R c e x s))"
    and "shrinks K s (snd (CleanupExpiredAccountSlots R c e x s))"
proof -
  have a: "shrinks K s1 (refreshAccountActiveIndex R c e k x s1)"
    and u: "shrinks K s1 (refreshUserActiveIndex R c e k x s1)" for k s1
    using assms by (simp_all add: refreshAccountActiveIndex_def refreshUserActiveIndex_def)
  note then_a = shrinks_pair [OF shrinks_trans [OF _ a]] and then_u = shrinks_pair [OF shrinks_trans [OF _ u]]
  show "shrinks K s (snd (ReleaseAccountSlot R c e x r s))"
    unfolding ReleaseAccountSlot_def by (rule shrinks_case_call) (simp, erule then_a)
  show "shrinks K s (snd (ReleaseUserSlot R c e x r s))"
    unfolding ReleaseUserSlot_def by (rule shrinks_case_call) (simp, erule then_u)
  show "shrinks K s (snd (DecrementWaitCount R c e x s))"
    unfolding DecrementWaitCount_def by (rule shrinks_case_call) (rule shrinks_wait_scripts, erule then_u)
  show "shrinks K s (snd (DecrementAccountWaitCount R c e x s))"
    unfolding DecrementAccountWaitCount_def by (rule shrinks_case_call) (rule shrinks_wait_scripts, erule then_a)
  show "shrinks K s (snd (CleanupExpiredAccountSlots R c e x s))"
    unfolding CleanupExpiredAccountSlots_def by (rule shrinks_case_call) (rule shrinks_wait_scripts, erule then_a)
qed

lemma method_shrinks_increment:
  assumes "accountActiveIndexKey \<notin> K" "userActiveIndexKey \<notin> K"
  shows "shrinks K s (snd (IncrementWaitCount R c e x m s))"
    and "shrinks K s (snd (IncrementAccountWaitCount R c e x m s))"
proof -
  show "shrinks K s (snd (IncrementWaitCount R c e x m s))" unfolding IncrementWaitCount_def
    by (rule shrinks_case_call, rule shrinks_wait_scripts) (rule shrinks_pair_case, intro sh assms)
  show "shrinks K s (snd (IncrementAccountWaitCount R c e x m s))" unfolding IncrementAccountWaitCount_def
    by (rule shrinks_case_call, rule shrinks_wait_scripts) (rule shrinks_pair_case, intro sh assms)
qed

lemma method_shrinks_reads:
  "shrinks K s (snd (GetAccountConcurrency R c e x s))" "shrinks K s (snd (GetUserConcurrency R c e x s))"
  "shrinks K s (snd (GetAccountConcurrencyBatch R c e xs s))" "shrinks K s (snd (GetAPIKeyConcurrencyBatch R c e xs s))"
  "shrinks K s (snd (GetAccountsLoadBatch R c e ys s))" "shrinks K s (snd (GetUsersLoadBatch R c e ys s))"
  by (auto simp: GetAccountConcurrency_def GetUserConcurrency_def GetAccountConcurrencyBatch_def
      GetAPIKeyConcurrencyBatch_def GetAccountsLoadBatch_def GetUsersLoadBatch_def
      intro!: shrinks_call shrinks_getCount shrinks_count_all shrinks_load_all)

lemma method_shrinks_leases:
  assumes "apiKeySlotKey x \<notin> K" "openAIWSIngressLeaseKey x \<notin> K"
  shows "shrinks K s (snd (TrackAPIKeySlot R c e x r s))" "shrinks K s (snd (ReleaseAPIKeySlot R e x r s))"
    "shrinks K s (snd (AcquireOpenAIWSIngressLease R e x m r s))"
    "shrinks K s (snd (RefreshOpenAIWSIngressLease R e x r s))"
    "shrinks K s (snd (ReleaseOpenAIWSIngressLease R e x r s))"
proof -
  show "shrinks K s (snd (TrackAPIKeySlot R c e x r s))" unfolding TrackAPIKeySlot_def
    by (intro shrinks_call shrinks_lease_scripts assms)
  show "shrinks K s (snd (ReleaseAPIKeySlot R e x r s))" unfolding ReleaseAPIKeySlot_def
    by (intro shrinks_call shrinks_simps)
  show "shrinks K s (snd (AcquireOpenAIWSIngressLease R e x m r s))" unfolding AcquireOpenAIWSIngressLease_def
    by (intro sh shrinks_case_call shrinks_lease_scripts assms)
  show "shrinks K s (snd (RefreshOpenAIWSIngressLease R e x r s))" unfolding RefreshOpenAIWSIngressLease_def
    by (intro sh shrinks_case_call shrinks_lease_scripts assms)
  show "shrinks K s (snd (ReleaseOpenAIWSIngressLease R e x r s))" unfolding ReleaseOpenAIWSIngressLease_def
    by (intro sh shrinks_cmd)
qed

lemma method_shrinks_live:
  assumes "liveAccountSlotKey x \<notin> K" "liveUserSlotKey u \<notin> K" "liveAPIKeySlotKey k \<notin> K"
  shows "shrinks K s (snd (AcquireLiveLease R e x am u um k l rp s))"
  unfolding AcquireLiveLease_def
  by (intro sh shrinks_case_call shrinks_liveScript assms)

lemma method_shrinks_releaseLive: "shrinks K s (snd (ReleaseLiveLease R e x u k l s))"
  unfolding ReleaseLiveLease_def by (intro sh shrinks_cmd)

lemma shrinks_then:
  assumes "shrinks K s (snd p)" "\<And>y s1. shrinks K s s1 \<Longrightarrow> shrinks K s (snd (g y s1))"
  shows "shrinks K s (snd (case p of (None, s1) \<Rightarrow> (n, s1) | (Some y, s1) \<Rightarrow> g y s1))"
  using assms by (cases p; cases "fst p") auto

lemma method_shrinks_cleanup:
  assumes "accountActiveIndexKey \<notin> K" "userActiveIndexKey \<notin> K"
  shows "shrinks K s (snd (CleanupExpiredAccountSlotKeys R c e s))"
  unfolding CleanupExpiredAccountSlotKeys_def
  by (rule shrinks_then) (auto intro: shrinks_reconcile shrinks_trans [OF _ shrinks_reconcile]
      simp: assms accountSlotIndex_def userSlotIndex_def)

lemma method_shrinks_startup:
  assumes "accountActiveIndexKey \<notin> K" "userActiveIndexKey \<notin> K" "\<And>s. shrinks K s (snd (sweep s))"
  shows "shrinks K s (snd (CleanupStaleProcessSlots R c sweep e ea eu p s))"
proof -
  have a: "shrinks K s1 (snd (cleanupStaleProcessSlotsForIndex R c e0 k accountSlotIndex ms p t s1))"
    and u: "shrinks K s1 (snd (cleanupStaleProcessSlotsForIndex R c e0 k userSlotIndex ms p t s1))" for e0 k ms t s1
    using assms by (simp_all add: shrinks_cleanupIndex accountSlotIndex_def userSlotIndex_def)
  have users: "shrinks K s1 (snd (case ask r (ZRANGE R userActiveIndexKey) s1 of None \<Rightarrow> (None, s1)
      | Some ms \<Rightarrow> cleanupStaleProcessSlotsForIndex R c eu 0 userSlotIndex ms p t s1))" for r s1 t
    using u by (simp split: option.split)
  show ?thesis
    unfolding CleanupStaleProcessSlots_def
    by (auto split: option.split intro!: shrinks_then assms(3) intro: shrinks_trans [OF _ a] shrinks_trans [OF _ users] sh
        simp del: shrinks_simps)
qed

end

context redis_store
begin

lemma call_cases:
  "(snd (call r f s) = snd (f s) \<or> snd (call r f s) = s) \<and>
   (fst (call r f s) \<noteq> None \<longrightarrow> snd (call r f s) = snd (f s))"
  by (simp add: call_def split: reply.split)

lemma step_slots_in_use:
  assumes ttl: "0 < slotTTLSeconds c" and lim: "within_limit a M allow op" and M: "0 < M"
    and occ: "slots_in_use zs T (slotTTLSeconds c) a s \<le> M + allow" and T: "T \<le> clock e 0"
    and sweep: "\<And>s. shrinks (keys_of a) s (snd (sweep s))"
  shows "slots_in_use zs (clock e 0) (slotTTLSeconds c) a (cache_step R c sweep (op, e) s) \<le> M + allow"
proof -
  let ?ttl = "slotTTLSeconds c" and ?t = "clock e 0"
  let ?B = "M + allow"
  have occ': "slots_in_use zs ?t ?ttl a s \<le> ?B"
    using occupancy_mono [OF _ T, of a s s ?ttl] occ by simp
  have sh: "slots_in_use zs ?t ?ttl a s' \<le> ?B" if "shrinks (keys_of a) s1 s'" "slots_in_use zs ?t ?ttl a s1 \<le> ?B" for s1 s'
    using occupancy_mono [of a s1 s' ?t ?t ?ttl] that by (simp add: keys_of_def)
  have idx: "accountActiveIndexKey \<notin> keys_of a" "userActiveIndexKey \<notin> keys_of a"
    by (auto simp: keys_of_def)
  show ?thesis
  proof (cases op)
    case (OpAcquireAccount x m r)
    show ?thesis
    proof (cases "x = a")
      case True
      let ?f = "acquireScript R ?t (accountSlotKey a) (liveAccountSlotKey a) m ?ttl r"
      obtain y s1 where y: "call (reply e 0) ?f s = (y, s1)" by fastforce
      have "slots_in_use zs ?t ?ttl a (snd (?f s)) \<le> ?B"
        using acquire_occupancy [OF ttl _ occ', of m M r] lim OpAcquireAccount True by simp
      with y call_cases [of "reply e 0" ?f s] occ' have "slots_in_use zs ?t ?ttl a s1 \<le> ?B" by auto
      moreover have "shrinks (keys_of a) s1 (touchActiveIndexAt R q accountActiveIndexKey a v s1)" for q v
        using idx by simp
      ultimately have "slots_in_use zs ?t ?ttl a (touchActiveIndexAt R q accountActiveIndexKey a v s1) \<le> ?B" for q v
        using sh by blast
      with y \<open>slots_in_use zs ?t ?ttl a s1 \<le> ?B\<close> OpAcquireAccount True show ?thesis
        by (simp add: AcquireAccountSlot_def split: option.split)
    next
      case False
      then have "accountSlotKey x \<notin> keys_of a" by (simp add: keys_of_def)
      with OpAcquireAccount idx occ' show ?thesis by (auto intro: sh method_shrinks_account)
    qed
  next
    case (OpAcquireLive x am u um k l rp)
    show ?thesis
    proof (cases "x = a")
      case True
      let ?f = "acquireLiveLeaseScript R ?t (accountSlotKey a) (liveAccountSlotKey a) (userSlotKey u)
          (liveUserSlotKey u) (liveAPIKeySlotKey k) am um 60 l (if rp then 1 else 0)"
      obtain y s1 where y: "call (reply e 0) ?f s = (y, s1)" by fastforce
      have "slots_in_use zs ?t ?ttl a (snd (?f s)) \<le> ?B"
        using live_acquire_occupancy [OF _ M occ', of am rp] lim OpAcquireLive True by simp
      with y call_cases [of "reply e 0" ?f s] occ' have "slots_in_use zs ?t ?ttl a s1 \<le> ?B" by auto
      with y occ' OpAcquireLive True show ?thesis
        by (simp add: AcquireLiveLease_def liveLeaseTTLSeconds_def split: option.split)
    next
      case False
      then have "shrinks (keys_of a) s (snd (AcquireLiveLease R e x am u um k l rp s))"
        by (intro method_shrinks_live) (auto simp: keys_of_def)
      with OpAcquireLive occ' show ?thesis by (auto intro: sh)
    qed
  next
    case (OpRefreshLive x u k l)
    let ?f = "refreshLiveLeaseScript R ?t [liveAccountSlotKey x, liveUserSlotKey u, liveAPIKeySlotKey k] 60 l"
    obtain y s1 where y: "call (reply e 0) ?f s = (y, s1)" by fastforce
    have "slots_in_use zs ?t ?ttl a (snd (?f s)) \<le> ?B" by (rule live_refresh_occupancy [OF occ'])
    with y call_cases [of "reply e 0" ?f s] occ' have "slots_in_use zs ?t ?ttl a s1 \<le> ?B" by auto
    with y occ' OpRefreshLive show ?thesis
      by (simp add: RefreshLiveLease_def liveLeaseTTLSeconds_def split: option.split)
  next
    case (OpAcquireUser u m r)
    then show ?thesis using idx occ' by (auto intro!: sh [of s] method_shrinks_user simp: keys_of_def)
  next
    case (OpTrackAPIKey k r)
    then show ?thesis using occ' by (auto intro!: sh [of s] method_shrinks_leases simp: keys_of_def)
  next
    case (OpReleaseAPIKey k r)
    then show ?thesis using occ' by (auto intro!: sh [of s] method_shrinks_leases simp: keys_of_def)
  next
    case (OpAcquireIngress k m l)
    then show ?thesis using occ' by (auto intro!: sh [of s] method_shrinks_leases simp: keys_of_def)
  next
    case (OpRefreshIngress k l)
    then show ?thesis using occ' by (auto intro!: sh [of s] method_shrinks_leases simp: keys_of_def)
  next
    case (OpReleaseIngress k l)
    then show ?thesis using occ' by (auto intro!: sh [of s] method_shrinks_leases simp: keys_of_def)
  qed (use idx occ' sweep in \<open>auto intro!: sh [of s] method_shrinks_release method_shrinks_increment method_shrinks_reads
      method_shrinks_releaseLive method_shrinks_cleanup method_shrinks_startup\<close>)
qed

lemma run_slots_in_use:
  assumes "0 < slotTTLSeconds c" "\<forall>x\<in>set ops. within_limit a M allow (fst x)" "0 < M"
    and "sorted (map (\<lambda>x. clock (snd x) 0) ops)" "\<forall>x\<in>set ops. T \<le> clock (snd x) 0"
    and "slots_in_use zs T (slotTTLSeconds c) a s \<le> M + allow"
    and "\<And>s. shrinks (keys_of a) s (snd (sweep s))"
    and "\<forall>x\<in>set ops. clock (snd x) 0 \<le> t" "T \<le> t"
  shows "slots_in_use zs t (slotTTLSeconds c) a (fold (cache_step R c sweep) ops s) \<le> M + allow"
  using assms(2,4-6,8,9)
proof (induction ops arbitrary: s T)
  case Nil
  then show ?case using occupancy_mono [of a s s T t "slotTTLSeconds c"] by simp
next
  case (Cons x ops)
  obtain op e where x: "x = (op, e)" by fastforce
  have "slots_in_use zs (clock e 0) (slotTTLSeconds c) a (cache_step R c sweep (op, e) s) \<le> M + allow"
    by (rule step_slots_in_use [OF assms(1) _ assms(3) Cons.prems(4) _ assms(7)]) (use Cons.prems x in auto)
  with Cons.IH [of "clock e 0" "cache_step R c sweep (op, e) s"] Cons.prems x show ?case
    by simp
qed

end

section \<open>A Redis that satisfies the laws\<close>

text \<open>Sorted sets as association lists, in memory.\<close>

record mem_store =
  zsets :: "string \<Rightarrow> (string \<times> int) list"
  nums :: "string \<Rightarrow> int option"

definition set_zset :: "string \<Rightarrow> (string \<times> int) list \<Rightarrow> mem_store \<Rightarrow> mem_store" where
  "set_zset k xs s = s\<lparr>zsets := (zsets s)(k := xs)\<rparr>"

definition zsets_map :: "mem_store \<Rightarrow> string \<Rightarrow> string \<Rightarrow> int option" where
  "zsets_map s k = map_of (zsets s k)"

definition score_le :: "int \<Rightarrow> string \<Rightarrow> (string \<times> int) list \<Rightarrow> bool" where
  "score_le b m xs = (case map_of xs m of Some sc \<Rightarrow> sc \<le> b | None \<Rightarrow> True)"

definition mem_redis :: "mem_store redis" where
  "mem_redis = \<lparr>
     ZREMRANGEBYSCORE = (\<lambda>k b s. set_zset k (filter (\<lambda>x. \<not> score_le b (fst x) (zsets s k)) (zsets s k)) s),
     ZSCORE = (\<lambda>k m s. map_of (zsets s k) m),
     ZADD = (\<lambda>k sc m s. set_zset k ((m, sc) # zsets s k) s),
     ZREM = (\<lambda>k m s. (if map_of (zsets s k) m = None then 0 else 1,
                      set_zset k (filter (\<lambda>x. fst x \<noteq> m) (zsets s k)) s)),
     ZCARD = (\<lambda>k s. int (length (remdups (map fst (zsets s k))))),
     ZRANGE = (\<lambda>k s. remdups (map fst (zsets s k))),
     ZRANGEBYSCORE = (\<lambda>k b n s. take n (filter (\<lambda>m. score_le b m (zsets s k)) (remdups (map fst (zsets s k))))),
     GET = (\<lambda>k s. nums s k),
     INCR = (\<lambda>k s. s\<lparr>nums := (nums s)(k \<mapsto> (case nums s k of None \<Rightarrow> 0 | Some v \<Rightarrow> v) + 1)\<rparr>),
     DECR = (\<lambda>k s. s\<lparr>nums := (nums s)(k \<mapsto> (case nums s k of None \<Rightarrow> 0 | Some v \<Rightarrow> v) - 1)\<rparr>),
     DEL = (\<lambda>k s. (set_zset k [] s)\<lparr>nums := (nums s)(k := None)\<rparr>),
     EXPIRE = (\<lambda>k t s. s)\<rparr>"

lemma map_of_filter_reap:
  "map_of (filter (\<lambda>x. \<not> score_le b (fst x) ys) xs) m = (if score_le b m ys then None else map_of xs m)"
  by (induction xs) auto

lemma map_of_filter_neq: "map_of (filter (\<lambda>x. fst x \<noteq> m) xs) = (map_of xs)(m := None)"
  by (induction xs) (auto simp: fun_eq_iff)

interpretation mem: redis_store mem_redis zsets_map nums
proof
  fix k b s
  show "zsets_map (ZREMRANGEBYSCORE mem_redis k b s) = (zsets_map s)(k := reap b (zsets_map s k))"
  proof
    fix k'
    have "map_of (filter (\<lambda>x. \<not> score_le b (fst x) (zsets s k)) (zsets s k)) m = reap b (map_of (zsets s k)) m" for m
      unfolding map_of_filter_reap by (simp add: reap_def score_le_def split: option.split)
    then show "zsets_map (ZREMRANGEBYSCORE mem_redis k b s) k' = ((zsets_map s)(k := reap b (zsets_map s k))) k'"
      by (auto simp: mem_redis_def zsets_map_def set_zset_def)
  qed
next
  fix k and s :: mem_store
  have "card (dom (map_of (zsets s k))) = length (remdups (map fst (zsets s k)))"
    by (metis card_set dom_map_of_conv_image_fst image_set)
  then show "ZCARD mem_redis k s = int (card (dom (zsets_map s k)))"
    by (simp add: mem_redis_def zsets_map_def)
next
  fix k b n s
  show "set (ZRANGEBYSCORE mem_redis k b n s) \<subseteq> {m. \<exists>sc. zsets_map s k m = Some sc \<and> sc \<le> b}"
  proof
    fix m assume "m \<in> set (ZRANGEBYSCORE mem_redis k b n s)"
    then have "score_le b m (zsets s k)" "m \<in> fst ` set (zsets s k)"
      by (auto simp: mem_redis_def dest: in_set_takeD)
    then show "m \<in> {m. \<exists>sc. zsets_map s k m = Some sc \<and> sc \<le> b}"
      by (auto simp: zsets_map_def score_le_def split: option.splits)
        (metis domIff dom_map_of_conv_image_fst fst_conv image_eqI option.distinct(1))
  qed
  show "distinct (ZRANGEBYSCORE mem_redis k b n s)"
    by (simp add: mem_redis_def distinct_take)
qed (auto simp: mem_redis_def zsets_map_def set_zset_def map_of_filter_neq dom_map_of_conv_image_fst finite_dom_map_of
    fun_eq_iff)

section \<open>The startup cleanup and the leases\<close>

definition only_prefix :: "string \<Rightarrow> (string \<Rightarrow> int option) \<Rightarrow> bool" where
  "only_prefix p m \<longleftrightarrow> (\<forall>x\<in>dom m. take (length p) x = p)"

context redis_store
begin

lemma only_prefix_shrinks: "shrinks K s s' \<Longrightarrow> k \<in> K \<Longrightarrow> only_prefix p (zs s k) \<Longrightarrow> only_prefix p (zs s' k)"
  by (auto simp: shrinks_def only_prefix_def map_le_def dom_def)

lemma startup_loop_zs:
  "zs (snd (startup_loop R key p ms n s)) key x
     = (if x \<in> set ms \<and> take (length p) x \<noteq> p then None else zs s key x)"
  by (induction ms arbitrary: n s) auto

lemma startup_script_prefix: "only_prefix p (zs (snd (startupCleanupSlotScript R key p ttl s)) key)"
proof -
  obtain n s1 where l: "startup_loop R key p (ZRANGE R key s) 0 s = (n, s1)" by fastforce
  have "zs s1 key x = None" if "take (length p) x \<noteq> p" for x
    using startup_loop_zs [of key p "ZRANGE R key s" 0 s x] that l zrange(2) [of key s]
    by (cases "zs s key x") (auto split: if_splits)
  then have "only_prefix p (zs s1 key)" unfolding only_prefix_def by (metis domIff)
  with l show ?thesis by (auto simp: startupCleanupSlotScript_def Let_def only_prefix_def)
qed

lemma cleanup_members_prefix:
  assumes "cleanup_members R c e k spec p t ms s = (Some y, s')"
    and "m \<in> set ms" "ParseInt m = Some i" "0 < i"
  shows "only_prefix p (zs s' (slotKey spec i))"
  using assms(1,2)
proof (induction ms arbitrary: k s y s')
  case (Cons m' ms)
  have mono: "only_prefix p (zs s2 (slotKey spec i))"
    if "cleanup_members R c e n spec p t ms s1 = (x, s2)" "only_prefix p (zs s1 (slotKey spec i))" for n s1 x s2
    using only_prefix_shrinks [OF shrinks_cleanup_members [of "{slotKey spec i}"]] that by (metis insertI1 snd_conv)
  have IH: "only_prefix p (zs s2 (slotKey spec i))"
    if "cleanup_members R c e n spec p t ms s1 = (Some z, s2)" "m \<in> set ms" for n s1 z s2
    using Cons.IH that by blast
  show ?case
  proof (cases "ParseInt m' = None \<or> (\<exists>j. ParseInt m' = Some j \<and> j \<le> 0)")
    case True
    then have "m \<noteq> m'" using assms(3,4) by auto
    with Cons.prems(2) have "m \<in> set ms" by simp
    with True Cons.prems(1) show ?thesis
      by (auto simp: Let_def split: option.splits prod.splits intro: IH)
  next
    case False
    then obtain j where j: "ParseInt m' = Some j" "0 < j" by auto
    from Cons.prems(1) j obtain rm s1 s2 n1 z where
      c: "call (reply e k) (startupCleanupSlotScript R (slotKey spec j) p (slotTTLSeconds c)) s = (Some rm, s1)"
      "cmd (reply e (k + 1)) (DEL R (waitKey spec j)) s1 = (Some (), s2)"
      "cleanup_members R c e (k + 2) spec p t ms s2 = (Some z, s')"
      by (auto simp: Let_def split: option.splits prod.splits if_splits)
    show ?thesis
    proof (cases "m = m'")
      case True
      with j assms(3) have ij: "i = j" by simp
      have "s1 = snd (startupCleanupSlotScript R (slotKey spec j) p (slotTTLSeconds c) s)"
        using c(1) call_cases [of "reply e k" "startupCleanupSlotScript R (slotKey spec j) p (slotTTLSeconds c)" s] by simp
      then have "only_prefix p (zs s1 (slotKey spec i))" using startup_script_prefix ij by simp
      then have "only_prefix p (zs s2 (slotKey spec i))"
        using only_prefix_shrinks [OF shrinks_cmdD [OF c(2)], of "{slotKey spec i}"] by simp
      with mono [OF c(3)] show ?thesis by simp
    next
      case False
      with Cons.prems(2) IH [OF c(3)] show ?thesis by simp
    qed
  qed
qed simp

lemma cleanupIndex_prefix:
  assumes "cleanupStaleProcessSlotsForIndex R c e k spec ms p t s = (Some y, s')"
    and "m \<in> set ms" "ParseInt m = Some i" "0 < i" "indexKey spec \<noteq> slotKey spec i"
  shows "only_prefix p (zs s' (slotKey spec i))"
proof -
  let ?K = "{slotKey spec i}"
  from assms(1) obtain refreshed stale s1 where
    c: "cleanup_members R c e (k + 2) spec p t ms s = (Some (refreshed, stale), s1)"
    by (auto simp: cleanupStaleProcessSlotsForIndex_def split: option.splits prod.splits)
  let ?s2 = "if refreshed = [] then s1 else snd (cmd (reply e k) (zadd_all R (indexKey spec) refreshed) s1)"
  have s': "s' = removeActiveIndexMembers R (reply e (k + 1)) (indexKey spec) stale ?s2"
    using assms(1) c by (auto simp: cleanupStaleProcessSlotsForIndex_def Let_def)
  have "shrinks ?K s1 ?s2" using assms(5) by (auto intro: shrinks_cmd shrinks_zadd_all)
  then have "shrinks ?K s1 s'" unfolding s' by (rule shrinks_trans) (rule shrinks_removeActive)
  with cleanup_members_prefix [OF c assms(2-4)] only_prefix_shrinks [of ?K s1 s'] show ?thesis by simp
qed

lemma startup_cleanup_prefix:
  assumes "CleanupStaleProcessSlots R c sweep e ea eu p s = (Some y, s')" "p \<noteq> []"
    and "\<And>s. zs (snd (sweep s)) = zs s" and "0 < i" "i < 2 ^ 63"
    and "FormatInt i \<in> dom (zs s accountActiveIndexKey)"
  shows "only_prefix p (zs s' (accountSlotKey i))"
proof -
  obtain x s1 where sw: "sweep s = (x, s1)" by fastforce
  have zs1: "zs s1 = zs s" using assms(3) [of s] sw by simp
  have ask: "ask r f s0 = Some v \<Longrightarrow> v = f s0" for r and f :: "'s \<Rightarrow> 'a" and s0 v
    by (auto simp: ask_def call_def split: reply.splits)
  from assms(1,2) sw obtain ms us s2 where
    a: "ask (reply e 1) (ZRANGE R accountActiveIndexKey) s1 = Some ms"
       "cleanupStaleProcessSlotsForIndex R c ea 0 accountSlotIndex ms p (clock e 0) s1 = (Some (), s2)" and
    u: "ask (reply e 2) (ZRANGE R userActiveIndexKey) s2 = Some us"
       "cleanupStaleProcessSlotsForIndex R c eu 0 userSlotIndex us p (clock e 0) s2 = (Some y, s')"
    by (auto simp: CleanupStaleProcessSlots_def split: option.splits prod.splits if_splits)
  have P: "ParseInt (FormatInt i) = Some i" using assms(4,5) by (intro ParseInt_FormatInt) simp_all
  have msset: "set ms = dom (zs s accountActiveIndexKey)"
    using ask [OF a(1)] zrange(2) zs1 by simp
  have sh2: "shrinks {accountSlotKey i} s2 s'"
    using shrinks_cleanupIndex [of userSlotIndex "{accountSlotKey i}" s2 c eu 0 us p "clock e 0"] u(2)
    by (simp add: userSlotIndex_def)
  have "only_prefix p (zs s2 (slotKey accountSlotIndex i))"
    using msset P assms(4,6) by (intro cleanupIndex_prefix [OF a(2)]) (auto simp: accountSlotIndex_def)
  then show ?thesis using only_prefix_shrinks [OF sh2] by (simp add: accountSlotIndex_def)
qed

end

section \<open>Properties\<close>


definition calm_env :: "int \<Rightarrow> redis_env" where
  "calm_env t = \<lparr>clock = (\<lambda>_. t), reply = (\<lambda>_. Answered)\<rparr>"

definition empty_mem :: mem_store where
  "empty_mem = \<lparr>zsets = (\<lambda>_. []), nums = (\<lambda>_. None)\<rparr>"

definition no_sweep :: "mem_store \<Rightarrow> unit option \<times> mem_store" where
  "no_sweep s = (Some (), s)"


text \<open>C31. After the startup cleanup with this process's request prefix, every account in the active index
  holds only slots whose request ids carry that prefix: the slots of dead processes are gone.\<close>
theorem startup_cleanup_keeps_own_slots:
  assumes "redis_store R zs ctr" and "\<And>s. zs (snd (sweep s)) = zs s"
    and "CleanupStaleProcessSlots R c sweep e ea eu p s = (Some y, s')" "p \<noteq> []"
    and "0 < i" "i < 2 ^ 63" "FormatInt i \<in> dom (zs s accountActiveIndexKey)"
  shows "\<forall>x\<in>dom (zs s' (accountSlotKey i)). HasPrefix x p"
proof -
  have "only_prefix p (zs s' (accountSlotKey i))"
    by (rule redis_store.startup_cleanup_prefix [OF assms(1) assms(3,4,2,5-7)])
  then show ?thesis by (simp add: only_prefix_def HasPrefix_def)
qed

definition indexed_mem :: mem_store where
  "indexed_mem = \<lparr>zsets = (\<lambda>k. if k = accountActiveIndexKey then [(''7'', 900)]
     else if k = accountSlotKey 7 then [(''rA-1'', 10), (''rB-1'', 11)] else []), nums = (\<lambda>_. None)\<rparr>"

theorem startup_cleanup_keeps_own_slots_witness:
  "\<exists>s'. CleanupStaleProcessSlots mem_redis (NewConcurrencyCache 0 0) no_sweep (calm_env 20) (calm_env 20)
      (calm_env 20) ''rB'' indexed_mem = (Some (), s') \<and> (\<forall>x\<in>dom (zsets_map s' (accountSlotKey 7)). HasPrefix x ''rB'')"
proof -
  let ?r = "CleanupStaleProcessSlots mem_redis (NewConcurrencyCache 0 0) no_sweep (calm_env 20) (calm_env 20)
      (calm_env 20) ''rB'' indexed_mem"
  have "fst ?r = Some ()" by code_simp
  then have r: "?r = (Some (), snd ?r)" by (metis prod.collapse)
  have "zsets_map indexed_mem accountActiveIndexKey (FormatInt 7) = Some 900" by code_simp
  then have "FormatInt 7 \<in> dom (zsets_map indexed_mem accountActiveIndexKey)" by blast
  from startup_cleanup_keeps_own_slots [OF mem.redis_store_axioms _ r _ _ _ this] r
  show ?thesis by (intro exI [of _ "snd ?r"]) (simp add: no_sweep_def)
qed

text \<open>A live lease is only refreshed where it is still held: the refresh answers yes exactly
  when the lease is unexpired for the account, the user and the API key, and then renews all three; otherwise it
  adds nothing, so a lost lease is never created again.\<close>
lemma lost_lease_is_not_recreated:
  assumes "redis_store R zs ctr" and "leaseID \<noteq> []" "reply e 0 = Answered"
    and "RefreshLiveLease R e a u k leaseID s = (r, s')"
  shows "r = Some (\<forall>key\<in>{liveAccountSlotKey a, liveUserSlotKey u, liveAPIKeySlotKey k}.
        \<exists>sc. zs s key leaseID = Some sc \<and> clock e 0 - 60 < sc) \<and>
    (r = Some True \<longrightarrow> (\<forall>key\<in>{liveAccountSlotKey a, liveUserSlotKey u, liveAPIKeySlotKey k}.
        zs s' key leaseID = Some (clock e 0))) \<and>
    (r = Some False \<longrightarrow> (\<forall>key. zs s' key \<subseteq>\<^sub>m zs s key))"
proof -
  let ?keys = "[liveAccountSlotKey a, liveUserSlotKey u, liveAPIKeySlotKey k]"
  obtain b s1 where c: "refresh_check R (clock e 0 - 60) leaseID ?keys s = (b, s1)" by fastforce
  have b: "b \<longleftrightarrow> (\<forall>key\<in>set ?keys. \<exists>sc. zs s key leaseID = Some sc \<and> clock e 0 - 60 < sc)"
    using redis_store.refresh_check_iff [OF assms(1), of ?keys "clock e 0 - 60" leaseID s] c by simp
  have sh: "redis_store.shrinks zs UNIV s s1"
    using redis_store.refresh_check_shrinks [OF assms(1), of UNIV s "clock e 0 - 60" leaseID ?keys] c by simp
  have run: "(r, s') = (Some b, if b then fold (\<lambda>key s. EXPIRE R key 60 (ZADD R key (clock e 0) leaseID s)) ?keys s1 else s1)"
    using assms(2-4) c by (auto simp: RefreshLiveLease_def call_def refreshLiveLeaseScript_def liveLeaseTTLSeconds_def
        split: bool.splits)
  have "zs (fold (\<lambda>key s. EXPIRE R key 60 (ZADD R key (clock e 0) leaseID s)) ?keys s1) key
      = (if key \<in> set ?keys then (zs s1 key)(leaseID \<mapsto> clock e 0) else zs s1 key)" for key
    by (rule redis_store.refresh_fold_zs [OF assms(1)]) simp
  with run b sh show ?thesis by (auto simp: redis_store.shrinks_def [OF assms(1)])
qed

theorem lost_lease_is_not_recreated_witness:
  "fst (RefreshLiveLease mem_redis (calm_env 10) 1 2 3 ''l1'' empty_mem) = Some False"
proof -
  obtain r s' where rs: "RefreshLiveLease mem_redis (calm_env 10) 1 2 3 ''l1'' empty_mem = (r, s')" by fastforce
  from lost_lease_is_not_recreated [OF mem.redis_store_axioms _ _ rs] rs show ?thesis
    by (simp add: calm_env_def empty_mem_def zsets_map_def) blast
qed

end
