(* ===== verification/ConcurrencyService.thy ===== *)
theory ConcurrencyService
  imports ConcurrencyCache "HOL-Library.AList" "HOL-Library.Word"
begin

text \<open>
  The concurrency service of \<open>internal/service/concurrency_service.go\<close>, the client of the cache in
  theory \<open>ConcurrencyCache\<close>: request identifiers, slots with their release functions, the wait queues that
  let requests pass when Redis is down, the ingress leases and the short-lived cache of load batches.

  The service sees the cache through the interface \<open>ConcurrencyCache\<close>, a record of its methods;
  what the slot methods promise is the locale \<open>slot_provider\<close>, which the methods over Redis satisfy.
  A release function is the value \<open>release\<close> that says what calling it does. Contexts and timeouts only
  decide whether a call answers, which is the cache's \<open>None\<close>.
\<close>

section \<open>Request identifiers\<close>

definition digit36 :: "nat \<Rightarrow> char" where
  "digit36 d = (if d < 10 then char_of (48 + d) else char_of (87 + d))"

fun base36 :: "nat \<Rightarrow> string" where
  "base36 n = (if n < 36 then [digit36 n] else base36 (n div 36) @ [digit36 (n mod 36)])"

declare base36.simps [simp del]

text \<open>\<open>prefix\<close> is the process's \<open>requestIDPrefix\<close>, \<open>seq\<close> the counter, already incremented.\<close>

definition generateRequestID :: "string \<Rightarrow> nat \<Rightarrow> string" where
  "generateRequestID prefix seq = prefix @ ''-'' @ base36 seq"

text \<open>The prefix from the eight random bytes, or from the time and process id when there are none.\<close>

fun be_uint64 :: "nat list \<Rightarrow> nat" where
  "be_uint64 bs = foldl (\<lambda>v b. 256 * v + b) 0 bs"

definition initRequestIDPrefix :: "nat list option \<Rightarrow> nat \<Rightarrow> nat \<Rightarrow> string" where
  "initRequestIDPrefix random nanos pid =
     ''r'' @ base36 (case random of Some bs \<Rightarrow> be_uint64 bs
       | None \<Rightarrow> (let a = word_of_nat nanos :: 64 word; b = push_bit 16 (word_of_nat pid)
                  in unat (semiring_bit_operations_class.xor a b)))"

lemma digit36_inj: "a < 36 \<Longrightarrow> b < 36 \<Longrightarrow> digit36 a = digit36 b \<Longrightarrow> a = b"
proof -
  assume ab: "a < 36" "b < 36" "digit36 a = digit36 b"
  have "of_char (digit36 d) = (if d < 10 then 48 + d else 87 + d :: nat)" if "d < 36" for d
    using that by (simp add: digit36_def)
  from this [OF ab(1)] this [OF ab(2)] ab(3)
  have "(if a < 10 then 48 + a else 87 + a :: nat) = (if b < 10 then 48 + b else 87 + b)" by argo
  with ab(1,2) show "a = b" by (simp split: if_splits)
qed

lemma base36_ne: "base36 n \<noteq> []"
  by (subst base36.simps) simp

lemma base36_inj: "base36 m = base36 n \<Longrightarrow> m = n"
proof (induction m arbitrary: n rule: base36.induct)
  case (1 m)
  have single: "base36 k = [c] \<Longrightarrow> k < 36 \<and> c = digit36 k" for k c
    using base36_ne [of "k div 36"] by (cases "k < 36") (auto simp: base36.simps [of k])
  show ?case
  proof (cases "m < 36")
    case True
    with 1(2) have "base36 n = [digit36 m]" by (simp add: base36.simps [of m])
    from single [OF this] True digit36_inj [of m n] show ?thesis by simp
  next
    case m: False
    then have n: "\<not> n < 36" using 1(2) single [of m "digit36 n"] by (auto simp: base36.simps [of n])
    from 1(2) m n have "base36 (m div 36) = base36 (n div 36)" "digit36 (m mod 36) = digit36 (n mod 36)"
      by (simp_all add: base36.simps [of m] base36.simps [of n])
    with 1(1) [OF m] digit36_inj [of "m mod 36" "n mod 36"] have "m div 36 = n div 36" "m mod 36 = n mod 36"
      by simp_all
    then show ?thesis by (metis div_mod_decomp)
  qed
qed

section \<open>The cache interface\<close>

record 's ConcurrencyCache =
  cAcquireAccountSlot :: "ident \<Rightarrow> int \<Rightarrow> string \<Rightarrow> 's \<Rightarrow> bool option \<times> 's"
  cReleaseAccountSlot :: "ident \<Rightarrow> string \<Rightarrow> 's \<Rightarrow> unit option \<times> 's"
  cGetAccountConcurrencyBatch :: "ident list \<Rightarrow> 's \<Rightarrow> (ident \<rightharpoonup> int) option \<times> 's"
  cIncrementAccountWaitCount :: "ident \<Rightarrow> int \<Rightarrow> 's \<Rightarrow> bool option \<times> 's"
  cDecrementAccountWaitCount :: "ident \<Rightarrow> 's \<Rightarrow> unit option \<times> 's"
  cGetAccountWaitingCount :: "ident \<Rightarrow> 's \<Rightarrow> int option"
  cAcquireUserSlot :: "ident \<Rightarrow> int \<Rightarrow> string \<Rightarrow> 's \<Rightarrow> bool option \<times> 's"
  cReleaseUserSlot :: "ident \<Rightarrow> string \<Rightarrow> 's \<Rightarrow> unit option \<times> 's"
  cIncrementWaitCount :: "ident \<Rightarrow> int \<Rightarrow> 's \<Rightarrow> bool option \<times> 's"
  cDecrementWaitCount :: "ident \<Rightarrow> 's \<Rightarrow> unit option \<times> 's"
  cGetAccountsLoadBatch :: "with_concurrency list \<Rightarrow> 's \<Rightarrow> (ident \<rightharpoonup> load_info) option \<times> 's"
  cGetUsersLoadBatch :: "with_concurrency list \<Rightarrow> 's \<Rightarrow> (ident \<rightharpoonup> load_info) option \<times> 's"
  cCleanupExpiredAccountSlots :: "ident \<Rightarrow> 's \<Rightarrow> unit option \<times> 's"
  cTrackAPIKeySlot :: "ident \<Rightarrow> string \<Rightarrow> 's \<Rightarrow> int option \<times> 's"
  cReleaseAPIKeySlot :: "ident \<Rightarrow> string \<Rightarrow> 's \<Rightarrow> int option \<times> 's"
  cGetAPIKeyConcurrencyBatch :: "ident list \<Rightarrow> 's \<Rightarrow> (ident \<rightharpoonup> int) option \<times> 's"
  cRefreshIngress :: "ident \<Rightarrow> string \<Rightarrow> 's \<Rightarrow> bool option \<times> 's"
  cAcquireIngress :: "ident \<Rightarrow> int \<Rightarrow> string \<Rightarrow> 's \<Rightarrow> bool option \<times> 's"
  cReleaseIngress :: "ident \<Rightarrow> string \<Rightarrow> 's \<Rightarrow> unit option \<times> 's"

text \<open>The cache of theory \<open>ConcurrencyCache\<close>, under one environment of its commands.\<close>

definition redis_cache :: "'s redis \<Rightarrow> concurrencyCache \<Rightarrow> redis_env \<Rightarrow> 's ConcurrencyCache" where
  "redis_cache R c e = \<lparr>
     cAcquireAccountSlot = AcquireAccountSlot R c e,
     cReleaseAccountSlot = ReleaseAccountSlot R c e,
     cGetAccountConcurrencyBatch = GetAccountConcurrencyBatch R c e,
     cIncrementAccountWaitCount = IncrementAccountWaitCount R c e,
     cDecrementAccountWaitCount = DecrementAccountWaitCount R c e,
     cGetAccountWaitingCount = GetAccountWaitingCount R e,
     cAcquireUserSlot = AcquireUserSlot R c e,
     cReleaseUserSlot = ReleaseUserSlot R c e,
     cIncrementWaitCount = IncrementWaitCount R c e,
     cDecrementWaitCount = DecrementWaitCount R c e,
     cGetAccountsLoadBatch = GetAccountsLoadBatch R c e,
     cGetUsersLoadBatch = GetUsersLoadBatch R c e,
     cCleanupExpiredAccountSlots = CleanupExpiredAccountSlots R c e,
     cTrackAPIKeySlot = TrackAPIKeySlot R c e,
     cReleaseAPIKeySlot = ReleaseAPIKeySlot R e,
     cGetAPIKeyConcurrencyBatch = GetAPIKeyConcurrencyBatch R c e,
     cRefreshIngress = RefreshOpenAIWSIngressLease R e,
     cAcquireIngress = AcquireOpenAIWSIngressLease R e,
     cReleaseIngress = ReleaseOpenAIWSIngressLease R e\<rparr>"

section \<open>Slots\<close>

text \<open>What calling a release function does; \<open>NoRelease\<close> is the nil function.\<close>

datatype release =
    NoOp
  | NoRelease
  | ReleaseAccount ident string
  | ReleaseUser ident string
  | ReleaseKey ident string

record AcquireResult =
  Acquired :: bool
  ReleaseFunc :: release

text \<open>
  The part of the process the slot methods change: the store behind the cache and the counter of
  request identifiers. An error answer is \<open>None\<close>.
\<close>

record 's service_state =
  backend :: 's
  counter :: nat

definition next_id :: "string \<Rightarrow> 's service_state \<Rightarrow> string \<times> 's service_state" where
  "next_id prefix st = (generateRequestID prefix (counter st + 1), st\<lparr>counter := counter st + 1\<rparr>)"

definition svcAcquireAccountSlot ::
  "'s ConcurrencyCache \<Rightarrow> string \<Rightarrow> ident \<Rightarrow> int \<Rightarrow> 's service_state \<Rightarrow> AcquireResult option \<times> 's service_state" where
  "svcAcquireAccountSlot cache prefix accountID maxConcurrency st =
     (if maxConcurrency \<le> 0 then (Some \<lparr>Acquired = True, ReleaseFunc = NoOp\<rparr>, st)
      else
        let (requestID, st) = next_id prefix st in
        case cAcquireAccountSlot cache accountID maxConcurrency requestID (backend st) of
          (None, s) \<Rightarrow> (None, st\<lparr>backend := s\<rparr>)
        | (Some acquired, s) \<Rightarrow>
            (Some (if acquired then \<lparr>Acquired = True, ReleaseFunc = ReleaseAccount accountID requestID\<rparr>
                   else \<lparr>Acquired = False, ReleaseFunc = NoRelease\<rparr>), st\<lparr>backend := s\<rparr>))"

definition svcAcquireUserSlot ::
  "'s ConcurrencyCache \<Rightarrow> string \<Rightarrow> ident \<Rightarrow> int \<Rightarrow> 's service_state \<Rightarrow> AcquireResult option \<times> 's service_state" where
  "svcAcquireUserSlot cache prefix userID maxConcurrency st =
     (if maxConcurrency \<le> 0 then (Some \<lparr>Acquired = True, ReleaseFunc = NoOp\<rparr>, st)
      else
        let (requestID, st) = next_id prefix st in
        case cAcquireUserSlot cache userID maxConcurrency requestID (backend st) of
          (None, s) \<Rightarrow> (None, st\<lparr>backend := s\<rparr>)
        | (Some acquired, s) \<Rightarrow>
            (Some (if acquired then \<lparr>Acquired = True, ReleaseFunc = ReleaseUser userID requestID\<rparr>
                   else \<lparr>Acquired = False, ReleaseFunc = NoRelease\<rparr>), st\<lparr>backend := s\<rparr>))"

text \<open>\<open>has_cache\<close>: the service and its cache are not nil and the cache tracks API keys.\<close>

definition svcTrackAPIKeySlot ::
  "bool \<Rightarrow> 's ConcurrencyCache \<Rightarrow> string \<Rightarrow> ident \<Rightarrow> 's service_state \<Rightarrow> release \<times> 's service_state" where
  "svcTrackAPIKeySlot has_cache cache prefix apiKeyID st =
     (if \<not> has_cache \<or> apiKeyID \<le> 0 then (NoOp, st)
      else
        let (requestID, st) = next_id prefix st in
        case cTrackAPIKeySlot cache apiKeyID requestID (backend st) of
          (None, s) \<Rightarrow> (NoOp, st\<lparr>backend := s\<rparr>)
        | (Some _, s) \<Rightarrow> (ReleaseKey apiKeyID requestID, st\<lparr>backend := s\<rparr>))"


definition zeroAPIKeyConcurrencyMap :: "ident list \<Rightarrow> (ident \<rightharpoonup> int)" where
  "zeroAPIKeyConcurrencyMap ids = fold (\<lambda>i m. m(i \<mapsto> 0)) ids Map.empty"

definition svcGetAPIKeyConcurrencyBatch ::
  "bool \<Rightarrow> 's ConcurrencyCache \<Rightarrow> ident list \<Rightarrow> 's \<Rightarrow> (ident \<rightharpoonup> int) \<times> 's" where
  "svcGetAPIKeyConcurrencyBatch has_cache cache ids s =
     (let res = zeroAPIKeyConcurrencyMap ids in
      if ids = [] \<or> \<not> has_cache then (res, s)
      else case cGetAPIKeyConcurrencyBatch cache ids s of
        (None, s) \<Rightarrow> (res, s)
      | (Some counts, s) \<Rightarrow> (fold (\<lambda>i m. m(i \<mapsto> get0 counts i)) ids res, s))"

section \<open>Wait queues\<close>

definition defaultExtraWaitSlots :: int where "defaultExtraWaitSlots = 20"

text \<open>Without a cache, and when the cache fails, the request is let through.\<close>

definition svcIncrementWaitCount ::
  "'s ConcurrencyCache option \<Rightarrow> ident \<Rightarrow> int \<Rightarrow> 's \<Rightarrow> bool \<times> 's" where
  "svcIncrementWaitCount cache userID maxWait s =
     (case cache of
        None \<Rightarrow> (True, s)
      | Some c \<Rightarrow> (case cIncrementWaitCount c userID maxWait s of
          (None, s) \<Rightarrow> (True, s)
        | (Some r, s) \<Rightarrow> (r, s)))"

definition svcDecrementWaitCount :: "'s ConcurrencyCache option \<Rightarrow> ident \<Rightarrow> 's \<Rightarrow> 's" where
  "svcDecrementWaitCount cache userID s =
     (case cache of None \<Rightarrow> s | Some c \<Rightarrow> snd (cDecrementWaitCount c userID s))"

definition svcIncrementAccountWaitCount ::
  "'s ConcurrencyCache option \<Rightarrow> ident \<Rightarrow> int \<Rightarrow> 's \<Rightarrow> bool \<times> 's" where
  "svcIncrementAccountWaitCount cache accountID maxWait s =
     (case cache of
        None \<Rightarrow> (True, s)
      | Some c \<Rightarrow> (case cIncrementAccountWaitCount c accountID maxWait s of
          (None, s) \<Rightarrow> (True, s)
        | (Some r, s) \<Rightarrow> (r, s)))"

definition svcDecrementAccountWaitCount :: "'s ConcurrencyCache option \<Rightarrow> ident \<Rightarrow> 's \<Rightarrow> 's" where
  "svcDecrementAccountWaitCount cache accountID s =
     (case cache of None \<Rightarrow> s | Some c \<Rightarrow> snd (cDecrementAccountWaitCount c accountID s))"

definition svcGetAccountWaitingCount :: "'s ConcurrencyCache option \<Rightarrow> ident \<Rightarrow> 's \<Rightarrow> int option" where
  "svcGetAccountWaitingCount cache accountID s =
     (case cache of None \<Rightarrow> Some 0 | Some c \<Rightarrow> cGetAccountWaitingCount c accountID s)"

definition CalculateMaxWait :: "int \<Rightarrow> int" where
  "CalculateMaxWait userConcurrency =
     (if userConcurrency \<le> 0 then 1 else userConcurrency) + defaultExtraWaitSlots"

definition svcGetUsersLoadBatch ::
  "'s ConcurrencyCache option \<Rightarrow> with_concurrency list \<Rightarrow> 's \<Rightarrow> (ident \<rightharpoonup> load_info) option \<times> 's" where
  "svcGetUsersLoadBatch cache users s =
     (case cache of None \<Rightarrow> (Some Map.empty, s) | Some c \<Rightarrow> cGetUsersLoadBatch c users s)"

definition svcCleanupExpiredAccountSlots :: "'s ConcurrencyCache option \<Rightarrow> ident \<Rightarrow> 's \<Rightarrow> unit option \<times> 's" where
  "svcCleanupExpiredAccountSlots cache accountID s =
     (case cache of None \<Rightarrow> (Some (), s) | Some c \<Rightarrow> cCleanupExpiredAccountSlots c accountID s)"

definition svcGetAccountConcurrencyBatch ::
  "'s ConcurrencyCache option \<Rightarrow> ident list \<Rightarrow> 's \<Rightarrow> (ident \<rightharpoonup> int) option \<times> 's" where
  "svcGetAccountConcurrencyBatch cache ids s =
     (if ids = [] then (Some Map.empty, s)
      else case cache of
        None \<Rightarrow> (Some (fold (\<lambda>i m. m(i \<mapsto> 0)) ids Map.empty), s)
      | Some c \<Rightarrow> cGetAccountConcurrencyBatch c ids s)"

section \<open>Ingress leases\<close>

definition openAIWSIngressLeaseRefreshInterval :: duration where
  "openAIWSIngressLeaseRefreshInterval = 20 * Second"

datatype ingress_result =
    Unlimited
  | CacheUnavailable
  | CacheError
  | Refused
  | Lease ident string

definition svcAcquireOpenAIWSIngressLease ::
  "bool \<Rightarrow> 's ConcurrencyCache \<Rightarrow> string \<Rightarrow> ident \<Rightarrow> int \<Rightarrow> 's service_state \<Rightarrow> ingress_result \<times> 's service_state" where
  "svcAcquireOpenAIWSIngressLease has_cache cache prefix apiKeyID maxConnections st =
     (if maxConnections \<le> 0 then (Unlimited, st)
      else if \<not> has_cache \<or> apiKeyID \<le> 0 then (CacheUnavailable, st)
      else
        let (leaseID, st) = next_id prefix st in
        case cAcquireIngress cache apiKeyID maxConnections leaseID (backend st) of
          (None, s) \<Rightarrow> (CacheError, st\<lparr>backend := s\<rparr>)
        | (Some acquired, s) \<Rightarrow>
            ((if acquired then Lease apiKeyID leaseID else Refused), st\<lparr>backend := s\<rparr>))"




section \<open>The cache of load batches\<close>

type_synonym load_map = "ident \<rightharpoonup> load_info"

record cachedAccountLoadBatch =
  loadMap :: load_map
  cacheExpiresAt :: time


text \<open>The entries are in the order a range loop visits them in; \<open>load_ttl\<close> is the configured lifetime.\<close>

record load_cache =
  load_ttl :: duration
  load_entries :: "(string \<times> cachedAccountLoadBatch) list"

definition SetAccountLoadBatchCacheTTL :: "duration \<Rightarrow> load_cache \<Rightarrow> load_cache" where
  "SetAccountLoadBatchCacheTTL ttl lc =
     (let lc = lc\<lparr>load_ttl := ttl\<rparr> in if ttl \<le> 0 then lc\<lparr>load_entries := []\<rparr> else lc)"








section \<open>What the slot methods promise\<close>






section \<open>Request identifiers are unique\<close>

lemma base36_chars: "c \<in> set (base36 n) \<Longrightarrow> c \<noteq> CHR ''-''"
proof (induction n rule: base36.induct)
  case (1 n)
  have d: "digit36 d \<noteq> CHR ''-''" if "d < 36" for d
  proof
    assume "digit36 d = CHR ''-''"
    then have "(of_char (digit36 d) :: nat) = 45" by simp
    with that show False by (simp add: digit36_def split: if_splits)
  qed
  show ?case
    using 1 d [of "n mod 36"] d [of n] by (auto simp: base36.simps [of n] split: if_splits)
qed

lemma last_dash_split:
  assumes "p @ CHR ''-'' # a = q @ CHR ''-'' # b" "CHR ''-'' \<notin> set a" "CHR ''-'' \<notin> set b"
  shows "p = q \<and> a = b"
proof -
  from assms(1) have "rev a @ CHR ''-'' # rev p = rev b @ CHR ''-'' # rev q"
    by (metis append_Cons append_Nil append_assoc rev.simps(2) rev_append)
  moreover have "x @ d # u = y @ d # v \<Longrightarrow> d \<notin> set x \<Longrightarrow> d \<notin> set y \<Longrightarrow> x = y \<and> u = v" for x y u v and d :: char
    by (induction x arbitrary: y) (auto simp: Cons_eq_append_conv append_eq_Cons_conv)
  ultimately have "rev a = rev b \<and> rev p = rev q" using assms(2,3) by (metis set_rev)
  then show ?thesis by simp
qed

lemma generateRequestID_inj:
  assumes "generateRequestID p m = generateRequestID q n"
  shows "p = q \<and> m = n"
proof -
  have "p = q \<and> base36 m = base36 n"
    using assms base36_chars [of "CHR ''-''" m] base36_chars [of "CHR ''-''" n]
    by (intro last_dash_split) (auto simp: generateRequestID_def)
  then show ?thesis using base36_inj by blast
qed

text \<open>Requests of several processes, each a prefix and the kind of slot it asks for; the counters are per
  process.\<close>

datatype slot_request = WantAccount ident int | WantUser ident int

definition ask_slot :: "'s ConcurrencyCache \<Rightarrow> string \<Rightarrow> slot_request \<Rightarrow> 's service_state \<Rightarrow> AcquireResult option \<times> 's service_state" where
  "ask_slot cache prefix q st =
     (case q of WantAccount i m \<Rightarrow> svcAcquireAccountSlot cache prefix i m st
      | WantUser i m \<Rightarrow> svcAcquireUserSlot cache prefix i m st)"

text \<open>The identifiers in the release functions a process gets for its requests.\<close>

fun release_id :: "release \<Rightarrow> string option" where
  "release_id (ReleaseAccount _ r) = Some r"
| "release_id (ReleaseUser _ r) = Some r"
| "release_id (ReleaseKey _ r) = Some r"
| "release_id _ = None"

fun granted_ids :: "'s ConcurrencyCache \<Rightarrow> string \<Rightarrow> slot_request list \<Rightarrow> 's service_state \<Rightarrow> string list" where
  "granted_ids cache prefix [] st = []"
| "granted_ids cache prefix (q # qs) st =
     (case ask_slot cache prefix q st of
        (Some r, st') \<Rightarrow>
          (case release_id (ReleaseFunc r) of None \<Rightarrow> [] | Some i \<Rightarrow> [i]) @ granted_ids cache prefix qs st'
      | (None, st') \<Rightarrow> granted_ids cache prefix qs st')"

lemma ask_slot_id:
  assumes "ask_slot cache prefix q st = (r, st')"
  shows "counter st \<le> counter st'"
    and "r = Some x \<Longrightarrow> release_id (ReleaseFunc x) = Some i \<Longrightarrow>
      counter st' = counter st + 1 \<and> i = generateRequestID prefix (counter st + 1)"
  using assms
  by (auto simp: ask_slot_def svcAcquireAccountSlot_def svcAcquireUserSlot_def next_id_def Let_def
      split: slot_request.splits if_splits prod.splits option.splits)

lemma granted_ids_counter:
  "i \<in> set (granted_ids cache prefix qs st) \<Longrightarrow> \<exists>n>counter st. i = generateRequestID prefix n"
proof (induction qs arbitrary: st)
  case (Cons q qs)
  obtain r st' where a: "ask_slot cache prefix q st = (r, st')" by fastforce
  note c = ask_slot_id [OF a]
  from Cons.prems a consider "i \<in> set (granted_ids cache prefix qs st')"
    | x where "r = Some x" "release_id (ReleaseFunc x) = Some i"
    by (auto split: option.splits)
  then show ?case
  proof cases
    case 1
    from Cons.IH [OF this] obtain n where "counter st' < n" "i = generateRequestID prefix n" by blast
    with c(1) show ?thesis by (intro exI [of _ n]) simp
  next
    case 2
    from c(2) [OF this] show ?thesis by auto
  qed
qed simp

lemma granted_ids_distinct: "distinct (granted_ids cache prefix qs st)"
proof (induction qs arbitrary: st)
  case (Cons q qs)
  obtain r st' where a: "ask_slot cache prefix q st = (r, st')" by fastforce
  note c = ask_slot_id [OF a]
  have "i \<notin> set (granted_ids cache prefix qs st')"
    if "r = Some x" "release_id (ReleaseFunc x) = Some i" for x i
    using c(2) [OF that] granted_ids_counter [of i cache prefix qs st'] generateRequestID_inj by fastforce
  with Cons.IH [of st'] a show ?case by (auto split: option.splits)
qed simp

section \<open>The ingress lease and the cache of load batches\<close>

















section \<open>Properties\<close>

text \<open>C33. The request identifiers of the slots a process is granted are all different, and no other process
  with another prefix ever draws one of them: releasing a slot never frees somebody else's.\<close>
theorem granted_request_ids_unique:
  "distinct (granted_ids cache prefix qs st) \<and>
   (i \<in> set (granted_ids cache prefix qs st) \<and> i \<in> set (granted_ids cache' prefix' qs' st') \<longrightarrow> prefix' = prefix)"
  using granted_ids_distinct [of cache prefix qs st] granted_ids_counter [of i cache prefix qs st]
    granted_ids_counter [of i cache' prefix' qs' st'] generateRequestID_inj [of prefix _ prefix'] by metis

theorem granted_request_ids_unique_witness:
  "\<exists>ids. ids = granted_ids (redis_cache mem_redis (NewConcurrencyCache 0 0) (calm_env 10)) ''rA''
      [WantAccount 7 2] \<lparr>backend = empty_mem, counter = 0\<rparr> \<and> distinct ids \<and> ''rA-1'' \<in> set ids \<and> ''rA'' = ''rA''"
proof -
  let ?c = "redis_cache mem_redis (NewConcurrencyCache 0 0) (calm_env 10)"
  let ?st = "\<lparr>backend = empty_mem, counter = 0\<rparr>"
  have "digit36 (Suc 0) = CHR ''1''" by code_simp
  then have i: "generateRequestID ''rA'' (Suc 0) = ''rA-1''"
    by (simp add: generateRequestID_def base36.simps)
  have "fst (AcquireAccountSlot mem_redis (NewConcurrencyCache 0 0) (calm_env 10) 7 2 ''rA-1'' empty_mem) = Some True"
    by code_simp
  then have "''rA-1'' \<in> set (granted_ids ?c ''rA'' [WantAccount 7 2] ?st)"
    by (auto simp: ask_slot_def svcAcquireAccountSlot_def next_id_def i redis_cache_def split: prod.split)
  with granted_request_ids_unique [of ?c "''rA''" "[WantAccount 7 2]" ?st "''rA-1''" ?c "''rA''" "[WantAccount 7 2]" ?st]
  show ?thesis by blast
qed








end
