(* ===== verification/KeywordMatcher.thy ===== *)
theory KeywordMatcher
  imports Prelude "HOL-Library.Sublist" "HOL-Library.Multiset"
begin

text \<open>
  The keyword matcher of content moderation, \<open>internal/service/content_moderation_keyword_matcher.go\<close>:
  an Aho-Corasick automaton in two arrays. Building inserts the lower-case keywords into a trie whose edges form
  linked lists inside one array, computes the failure links breadth first, and freezes the edges of every node into a
  sorted run that \<open>next\<close> searches by bisection. \<open>Match\<close> returns the keyword with the smallest index that occurs
  in the text.

  Array indices are naturals and the index -1 of the code (no edge, no keyword) is \<open>None\<close>; the int32, uint32
  and uint16 fields hold indices below the number of trie nodes or 256, far from their limits. \<open>lower\<close> stands
  for \<open>strings.ToLower\<close> with its tables of all scripts: the theorems hold for every case mapping that keeps the
  empty string apart.

  The loops over a linked list run over the list of its edges (\<open>siblings\<close>), which the loop bodies do not change;
  its fuel is the number of edges, enough because each edge points to an older one. The two failure loops and the
  breadth-first loop have the number of nodes as fuel; the correctness theorem includes that it is enough.
\<close>

section \<open>Data\<close>

record contentModerationKeywordNode =
  failure :: nat
  bestKeyword :: "nat option"
  edgeStart :: nat
  edgeCount :: nat

record contentModerationKeywordEdge =
  target :: nat
  label :: char

record contentModerationKeywordBuildEdge =
  b_target :: nat
  nextSibling :: "nat option"
  b_label :: char

record contentModerationKeywordMatcher =
  nodes :: "contentModerationKeywordNode list"
  edges :: "contentModerationKeywordEdge list"
  rootTransitions :: "nat list"
  kwords :: "string list"

type_synonym knode = contentModerationKeywordNode
type_synonym kedge = contentModerationKeywordEdge
type_synonym bedge = contentModerationKeywordBuildEdge
type_synonym matcher = contentModerationKeywordMatcher

section \<open>Building\<close>

definition newContentModerationKeywordNode :: knode where
  "newContentModerationKeywordNode = \<lparr>failure = 0, bestKeyword = None, edgeStart = 0, edgeCount = 0\<rparr>"

definition BuildFirstEdge :: "knode \<Rightarrow> nat option" where
  "BuildFirstEdge node = (if edgeStart node = 0 then None else Some (edgeStart node - 1))"

fun siblings :: "nat \<Rightarrow> bedge list \<Rightarrow> nat option \<Rightarrow> bedge list" where
  "siblings (Suc n) es (Some i) = es ! i # siblings n es (nextSibling (es ! i))"
| "siblings n es e = []"

definition out_edges :: "knode list \<Rightarrow> bedge list \<Rightarrow> nat \<Rightarrow> bedge list" where
  "out_edges ns es state = siblings (length es) es (BuildFirstEdge (ns ! state))"

definition BuildTransition :: "knode list \<Rightarrow> bedge list \<Rightarrow> nat \<Rightarrow> char \<Rightarrow> nat option" where
  "BuildTransition ns es state c =
     (if state \<ge> length ns then None
      else map_option b_target (find (\<lambda>e. b_label e = c) (out_edges ns es state)))"

fun minKeywordIndex :: "nat option \<Rightarrow> nat option \<Rightarrow> nat option" where
  "minKeywordIndex None right = right"
| "minKeywordIndex (Some l) None = Some l"
| "minKeywordIndex (Some l) (Some r) = (if l < r then Some l else Some r)"

definition insert_label ::
  "char \<Rightarrow> knode list \<times> bedge list \<times> nat \<Rightarrow> knode list \<times> bedge list \<times> nat" where
  "insert_label c st =
     (let (ns, es, state) = st in
      case BuildTransition ns es state c of
        Some n \<Rightarrow> (ns, es, n)
      | None \<Rightarrow>
          let n = length ns;
              ns = ns @ [newContentModerationKeywordNode];
              es = es @ [\<lparr>b_target = n, nextSibling = BuildFirstEdge (ns ! state), b_label = c\<rparr>];
              ns = ns[state := (ns ! state)\<lparr>edgeStart := length es\<rparr>]
          in (ns, es, n))"

definition insert_keyword ::
  "(string \<Rightarrow> string) \<Rightarrow> nat \<times> string \<Rightarrow> knode list \<times> bedge list \<Rightarrow> knode list \<times> bedge list" where
  "insert_keyword lower ik st =
     (let (keywordIndex, keyword) = ik; (ns, es) = st in
      if keyword = [] then (ns, es)
      else
        let (ns, es, state) = fold insert_label (lower keyword) (ns, es, 0)
        in (case bestKeyword (ns ! state) of
              None \<Rightarrow> (ns[state := (ns ! state)\<lparr>bestKeyword := Some keywordIndex\<rparr>], es)
            | Some current \<Rightarrow>
                if keywordIndex < current
                then (ns[state := (ns ! state)\<lparr>bestKeyword := Some keywordIndex\<rparr>], es)
                else (ns, es)))"

definition build_trie :: "(string \<Rightarrow> string) \<Rightarrow> string list \<Rightarrow> knode list \<times> bedge list" where
  "build_trie lower ks = fold (insert_keyword lower) (enumerate 0 ks) ([newContentModerationKeywordNode], [])"

fun root_transitions :: "bedge list \<Rightarrow> nat list" where
  "root_transitions es = fold (\<lambda>e rt. rt[of_char (b_label e) := b_target e]) es (replicate 256 0)"

text \<open>The search of the fallback transition, from the failure link of the parent.\<close>

fun fallback_loop :: "nat \<Rightarrow> knode list \<Rightarrow> bedge list \<Rightarrow> char \<Rightarrow> nat \<Rightarrow> nat option" where
  "fallback_loop 0 ns es c f = None"
| "fallback_loop (Suc n) ns es c f =
     (case BuildTransition ns es f c of
        Some w \<Rightarrow> Some w
      | None \<Rightarrow> if f = 0 then None else fallback_loop n ns es c (failure (ns ! f)))"

definition link_child :: "bedge list \<Rightarrow> nat \<Rightarrow> bedge \<Rightarrow> knode list \<Rightarrow> knode list" where
  "link_child es state e ns =
     (let u = b_target e;
          ns = (case fallback_loop (length ns) ns es (b_label e) (failure (ns ! state)) of
                  Some fallback \<Rightarrow> ns[u := (ns ! u)\<lparr>failure := fallback\<rparr>]
                | None \<Rightarrow> ns)
      in ns[u := (ns ! u)\<lparr>bestKeyword :=
           minKeywordIndex (bestKeyword (ns ! u)) (bestKeyword (ns ! failure (ns ! u)))\<rparr>])"

text \<open>The queue is what the code's queue holds from \<open>queueIndex\<close> on.\<close>

fun link_all :: "nat \<Rightarrow> bedge list \<Rightarrow> nat list \<Rightarrow> knode list \<Rightarrow> knode list" where
  "link_all (Suc n) es (state # queue) ns =
     link_all n es (queue @ map b_target (out_edges ns es state))
       (fold (link_child es state) (out_edges ns es state) ns)"
| "link_all n es queue ns = ns"

text \<open>Insertion sort by label, on the array of outgoing edges.\<close>

fun shift_in :: "kedge \<Rightarrow> nat \<Rightarrow> kedge list \<Rightarrow> kedge list" where
  "shift_in current 0 out = out[0 := current]"
| "shift_in current (Suc i) out =
     (if (of_char (label current) :: nat) < of_char (label (out ! i))
      then shift_in current i (out[Suc i := out ! i])
      else out[Suc i := current])"

definition sort_edges :: "kedge list \<Rightarrow> kedge list" where
  "sort_edges out = fold (\<lambda>i out. shift_in (out ! i) i out) [1..<length out] out"

definition freeze_node ::
  "bedge list \<Rightarrow> nat \<Rightarrow> knode list \<times> kedge list \<Rightarrow> knode list \<times> kedge list" where
  "freeze_node bes v st =
     (let (ns, es) = st;
          out = sort_edges (map (\<lambda>e. \<lparr>target = b_target e, label = b_label e\<rparr>) (out_edges ns bes v))
      in (ns[v := (ns ! v)\<lparr>edgeStart := length es, edgeCount := length out\<rparr>], es @ out))"

definition newContentModerationKeywordMatcher :: "(string \<Rightarrow> string) \<Rightarrow> string list \<Rightarrow> matcher option" where
  "newContentModerationKeywordMatcher lower ks =
     (if ks = [] then None
      else
        let (ns, bes) = build_trie lower ks in
        if length ns = 1 then None
        else
          let rootEdges = out_edges ns bes 0;
              ns = link_all (length ns) bes (map b_target rootEdges) ns;
              (ns, es) = fold (freeze_node bes) [0..<length ns] (ns, [])
          in Some \<lparr>nodes = ns, edges = es, rootTransitions = root_transitions rootEdges, kwords = ks\<rparr>)"

section \<open>Matching\<close>

function bisect :: "kedge list \<Rightarrow> char \<Rightarrow> nat \<Rightarrow> nat \<Rightarrow> nat" where
  "bisect es c left right =
     (if left < right then
        let middle = left + (right - left) div 2 in
        if (of_char (label (es ! middle)) :: nat) < of_char c
        then bisect es c (middle + 1) right
        else bisect es c left middle
      else left)"
  by pat_completeness auto
termination by (relation "measure (\<lambda>(es, c, left, right). right - left)") auto

declare bisect.simps [simp del]

definition next_state :: "matcher \<Rightarrow> nat \<Rightarrow> char \<Rightarrow> nat" where
  "next_state m state c =
     (if state = 0 then rootTransitions m ! of_char c
      else if state \<ge> length (nodes m) then 0
      else
        let node = nodes m ! state;
            right = edgeStart node + edgeCount node;
            left = bisect (edges m) c (edgeStart node) right
        in if left < right \<and> label (edges m ! left) = c then target (edges m ! left) else 0)"

fun follow :: "nat \<Rightarrow> matcher \<Rightarrow> char \<Rightarrow> nat \<Rightarrow> nat" where
  "follow 0 m c state = state"
| "follow (Suc n) m c state =
     (let nx = next_state m state c in
      if nx \<noteq> 0 then nx
      else if state = 0 then 0
      else follow n m c (failure (nodes m ! state)))"

fun scan :: "matcher \<Rightarrow> nat \<Rightarrow> nat option \<Rightarrow> string \<Rightarrow> nat option" where
  "scan m state best [] = best"
| "scan m state best (c # cs) =
     (let state = follow (length (nodes m)) m c state;
          best = minKeywordIndex best (bestKeyword (nodes m ! state))
      in if best = Some 0 then Some 0 else scan m state best cs)"

definition Match :: "(string \<Rightarrow> string) \<Rightarrow> matcher option \<Rightarrow> string \<Rightarrow> string \<times> bool" where
  "Match lower m text =
     (case m of
        None \<Rightarrow> ([], False)
      | Some m \<Rightarrow>
          if text = [] \<or> nodes m = [] \<or> kwords m = [] then ([], False)
          else case scan m 0 None (lower text) of
            None \<Rightarrow> ([], False)
          | Some b \<Rightarrow> if b \<ge> length (kwords m) then ([], False) else (kwords m ! b, True))"

text \<open>The specification: the first keyword, in the order given, that occurs in the text, ignoring case.\<close>

definition first_keyword :: "(string \<Rightarrow> string) \<Rightarrow> string list \<Rightarrow> string \<Rightarrow> nat option" where
  "first_keyword lower ks text =
     find (\<lambda>i. ks ! i \<noteq> [] \<and> Contains (lower text) (lower (ks ! i))) [0..<length ks]"

section \<open>The linked lists of edges\<close>

definition older_siblings :: "bedge list \<Rightarrow> bool" where
  "older_siblings es \<longleftrightarrow> (\<forall>i<length es. \<forall>j. nextSibling (es ! i) = Some j \<longrightarrow> j < i)"

lemma siblings_fuel:
  "older_siblings es \<Longrightarrow> i < length es \<Longrightarrow> i < n \<Longrightarrow> i < m \<Longrightarrow> siblings n es (Some i) = siblings m es (Some i)"
proof (induction i arbitrary: n m rule: less_induct)
  case (less i)
  then obtain n' m' where nm: "n = Suc n'" "m = Suc m'" by (metis gr0_implies_Suc less_zeroE not_gr_zero)
  show ?case
  proof (cases "nextSibling (es ! i)")
    case (Some j)
    with less.prems have "j < i" by (auto simp: older_siblings_def)
    with less.IH [of j n' m'] less.prems nm Some show ?thesis by simp
  qed (simp add: nm)
qed

lemma siblings_append:
  "older_siblings es \<Longrightarrow> i < length es \<Longrightarrow> siblings n (es @ [x]) (Some i) = siblings n es (Some i)"
proof (induction n arbitrary: i)
  case (Suc n)
  show ?case
  proof (cases "nextSibling (es ! i)")
    case (Some j)
    with Suc.prems have "j < length es" by (auto simp: older_siblings_def)
    with Suc Some show ?thesis by (simp add: nth_append)
  qed (use Suc.prems in \<open>simp add: nth_append\<close>)
qed simp

lemma chain_append:
  assumes "older_siblings es" "\<And>i. e = Some i \<Longrightarrow> i < length es"
  shows "siblings (Suc (length es)) (es @ [x]) e = siblings (length es) es e"
proof (cases e)
  case (Some i)
  then have i: "i < length es" by (rule assms(2))
  show ?thesis unfolding Some siblings_append [OF assms(1) i]
    by (rule siblings_fuel [OF assms(1) i]) (use i in simp_all)
qed simp

lemma chain_new:
  assumes "older_siblings es" "\<And>i. nextSibling x = Some i \<Longrightarrow> i < length es"
  shows "siblings (Suc (length es)) (es @ [x]) (Some (length es)) = x # siblings (length es) es (nextSibling x)"
  using siblings_append [OF assms(1)] assms(2) by (cases "nextSibling x") auto

section \<open>The trie\<close>

text \<open>\<open>S ! v\<close> is the string that leads to node \<open>v\<close>.\<close>

definition trie :: "knode list \<Rightarrow> bedge list \<Rightarrow> string list \<Rightarrow> bool" where
  "trie ns es S \<longleftrightarrow> length S = length ns \<and> ns \<noteq> [] \<and> S ! 0 = [] \<and> distinct S \<and> older_siblings es \<and>
     (\<forall>v<length ns. edgeStart (ns ! v) \<le> length es) \<and>
     (\<forall>v<length ns. \<forall>e\<in>set (out_edges ns es v). b_target e < length ns \<and> S ! b_target e = S ! v @ [b_label e]) \<and>
     (\<forall>v<length ns. distinct (map b_label (out_edges ns es v))) \<and>
     (\<forall>u<length ns. u \<noteq> 0 \<longrightarrow> (\<exists>v<length ns. \<exists>e\<in>set (out_edges ns es v). b_target e = u))"

lemma trie_basic:
  assumes "trie ns es S"
  shows "length S = length ns" "ns \<noteq> []" "S ! 0 = []" "distinct S" "older_siblings es"
  using assms by (simp_all add: trie_def)

lemma trie_start: "trie ns es S \<Longrightarrow> v < length ns \<Longrightarrow> edgeStart (ns ! v) \<le> length es"
  by (simp add: trie_def)

lemma trie_out:
  assumes "trie ns es S" "v < length ns" "e \<in> set (out_edges ns es v)"
  shows "b_target e < length ns" "S ! b_target e = S ! v @ [b_label e]"
  using assms by (simp_all add: trie_def)

lemma trie_labels: "trie ns es S \<Longrightarrow> v < length ns \<Longrightarrow> distinct (map b_label (out_edges ns es v))"
  by (simp add: trie_def)

lemma trie_parent:
  "trie ns es S \<Longrightarrow> u < length ns \<Longrightarrow> u \<noteq> 0 \<Longrightarrow> \<exists>v<length ns. \<exists>e\<in>set (out_edges ns es v). b_target e = u"
  by (simp add: trie_def)

lemma trie_inj: "trie ns es S \<Longrightarrow> u < length ns \<Longrightarrow> v < length ns \<Longrightarrow> S ! u = S ! v \<Longrightarrow> u = v"
  using nth_eq_iff_index_eq [of S u v] trie_basic(1,4) [of ns es S] by simp

lemma trie_root: "trie ns es S \<Longrightarrow> u < length ns \<Longrightarrow> S ! u = [] \<longleftrightarrow> u = 0"
  using trie_inj [of ns es S u 0] trie_basic(2,3) [of ns es S] by auto

lemma trie_edge:
  assumes "trie ns es S" "v < length ns" "u < length ns" "S ! u = S ! v @ [c]"
  shows "\<exists>e\<in>set (out_edges ns es v). b_target e = u \<and> b_label e = c"
proof -
  have "u \<noteq> 0" using assms(4) trie_basic(3) [OF assms(1)] by (cases u) auto
  from trie_parent [OF assms(1,3) this] obtain w e where
    w: "w < length ns" "e \<in> set (out_edges ns es w)" "b_target e = u" by blast
  from trie_out(2) [OF assms(1) w(1,2)] w(3) assms(4) have "S ! w = S ! v" "b_label e = c" by simp_all
  with trie_inj [OF assms(1) w(1) assms(2)] w show ?thesis by blast
qed

lemma BuildTransition_iff:
  assumes "trie ns es S" "v < length ns"
  shows "BuildTransition ns es v c = Some u \<longleftrightarrow> u < length ns \<and> S ! u = S ! v @ [c]"
proof
  assume "BuildTransition ns es v c = Some u"
  then obtain e where e: "find (\<lambda>e. b_label e = c) (out_edges ns es v) = Some e" "b_target e = u"
    using assms(2) by (auto simp: BuildTransition_def)
  from e(1) have "e \<in> set (out_edges ns es v)" "b_label e = c" by (auto simp: find_Some_iff)
  with trie_out [OF assms(1,2), of e] e(2) show "u < length ns \<and> S ! u = S ! v @ [c]" by simp
next
  assume u: "u < length ns \<and> S ! u = S ! v @ [c]"
  with trie_edge [OF assms, of u c] obtain e where
    e: "e \<in> set (out_edges ns es v)" "b_target e = u" "b_label e = c" by blast
  then have "find (\<lambda>e. b_label e = c) (out_edges ns es v) \<noteq> None" by (auto simp: find_None_iff)
  then obtain e' where e': "find (\<lambda>e. b_label e = c) (out_edges ns es v) = Some e'" by blast
  then have "e' \<in> set (out_edges ns es v)" "b_label e' = c" by (auto simp: find_Some_iff)
  with trie_out [OF assms, of e'] trie_inj [OF assms(1), of "b_target e'" u] u have "b_target e' = u" by simp
  with e' assms(2) show "BuildTransition ns es v c = Some u" by (simp add: BuildTransition_def)
qed

lemma BuildTransition_None:
  "trie ns es S \<Longrightarrow> v < length ns \<Longrightarrow> BuildTransition ns es v c = None \<longleftrightarrow> S ! v @ [c] \<notin> set S"
  using BuildTransition_iff [of ns es S v c] trie_basic(1) [of ns es S]
  by (metis in_set_conv_nth not_None_eq option.distinct(1))

text \<open>Everything the trie says about edges depends on \<open>edgeStart\<close> alone.\<close>

lemma out_edges_cong: "edgeStart (ns ! v) = edgeStart (ns' ! v) \<Longrightarrow> out_edges ns es v = out_edges ns' es v"
  by (simp add: out_edges_def BuildFirstEdge_def)

lemma trie_cong:
  assumes "trie ns es S" "map edgeStart ns' = map edgeStart ns"
  shows "trie ns' es S"
proof -
  have l: "length ns' = length ns" using assms(2) by (rule map_eq_imp_length_eq)
  have s: "edgeStart (ns' ! v) = edgeStart (ns ! v)" if "v < length ns" for v
    using assms(2) l that by (metis nth_map)
  then have o: "out_edges ns' es v = out_edges ns es v" if "v < length ns" for v
    using that by (intro out_edges_cong) simp
  have "ns \<noteq> [] \<longleftrightarrow> ns' \<noteq> []" using l by (metis length_0_conv)
  then show ?thesis
    using assms(1) unfolding trie_def by (simp add: l s o cong: conj_cong)
qed

text \<open>Insertion only adds strings, and new nodes without keyword.\<close>

definition grows :: "knode list \<Rightarrow> string list \<Rightarrow> knode list \<Rightarrow> string list \<Rightarrow> bool" where
  "grows ns S ns' S' \<longleftrightarrow> length ns \<le> length ns' \<and> take (length ns) S' = S \<and>
     (\<forall>v<length ns'. failure (ns' ! v) = (if v < length ns then failure (ns ! v) else 0)) \<and>
     (\<forall>v<length ns'. bestKeyword (ns' ! v) = (if v < length ns then bestKeyword (ns ! v) else None))"

lemma grows_refl: "length S = length ns \<Longrightarrow> grows ns S ns S"
  by (simp add: grows_def)

lemma grows_trans: "grows ns S ns' S' \<Longrightarrow> grows ns' S' ns'' S'' \<Longrightarrow> grows ns S ns'' S''"
  by (auto simp: grows_def min_absorb1 dest: arg_cong [of _ _ "take (length ns)"])

lemma grows_nth: "grows ns S ns' S' \<Longrightarrow> v < length ns \<Longrightarrow> S' ! v = S ! v"
  by (auto simp: grows_def)

lemma trie_snoc:
  assumes t: "trie ns es S" and v: "state < length ns" and new: "S ! state @ [c] \<notin> set S"
  defines "x \<equiv> \<lparr>b_target = length ns, nextSibling = BuildFirstEdge (ns ! state), b_label = c\<rparr>"
  defines "ns' \<equiv> (ns @ [newContentModerationKeywordNode])
      [state := (ns ! state)\<lparr>edgeStart := Suc (length es)\<rparr>]"
  shows "trie ns' (es @ [x]) (S @ [S ! state @ [c]])"
    and "grows ns S ns' (S @ [S ! state @ [c]])"
proof -
  let ?es = "es @ [x]" and ?S = "S @ [S ! state @ [c]]" and ?n = "length ns"
  note b = trie_basic [OF t]
  have first: "BuildFirstEdge (ns ! u) = Some i \<Longrightarrow> u < ?n \<Longrightarrow> i < length es" for u i
    using trie_start [OF t, of u] by (auto simp: BuildFirstEdge_def split: if_splits)
  have o: "out_edges ns' ?es u = (if u = state then [x] else []) @ (if u = ?n then [] else out_edges ns es u)"
    if u: "u < Suc ?n" for u
  proof -
    consider "u = state" | "u \<noteq> state" "u < ?n" | "u = ?n" using u less_Suc_eq by blast
    then show ?thesis
    proof cases
      case 1
      have n: "ns' ! u = (ns ! u)\<lparr>edgeStart := Suc (length es)\<rparr>" using 1 v by (simp add: ns'_def)
      have "out_edges ns' ?es u = siblings (Suc (length es)) ?es (Some (length es))"
        by (simp add: out_edges_def n BuildFirstEdge_def del: siblings.simps)
      also have "\<dots> = x # siblings (length es) es (nextSibling x)"
        using first [of state] v by (intro chain_new b) (simp_all add: x_def)
      finally show ?thesis using 1 v by (simp add: out_edges_def x_def del: siblings.simps)
    next
      case 2
      have n: "ns' ! u = ns ! u" using 2 v by (simp add: ns'_def nth_append)
      have "out_edges ns' ?es u = siblings (Suc (length es)) ?es (BuildFirstEdge (ns ! u))"
        by (simp add: out_edges_def n del: siblings.simps)
      also have "\<dots> = out_edges ns es u"
        unfolding out_edges_def using first [of u] 2 by (intro chain_append b) simp_all
      finally show ?thesis using 2 by simp
    next
      case 3
      then show ?thesis using v
        by (simp add: ns'_def out_edges_def BuildFirstEdge_def newContentModerationKeywordNode_def)
    qed
  qed
  have len: "length ns' = Suc ?n" by (simp add: ns'_def)
  have Sn: "?S ! u = S ! u" if "u < ?n" for u using that b(1) by (simp add: nth_append)
  have Sl: "?S ! ?n = S ! state @ [c]" using b(1) by (simp add: nth_append)
  have new_label: "c \<notin> b_label ` set (out_edges ns es state)"
  proof
    assume "c \<in> b_label ` set (out_edges ns es state)"
    then obtain e where e: "e \<in> set (out_edges ns es state)" "b_label e = c" by blast
    from trie_out [OF t v e(1)] e(2) b(1) have "S ! state @ [c] \<in> set S" by (metis nth_mem)
    with new show False ..
  qed
  have older: "older_siblings ?es"
    unfolding older_siblings_def
  proof (intro allI impI)
    fix i j assume "i < length ?es" "nextSibling (?es ! i) = Some j"
    then show "j < i" using b(5) first [of state j] v
      by (cases "i < length es") (auto simp: older_siblings_def nth_append x_def)
  qed
  have start: "edgeStart (ns' ! u) \<le> Suc (length es)" if "u < Suc ?n" for u
    using that v trie_start [OF t, of u]
    by (cases "u < ?n") (auto simp: ns'_def nth_append nth_list_update newContentModerationKeywordNode_def)
  have out: "b_target e < Suc ?n \<and> ?S ! b_target e = ?S ! u @ [b_label e]"
    if "u < Suc ?n" "e \<in> set (out_edges ns' ?es u)" for u e
  proof (cases "e = x \<and> u = state")
    case True
    then show ?thesis using v Sl Sn [of state] by (simp add: x_def)
  next
    case False
    have e: "e \<in> set ((if u = state then [x] else []) @ (if u = ?n then [] else out_edges ns es u))"
      using that(2) unfolding o [OF that(1)] .
    have "u \<noteq> ?n"
    proof
      assume "u = ?n"
      with e v False show False by (cases "u = state") simp_all
    qed
    with that(1) e False have "u < ?n \<and> e \<in> set (out_edges ns es u)" by (cases "u = state") simp_all
    then have "u < ?n" "e \<in> set (out_edges ns es u)" by blast+
    with trie_out [OF t this] show ?thesis by (simp add: Sn)
  qed
  have lab: "distinct (map b_label (out_edges ns' ?es u))" if "u < Suc ?n" for u
  proof -
    have "distinct (map b_label (if u = ?n then [] else out_edges ns es u))"
      using that trie_labels [OF t, of u] by simp
    moreover have "u = state \<Longrightarrow> b_label x \<notin> b_label ` set (out_edges ns es u)"
      using new_label by (simp add: x_def)
    ultimately show ?thesis unfolding o [OF that] using v by (cases "u = state") simp_all
  qed
  have par: "\<exists>w<Suc ?n. \<exists>e\<in>set (out_edges ns' ?es w). b_target e = u" if "u < Suc ?n" "u \<noteq> 0" for u
  proof (cases "u = ?n")
    case True
    then show ?thesis using o [of state] v by (intro exI [of _ state]) (simp add: x_def)
  next
    case False
    with trie_parent [OF t, of u] that obtain w e where
      w: "w < ?n" "e \<in> set (out_edges ns es w)" "b_target e = u" by auto
    have "e \<in> set (out_edges ns' ?es w)"
      unfolding o [OF less_SucI [OF w(1)]] if_not_P [OF less_imp_neq [OF w(1)]] set_append using w(2) by (rule UnI2)
    then show ?thesis
      by (intro exI [of _ w] conjI bexI [of _ e]) (use w in simp_all)
  qed
  show "trie ns' ?es ?S"
    unfolding trie_def len
    using b Sn [of 0] new older start out lab par by (auto simp: len b(1) ns'_def)
  show "grows ns S ns' ?S"
    using b(1) v by (auto simp: grows_def len ns'_def nth_append nth_list_update newContentModerationKeywordNode_def)
qed

lemma insert_label_spec:
  assumes "trie ns es S" "state < length ns" "insert_label c (ns, es, state) = (ns', es', n)"
  shows "\<exists>S'. trie ns' es' S' \<and> grows ns S ns' S' \<and> n < length ns' \<and> S' ! n = S ! state @ [c]"
proof (cases "BuildTransition ns es state c")
  case None
  then have new: "S ! state @ [c] \<notin> set S" using BuildTransition_None [OF assms(1,2)] by simp
  note t = trie_snoc [OF assms(1,2) new]
  from None assms(2,3) have "ns' = (ns @ [newContentModerationKeywordNode])[state := (ns ! state)\<lparr>edgeStart := Suc (length es)\<rparr>]"
    "es' = es @ [\<lparr>b_target = length ns, nextSibling = BuildFirstEdge (ns ! state), b_label = c\<rparr>]" "n = length ns"
    by (auto simp: insert_label_def Let_def nth_append)
  with t trie_basic(1) [OF assms(1)] show ?thesis
    by (intro exI [of _ "S @ [S ! state @ [c]]"]) (auto simp: nth_append)
next
  case (Some u)
  with assms BuildTransition_iff [OF assms(1,2), of c u] grows_refl trie_basic(1) show ?thesis
    by (auto simp: insert_label_def)
qed

lemma insert_labels_spec:
  assumes "trie ns es S" "state < length ns" "fold insert_label cs (ns, es, state) = (ns', es', n)"
  shows "\<exists>S'. trie ns' es' S' \<and> grows ns S ns' S' \<and> n < length ns' \<and> S' ! n = S ! state @ cs"
  using assms
proof (induction cs arbitrary: ns es S state)
  case (Cons c cs)
  obtain ns1 es1 n1 where i: "insert_label c (ns, es, state) = (ns1, es1, n1)" by (metis prod_cases3)
  from insert_label_spec [OF Cons.prems(1,2) i] obtain S1 where
    S1: "trie ns1 es1 S1" "grows ns S ns1 S1" "n1 < length ns1" "S1 ! n1 = S ! state @ [c]" by blast
  from Cons.IH [OF S1(1,3)] Cons.prems(3) i obtain S' where
    "trie ns' es' S' \<and> grows ns1 S1 ns' S' \<and> n < length ns' \<and> S' ! n = S1 ! n1 @ cs" by auto
  with grows_trans [OF S1(2)] S1(4) show ?case by (intro exI [of _ S']) auto
qed (auto intro: grows_refl trie_basic)

section \<open>The keywords of the trie\<close>

definition lst :: "nat set \<Rightarrow> nat option" where
  "lst A = (if A = {} then None else Some (Min A))"

lemma lst_empty [simp]: "lst {} = None"
  by (simp add: lst_def)

lemma lst_Un: "finite A \<Longrightarrow> finite B \<Longrightarrow> minKeywordIndex (lst A) (lst B) = lst (A \<union> B)"
proof (cases "A = {} \<or> B = {}")
  case False
  moreover assume "finite A" "finite B"
  ultimately have "lst (A \<union> B) = Some (min (Min A) (Min B))" by (simp add: lst_def Min_Un)
  then show ?thesis using False by (simp add: lst_def min_def del: Min_less_iff Min_le_iff Min_gr_iff Min_ge_iff)
qed (auto simp: lst_def)

lemma lst_insert: "finite A \<Longrightarrow> lst (insert i A) = (case lst A of None \<Rightarrow> Some i | Some b \<Rightarrow> if i < b then Some i else Some b)"
  using lst_Un [of "{i}" A] by (cases "lst A") (auto simp: lst_def)

lemma lst_Some: "finite A \<Longrightarrow> lst A = Some b \<longleftrightarrow> b \<in> A \<and> (\<forall>a\<in>A. b \<le> a)"
proof
  assume a: "finite A" "lst A = Some b"
  then have "A \<noteq> {}" "b = Min A" by (auto simp: lst_def split: if_splits)
  with Min_in [OF a(1)] Min_le [OF a(1)] show "b \<in> A \<and> (\<forall>a\<in>A. b \<le> a)" by blast
next
  assume "finite A" "b \<in> A \<and> (\<forall>a\<in>A. b \<le> a)"
  then show "lst A = Some b" by (auto simp: lst_def intro: Min_eqI)
qed

lemma lst_None: "lst A = None \<longleftrightarrow> A = {}"
  by (simp add: lst_def)

definition pats :: "(string \<Rightarrow> string) \<Rightarrow> (nat \<times> string) list \<Rightarrow> (nat \<times> string) set" where
  "pats lower xs = {(i, lower k) | i k. (i, k) \<in> set xs \<and> k \<noteq> []}"

lemma finite_pats: "finite (pats lower xs)"
proof -
  have "pats lower xs \<subseteq> (\<lambda>(i, k). (i, lower k)) ` set xs" by (auto simp: pats_def)
  then show ?thesis by (rule finite_subset) simp
qed

lemma finite_idx [simp]: "finite Q \<Longrightarrow> finite {i. \<exists>p. (i, p) \<in> Q \<and> P i p}"
  by (rule finite_subset [of _ "fst ` Q"]) force+

lemma finite_idx' [simp]: "finite Q \<Longrightarrow> finite {i. (i, s) \<in> Q}"
  by (rule finite_subset [of _ "fst ` Q"]) force+

definition built :: "knode list \<Rightarrow> bedge list \<Rightarrow> string list \<Rightarrow> (nat \<times> string) set \<Rightarrow> bool" where
  "built ns es S Q \<longleftrightarrow> trie ns es S \<and> finite Q \<and> (\<forall>v<length ns. failure (ns ! v) = 0) \<and>
     (\<forall>v<length ns. bestKeyword (ns ! v) = lst {i. (i, S ! v) \<in> Q}) \<and> (\<forall>(i, p)\<in>Q. p \<in> set S \<and> p \<noteq> [])"

lemma built_grows:
  assumes "built ns es S Q" "trie ns' es' S'" "grows ns S ns' S'"
  shows "built ns' es' S' Q"
proof -
  have l: "length S = length ns" "length S' = length ns'" using assms trie_basic(1) by (auto simp: built_def)
  have sub: "set S \<subseteq> set S'" using assms(3) by (metis grows_def set_take_subset)
  have "bestKeyword (ns' ! v) = lst {i. (i, S' ! v) \<in> Q}" if v: "v < length ns'" for v
  proof (cases "v < length ns")
    case True
    then show ?thesis using assms(1,3) v grows_nth [OF assms(3) True] by (simp add: grows_def built_def)
  next
    case False
    have "S' ! v \<notin> set S"
    proof
      assume "S' ! v \<in> set S"
      then obtain u where u: "u < length ns" "S ! u = S' ! v" using l by (metis in_set_conv_nth)
      with grows_nth [OF assms(3) u(1)] have "S' ! u = S' ! v" by simp
      with trie_inj [OF assms(2), of u v] u(1) v assms(3) False show False by (simp add: grows_def)
    qed
    with assms(1) have "{i. (i, S' ! v) \<in> Q} = {}" by (auto simp: built_def)
    with False v assms(3) show ?thesis by (simp add: grows_def)
  qed
  with assms sub show ?thesis by (auto simp: built_def grows_def)
qed

lemma built_keyword:
  assumes "built ns es S Q" "v < length ns" "S ! v \<noteq> []"
    and "map edgeStart ns' = map edgeStart ns" "\<forall>u<length ns. failure (ns' ! u) = failure (ns ! u)"
    and "\<forall>u<length ns. bestKeyword (ns' ! u) = lst {j. (j, S ! u) \<in> insert (i, S ! v) Q}"
  shows "built ns' es S (insert (i, S ! v) Q)"
proof -
  have l: "length ns' = length ns" using assms(4) by (rule map_eq_imp_length_eq)
  have t: "trie ns es S" using assms(1) by (simp add: built_def)
  have "S ! v \<in> set S" using trie_basic(1) [OF t] assms(2) by simp
  then show ?thesis using assms trie_cong [OF t assms(4)] l by (auto simp: built_def)
qed

lemma insert_keyword_built:
  assumes b: "built ns es S Q" and lower: "\<And>s. lower s = [] \<longleftrightarrow> s = []"
    and i: "insert_keyword lower (i, k) (ns, es) = (ns', es')"
  shows "\<exists>S'. built ns' es' S' (if k = [] then Q else insert (i, lower k) Q)"
proof (cases "k = []")
  case True
  with assms show ?thesis by (auto simp: insert_keyword_def)
next
  case False
  have t: "trie ns es S" using b by (simp add: built_def)
  obtain ns1 es1 v where f: "fold insert_label (lower k) (ns, es, 0) = (ns1, es1, v)" by (metis prod_cases3)
  have "0 < length ns" using trie_basic(2) [OF t] by simp
  from insert_labels_spec [OF t this f] obtain S1 where
    S1: "trie ns1 es1 S1" "grows ns S ns1 S1" "v < length ns1" "S1 ! v = lower k"
    using trie_basic(3) [OF t] by auto
  from built_grows [OF b S1(1,2)] have b1: "built ns1 es1 S1 Q" .
  then have Q: "finite Q" and best: "u < length ns1 \<Longrightarrow> bestKeyword (ns1 ! u) = lst {i. (i, S1 ! u) \<in> Q}" for u
    by (simp_all add: built_def)
  have ne: "S1 ! v \<noteq> []" using S1(4) lower False by simp
  have other: "{j. (j, S1 ! u) \<in> insert (i, S1 ! v) Q} = {j. (j, S1 ! u) \<in> Q}" if "u < length ns1" "u \<noteq> v" for u
    using trie_inj [OF S1(1) that(1) S1(3)] that by auto
  have self: "{j. (j, S1 ! v) \<in> insert (i, S1 ! v) Q} = insert i {j. (j, S1 ! v) \<in> Q}" by auto
  have res: "es' = es1 \<and> ns' = (if (case bestKeyword (ns1 ! v) of None \<Rightarrow> True | Some c \<Rightarrow> i < c)
      then ns1[v := (ns1 ! v)\<lparr>bestKeyword := Some i\<rparr>] else ns1)"
    using i f False by (auto simp: insert_keyword_def split: option.splits if_splits)
  have "built ns' es1 S1 (insert (i, S1 ! v) Q)"
  proof (rule built_keyword [OF b1 S1(3) ne])
    show "map edgeStart ns' = map edgeStart ns1" using res S1(3) by (auto simp: map_update list_update_same_conv)
    show "\<forall>u<length ns1. failure (ns' ! u) = failure (ns1 ! u)" 
    proof (intro allI impI)
      fix u assume "u < length ns1"
      then show "failure (ns' ! u) = failure (ns1 ! u)" using res S1(3) by (cases "u = v") simp_all
    qed
    show "\<forall>u<length ns1. bestKeyword (ns' ! u) = lst {j. (j, S1 ! u) \<in> insert (i, S1 ! v) Q}"
    proof (intro allI impI)
      fix u assume u: "u < length ns1"
      show "bestKeyword (ns' ! u) = lst {j. (j, S1 ! u) \<in> insert (i, S1 ! v) Q}"
      proof (cases "u = v")
        case True
        have "lst (insert i {j. (j, S1 ! v) \<in> Q})
            = (case bestKeyword (ns1 ! v) of None \<Rightarrow> Some i | Some b \<Rightarrow> if i < b then Some i else Some b)"
          using lst_insert [of "{j. (j, S1 ! v) \<in> Q}" i] Q best [OF S1(3)] by simp
        with True self res u show ?thesis by (auto split: option.splits)
      next
        case False
        with other [OF u] res best [OF u] show ?thesis by simp
      qed
    qed
  qed
  with res S1(4) False show ?thesis by auto
qed

lemma build_trie_built:
  assumes lower: "\<And>s. lower s = [] \<longleftrightarrow> s = []"
  shows "\<exists>S. built (fst (build_trie lower ks)) (snd (build_trie lower ks)) S (pats lower (enumerate 0 ks))"
proof -
  have run: "\<exists>S'. built (fst (fold (insert_keyword lower) xs (ns, es))) (snd (fold (insert_keyword lower) xs (ns, es))) S'
      (Q \<union> pats lower xs)" if "built ns es S Q" for xs ns es S Q
    using that
  proof (induction xs arbitrary: ns es S Q)
    case (Cons x xs)
    obtain i k where x: "x = (i, k)" by fastforce
    obtain ns1 es1 where i: "insert_keyword lower (i, k) (ns, es) = (ns1, es1)" by fastforce
    from insert_keyword_built [OF Cons.prems lower i] obtain S1 where
      S1: "built ns1 es1 S1 (if k = [] then Q else insert (i, lower k) Q)" by blast
    have "(if k = [] then Q else insert (i, lower k) Q) \<union> pats lower xs = Q \<union> pats lower (x # xs)"
      by (auto simp: pats_def x)
    with Cons.IH [OF S1] i x show ?case by simp
  qed (auto simp: pats_def)
  have "built [newContentModerationKeywordNode] [] [[]] {}"
    by (auto simp: built_def trie_def older_siblings_def out_edges_def newContentModerationKeywordNode_def)
  from run [OF this, of "enumerate 0 ks"] show ?thesis by (simp add: build_trie_def)
qed

section \<open>The failure links\<close>

text \<open>\<open>w\<close> is the node of the longest proper suffix of \<open>s\<close> in the trie.\<close>

definition is_fail :: "string list \<Rightarrow> string \<Rightarrow> nat \<Rightarrow> bool" where
  "is_fail S s w \<longleftrightarrow> w < length S \<and> strict_suffix (S ! w) s \<and>
     (\<forall>t\<in>set S. strict_suffix t s \<longrightarrow> length t \<le> length (S ! w))"

definition ending :: "(nat \<times> string) set \<Rightarrow> string \<Rightarrow> nat set" where
  "ending Q s = {i. \<exists>p. (i, p) \<in> Q \<and> suffix p s}"

definition linked :: "knode list \<Rightarrow> string list \<Rightarrow> (nat \<times> string) set \<Rightarrow> nat \<Rightarrow> bool" where
  "linked ns S Q x \<longleftrightarrow> is_fail S (S ! x) (failure (ns ! x)) \<and> bestKeyword (ns ! x) = lst (ending Q (S ! x))"

definition raw :: "knode list \<Rightarrow> string list \<Rightarrow> (nat \<times> string) set \<Rightarrow> nat \<Rightarrow> bool" where
  "raw ns S Q x \<longleftrightarrow> failure (ns ! x) = 0 \<and> bestKeyword (ns ! x) = lst {i. (i, S ! x) \<in> Q}"

lemma finite_ending [simp]: "finite Q \<Longrightarrow> finite (ending Q s)"
  by (simp add: ending_def)

lemma trie_prefix: "trie ns es S \<Longrightarrow> t @ [c] \<in> set S \<Longrightarrow> t \<in> set S"
proof -
  assume t: "trie ns es S" and "t @ [c] \<in> set S"
  then obtain u where u: "u < length ns" "S ! u = t @ [c]" using trie_basic(1) by (metis in_set_conv_nth)
  then have "u \<noteq> 0" using trie_basic(3) [OF t] by (cases u) auto
  from trie_parent [OF t u(1) this] obtain v e where
    v: "v < length ns" "e \<in> set (out_edges ns es v)" "b_target e = u" by blast
  from trie_out(2) [OF t v(1,2)] v(3) u(2) have "S ! v = t" by simp
  with v(1) trie_basic(1) [OF t] show ?thesis by (metis nth_mem)
qed

lemma trie_node: "trie ns es S \<Longrightarrow> s \<in> set S \<longleftrightarrow> (\<exists>u<length ns. S ! u = s)"
  using trie_basic(1) by (metis in_set_conv_nth)

lemma strict_suffix_cases: "suffix p s \<longleftrightarrow> p = s \<or> strict_suffix p s"
  by (auto simp: strict_suffix_def)

lemma suffix_strict: "suffix p s \<Longrightarrow> suffix q s \<Longrightarrow> length p < length q \<Longrightarrow> strict_suffix p q"
  using suffix_length_suffix [of p s q] by (auto simp: strict_suffix_def)

lemma fallback_loop_spec:
  assumes t: "trie ns es S"
    and links: "\<And>x. x < length ns \<Longrightarrow> x \<noteq> 0 \<Longrightarrow> length (S ! x) \<le> d \<Longrightarrow> is_fail S (S ! x) (failure (ns ! x))"
    and "f < length ns" "length (S ! f) \<le> d" "length (S ! f) < n" "strict_suffix (S ! f) s"
    and "\<And>t. strict_suffix t s \<Longrightarrow> t @ [c] \<in> set S \<Longrightarrow> length t \<le> length (S ! f)"
  shows "case fallback_loop n ns es c f of
      Some w \<Rightarrow> w < length ns \<and> (\<exists>t. S ! w = t @ [c] \<and> strict_suffix t s \<and> t \<in> set S \<and>
        (\<forall>t'. strict_suffix t' s \<longrightarrow> t' @ [c] \<in> set S \<longrightarrow> length t' \<le> length t))
    | None \<Rightarrow> (\<forall>t. strict_suffix t s \<longrightarrow> t @ [c] \<notin> set S)"
  using assms(3-)
proof (induction n arbitrary: f)
  case (Suc n)
  show ?case
  proof (cases "BuildTransition ns es f c")
    case (Some w)
    then have w: "w < length ns" "S ! w = S ! f @ [c]" using BuildTransition_iff [OF t Suc.prems(1)] by auto
    have "S ! f \<in> set S" using trie_basic(1) [OF t] Suc.prems(1) by simp
    with Some w Suc.prems show ?thesis by auto
  next
    case None
    then have no: "S ! f @ [c] \<notin> set S" using BuildTransition_None [OF t Suc.prems(1)] by simp
    have less: "length u < length (S ! f) \<and> strict_suffix u (S ! f)"
      if u: "strict_suffix u s" "u @ [c] \<in> set S" for u
    proof -
      have "u \<noteq> S ! f" using no u(2) by auto
      moreover have "suffix u (S ! f)"
        using suffix_length_suffix [of u s "S ! f"] u(1) Suc.prems(4) Suc.prems(5) [OF u] by (simp add: strict_suffix_def)
      ultimately show ?thesis by (auto simp: strict_suffix_def suffix_def)
    qed
    show ?thesis
    proof (cases "f = 0")
      case True
      with less trie_basic(3) [OF t] have "strict_suffix u s \<Longrightarrow> u @ [c] \<notin> set S" for u by force
      with None True show ?thesis by simp
    next
      case False
      let ?g = "failure (ns ! f)"
      have g: "is_fail S (S ! f) ?g" using links Suc.prems(1,2) False by blast
      then have "?g < length ns" "strict_suffix (S ! ?g) (S ! f)" using trie_basic(1) [OF t] by (auto simp: is_fail_def)
      moreover from this have "length (S ! ?g) < length (S ! f)" by (auto simp: strict_suffix_def suffix_def)
      moreover have "strict_suffix (S ! ?g) s"
        using calculation(2) Suc.prems(4) by (meson suffix_order.less_trans)
      moreover have "length u \<le> length (S ! ?g)" if "strict_suffix u s" "u @ [c] \<in> set S" for u
        using less [OF that] trie_prefix [OF t that(2)] g by (auto simp: is_fail_def)
      ultimately show ?thesis
        using Suc.IH [of ?g] Suc.prems(2,3) None False by simp
    qed
  qed
qed simp

lemma strict_suffix_snoc:
  "strict_suffix x (s @ [c]) \<longleftrightarrow> x = [] \<or> (\<exists>t. x = t @ [c] \<and> strict_suffix t s)"
proof (cases x rule: rev_cases)
  case (snoc t d)
  then show ?thesis by (auto simp: strict_suffix_def)
qed (auto simp: strict_suffix_def)

lemma ending_step:
  assumes "is_fail S s w" "\<forall>(i, p)\<in>Q. p \<in> set S"
  shows "{i. (i, s) \<in> Q} \<union> ending Q (S ! w) = ending Q s"
proof -
  have "suffix p s \<longleftrightarrow> p = s \<or> suffix p (S ! w)" if "(i, p) \<in> Q" for i p
  proof -
    have p: "p \<in> set S" using assms(2) that by blast
    have w: "strict_suffix (S ! w) s" using assms(1) by (simp add: is_fail_def)
    have "strict_suffix p s \<Longrightarrow> suffix p (S ! w)"
      using assms(1) p suffix_length_suffix [of p s "S ! w"] by (auto simp: is_fail_def strict_suffix_def)
    moreover have "suffix p (S ! w) \<Longrightarrow> suffix p s" using w by (meson strict_suffix_def suffix_order.order_trans)
    ultimately show ?thesis using strict_suffix_cases [of p s] by blast
  qed
  then show ?thesis by (auto simp: ending_def)
qed

lemma ending_root: "\<forall>(i, p)\<in>Q. p \<noteq> [] \<Longrightarrow> ending Q [] = {}"
  by (auto simp: ending_def)

text \<open>What the breadth-first loop keeps about the nodes.\<close>

definition link_inv :: "knode list \<Rightarrow> bedge list \<Rightarrow> string list \<Rightarrow> (nat \<times> string) set \<Rightarrow> bool" where
  "link_inv ns es S Q \<longleftrightarrow> trie ns es S \<and> finite Q \<and> (\<forall>(i, p)\<in>Q. p \<in> set S \<and> p \<noteq> []) \<and>
     failure (ns ! 0) = 0 \<and> bestKeyword (ns ! 0) = None"

lemma prefix_closed_length:
  assumes "\<And>t c. t @ [c] \<in> set S \<Longrightarrow> t \<in> set S" "distinct S" "s \<in> set S"
  shows "length s < length S"
proof -
  have "x \<in> set S \<Longrightarrow> set (prefixes x) \<subseteq> set S" for x
  proof (induction x rule: rev_induct)
    case (snoc c x)
    from assms(1) [OF snoc.prems] snoc.IH snoc.prems show ?case by (auto simp: prefix_snoc)
  qed simp
  then have "card (set (prefixes s)) \<le> card (set S)" using assms(3) by (intro card_mono) auto
  then show ?thesis using assms(2) distinct_card [OF distinct_prefixes, of s]
    by (simp add: distinct_card length_prefixes)
qed

lemma link_child_spec:
  assumes inv: "link_inv ns es S Q" and v: "v < length ns" "v \<noteq> 0" and e: "e \<in> set (out_edges ns es v)"
    and lower: "\<And>x. x < length ns \<Longrightarrow> x \<noteq> 0 \<Longrightarrow> length (S ! x) \<le> length (S ! v) \<Longrightarrow> linked ns S Q x"
    and raw: "raw ns S Q (b_target e)"
  defines "ns' \<equiv> link_child es v e ns"
  shows "map edgeStart ns' = map edgeStart ns" "\<And>x. x \<noteq> b_target e \<Longrightarrow> ns' ! x = ns ! x"
    "linked ns' S Q (b_target e)"
proof -
  let ?u = "b_target e" and ?s = "S ! v" and ?c = "b_label e" and ?f = "failure (ns ! v)"
  let ?fb = "fallback_loop (length ns) ns es (b_label e) (failure (ns ! v))"
  have t: "trie ns es S" and Q: "finite Q" "\<forall>(i, p)\<in>Q. p \<in> set S" "\<forall>(i, p)\<in>Q. p \<noteq> []"
    and root: "bestKeyword (ns ! 0) = None"
    using inv by (auto simp: link_inv_def)
  note u = trie_out [OF t v(1) e]
  have len: "length S = length ns" by (rule trie_basic(1) [OF t])
  have f: "is_fail S ?s ?f" using lower [OF v] by (simp add: linked_def)
  then have fl: "?f < length ns" "strict_suffix (S ! ?f) ?s" "length (S ! ?f) < length ?s"
    using len by (auto simp: is_fail_def strict_suffix_def suffix_def)
  have depth: "length ?s < length ns"
    using prefix_closed_length [of S ?s] trie_prefix [OF t] trie_basic(4) [OF t] v(1) len by auto
  have spec: "case ?fb of
      Some w \<Rightarrow> w < length ns \<and> (\<exists>t. S ! w = t @ [?c] \<and> strict_suffix t ?s \<and> t \<in> set S \<and>
        (\<forall>t'. strict_suffix t' ?s \<longrightarrow> t' @ [?c] \<in> set S \<longrightarrow> length t' \<le> length t))
    | None \<Rightarrow> (\<forall>t. strict_suffix t ?s \<longrightarrow> t @ [?c] \<notin> set S)"
  proof (rule fallback_loop_spec [OF t, of "length (S ! ?f)"])
    show "is_fail S (S ! x) (failure (ns ! x))" if "x < length ns" "x \<noteq> 0" "length (S ! x) \<le> length (S ! ?f)" for x
      using lower [of x] that fl(3) by (simp add: linked_def)
    show "length x \<le> length (S ! ?f)" if "strict_suffix x ?s" "x @ [?c] \<in> set S" for x
      using f trie_prefix [OF t that(2)] that(1) by (simp add: is_fail_def)
  qed (use fl depth in simp_all)
  define w where "w = (case ?fb of Some x \<Rightarrow> x | None \<Rightarrow> 0)"
  have w: "is_fail S (S ! ?u) w \<and> length (S ! w) \<le> length ?s"
  proof (cases ?fb)
    case None
    then show ?thesis using spec u trie_basic(1-3) [OF t] by (auto simp: w_def is_fail_def strict_suffix_snoc)
  next
    case (Some x)
    with spec obtain t where x: "x < length ns" "S ! x = t @ [?c]" "strict_suffix t ?s"
      "\<forall>t'. strict_suffix t' ?s \<longrightarrow> t' @ [?c] \<in> set S \<longrightarrow> length t' \<le> length t" by auto
    then have "length t < length ?s" by (auto simp: strict_suffix_def suffix_def)
    with x u len Some show ?thesis by (auto simp: w_def is_fail_def strict_suffix_snoc)
  qed
  have wu: "w \<noteq> ?u" using w by (auto simp: is_fail_def)
  have bw: "bestKeyword (ns ! w) = lst (ending Q (S ! w))"
  proof (cases "w = 0")
    case True
    then show ?thesis using root ending_root [OF Q(3)] trie_basic(3) [OF t] by simp
  next
    case False
    then show ?thesis using lower [of w] w len by (simp add: linked_def is_fail_def)
  qed
  have best: "minKeywordIndex (lst {i. (i, S ! ?u) \<in> Q}) (lst (ending Q (S ! w))) = lst (ending Q (S ! ?u))"
    using lst_Un [of "{i. (i, S ! ?u) \<in> Q}" "ending Q (S ! w)"] ending_step [OF conjunct1 [OF w] Q(2)] Q(1) by simp
  have same: "(ns ! ?u)\<lparr>failure := 0, bestKeyword := b\<rparr> = (ns ! ?u)\<lparr>bestKeyword := b\<rparr>" for b
    using raw by (cases "ns ! ?u") (simp add: raw_def)
  have ns': "ns' = ns[?u := (ns ! ?u)\<lparr>failure := w, bestKeyword :=
      minKeywordIndex (bestKeyword (ns ! ?u)) (bestKeyword (ns ! w))\<rparr>]"
    using raw wu u(1) by (auto simp: ns'_def link_child_def w_def raw_def Let_def same split: option.split)
  show "map edgeStart ns' = map edgeStart ns" using u(1) by (auto simp: ns' map_update list_update_same_conv)
  show "ns' ! x = ns ! x" if "x \<noteq> ?u" for x using that by (simp add: ns')
  show "linked ns' S Q ?u" using w best bw raw u(1) by (simp add: ns' linked_def raw_def)
qed

lemma link_inv_cong:
  assumes "link_inv ns es S Q" "map edgeStart ns' = map edgeStart ns" "ns' ! 0 = ns ! 0"
  shows "link_inv ns' es S Q"
  using assms trie_cong [of ns es S ns'] by (simp add: link_inv_def)

lemma link_children_spec:
  assumes "link_inv ns es S Q" "v < length ns" "v \<noteq> 0" "set xs \<subseteq> set (out_edges ns es v)" "distinct (map b_target xs)"
    and "\<And>x. x < length ns \<Longrightarrow> x \<noteq> 0 \<Longrightarrow> length (S ! x) \<le> length (S ! v) \<Longrightarrow> linked ns S Q x"
    and "\<And>e. e \<in> set xs \<Longrightarrow> raw ns S Q (b_target e)"
  defines "ns' \<equiv> fold (link_child es v) xs ns"
  shows "map edgeStart ns' = map edgeStart ns \<and> (\<forall>x. x \<notin> b_target ` set xs \<longrightarrow> ns' ! x = ns ! x) \<and>
    (\<forall>e\<in>set xs. linked ns' S Q (b_target e))"
  using assms(1-7) unfolding ns'_def
proof (induction xs arbitrary: ns)
  case (Cons e xs)
  let ?ns = "link_child es v e ns" and ?u = "b_target e"
  have t: "trie ns es S" using Cons.prems(1) by (simp add: link_inv_def)
  have e: "e \<in> set (out_edges ns es v)" and r: "raw ns S Q ?u" using Cons.prems(4,7) by auto
  have step: "map edgeStart ?ns = map edgeStart ns" "\<And>x. x \<noteq> ?u \<Longrightarrow> ?ns ! x = ns ! x" "linked ?ns S Q ?u"
    by (rule link_child_spec [OF Cons.prems(1-3) e _ r]; (rule Cons.prems(6))?; assumption)+
  have u: "?u < length ns" "?u \<noteq> 0" "length (S ! ?u) = Suc (length (S ! v))"
    using trie_out [OF t Cons.prems(2) e] trie_basic(3) [OF t] by (auto intro: ccontr)
  have len: "length ?ns = length ns" by (rule map_eq_imp_length_eq [OF step(1)])
  have inv: "link_inv ?ns es S Q" using link_inv_cong [OF Cons.prems(1) step(1)] step(2) [of 0] u(2) by simp
  have vu: "v \<noteq> ?u" using u(3) by (metis n_not_Suc_n)
  have o: "out_edges ?ns es v = out_edges ns es v"
    by (rule out_edges_cong) (simp only: step(2) [OF vu])
  have lk: "linked ?ns S Q x" if "x < length ?ns" "x \<noteq> 0" "length (S ! x) \<le> length (S ! v)" for x
  proof -
    have "x \<noteq> ?u" using that(3) u(3) by (metis Suc_n_not_le_n)
    from step(2) [OF this] Cons.prems(6) [of x] that len show ?thesis by (simp add: linked_def)
  qed
  have rw: "raw ?ns S Q (b_target e')" if "e' \<in> set xs" for e'
  proof -
    have "?u \<notin> b_target ` set xs" using Cons.prems(5) by simp
    then have "b_target e' \<noteq> ?u" using that by (metis imageI)
    from step(2) [OF this] Cons.prems(7) [of e'] that show ?thesis by (simp add: raw_def)
  qed
  from Cons.IH [OF inv _ Cons.prems(3) _ _ lk rw] Cons.prems(2,4,5) len o
  have IH: "map edgeStart (fold (link_child es v) xs ?ns) = map edgeStart ?ns \<and>
      (\<forall>x. x \<notin> b_target ` set xs \<longrightarrow> fold (link_child es v) xs ?ns ! x = ?ns ! x) \<and>
      (\<forall>e\<in>set xs. linked (fold (link_child es v) xs ?ns) S Q (b_target e))" by auto
  have "linked (fold (link_child es v) xs ?ns) S Q ?u"
    using IH step(3) Cons.prems(5) by (auto simp: linked_def)
  with IH step(1,2) show ?case by auto
qed simp

section \<open>The breadth-first loop\<close>

definition bfs_inv :: "knode list \<Rightarrow> bedge list \<Rightarrow> string list \<Rightarrow> (nat \<times> string) set \<Rightarrow> nat set \<Rightarrow> nat list \<Rightarrow> bool" where
  "bfs_inv ns es S Q Pr queue \<longleftrightarrow> link_inv ns es S Q \<and>
     distinct queue \<and> set queue \<inter> Pr = {} \<and> Pr \<union> set queue \<subseteq> {1..<length ns} \<and>
     (\<forall>x\<in>Pr \<union> set queue. linked ns S Q x) \<and>
     (\<forall>x<length ns. x \<noteq> 0 \<longrightarrow> x \<notin> Pr \<union> set queue \<longrightarrow> raw ns S Q x) \<and>
     (\<forall>v<length ns. \<forall>e\<in>set (out_edges ns es v). b_target e \<in> Pr \<union> set queue \<longrightarrow> v \<in> insert 0 Pr) \<and>
     (\<forall>v\<in>insert 0 Pr. \<forall>e\<in>set (out_edges ns es v). b_target e \<in> Pr \<union> set queue) \<and>
     sorted (map (\<lambda>x. length (S ! x)) queue) \<and>
     (\<forall>x\<in>set queue. length (S ! x) \<le> Suc (length (S ! hd queue)))"

lemma bfs_pending:
  assumes "bfs_inv ns es S Q Pr queue" "x < length ns" "x \<noteq> 0" "x \<notin> Pr \<union> set queue"
  shows "\<exists>p\<in>set queue. length (S ! p) < length (S ! x)"
  using assms(2-)
proof (induction "length (S ! x)" arbitrary: x rule: less_induct)
  case less
  have t: "trie ns es S" using assms(1) by (simp add: bfs_inv_def link_inv_def)
  from trie_parent [OF t less.prems(1,2)] obtain w e where
    w: "w < length ns" "e \<in> set (out_edges ns es w)" "b_target e = x" by blast
  have d: "length (S ! x) = Suc (length (S ! w))" using trie_out(2) [OF t w(1,2)] w(3) by simp
  have "w \<notin> insert 0 Pr" using assms(1) w less.prems(3) unfolding bfs_inv_def by blast
  then show ?case using less.hyps [of w] w(1) d less_SucI by (cases "w \<in> set queue") fastforce+
qed

lemma bfs_step:
  assumes inv: "bfs_inv ns es S Q Pr (v # queue)"
  shows "bfs_inv (fold (link_child es v) (out_edges ns es v) ns) es S Q (insert v Pr)
    (queue @ map b_target (out_edges ns es v))"
proof -
  let ?out = "out_edges ns es v" and ?V = "Pr \<union> set (v # queue)"
  define ns' where "ns' = fold (link_child es v) ?out ns"
  have li: "link_inv ns es S Q" and t: "trie ns es S" and v: "v < length ns" "v \<noteq> 0" "v \<notin> Pr" "v \<notin> set queue"
    and V: "?V \<subseteq> {1..<length ns}"
    using inv by (auto simp: bfs_inv_def link_inv_def)
  have out: "b_target e < length ns" "b_target e \<noteq> 0" "S ! b_target e = S ! v @ [b_label e]" "b_target e \<notin> ?V"
    if "e \<in> set ?out" for e
  proof -
    show a: "b_target e < length ns" "S ! b_target e = S ! v @ [b_label e]" using trie_out [OF t v(1) that] .
    then show "b_target e \<noteq> 0" using trie_basic(3) [OF t] by (cases "b_target e") auto
    show "b_target e \<notin> ?V" using inv that v unfolding bfs_inv_def by blast
  qed
  have "inj_on b_target (set ?out)"
  proof (rule inj_onI)
    fix e e' assume e: "e \<in> set ?out" "e' \<in> set ?out" "b_target e = b_target e'"
    from out(3) [OF e(1)] out(3) [OF e(2)] e(3) have "b_label e = b_label e'" by simp
    with trie_labels [OF t v(1)] e(1,2) show "e = e'" by (auto simp: distinct_map dest: inj_onD)
  qed
  with trie_labels [OF t v(1)] have dist: "distinct (map b_target ?out)" by (simp add: distinct_map)
  have visited: "x \<in> ?V" if "x < length ns" "x \<noteq> 0" "length (S ! x) \<le> length (S ! v)" for x
  proof (rule ccontr)
    assume "x \<notin> ?V"
    from bfs_pending [OF inv that(1,2) this] obtain p where "p \<in> set (v # queue)" "length (S ! p) < length (S ! x)"
      by blast
    with inv that(3) show False by (auto simp: bfs_inv_def)
  qed
  have lk: "linked ns S Q x" if "x < length ns" "x \<noteq> 0" "length (S ! x) \<le> length (S ! v)" for x
    using visited [OF that] inv unfolding bfs_inv_def by blast
  have rw: "raw ns S Q (b_target e)" if "e \<in> set ?out" for e
    using out [OF that] inv unfolding bfs_inv_def by blast
  from link_children_spec [OF li v(1,2) order_refl dist lk rw]
  have ns': "map edgeStart ns' = map edgeStart ns" "\<And>x. x \<notin> b_target ` set ?out \<Longrightarrow> ns' ! x = ns ! x"
    "\<And>e. e \<in> set ?out \<Longrightarrow> linked ns' S Q (b_target e)" unfolding ns'_def by blast+
  have len: "length ns' = length ns" by (rule map_eq_imp_length_eq [OF ns'(1)])
  have o: "out_edges ns' es x = out_edges ns es x" if "x < length ns" for x
    using ns'(1) len that by (intro out_edges_cong) (metis nth_map)
  have li': "link_inv ns' es S Q" using link_inv_cong [OF li ns'(1)] ns'(2) [of 0] out(2) by force
  let ?V' = "insert v Pr \<union> set (queue @ map b_target ?out)"
  have V': "?V' = ?V \<union> b_target ` set ?out" by auto
  have a: "linked ns' S Q x" if "x \<in> ?V'" for x
  proof (cases "x \<in> b_target ` set ?out")
    case False
    with that inv have "linked ns S Q x" unfolding bfs_inv_def V' by blast
    with ns'(2) [OF False] show ?thesis by (simp add: linked_def)
  qed (use ns'(3) in blast)
  have b: "raw ns' S Q x" if "x < length ns" "x \<noteq> 0" "x \<notin> ?V'" for x
  proof -
    have "x \<notin> ?V" "x \<notin> b_target ` set ?out" using that(3) unfolding V' by blast+
    moreover have "raw ns S Q x" using inv that calculation(1) unfolding bfs_inv_def by blast
    ultimately show ?thesis using ns'(2) by (simp add: raw_def)
  qed
  have c: "w \<in> insert 0 (insert v Pr)" if w: "w < length ns" "e \<in> set (out_edges ns es w)" "b_target e \<in> ?V'" for w e
  proof (cases "b_target e \<in> ?V")
    case True
    with inv w show ?thesis unfolding bfs_inv_def by blast
  next
    case False
    with w(3) obtain e' where e': "e' \<in> set ?out" "b_target e' = b_target e" unfolding V' by auto
    from out(3) [OF e'(1)] e'(2) trie_out(2) [OF t w(1,2)] have "S ! w = S ! v" by simp
    with trie_inj [OF t w(1) v(1)] show ?thesis by simp
  qed
  have d: "b_target e \<in> ?V'" if "w \<in> insert 0 (insert v Pr)" "e \<in> set (out_edges ns es w)" for w e
    using inv that unfolding bfs_inv_def V' by (cases "w = v") auto
  have depth: "length (S ! b_target e) = Suc (length (S ! v))" if "e \<in> set ?out" for e using out(3) [OF that] by simp
  have q: "sorted (map (\<lambda>x. length (S ! x)) (v # queue))" "x \<in> set queue \<Longrightarrow> length (S ! x) \<le> Suc (length (S ! v))" for x
    using inv by (auto simp: bfs_inv_def)
  have s: "sorted (map (\<lambda>x. length (S ! x)) (queue @ map b_target ?out))"
  proof -
    have "map (\<lambda>x. length (S ! x)) (map b_target ?out) = replicate (length ?out) (Suc (length (S ! v)))"
      using depth by (auto intro: nth_equalityI)
    then show ?thesis using q unfolding map_append by (auto simp: sorted_append)
  qed
  have h: "length (S ! x) \<le> Suc (length (S ! hd (queue @ map b_target ?out)))" if "x \<in> set (queue @ map b_target ?out)" for x
  proof -
    have "length (S ! x) \<le> Suc (length (S ! v))" using that q(2) depth by auto
    moreover have "length (S ! v) \<le> length (S ! hd (queue @ map b_target ?out))"
      using q(1) that depth by (cases queue) (cases ?out; auto)+
    ultimately show ?thesis by simp
  qed
  show ?thesis
    unfolding ns'_def [symmetric] bfs_inv_def len
  proof (intro conjI ballI allI impI)
    show "link_inv ns' es S Q" by (rule li')
    show "distinct (queue @ map b_target ?out)" using dist out(4) inv by (auto simp: bfs_inv_def)
    show "set (queue @ map b_target ?out) \<inter> insert v Pr = {}" using out(4) v inv by (auto simp: bfs_inv_def)
    show "?V' \<subseteq> {1..<length ns}" using V out(1,2) unfolding V' by (auto simp: Suc_le_eq)
    show "w \<in> insert 0 (insert v Pr)" if "w < length ns" "e \<in> set (out_edges ns' es w)" "b_target e \<in> ?V'" for w e
      using c that o by simp
    show "b_target e \<in> ?V'" if "w \<in> insert 0 (insert v Pr)" "e \<in> set (out_edges ns' es w)" for w e
    proof -
      have "w < length ns" using that(1) V v(1) trie_basic(2) [OF t] by auto
      with d that o show ?thesis by simp
    qed
  qed (use a b s h in blast)+
qed

lemma bfs_invD:
  assumes "bfs_inv ns es S Q Pr queue"
  shows "link_inv ns es S Q" "set queue \<inter> Pr = {}" "set queue \<subseteq> {1..<length ns}"
    "x \<in> Pr \<union> set queue \<Longrightarrow> linked ns S Q x"
  using assms unfolding bfs_inv_def by blast+

lemma bfs_empty_linked:
  assumes "bfs_inv ns es S Q Pr []" "x < length ns" "x \<noteq> 0"
  shows "linked ns S Q x"
  using bfs_pending [OF assms] bfs_invD(4) [OF assms(1), of x] by auto

lemma link_all_linked:
  assumes "bfs_inv ns es S Q Pr queue" "card ({1..<length ns} - Pr) \<le> n"
  defines "ns' \<equiv> link_all n es queue ns"
  shows "link_inv ns' es S Q \<and> length ns' = length ns \<and> (\<forall>x<length ns. x \<noteq> 0 \<longrightarrow> linked ns' S Q x)"
  using assms(1,2) unfolding ns'_def
proof (induction n arbitrary: ns Pr queue)
  case 0
  have "card ({1..<length ns} - Pr) = 0" using 0(2) by (rule le_0_eq [THEN iffD1])
  then have "{1..<length ns} \<subseteq> Pr"
    by (simp only: card_0_eq [OF finite_Diff [OF finite_atLeastLessThan]] Diff_eq_empty_iff)
  with bfs_invD(3) [OF 0(1)] have "set queue \<subseteq> Pr" by (rule subset_trans)
  then have "set queue = set queue \<inter> Pr" by (rule Int_absorb2 [symmetric])
  then have q: "queue = []" using bfs_invD(2) [OF 0(1)] by (simp only: set_empty)
  have "\<forall>x<length ns. x \<noteq> 0 \<longrightarrow> linked ns S Q x" using bfs_empty_linked [OF 0(1) [unfolded q]] by blast
  with bfs_invD(1) [OF 0(1)] show ?case unfolding link_all.simps by (intro conjI refl)
next
  case (Suc n)
  show ?case
  proof (cases queue)
    case Nil
    have "\<forall>x<length ns. x \<noteq> 0 \<longrightarrow> linked ns S Q x"
      using bfs_empty_linked [OF Suc.prems(1) [unfolded Nil]] by blast
    with bfs_invD(1) [OF Suc.prems(1)] show ?thesis unfolding Nil link_all.simps by (intro conjI refl)
  next
    case (Cons v qs)
    let ?ns = "fold (link_child es v) (out_edges ns es v) ns"
    note inv = bfs_step [OF Suc.prems(1) [unfolded Cons]]
    have "v \<in> {1..<length ns} - Pr" using bfs_invD(2,3) [OF Suc.prems(1)] Cons by auto
    moreover have "length ?ns = length ns"
      using bfs_invD(1) [OF inv] bfs_invD(1) [OF Suc.prems(1)] trie_basic(1) unfolding link_inv_def by metis
    ultimately have "card ({1..<length ?ns} - insert v Pr) \<le> n"
      using Suc.prems(2) card_Suc_Diff1 [of "{1..<length ns} - Pr" v]
      by (simp add: Diff_insert [of _ v Pr])
    from Suc.IH [OF inv this] \<open>length ?ns = length ns\<close> Cons show ?thesis by simp
  qed
qed

lemma bfs_start:
  assumes "built ns es S Q"
  shows "bfs_inv ns es S Q {} (map b_target (out_edges ns es 0))"
proof -
  let ?out = "out_edges ns es 0"
  have t: "trie ns es S" and Q: "finite Q" "\<forall>(i, p)\<in>Q. p \<in> set S \<and> p \<noteq> []"
    and raw: "\<And>v. v < length ns \<Longrightarrow> failure (ns ! v) = 0 \<and> bestKeyword (ns ! v) = lst {i. (i, S ! v) \<in> Q}"
    using assms by (auto simp: built_def)
  have n: "0 < length ns" using trie_basic(2) [OF t] by simp
  have s0: "S ! 0 = []" by (rule trie_basic(3) [OF t])
  have none: "{i. (i, []) \<in> Q} = {}" using Q(2) by auto
  have out: "b_target e < length ns" "S ! b_target e = [b_label e]" "b_target e \<noteq> 0" if "e \<in> set ?out" for e
  proof -
    show a: "b_target e < length ns" "S ! b_target e = [b_label e]" using trie_out [OF t n that] s0 by simp_all
    then show "b_target e \<noteq> 0" using s0 by (cases "b_target e") auto
  qed
  have "inj_on b_target (set ?out)"
  proof (rule inj_onI)
    fix e e' assume e: "e \<in> set ?out" "e' \<in> set ?out" "b_target e = b_target e'"
    from out(2) [OF e(1)] out(2) [OF e(2)] e(3) have "b_label e = b_label e'" by simp
    with trie_labels [OF t n] e(1,2) show "e = e'" by (auto simp: distinct_map dest: inj_onD)
  qed
  with trie_labels [OF t n] have dist: "distinct (map b_target ?out)" by (simp add: distinct_map)
  have lk: "linked ns S Q (b_target e)" if e: "e \<in> set ?out" for e
  proof -
    have "ending Q [b_label e] = {i. (i, [b_label e]) \<in> Q}"
      using Q(2) by (auto simp: ending_def suffix_def append_eq_Cons_conv Cons_eq_append_conv)
    moreover have "is_fail S [b_label e] 0"
      using trie_basic(1) [OF t] n s0 by (auto simp: is_fail_def strict_suffix_def suffix_def Cons_eq_append_conv)
    ultimately show ?thesis using out [OF e] raw [OF out(1) [OF e]] by (simp add: linked_def)
  qed
  show ?thesis
    unfolding bfs_inv_def
  proof (intro conjI ballI allI impI)
    show "link_inv ns es S Q" using t Q raw [OF n] s0 none by (simp add: link_inv_def)
    show "distinct (map b_target ?out)" by (rule dist)
    show "{} \<union> set (map b_target ?out) \<subseteq> {1..<length ns}" using out(1,3) by (auto simp: Suc_le_eq)
    show "linked ns S Q x" if "x \<in> {} \<union> set (map b_target ?out)" for x using that lk by auto
    show "raw ns S Q x" if "x < length ns" for x using raw [OF that] by (simp add: raw_def)
    show "v \<in> insert 0 {}" if v: "v < length ns" "e \<in> set (out_edges ns es v)"
      "b_target e \<in> {} \<union> set (map b_target ?out)" for v e
    proof -
      from v(3) obtain e' where e': "e' \<in> set ?out" "b_target e' = b_target e" by auto
      from trie_out(2) [OF t v(1,2)] out(2) [OF e'(1)] e'(2) have "S ! v = []" by simp
      with trie_root [OF t v(1)] show ?thesis by simp
    qed
    have m: "map (\<lambda>x. length (S ! x)) (map b_target ?out) = replicate (length ?out) 1"
      using out(2) by (auto intro: nth_equalityI)
    show "sorted (map (\<lambda>x. length (S ! x)) (map b_target ?out))" unfolding m by simp
    show "length (S ! x) \<le> Suc (length (S ! hd (map b_target ?out)))" if "x \<in> set (map b_target ?out)" for x
      using that out(2) by auto
  qed auto
qed

section \<open>The sorted edges\<close>

abbreviation key :: "kedge \<Rightarrow> nat" where
  "key e \<equiv> of_char (label e)"

lemma shift_in_eq:
  assumes "i < length out" "sorted (map key (take i out))"
  shows "shift_in c i out = takeWhile (\<lambda>e. key e \<le> key c) (take i out) @ c #
    dropWhile (\<lambda>e. key e \<le> key c) (take i out) @ drop (Suc i) out"
  using assms
proof (induction c i out rule: shift_in.induct)
  case (1 c out)
  then show ?case by (cases out) simp_all
next
  case (2 c i out)
  let ?P = "\<lambda>e. key e \<le> key c"
  have t: "take (Suc i) out = take i out @ [out ! i]" using 2(2) by (simp add: take_Suc_conv_app_nth)
  show ?case
  proof (cases "key c < key (out ! i)")
    case True
    let ?o = "out[Suc i := out ! i]"
    have d: "drop (Suc i) ?o = out ! i # drop (Suc (Suc i)) out"
      using 2(2) by (simp add: drop_update_swap Cons_nth_drop_Suc [symmetric])
    have "takeWhile ?P (take (Suc i) out) = takeWhile ?P (take i out)"
      "dropWhile ?P (take (Suc i) out) = dropWhile ?P (take i out) @ [out ! i]"
      unfolding t using True by (simp_all add: takeWhile_tail dropWhile_append3 dropWhile_append)
    moreover have "sorted (map key (take i ?o))" using 2(3) t by (simp add: sorted_append)
    ultimately show ?thesis using 2(1) [OF True] 2(2) True d by simp
  next
    case False
    have "\<forall>e\<in>set (take (Suc i) out). key e \<le> key c"
      using 2(3) False unfolding t by (auto simp: sorted_append)
    then have "takeWhile ?P (take (Suc i) out) = take (Suc i) out" "dropWhile ?P (take (Suc i) out) = []"
      by (simp_all add: takeWhile_eq_all_conv dropWhile_eq_Nil_conv del: set_take_subset)
    with False 2(2) show ?thesis by (simp only: shift_in.simps if_False append_Nil upd_conv_take_nth_drop)
  qed
qed

lemma insert_sorted:
  assumes "sorted (map key xs)"
  shows "sorted (map key (takeWhile (\<lambda>e. key e \<le> key c) xs @ c # dropWhile (\<lambda>e. key e \<le> key c) xs))"
  using assms
proof (induction xs)
  case (Cons x xs)
  then show ?case
    by (cases "key x \<le> key c") (auto simp: dest!: set_takeWhileD set_dropWhileD)
qed simp

lemma sort_edges_spec:
  "mset (sort_edges out) = mset out \<and> sorted (map key (sort_edges out))"
proof -
  let ?f = "\<lambda>i out. shift_in (out ! i) i out"
  have run: "length (fold ?f [1..<Suc n] out) = length out \<and> mset (fold ?f [1..<Suc n] out) = mset out \<and>
      sorted (map key (take (Suc n) (fold ?f [1..<Suc n] out)))" if "n < length out" for n
    using that
  proof (induction n)
    case 0
    then show ?case by (cases out) simp_all
  next
    case (Suc n)
    define o' where "o' = fold ?f [1..<Suc n] out"
    have o': "length o' = length out" "mset o' = mset out" "sorted (map key (take (Suc n) o'))"
      using Suc by (auto simp: o'_def)
    have l: "Suc n < length o'" using o'(1) Suc.prems by simp
    define t where "t = take (Suc n) o'"
    have e: "?f (Suc n) o' = (takeWhile (\<lambda>e. key e \<le> key (o' ! Suc n)) t @ o' ! Suc n #
        dropWhile (\<lambda>e. key e \<le> key (o' ! Suc n)) t) @ drop (Suc (Suc n)) o'"
      using shift_in_eq [OF l o'(3), of "o' ! Suc n"] by (simp add: t_def)
    have "o' = t @ o' ! Suc n # drop (Suc (Suc n)) o'" using l by (simp add: t_def id_take_nth_drop)
    then have m: "mset (?f (Suc n) o') = mset o'"
      unfolding e using arg_cong [OF takeWhile_dropWhile_id [of "\<lambda>e. key e \<le> key (o' ! Suc n)" t], of mset]
      by (metis (no_types, lifting) mset.simps(2) mset_append union_assoc union_commute add_mset_add_single)
    have "length (takeWhile (\<lambda>e. key e \<le> key (o' ! Suc n)) t @ o' ! Suc n #
        dropWhile (\<lambda>e. key e \<le> key (o' ! Suc n)) t) = Suc (Suc n)"
    proof -
      have "length t = Suc n" using l by (simp add: t_def)
      moreover have "length t = length (takeWhile (\<lambda>e. key e \<le> key (o' ! Suc n)) t) +
          length (dropWhile (\<lambda>e. key e \<le> key (o' ! Suc n)) t)"
        by (metis length_append takeWhile_dropWhile_id)
      ultimately show ?thesis by simp
    qed
    then have "take (Suc (Suc n)) (?f (Suc n) o') = takeWhile (\<lambda>e. key e \<le> key (o' ! Suc n)) t @ o' ! Suc n #
        dropWhile (\<lambda>e. key e \<le> key (o' ! Suc n)) t"
      unfolding e by (metis append_eq_conv_conj)
    with insert_sorted [of t "o' ! Suc n"] o'(3) have "sorted (map key (take (Suc (Suc n)) (?f (Suc n) o')))"
      by (simp add: t_def)
    moreover have "length (?f (Suc n) o') = length o'" using m by (metis size_mset)
    moreover have "fold ?f [1..<Suc (Suc n)] out = ?f (Suc n) o'" by (simp add: o'_def)
    ultimately show ?case using m o'(1,2) by simp
  qed
  show ?thesis
  proof (cases out)
    case (Cons x xs)
    then have l: "Suc (length xs) = length out" by simp
    have "length xs < length out" using Cons by simp
    from run [OF this, unfolded l] have "length (sort_edges out) = length out \<and> mset (sort_edges out) = mset out \<and>
        sorted (map key (take (length out) (sort_edges out)))"
      unfolding sort_edges_def .
    then show ?thesis by (metis take_all order_refl)
  qed (simp add: sort_edges_def)
qed

section \<open>The transitions of the finished automaton\<close>

definition frozen :: "bedge list \<Rightarrow> kedge list" where
  "frozen out = sort_edges (map (\<lambda>e. \<lparr>target = b_target e, label = b_label e\<rparr>) out)"

lemma frozen_set: "set (frozen out) = (\<lambda>e. \<lparr>target = b_target e, label = b_label e\<rparr>) ` set out"
  using sort_edges_spec [of "map (\<lambda>e. \<lparr>target = b_target e, label = b_label e\<rparr>) out"]
  by (metis frozen_def list.set_map mset_eq_setD)

lemma frozen_sorted: "sorted (map key (frozen out))"
  using sort_edges_spec by (simp add: frozen_def)

definition segment :: "knode list \<Rightarrow> kedge list \<Rightarrow> nat \<Rightarrow> kedge list \<Rightarrow> bool" where
  "segment ns es v T \<longleftrightarrow> edgeStart (ns ! v) + length T \<le> length es \<and> edgeCount (ns ! v) = length T \<and>
     take (length T) (drop (edgeStart (ns ! v)) es) = T"

lemma segment_append: "segment ns es v T \<Longrightarrow> segment ns (es @ x) v T"
  by (auto simp: segment_def)

lemma segment_nth: "segment ns es v T \<Longrightarrow> i < length T \<Longrightarrow> es ! (edgeStart (ns ! v) + i) = T ! i"
  unfolding segment_def by (metis add_leD1 nth_drop nth_take)

lemma freeze_spec:
  assumes "n \<le> length ns" "fold (freeze_node bes) [0..<n] (ns, []) = (ns', es)"
  shows "length ns' = length ns \<and>
    (\<forall>v. failure (ns' ! v) = failure (ns ! v) \<and> bestKeyword (ns' ! v) = bestKeyword (ns ! v)) \<and>
    (\<forall>v. n \<le> v \<longrightarrow> ns' ! v = ns ! v) \<and> (\<forall>v<n. segment ns' es v (frozen (out_edges ns bes v)))"
  using assms
proof (induction n arbitrary: ns' es)
  case (Suc n)
  obtain ns1 es1 where f: "fold (freeze_node bes) [0..<n] (ns, []) = (ns1, es1)" by fastforce
  from Suc.IH [OF _ f] Suc.prems(1) have IH: "length ns1 = length ns"
    "\<And>v. failure (ns1 ! v) = failure (ns ! v)" "\<And>v. bestKeyword (ns1 ! v) = bestKeyword (ns ! v)"
    "\<And>v. n \<le> v \<Longrightarrow> ns1 ! v = ns ! v" "\<And>v. v < n \<Longrightarrow> segment ns1 es1 v (frozen (out_edges ns bes v))" by auto
  let ?out = "frozen (out_edges ns bes n)"
  have o: "out_edges ns1 bes n = out_edges ns bes n" using IH(4) [of n] by (simp add: out_edges_def)
  have n: "n < length ns1" using Suc.prems(1) IH(1) by simp
  have step: "freeze_node bes n (ns1, es1) = (ns', es)" using Suc.prems(2) f by simp
  have r: "ns' = ns1[n := (ns1 ! n)\<lparr>edgeStart := length es1, edgeCount := length ?out\<rparr>]" "es = es1 @ ?out"
    using step by (auto simp: freeze_node_def Let_def o frozen_def)
  have seg: "segment ns' es v (frozen (out_edges ns bes v))" if "v < Suc n" for v
  proof (cases "v = n")
    case True
    then show ?thesis using n by (simp add: r segment_def)
  next
    case False
    then have "segment ns' es1 v (frozen (out_edges ns bes v))" using IH(5) [of v] that by (simp add: r segment_def)
    then show ?thesis unfolding r(2) by (rule segment_append)
  qed
  have "failure (ns' ! v) = failure (ns ! v) \<and> bestKeyword (ns' ! v) = bestKeyword (ns ! v)" for v
    using IH(2,3) n by (cases "v = n") (simp_all add: r(1))
  moreover have "ns' ! v = ns ! v" if "Suc n \<le> v" for v using IH(4) [of v] that by (simp add: r(1))
  ultimately show ?case using seg IH(1) by (simp add: r(1))
qed simp

lemma bisect_spec:
  assumes "\<And>j k. lo \<le> j \<Longrightarrow> j \<le> k \<Longrightarrow> k < hi \<Longrightarrow> key (es ! j) \<le> key (es ! k)"
    and "lo \<le> left" "left \<le> right" "right \<le> hi"
    and "\<And>j. lo \<le> j \<Longrightarrow> j < left \<Longrightarrow> key (es ! j) < of_char c"
    and "\<And>j. right \<le> j \<Longrightarrow> j < hi \<Longrightarrow> \<not> key (es ! j) < of_char c"
  shows "left \<le> bisect es c left right \<and> bisect es c left right \<le> right \<and>
    (\<forall>j. lo \<le> j \<longrightarrow> j < bisect es c left right \<longrightarrow> key (es ! j) < of_char c) \<and>
    (\<forall>j. bisect es c left right \<le> j \<longrightarrow> j < hi \<longrightarrow> \<not> key (es ! j) < of_char c)"
  using assms
proof (induction es c left right rule: bisect.induct)
  case (1 es c left right)
  let ?m = "left + (right - left) div 2"
  show ?case
  proof (cases "left < right")
    case False
    then have e: "bisect es c left right = left" by (simp add: bisect.simps [of es c left right])
    from False "1.prems" show ?thesis unfolding e by simp
  next
    case lr: True
    then have m: "left \<le> ?m" "?m < right" by auto
    show ?thesis
    proof (cases "key (es ! ?m) < of_char c")
      case True
      have "key (es ! j) < of_char c" if "lo \<le> j" "j < ?m + 1" for j
      proof -
        have "key (es ! j) \<le> key (es ! ?m)" using "1.prems"(1) [OF that(1), of ?m] that(2) m(2) "1.prems"(4) by simp
        then show ?thesis using True by (rule order_le_less_trans)
      qed
      with "1.IH"(1) [OF lr refl True] "1.prems" m lr True show ?thesis
        by (simp add: bisect.simps [of es c left right] Let_def)
    next
      case False
      have "\<not> key (es ! j) < of_char c" if "?m \<le> j" "j < hi" for j
      proof -
        have "key (es ! ?m) \<le> key (es ! j)" using "1.prems"(1) [OF _ that] m(1) "1.prems"(2) by simp
        with False show ?thesis by (meson order_le_less_trans)
      qed
      with "1.IH"(2) [OF lr refl False] "1.prems" m lr False show ?thesis
        by (simp add: bisect.simps [of es c left right] Let_def)
    qed
  qed
qed

lemma root_transitions_spec:
  assumes "distinct (map b_label es)"
  shows "root_transitions es ! of_char c =
    (case find (\<lambda>e. b_label e = c) es of None \<Rightarrow> 0 | Some e \<Rightarrow> b_target e)"
proof -
  have "length rt = 256 \<Longrightarrow> distinct (map b_label es) \<Longrightarrow>
      fold (\<lambda>e rt. rt[of_char (b_label e) := b_target e]) es rt ! of_char c
        = (case find (\<lambda>e. b_label e = c) es of None \<Rightarrow> rt ! of_char c | Some e \<Rightarrow> b_target e)" for rt
  proof (induction es arbitrary: rt)
    case (Cons e es)
    have b: "of_char x < (256 :: nat)" for x by (rule nat_of_char_less_256)
    show ?case
    proof (cases "b_label e = c")
      case True
      with Cons.prems(2) have "c \<notin> b_label ` set es" by simp
      then have "find (\<lambda>e. b_label e = c) es = None" by (force simp: find_None_iff)
      with Cons True b [of c] show ?thesis by simp
    next
      case False
      then have "of_char (b_label e) \<noteq> (of_char c :: nat)" by simp
      with Cons False show ?thesis by (simp split: option.split)
    qed
  qed simp
  from this [of "replicate 256 0"] assms have "root_transitions es ! of_char c
      = (case find (\<lambda>e. b_label e = c) es of None \<Rightarrow> replicate 256 0 ! of_char c | Some e \<Rightarrow> b_target e)" by simp
  moreover have "replicate 256 0 ! of_char c = (0::nat)" by (rule nth_replicate) (rule nat_of_char_less_256)
  ultimately show ?thesis by (simp split: option.split)
qed

section \<open>The automaton on a text\<close>

definition automaton :: "matcher \<Rightarrow> string list \<Rightarrow> (nat \<times> string) set \<Rightarrow> bool" where
  "automaton m S Q \<longleftrightarrow> length S = length (nodes m) \<and> nodes m \<noteq> [] \<and> S ! 0 = [] \<and> distinct S \<and>
     (\<forall>t c. t @ [c] \<in> set S \<longrightarrow> t \<in> set S) \<and> finite Q \<and> (\<forall>(i, p)\<in>Q. p \<in> set S \<and> p \<noteq> []) \<and>
     bestKeyword (nodes m ! 0) = None \<and> (\<forall>x<length S. x \<noteq> 0 \<longrightarrow> linked (nodes m) S Q x) \<and>
     (\<forall>v<length S. \<forall>c. if S ! v @ [c] \<in> set S then next_state m v c < length S \<and> S ! next_state m v c = S ! v @ [c]
        else next_state m v c = 0)"

lemma automatonD:
  assumes "automaton m S Q"
  shows "length S = length (nodes m)" "nodes m \<noteq> []" "S ! 0 = []" "distinct S" "finite Q"
    "t @ [c] \<in> set S \<Longrightarrow> t \<in> set S" "(i, p) \<in> Q \<Longrightarrow> p \<in> set S" "(i, p) \<in> Q \<Longrightarrow> p \<noteq> []"
    "bestKeyword (nodes m ! 0) = None" "x < length S \<Longrightarrow> x \<noteq> 0 \<Longrightarrow> linked (nodes m) S Q x"
    "v < length S \<Longrightarrow> S ! v @ [c] \<in> set S \<Longrightarrow> next_state m v c < length S \<and> S ! next_state m v c = S ! v @ [c]"
    "v < length S \<Longrightarrow> S ! v @ [c] \<notin> set S \<Longrightarrow> next_state m v c = 0"
  using assms unfolding automaton_def by (auto split: if_splits)

text \<open>\<open>v\<close> is the node of the longest suffix of \<open>s\<close> in the trie.\<close>

definition at :: "string list \<Rightarrow> string \<Rightarrow> nat \<Rightarrow> bool" where
  "at S s v \<longleftrightarrow> v < length S \<and> suffix (S ! v) s \<and> (\<forall>t\<in>set S. suffix t s \<longrightarrow> length t \<le> length (S ! v))"

lemma follow_spec:
  assumes a: "automaton m S Q"
    and "v < length S" "length (S ! v) < n" "suffix (S ! v) s"
    and "\<And>t. suffix t s \<Longrightarrow> t @ [c] \<in> set S \<Longrightarrow> length t \<le> length (S ! v)"
  shows "at S (s @ [c]) (follow n m c v)"
  using assms(2-)
proof (induction n arbitrary: v)
  case (Suc n)
  note d = automatonD [OF a]
  have snoc: "suffix t (s @ [c]) \<longleftrightarrow> t = [] \<or> (\<exists>u. t = u @ [c] \<and> suffix u s)" for t by (rule suffix_snoc)
  show ?case
  proof (cases "S ! v @ [c] \<in> set S")
    case True
    let ?x = "next_state m v c"
    from d(11) [OF Suc.prems(1) True] have x: "?x < length S" "S ! ?x = S ! v @ [c]" by simp_all
    then have "?x \<noteq> 0" using d(3) by (metis append_is_Nil_conv not_Cons_self2)
    then have "follow (Suc n) m c v = ?x" by simp
    moreover have "at S (s @ [c]) ?x"
      using x Suc.prems(3,4) by (auto simp: at_def snoc)
    ultimately show ?thesis by simp
  next
    case False
    from d(12) [OF Suc.prems(1) False] have x: "next_state m v c = 0" .
    have less: "length u < length (S ! v) \<and> strict_suffix u (S ! v)" if u: "suffix u s" "u @ [c] \<in> set S" for u
    proof -
      have "u \<noteq> S ! v" using False u(2) by auto
      moreover have "suffix u (S ! v)"
        using suffix_length_suffix [OF u(1) Suc.prems(3) Suc.prems(4) [OF u]] .
      ultimately show ?thesis by (auto simp: strict_suffix_def suffix_def)
    qed
    show ?thesis
    proof (cases "v = 0")
      case True
      with less d(3) have "suffix u s \<Longrightarrow> u @ [c] \<notin> set S" for u by force
      then have "at S (s @ [c]) 0" using Suc.prems(1) True d(3) by (auto simp: at_def snoc)
      with True x show ?thesis by simp
    next
      case vn: False
      let ?g = "failure (nodes m ! v)"
      have g: "is_fail S (S ! v) ?g" using d(10) [OF Suc.prems(1) vn] by (simp add: linked_def)
      then have gl: "?g < length S" "strict_suffix (S ! ?g) (S ! v)" by (auto simp: is_fail_def)
      then have "length (S ! ?g) < length (S ! v)" by (auto simp: strict_suffix_def suffix_def)
      then have "length (S ! ?g) < n" using Suc.prems(2) by simp
      moreover have "suffix (S ! ?g) s" using gl(2) Suc.prems(3) by (meson strict_suffix_def suffix_order.order_trans)
      moreover have "length u \<le> length (S ! ?g)" if "suffix u s" "u @ [c] \<in> set S" for u
        using less [OF that] d(6) [OF that(2)] g by (auto simp: is_fail_def)
      ultimately have "at S (s @ [c]) (follow n m c ?g)" using Suc.IH [OF gl(1)] by blast
      with vn x show ?thesis by simp
    qed
  qed
qed simp

lemma at_step:
  assumes a: "automaton m S Q" and v: "at S s v"
  shows "at S (s @ [c]) (follow (length (nodes m)) m c v)"
proof (rule follow_spec [OF a])
  note d = automatonD [OF a]
  show "v < length S" "suffix (S ! v) s" using v by (simp_all add: at_def)
  then show "length (S ! v) < length (nodes m)"
    using prefix_closed_length [of S "S ! v"] d(1,4,6) by (metis nth_mem)
  show "length t \<le> length (S ! v)" if "suffix t s" "t @ [c] \<in> set S" for t
    using v d(6) [OF that(2)] that(1) by (simp add: at_def)
qed

lemma at_best:
  assumes a: "automaton m S Q" and v: "at S s v"
  shows "bestKeyword (nodes m ! v) = lst (ending Q s)"
proof -
  note d = automatonD [OF a]
  have "suffix p s \<longleftrightarrow> suffix p (S ! v)" if "(i, p) \<in> Q" for i p
    using v d(7) [OF that] suffix_length_suffix [of p s "S ! v"]
    by (auto simp: at_def intro: suffix_order.order_trans)
  then have e: "ending Q s = ending Q (S ! v)" by (auto simp: ending_def)
  show ?thesis
  proof (cases "v = 0")
    case True
    have "ending Q [] = {}" using d(8) by (auto intro!: ending_root)
    with True show ?thesis using d(3,9) e by simp
  next
    case False
    then show ?thesis using d(10) [of v] v e by (simp add: at_def linked_def)
  qed
qed

definition found :: "(nat \<times> string) set \<Rightarrow> string \<Rightarrow> string \<Rightarrow> nat set" where
  "found Q s cs = (\<Union>j\<in>{1..length cs}. ending Q (s @ take j cs))"

lemma found_Cons: "found Q s (c # cs) = ending Q (s @ [c]) \<union> found Q (s @ [c]) cs"
proof -
  have "{1..length (c # cs)} = insert 1 (Suc ` {1..length cs})"
    by (auto simp: image_iff Suc_le_eq intro: Suc_pred [symmetric])
  then show ?thesis unfolding found_def by (simp del: image_Suc_atLeastAtMost)
qed

lemma finite_found [simp]: "finite Q \<Longrightarrow> finite (found Q s cs)"
  by (simp add: found_def)

lemma scan_spec:
  assumes a: "automaton m S Q" and "at S s v" "finite B"
  shows "scan m v (lst B) cs = lst (B \<union> found Q s cs)"
  using assms(2,3)
proof (induction cs arbitrary: s v B)
  case (Cons c cs)
  let ?v = "follow (length (nodes m)) m c v"
  have f: "finite (ending Q (s @ [c]))" "finite (found Q (s @ [c]) cs)" using automatonD(5) [OF a] by simp_all
  have b: "minKeywordIndex (lst B) (bestKeyword (nodes m ! ?v)) = lst (B \<union> ending Q (s @ [c]))"
    using at_best [OF a at_step [OF a Cons.prems(1)]] lst_Un [OF Cons.prems(2) f(1)] by simp
  show ?case
  proof (cases "lst (B \<union> ending Q (s @ [c])) = Some 0")
    case True
    then have "0 \<in> B \<union> ending Q (s @ [c])" using lst_Some Cons.prems(2) f(1) by blast
    then have "lst (B \<union> found Q s (c # cs)) = Some 0"
      using lst_Some [of "B \<union> found Q s (c # cs)" 0] Cons.prems(2) f by (auto simp: found_Cons)
    with True b show ?thesis by (simp add: Let_def)
  next
    case False
    with Cons.IH [OF at_step [OF a Cons.prems(1)], of "B \<union> ending Q (s @ [c])"] Cons.prems(2) f(1) b
    show ?thesis by (simp add: Let_def found_Cons Un_assoc)
  qed
qed (simp add: found_def)

lemma found_Contains:
  assumes "\<forall>(i, p)\<in>Q. p \<noteq> []"
  shows "found Q [] text = {i. \<exists>p. (i, p) \<in> Q \<and> Contains text p}"
proof -
  have "(\<exists>j\<in>{1..length text}. suffix p (take j text)) \<longleftrightarrow> Contains text p" if "p \<noteq> []" for p
  proof
    assume "\<exists>j\<in>{1..length text}. suffix p (take j text)"
    then obtain j l where "take j text = l @ p" by (auto simp: suffix_def)
    then have "text = l @ p @ drop j text" by (metis append.assoc append_take_drop_id)
    then show "Contains text p" by (metis Contains_iff)
  next
    assume "Contains text p"
    then obtain l r where t: "text = l @ p @ r" by (auto simp: Contains_iff)
    then have "take (length l + length p) text = l @ p" by simp
    with t that show "\<exists>j\<in>{1..length text}. suffix p (take j text)"
      by (intro bexI [of _ "length l + length p"]) (auto simp: suffix_def Suc_le_eq)
  qed
  with assms show ?thesis by (fastforce simp: found_def ending_def)
qed

section \<open>Building gives the automaton\<close>

lemma find_label:
  assumes "trie ns bes S" "v < length ns"
  shows "case find (\<lambda>e. b_label e = c) (out_edges ns bes v) of
      Some e \<Rightarrow> b_target e < length ns \<and> S ! b_target e = S ! v @ [c] | None \<Rightarrow> S ! v @ [c] \<notin> set S"
proof (cases "find (\<lambda>e. b_label e = c) (out_edges ns bes v)")
  case None
  then show ?thesis using BuildTransition_None [OF assms, of c] assms(2) by (simp add: BuildTransition_def)
next
  case (Some e)
  then have "e \<in> set (out_edges ns bes v)" "b_label e = c" by (auto simp: find_Some_iff)
  with Some trie_out [OF assms] show ?thesis by simp
qed

lemma search_segment:
  fixes c :: char
  assumes seg: "segment ns es v T" and sorted: "sorted (map key T)"
  defines "lo \<equiv> edgeStart (ns ! v)"
  defines "hi \<equiv> lo + edgeCount (ns ! v)"
  defines "p \<equiv> bisect es c lo hi"
  shows "if c \<in> label ` set T then p < hi \<and> label (es ! p) = c \<and> es ! p \<in> set T
    else \<not> (p < hi \<and> label (es ! p) = c)"
proof -
  have hi: "hi = lo + length T" using seg by (simp add: hi_def segment_def)
  have nth: "es ! j = T ! (j - lo)" if "lo \<le> j" "j < hi" for j
    using segment_nth [OF seg, of "j - lo"] that by (simp add: hi lo_def)
  have mono: "key (es ! j) \<le> key (es ! k)" if "lo \<le> j" "j \<le> k" "k < hi" for j k
    using that nth [of j] nth [of k] sorted_nth_mono [OF sorted, of "j - lo" "k - lo"] by (simp add: hi)
  have "lo \<le> p \<and> p \<le> hi \<and> (\<forall>j. lo \<le> j \<longrightarrow> j < p \<longrightarrow> key (es ! j) < of_char c) \<and>
      (\<forall>j. p \<le> j \<longrightarrow> j < hi \<longrightarrow> \<not> key (es ! j) < of_char c)"
    unfolding p_def by (rule bisect_spec) (use mono hi in auto)
  then have p: "lo \<le> p" "p \<le> hi" "\<And>j. lo \<le> j \<Longrightarrow> j < p \<Longrightarrow> key (es ! j) < of_char c"
    "\<And>j. p \<le> j \<Longrightarrow> j < hi \<Longrightarrow> \<not> key (es ! j) < of_char c" by blast+
  show ?thesis
  proof (cases "c \<in> label ` set T")
    case True
    then obtain i where i: "i < length T" "label (T ! i) = c" by (auto simp: in_set_conv_nth)
    have ei: "es ! (lo + i) = T ! i" using segment_nth [OF seg i(1)] by (simp add: lo_def)
    have "\<not> lo + i < p" using p(3) [of "lo + i"] ei i(2) by auto
    then have pi: "p \<le> lo + i" by simp
    then have ph: "p < hi" using i(1) hi by simp
    have "key (es ! p) \<le> of_char c" using mono [OF p(1) pi] ei i hi by simp
    with p(4) [OF order_refl ph] have "key (es ! p) = of_char c" by (metis linorder_neqE_nat not_less)
    then have "label (es ! p) = c" by simp
    moreover have "es ! p \<in> set T" using nth [OF p(1) ph] p(1) ph hi by simp
    ultimately show ?thesis using True ph by simp
  next
    case False
    have "label (es ! p) \<noteq> c" if "p < hi"
    proof -
      have "es ! p \<in> set T" using nth [OF p(1) that] p(1) that hi by simp
      with False show ?thesis by blast
    qed
    with False show ?thesis by auto
  qed
qed

lemma next_state_spec:
  assumes t: "trie ns bes S" and v: "v < length ns" and len: "length (nodes m) = length ns"
    and root: "\<exists>ns0. trie ns0 bes S \<and> rootTransitions m = root_transitions (out_edges ns0 bes 0)"
    and seg: "segment (nodes m) (edges m) v (frozen (out_edges ns bes v))"
  shows "if S ! v @ [c] \<in> set S then next_state m v c < length S \<and> S ! next_state m v c = S ! v @ [c]
    else next_state m v c = 0"
proof (cases "v = 0")
  case True
  from root obtain ns0 where r: "trie ns0 bes S" "rootTransitions m = root_transitions (out_edges ns0 bes 0)" by blast
  have v0: "0 < length ns0" using trie_basic(2) [OF r(1)] by simp
  have "next_state m v c = (case find (\<lambda>e. b_label e = c) (out_edges ns0 bes 0) of None \<Rightarrow> 0 | Some e \<Rightarrow> b_target e)"
    using True r(2) root_transitions_spec [OF trie_labels [OF r(1) v0]] by (simp add: next_state_def)
  with find_label [OF r(1) v0, of c] trie_basic(1) [OF r(1)] True show ?thesis
    by (auto split: option.splits) (metis in_set_conv_nth)
next
  case False
  let ?out = "out_edges ns bes v" and ?T = "frozen (out_edges ns bes v)"
  let ?p = "bisect (edges m) c (edgeStart (nodes m ! v)) (edgeStart (nodes m ! v) + edgeCount (nodes m ! v))"
  note s = search_segment [OF seg frozen_sorted, of c]
  have lab: "c \<in> label ` set ?T \<longleftrightarrow> c \<in> b_label ` set ?out" by (force simp: frozen_set)
  have inS: "S ! v @ [c] \<in> set S \<longleftrightarrow> c \<in> b_label ` set ?out"
  proof
    assume "S ! v @ [c] \<in> set S"
    then obtain u where "u < length ns" "S ! u = S ! v @ [c]" using trie_node [OF t] by blast
    from trie_edge [OF t v this] show "c \<in> b_label ` set ?out" by blast
  next
    assume "c \<in> b_label ` set ?out"
    then obtain e where "e \<in> set ?out" "b_label e = c" by blast
    with trie_out [OF t v, of e] show "S ! v @ [c] \<in> set S" using trie_node [OF t] by blast
  qed
  show ?thesis
  proof (cases "S ! v @ [c] \<in> set S")
    case True
    with s lab inS have p: "?p < edgeStart (nodes m ! v) + edgeCount (nodes m ! v)" "label (edges m ! ?p) = c"
      "edges m ! ?p \<in> set ?T" by auto
    from p(3) obtain e where e: "e \<in> set ?out" "edges m ! ?p = \<lparr>target = b_target e, label = b_label e\<rparr>"
      by (auto simp: frozen_set)
    have "next_state m v c = b_target e" using False v len p e by (simp add: next_state_def Let_def)
    with trie_out [OF t v e(1)] e p(2) True trie_basic(1) [OF t] show ?thesis by simp
  next
    case notin: False
    with s lab inS have "\<not> (?p < edgeStart (nodes m ! v) + edgeCount (nodes m ! v) \<and> label (edges m ! ?p) = c)" by simp
    with False v len notin show ?thesis by (auto simp: next_state_def Let_def)
  qed
qed

lemma new_matcher_automaton:
  assumes lower: "\<And>s. lower s = [] \<longleftrightarrow> s = []" and m: "newContentModerationKeywordMatcher lower ks = Some m"
  shows "(\<exists>S. automaton m S (pats lower (enumerate 0 ks))) \<and> kwords m = ks \<and> ks \<noteq> []"
proof -
  let ?Q = "pats lower (enumerate 0 ks)"
  obtain ns bes where b: "build_trie lower ks = (ns, bes)" by fastforce
  from build_trie_built [OF lower, of ks] b obtain S where built: "built ns bes S ?Q" by auto
  have t: "trie ns bes S" using built by (simp add: built_def)
  define ns2 where "ns2 = link_all (length ns) bes (map b_target (out_edges ns bes 0)) ns"
  have "card ({1..<length ns} - {}) \<le> length ns" by simp
  from link_all_linked [OF bfs_start [OF built] this] have
    l: "link_inv ns2 bes S ?Q" "length ns2 = length ns" "\<And>x. x < length ns \<Longrightarrow> x \<noteq> 0 \<Longrightarrow> linked ns2 S ?Q x"
    unfolding ns2_def by blast+
  obtain ns3 es where f: "fold (freeze_node bes) [0..<length ns2] (ns2, []) = (ns3, es)" by fastforce
  note fr = freeze_spec [OF order_refl f]
  have m': "m = \<lparr>nodes = ns3, edges = es, rootTransitions = root_transitions (out_edges ns bes 0), kwords = ks\<rparr>" "ks \<noteq> []"
    using m b f by (auto simp: newContentModerationKeywordMatcher_def ns2_def Let_def split: if_splits)
  have t2: "trie ns2 bes S" and Q: "finite ?Q" "\<forall>(i, p)\<in>?Q. p \<in> set S \<and> p \<noteq> []" and r2: "bestKeyword (ns2 ! 0) = None"
    using l(1) by (simp_all add: link_inv_def)
  note tb = trie_basic [OF t2]
  have len: "length ns3 = length ns2" using fr by blast
  have lk: "linked ns3 S ?Q x" if "x < length S" "x \<noteq> 0" for x
    using l(3) [of x] that fr tb(1) l(2) by (simp add: linked_def)
  have nx: "if S ! v @ [c] \<in> set S then next_state m v c < length S \<and> S ! next_state m v c = S ! v @ [c]
      else next_state m v c = 0" if "v < length S" for v c
  proof (rule next_state_spec [OF t2])
    show "v < length ns2" using that tb(1) by simp
    then show "segment (nodes m) (edges m) v (frozen (out_edges ns2 bes v))" using fr by (simp add: m'(1))
    show "length (nodes m) = length ns2" using len by (simp add: m'(1))
    show "\<exists>ns0. trie ns0 bes S \<and> rootTransitions m = root_transitions (out_edges ns0 bes 0)"
      using t by (auto simp: m'(1))
  qed
  have "automaton m S ?Q"
    unfolding automaton_def
  proof (intro conjI allI impI)
    show "length S = length (nodes m)" using tb(1) len by (simp add: m'(1))
    show "nodes m \<noteq> []" using tb(2) len by (auto simp: m'(1))
    show "S ! 0 = []" "distinct S" by (fact tb)+
    show "u @ [c] \<in> set S \<Longrightarrow> u \<in> set S" for u c by (rule trie_prefix [OF t2])
    show "finite ?Q" "\<forall>(i, p)\<in>?Q. p \<in> set S \<and> p \<noteq> []" by (fact Q)+
    show "bestKeyword (nodes m ! 0) = None" using r2 fr by (simp add: m'(1))
    show "linked (nodes m) S ?Q x" if "x < length S" "x \<noteq> 0" for x using lk [OF that] by (simp add: m'(1))
    show "if S ! v @ [c] \<in> set S then next_state m v c < length S \<and> S ! next_state m v c = S ! v @ [c]
      else next_state m v c = 0" if "v < length S" for v c by (rule nx [OF that])
  qed
  with m' show ?thesis by auto
qed

lemma no_matcher_no_keyword:
  assumes lower: "\<And>s. lower s = [] \<longleftrightarrow> s = []" and m: "newContentModerationKeywordMatcher lower ks = None"
  shows "pats lower (enumerate 0 ks) = {}"
proof (cases "ks = []")
  case False
  obtain ns bes where b: "build_trie lower ks = (ns, bes)" by fastforce
  from build_trie_built [OF lower, of ks] b obtain S where
    built: "built ns bes S (pats lower (enumerate 0 ks))" by auto
  have t: "trie ns bes S" using built by (simp add: built_def)
  have "length ns = 1" using m b False
    by (auto simp: newContentModerationKeywordMatcher_def Let_def split: if_splits prod.splits)
  with trie_basic(1,3) [OF t] have "set S \<subseteq> {[]}" by (cases S) auto
  with built show ?thesis unfolding built_def by fastforce
qed (simp add: pats_def)

lemma least_first_keyword:
  "lst {i. \<exists>p. (i, p) \<in> pats lower (enumerate 0 ks) \<and> Contains (lower text) p} = first_keyword lower ks text"
proof -
  let ?P = "\<lambda>i. ks ! i \<noteq> [] \<and> Contains (lower text) (lower (ks ! i))"
  have A: "{i. \<exists>p. (i, p) \<in> pats lower (enumerate 0 ks) \<and> Contains (lower text) p} = {i. i < length ks \<and> ?P i}"
    by (auto simp: pats_def in_set_enumerate_eq)
  show ?thesis
  proof (cases "first_keyword lower ks text")
    case None
    then have "{i. i < length ks \<and> ?P i} = {}" by (auto simp: first_keyword_def find_None_iff)
    with None show ?thesis unfolding A by (simp only: lst_empty)
  next
    case (Some b)
    then have "b < length ks" "?P b" "\<And>j. j < b \<Longrightarrow> \<not> ?P j"
      by (auto simp: first_keyword_def find_Some_iff)
    then have "lst {i. i < length ks \<and> ?P i} = Some b"
      using lst_Some [of "{i. i < length ks \<and> ?P i}" b] by (auto simp: not_less [symmetric])
    with Some show ?thesis unfolding A by simp
  qed
qed

section \<open>Properties\<close>

text \<open>C11. The matcher built from a list of keywords answers every text as the plain search does: with the
  first keyword of the list, in the list's order and spelling, that is not empty and occurs in the text when both are in
  lower case, and with no match when there is none.\<close>
theorem Match_finds_first_keyword:
  assumes "\<And>s. lower s = [] \<longleftrightarrow> s = []"
  shows "Match lower (newContentModerationKeywordMatcher lower ks) text =
    (case first_keyword lower ks text of None \<Rightarrow> ([], False) | Some i \<Rightarrow> (ks ! i, True))"
proof -
  let ?Q = "pats lower (enumerate 0 ks)"
  note least = least_first_keyword [of lower ks "text"]
  show ?thesis
  proof (cases "newContentModerationKeywordMatcher lower ks")
    case None
    with no_matcher_no_keyword [OF assms None] least show ?thesis by (simp add: Match_def flip: least)
  next
    case (Some m)
    from new_matcher_automaton [OF assms Some] obtain S where a: "automaton m S ?Q" "kwords m = ks" "ks \<noteq> []" by blast
    note d = automatonD [OF a(1)]
    have "at S [] 0" using d(1-3) by (auto simp: at_def)
    from scan_spec [OF a(1) this finite.emptyI, of "lower text"]
    have "scan m 0 None (lower text) = lst (found ?Q [] (lower text))" by simp
    moreover have "\<forall>(i, p)\<in>?Q. p \<noteq> []" using d(8) by blast
    ultimately have scan: "scan m 0 None (lower text) = first_keyword lower ks text"
      by (simp only: found_Contains least)
    show ?thesis
    proof (cases "text = []")
      case True
      have "first_keyword lower ks [] = None"
      proof -
        have l: "lower [] = []" using assms [of "[]"] by (rule iffD2) (rule refl)
        have "\<not> (ks ! i \<noteq> [] \<and> Contains (lower []) (lower (ks ! i)))" for i
          unfolding l using assms [of "ks ! i"] by simp
        then show ?thesis unfolding first_keyword_def find_None_iff by blast
      qed
      with True show ?thesis by (simp add: Match_def Some)
    next
      case False
      show ?thesis
      proof (cases "first_keyword lower ks text")
        case None
        then show ?thesis by (simp add: Match_def Some scan)
      next
        case first: (Some b)
        then have "b < length ks" by (auto simp: first_keyword_def find_Some_iff)
        then show ?thesis using False d(2) a(2,3) by (simp add: Match_def Some scan first)
      qed
    qed
  qed
qed

theorem Match_finds_first_keyword_witness:
  "Match ToLower (newContentModerationKeywordMatcher ToLower [''xyz'', ''HERS'', ''she'', '''', ''er'']) ''Ushers'' = (''HERS'', True)"
proof -
  have "first_keyword ToLower [''xyz'', ''HERS'', ''she'', '''', ''er''] ''Ushers'' = Some 1" by code_simp
  with Match_finds_first_keyword [of ToLower "[''xyz'', ''HERS'', ''she'', '''', ''er'']" "''Ushers''"]
  show ?thesis by (simp add: ToLower_def)
qed

end

