(* ===== verification/Ranking.thy ===== *)
theory Ranking
  imports Prelude "HOL-Library.Product_Lexorder" "HOL-Library.Multiset"
begin

text \<open>
  Go's \<open>sort.SliceStable\<close>: the stable order of a slice under a \<open>less\<close> function. A \<open>less\<close> function has to be a strict
  weak order; locale \<open>weak_order\<close> states that contract, and its lemmas say what the first element of the sorted slice is.
\<close>

fun insert_before :: "('a \<Rightarrow> 'a \<Rightarrow> bool) \<Rightarrow> 'a \<Rightarrow> 'a list \<Rightarrow> 'a list" where
  "insert_before before x [] = [x]"
| "insert_before before x (y # ys) = (if before y x then y # insert_before before x ys else x # y # ys)"

fun SliceStable :: "('a \<Rightarrow> 'a \<Rightarrow> bool) \<Rightarrow> 'a list \<Rightarrow> 'a list" where
  "SliceStable before [] = []"
| "SliceStable before (x # xs) = insert_before before x (SliceStable before xs)"

lemma mset_insert_before [simp]: "mset (insert_before before x xs) = add_mset x (mset xs)"
  by (induction xs) auto

lemma set_insert_before [simp]: "set (insert_before before x xs) = insert x (set xs)"
  by (induction xs) auto

lemma mset_SliceStable [simp]: "mset (SliceStable before xs) = mset xs"
  by (induction xs) simp_all

lemma set_SliceStable [simp]: "set (SliceStable before xs) = set xs"
  by (metis mset_SliceStable set_mset_mset)

lemma length_SliceStable [simp]: "length (SliceStable before xs) = length xs"
  by (metis mset_SliceStable size_mset)

lemma SliceStable_Nil_iff [simp]: "SliceStable before xs = [] \<longleftrightarrow> xs = []"
  by (metis length_0_conv length_SliceStable)

locale weak_order =
  fixes before :: "'a \<Rightarrow> 'a \<Rightarrow> bool"
  assumes before_irrefl: "\<not> before x x"
    and before_trans: "before x y \<Longrightarrow> before y z \<Longrightarrow> before x z"
    and before_split: "before x z \<Longrightarrow> before x y \<or> before y z"
begin

definition ordered :: "'a list \<Rightarrow> bool" where
  "ordered xs = sorted_wrt (\<lambda>x y. \<not> before y x) xs"

lemma ordered_insert: "ordered xs \<Longrightarrow> ordered (insert_before before x xs)"
  unfolding ordered_def
proof (induction xs)
  case (Cons y ys)
  show ?case
  proof (cases "before y x")
    case True
    then show ?thesis using Cons before_irrefl before_trans by auto
  next
    case False
    then show ?thesis using Cons.prems before_split by auto
  qed
qed simp

lemma ordered_SliceStable: "ordered (SliceStable before xs)"
  by (induction xs) (simp_all add: ordered_insert, simp add: ordered_def)

lemma first_is_best:
  assumes "SliceStable before xs = x # ys"
  shows "x \<in> set xs" "\<And>y. y \<in> set xs \<Longrightarrow> \<not> before y x"
proof -
  have s: "set xs = insert x (set ys)" by (metis assms list.simps(15) set_SliceStable)
  then show "x \<in> set xs" by simp
  have "ordered (x # ys)" using ordered_SliceStable [of xs] assms by simp
  then show "\<And>y. y \<in> set xs \<Longrightarrow> \<not> before y x" using s before_irrefl by (auto simp: ordered_def)
qed

lemma sorted_unchanged: "ordered xs \<Longrightarrow> SliceStable before xs = xs"
proof (induction xs)
  case (Cons x xs)
  then have "SliceStable before xs = xs" by (simp add: ordered_def)
  with Cons.prems show ?case by (cases xs) (simp_all add: ordered_def)
qed simp

end

text \<open>Comparing keys in a linear order is a strict weak order.\<close>

lemma key_weak_order:
  fixes k :: "'a \<Rightarrow> 'b::linorder"
  shows "(\<And>x y. before x y \<longleftrightarrow> k x < k y) \<Longrightarrow> weak_order before"
  by unfold_locales (auto dest: less_trans)

end
