(* ===== verification/CompositeRouting.thy ===== *)
theory CompositeRouting
  imports Ranking
begin

text \<open>
  Composite groups (\<open>service/composite_model_route.go\<close>, \<open>service/composite_route_resolver.go\<close>,
  \<open>service/composite_platform.go\<close>, the route operations of \<open>service/admin_group.go\<close> and
  \<open>repository/composite_model_route_repo.go\<close>). A composite group has no upstream of its own: administrators keep a table of
  routes from public models to platforms, a request is resolved by the best matching route or by the built-in detector, and the
  request's context carries the decision to the rest of the gateway.
\<close>

section \<open>Platforms and names\<close>

definition PlatformAnthropic :: string where "PlatformAnthropic = ''anthropic''"
definition PlatformOpenAI :: string where "PlatformOpenAI = ''openai''"
definition PlatformGemini :: string where "PlatformGemini = ''gemini''"
definition PlatformAntigravity :: string where "PlatformAntigravity = ''antigravity''"
definition PlatformGrok :: string where "PlatformGrok = ''grok''"
definition PlatformComposite :: string where "PlatformComposite = ''composite''"

lemmas platform_defs = PlatformAnthropic_def PlatformOpenAI_def PlatformGemini_def PlatformAntigravity_def PlatformGrok_def
  PlatformComposite_def

definition isConcreteRequestPlatform :: "string \<Rightarrow> bool" where
  "isConcreteRequestPlatform p = (p \<in> {PlatformAnthropic, PlatformOpenAI, PlatformGemini, PlatformAntigravity, PlatformGrok})"

definition CompositeRouteMatchExact :: string where "CompositeRouteMatchExact = ''exact''"
definition CompositeRouteMatchPrefix :: string where "CompositeRouteMatchPrefix = ''prefix''"
definition CompositeRouteEndpointAny :: string where "CompositeRouteEndpointAny = ''any''"
definition CompositeRouteSourceExplicit :: string where "CompositeRouteSourceExplicit = ''route''"
definition CompositeRouteSourceDetector :: string where "CompositeRouteSourceDetector = ''detector''"

definition concrete_endpoints :: "string list" where
  "concrete_endpoints = [''messages'', ''count_tokens'', ''responses'', ''chat_completions'', ''embeddings'', ''images'', ''gemini'']"

definition normalizeCompositeRouteEndpoint :: "string \<Rightarrow> string" where
  "normalizeCompositeRouteEndpoint s =
     (let e = ToLower (TrimSpace s) in
      if e = [] then CompositeRouteEndpointAny else if e \<in> set concrete_endpoints then e else CompositeRouteEndpointAny)"

definition normalizeCompositeRouteMatchType :: "string \<Rightarrow> string" where
  "normalizeCompositeRouteMatchType s =
     (if ToLower (TrimSpace s) = CompositeRouteMatchPrefix then CompositeRouteMatchPrefix else CompositeRouteMatchExact)"

section \<open>Routes\<close>

record CompositeModelRoute =
  ID :: ident
  GroupID :: ident
  PublicModel :: string
  MatchType :: string
  TargetPlatform :: string
  UpstreamModel :: string
  Endpoint :: string
  Priority :: int
  Enabled :: bool
  Notes :: string

record CompositeRouteInput =
  in_PublicModel :: string
  in_MatchType :: string
  in_TargetPlatform :: string
  in_UpstreamModel :: string
  in_Endpoint :: string
  in_Priority :: int
  in_Enabled :: bool
  in_Notes :: string

definition normalizeCompositeRouteInput :: "CompositeRouteInput \<Rightarrow> CompositeRouteInput" where
  "normalizeCompositeRouteInput i =
     (let i = i\<lparr>in_PublicModel := TrimSpace (in_PublicModel i), in_MatchType := normalizeCompositeRouteMatchType (in_MatchType i),
            in_TargetPlatform := TrimSpace (in_TargetPlatform i), in_UpstreamModel := TrimSpace (in_UpstreamModel i),
            in_Endpoint := normalizeCompositeRouteEndpoint (in_Endpoint i)\<rparr>;
          i = (if in_UpstreamModel i = [] \<and> in_MatchType i = CompositeRouteMatchExact
               then i\<lparr>in_UpstreamModel := in_PublicModel i\<rparr> else i)
      in i\<lparr>in_Notes := TrimSpace (in_Notes i)\<rparr>)"

datatype route_error = ErrCompositeRouteNotFound | ErrCompositeRouteExists | GroupReadFailed | NotCompositeGroup
  | PublicModelRequired | PlatformNotConcrete | RouteDBError

definition compositeRouteFromInput :: "ident \<Rightarrow> CompositeRouteInput \<Rightarrow> route_error + CompositeModelRoute" where
  "compositeRouteFromInput g input =
     (let i = normalizeCompositeRouteInput input in
      if in_PublicModel i = [] then Inl PublicModelRequired
      else if \<not> isConcreteRequestPlatform (in_TargetPlatform i) then Inl PlatformNotConcrete
      else let prio = (if in_Priority i = 0 then 100 else in_Priority i) in
        Inr \<lparr>ID = 0, GroupID = g, PublicModel = in_PublicModel i, MatchType = in_MatchType i, TargetPlatform = in_TargetPlatform i,
              UpstreamModel = in_UpstreamModel i, Endpoint = in_Endpoint i, Priority = prio, Enabled = in_Enabled i,
              Notes = in_Notes i\<rparr>)"

section \<open>The table\<close>

text \<open>
  The rows that are not deleted, and the next id. The unique index covers group, endpoint, match type and public model; the
  check constraints admit the known match types, endpoints and platforms.
\<close>

record route_table =
  rows :: "CompositeModelRoute list"
  next_id :: ident

definition unique_key :: "CompositeModelRoute \<Rightarrow> ident \<times> string \<times> string \<times> string" where
  "unique_key r = (GroupID r, Endpoint r, MatchType r, PublicModel r)"

definition check_constraints :: "CompositeModelRoute \<Rightarrow> bool" where
  "check_constraints r = (MatchType r \<in> {CompositeRouteMatchExact, CompositeRouteMatchPrefix} \<and>
     Endpoint r \<in> insert CompositeRouteEndpointAny (set concrete_endpoints) \<and> isConcreteRequestPlatform (TargetPlatform r))"

text \<open>\<open>ok\<close> is whether the database, with the validators of its client, accepts the statement.\<close>

definition repo_ListByGroup :: "bool \<Rightarrow> ident \<Rightarrow> bool \<Rightarrow> route_table \<Rightarrow> route_error + CompositeModelRoute list" where
  "repo_ListByGroup ok g includeDisabled t =
     (if \<not> ok then Inl RouteDBError
      else Inr (SliceStable (\<lambda>a b. Priority a < Priority b \<or> Priority a = Priority b \<and> ID a < ID b)
             (filter (\<lambda>r. GroupID r = g \<and> (includeDisabled \<or> Enabled r)) (rows t))))"

definition repo_Create :: "bool \<Rightarrow> CompositeModelRoute \<Rightarrow> route_table \<Rightarrow> (route_error + CompositeModelRoute) \<times> route_table" where
  "repo_Create ok r t =
     (if \<not> ok \<or> \<not> check_constraints r then (Inl RouteDBError, t)
      else if unique_key r \<in> unique_key ` set (rows t) then (Inl ErrCompositeRouteExists, t)
      else let r = r\<lparr>ID := next_id t\<rparr> in (Inr r, \<lparr>rows = rows t @ [r], next_id = next_id t + 1\<rparr>))"

definition repo_Update :: "bool \<Rightarrow> CompositeModelRoute \<Rightarrow> route_table \<Rightarrow> (route_error + CompositeModelRoute) \<times> route_table" where
  "repo_Update ok r t =
     (if \<not> ok \<or> \<not> check_constraints r then (Inl RouteDBError, t)
      else case first_match (\<lambda>x. ID x = ID r) (rows t) of
        None \<Rightarrow> (Inl ErrCompositeRouteNotFound, t)
      | Some old \<Rightarrow>
          let r = r\<lparr>GroupID := GroupID old\<rparr> in
          if \<exists>x\<in>set (rows t). ID x \<noteq> ID r \<and> unique_key x = unique_key r then (Inl ErrCompositeRouteExists, t)
          else (Inr r, t\<lparr>rows := map (\<lambda>x. if ID x = ID r then r else x) (rows t)\<rparr>))"

definition repo_Delete :: "bool \<Rightarrow> ident \<Rightarrow> route_table \<Rightarrow> (route_error + unit) \<times> route_table" where
  "repo_Delete ok i t =
     (if \<not> ok then (Inl RouteDBError, t)
      else if i \<notin> ID ` set (rows t) then (Inl ErrCompositeRouteNotFound, t)
      else (Inr (), t\<lparr>rows := filter (\<lambda>x. ID x \<noteq> i) (rows t)\<rparr>))"

definition repo_DeleteByGroup :: "bool \<Rightarrow> ident \<Rightarrow> route_table \<Rightarrow> (route_error + unit) \<times> route_table" where
  "repo_DeleteByGroup ok g t =
     (if \<not> ok then (Inl RouteDBError, t) else (Inr (), t\<lparr>rows := filter (\<lambda>x. GroupID x \<noteq> g) (rows t)\<rparr>))"

section \<open>Operations of administrators\<close>

text \<open>The answers an operation gets: the platform of the group, and whether the list and the write succeed.\<close>

record route_env =
  group_platform :: "string option"
  list_ok :: bool
  write_ok :: bool

definition requireCompositeGroup :: "route_env \<Rightarrow> route_error option" where
  "requireCompositeGroup e =
     (case group_platform e of None \<Rightarrow> Some GroupReadFailed | Some p \<Rightarrow> if p = PlatformComposite then None else Some NotCompositeGroup)"

definition ListCompositeRoutes :: "route_env \<Rightarrow> ident \<Rightarrow> route_table \<Rightarrow> route_error + CompositeModelRoute list" where
  "ListCompositeRoutes e g t =
     (case requireCompositeGroup e of Some x \<Rightarrow> Inl x | None \<Rightarrow> repo_ListByGroup (list_ok e) g True t)"

definition compositeRouteBelongsToGroup :: "route_env \<Rightarrow> ident \<Rightarrow> ident \<Rightarrow> route_table \<Rightarrow> route_error + bool" where
  "compositeRouteBelongsToGroup e g i t =
     (case repo_ListByGroup (list_ok e) g True t of Inl x \<Rightarrow> Inl x | Inr rs \<Rightarrow> Inr (list_ex (\<lambda>r. ID r = i) rs))"

definition CreateCompositeRoute ::
  "route_env \<Rightarrow> ident \<Rightarrow> CompositeRouteInput \<Rightarrow> route_table \<Rightarrow> (route_error + CompositeModelRoute) \<times> route_table" where
  "CreateCompositeRoute e g input t =
     (case requireCompositeGroup e of Some x \<Rightarrow> (Inl x, t)
      | None \<Rightarrow> (case compositeRouteFromInput g input of Inl x \<Rightarrow> (Inl x, t) | Inr r \<Rightarrow> repo_Create (write_ok e) r t))"

definition UpdateCompositeRoute ::
  "route_env \<Rightarrow> ident \<Rightarrow> ident \<Rightarrow> CompositeRouteInput \<Rightarrow> route_table \<Rightarrow> (route_error + CompositeModelRoute) \<times> route_table" where
  "UpdateCompositeRoute e g i input t =
     (case requireCompositeGroup e of Some x \<Rightarrow> (Inl x, t)
      | None \<Rightarrow>
          (case compositeRouteBelongsToGroup e g i t of
             Inl x \<Rightarrow> (Inl x, t)
           | Inr False \<Rightarrow> (Inl ErrCompositeRouteNotFound, t)
           | Inr True \<Rightarrow>
               (case compositeRouteFromInput g input of Inl x \<Rightarrow> (Inl x, t) | Inr r \<Rightarrow> repo_Update (write_ok e) (r\<lparr>ID := i\<rparr>) t)))"

definition DeleteCompositeRoute :: "route_env \<Rightarrow> ident \<Rightarrow> ident \<Rightarrow> route_table \<Rightarrow> (route_error + unit) \<times> route_table" where
  "DeleteCompositeRoute e g i t =
     (case requireCompositeGroup e of Some x \<Rightarrow> (Inl x, t)
      | None \<Rightarrow>
          (case compositeRouteBelongsToGroup e g i t of
             Inl x \<Rightarrow> (Inl x, t)
           | Inr False \<Rightarrow> (Inl ErrCompositeRouteNotFound, t)
           | Inr True \<Rightarrow> repo_Delete (write_ok e) i t))"

section \<open>The built-in detector\<close>

definition TrimPrefix :: "string \<Rightarrow> string \<Rightarrow> string" where
  "TrimPrefix s p = (if HasPrefix s p then drop (length p) s else s)"

definition hasOpenAISeriesPrefix :: "string \<Rightarrow> bool" where
  "hasOpenAISeriesPrefix m = list_ex (\<lambda>p. m = p \<or> HasPrefix m (p @ ''-'')) [''o1'', ''o3'', ''o4'', ''o5'']"

definition provider_platform :: "string \<Rightarrow> string option" where
  "provider_platform p =
     (if p \<in> {''anthropic'', ''claude''} then Some PlatformAnthropic
      else if p \<in> {''openai'', ''chatgpt''} then Some PlatformOpenAI
      else if p \<in> {''google'', ''google-ai-studio'', ''gemini''} then Some PlatformGemini
      else if p \<in> {''xai'', ''x-ai'', ''grok''} then Some PlatformGrok
      else None)"

definition family_platform :: "string \<Rightarrow> string option" where
  "family_platform m =
     (if list_ex (HasPrefix m) [''anthropic.claude-'', ''claude-''] then Some PlatformAnthropic
      else if list_ex (HasPrefix m) [''gpt-'', ''chatgpt-'', ''codex-'', ''text-embedding-'', ''text-moderation-'', ''omni-moderation-'',
          ''dall-e-'', ''gpt-image-'', ''tts-'', ''whisper-''] \<or> hasOpenAISeriesPrefix m then Some PlatformOpenAI
      else if list_ex (HasPrefix m) [''gemini-'', ''learnlm-''] then Some PlatformGemini
      else if m = ''grok'' \<or> HasPrefix m ''grok-'' then Some PlatformGrok
      else None)"

definition DetectModelPlatform :: "string \<Rightarrow> string option" where
  "DetectModelPlatform model =
     (let n = ToLower (TrimSpace model) in
      if n = [] then None
      else let n = TrimPrefix n ''models/'';
               slash = length (takeWhile (\<lambda>c. c \<noteq> CHR ''/'') n)
        in if slash < length n \<and> 0 < slash
           then let provider = TrimSpace (take slash n); rest = TrimSpace (drop (slash + 1) n) in
             case provider_platform provider of
               Some p \<Rightarrow> Some p
             | None \<Rightarrow> family_platform (if rest \<noteq> [] then TrimPrefix rest ''models/'' else n)
           else family_platform n)"

section \<open>Resolution\<close>

record CompositeRouteDecision =
  Matched :: bool
  Source :: string
  d_GroupID :: ident
  d_PublicModel :: string
  d_TargetPlatform :: string
  d_UpstreamModel :: string
  d_Endpoint :: string
  Route :: "CompositeModelRoute option"
  Reason :: string

definition no_decision :: CompositeRouteDecision where
  "no_decision = \<lparr>Matched = False, Source = [], d_GroupID = 0, d_PublicModel = [], d_TargetPlatform = [], d_UpstreamModel = [],
     d_Endpoint = [], Route = None, Reason = []\<rparr>"

record candidate =
  c_route :: CompositeModelRoute
  matchStrength :: int
  endpointWeight :: int
  prefixLen :: int

definition route_candidate :: "string \<Rightarrow> string \<Rightarrow> CompositeModelRoute \<Rightarrow> candidate option" where
  "route_candidate model endpoint r =
     (let r = r\<lparr>Endpoint := normalizeCompositeRouteEndpoint (Endpoint r)\<rparr> in
      if Endpoint r \<noteq> endpoint \<and> Endpoint r \<noteq> CompositeRouteEndpointAny then None
      else let r = r\<lparr>MatchType := normalizeCompositeRouteMatchType (MatchType r)\<rparr>; p = TrimSpace (PublicModel r) in
        if p = [] then None
        else let c = (\<lambda>strength. Some \<lparr>c_route = r, matchStrength = strength, endpointWeight = (if Endpoint r = endpoint then 1 else 0),
                 prefixLen = int (length p)\<rparr>)
          in if MatchType r = CompositeRouteMatchExact then (if p \<noteq> model then None else c 2)
             else if MatchType r = CompositeRouteMatchPrefix then (if \<not> HasPrefix model p then None else c 1)
             else None)"

definition candidate_before :: "candidate \<Rightarrow> candidate \<Rightarrow> bool" where
  "candidate_before a b =
     (if matchStrength a \<noteq> matchStrength b then matchStrength b < matchStrength a
      else if endpointWeight a \<noteq> endpointWeight b then endpointWeight b < endpointWeight a
      else if prefixLen a \<noteq> prefixLen b then prefixLen b < prefixLen a
      else if Priority (c_route a) \<noteq> Priority (c_route b) then Priority (c_route a) < Priority (c_route b)
      else ID (c_route a) < ID (c_route b))"

definition matchCompositeRoute :: "CompositeModelRoute list \<Rightarrow> string \<Rightarrow> string \<Rightarrow> CompositeModelRoute option" where
  "matchCompositeRoute routes model endpoint =
     (case SliceStable candidate_before (List.map_filter (route_candidate model endpoint) routes) of
        [] \<Rightarrow> None | c # cs \<Rightarrow> Some (c_route c))"

text \<open>\<open>Resolve\<close>; \<open>ok\<close> is whether the list of routes can be read.\<close>

definition Resolve :: "bool \<Rightarrow> ident \<Rightarrow> string \<Rightarrow> string \<Rightarrow> route_table \<Rightarrow> route_error + CompositeRouteDecision" where
  "Resolve ok g model endpoint t =
     (let model = TrimSpace model; endpoint = normalizeCompositeRouteEndpoint endpoint;
          decision = no_decision\<lparr>d_GroupID := g, d_PublicModel := model, d_Endpoint := endpoint\<rparr> in
      if model = [] then Inr (decision\<lparr>Reason := ''model is required''\<rparr>)
      else case (if 0 < g then map_sum id (\<lambda>rs. matchCompositeRoute rs model endpoint) (repo_ListByGroup ok g False t) else Inr None) of
        Inl err \<Rightarrow> Inl err
      | Inr (Some r) \<Rightarrow>
          let up = TrimSpace (UpstreamModel r) in
          Inr (decision\<lparr>Matched := True, Source := CompositeRouteSourceExplicit, d_TargetPlatform := TargetPlatform r,
                 d_UpstreamModel := (if up = [] then model else up), Route := Some r\<rparr>)
      | Inr None \<Rightarrow>
          (case DetectModelPlatform model of
             Some p \<Rightarrow> Inr (decision\<lparr>Matched := True, Source := CompositeRouteSourceDetector, d_TargetPlatform := p,
                        d_UpstreamModel := model\<rparr>)
           | None \<Rightarrow> Inr (decision\<lparr>Reason := ''no explicit route or built-in detector match''\<rparr>)))"

definition PreviewCompositeRoute :: "route_env \<Rightarrow> ident \<Rightarrow> string \<Rightarrow> string \<Rightarrow> route_table \<Rightarrow> route_error + CompositeRouteDecision" where
  "PreviewCompositeRoute e g model endpoint t =
     (case requireCompositeGroup e of Some x \<Rightarrow> Inl x | None \<Rightarrow> Resolve (list_ok e) g model endpoint t)"

section \<open>The decision in the request context\<close>

record request_context =
  ResolvedTargetPlatform :: "string option"
  ResolvedUpstreamModel :: "string option"
  RequestedPublicModel :: "string option"
  CompositeRouteSource :: "string option"

definition context_value :: "string option \<Rightarrow> string option" where
  "context_value v = (case v of None \<Rightarrow> None | Some s \<Rightarrow> if TrimSpace s = [] then None else Some (TrimSpace s))"

definition WithResolvedTargetPlatform :: "string \<Rightarrow> request_context \<Rightarrow> request_context" where
  "WithResolvedTargetPlatform p ctx = (if TrimSpace p = [] then ctx else ctx\<lparr>ResolvedTargetPlatform := Some (TrimSpace p)\<rparr>)"

definition ResolvedTargetPlatformFromContext :: "request_context \<Rightarrow> string option" where
  "ResolvedTargetPlatformFromContext ctx = context_value (ResolvedTargetPlatform ctx)"

definition ResolvedUpstreamModelFromContext :: "request_context \<Rightarrow> string option" where
  "ResolvedUpstreamModelFromContext ctx = context_value (ResolvedUpstreamModel ctx)"

definition RequestedPublicModelFromContext :: "request_context \<Rightarrow> string option" where
  "RequestedPublicModelFromContext ctx = context_value (RequestedPublicModel ctx)"

definition CompositeRouteSourceFromContext :: "request_context \<Rightarrow> string option" where
  "CompositeRouteSourceFromContext ctx = context_value (CompositeRouteSource ctx)"

definition WithCompositeRouteDecision :: "CompositeRouteDecision \<Rightarrow> request_context \<Rightarrow> request_context" where
  "WithCompositeRouteDecision d ctx =
     (if \<not> Matched d then ctx
      else let ctx = WithResolvedTargetPlatform (d_TargetPlatform d) ctx;
               m = TrimSpace (d_UpstreamModel d);
               ctx = (if m \<noteq> [] then ctx\<lparr>ResolvedUpstreamModel := Some m\<rparr> else ctx);
               m = TrimSpace (d_PublicModel d);
               ctx = (if m \<noteq> [] then ctx\<lparr>RequestedPublicModel := Some m\<rparr> else ctx);
               s = TrimSpace (Source d)
           in if s \<noteq> [] then ctx\<lparr>CompositeRouteSource := Some s\<rparr> else ctx)"

text \<open>The group is its id and platform, or absent; the answer is the decision, if the request has one.\<close>

definition resolveCompositeRouteDecision ::
  "bool \<Rightarrow> request_context \<Rightarrow> (ident \<times> string) option \<Rightarrow> string \<Rightarrow> string \<Rightarrow> route_table \<Rightarrow> route_error + CompositeRouteDecision option" where
  "resolveCompositeRouteDecision ok ctx grp model endpoint t =
     (case grp of None \<Rightarrow> Inr None
      | Some (g, platform) \<Rightarrow>
          if platform \<noteq> PlatformComposite then Inr None
          else case ResolvedTargetPlatformFromContext ctx of
            Some p \<Rightarrow>
              Inr (Some (no_decision\<lparr>Matched := True,
                Source := (case CompositeRouteSourceFromContext ctx of Some s \<Rightarrow> s | None \<Rightarrow> CompositeRouteSourceDetector),
                d_GroupID := g, d_PublicModel := model, d_TargetPlatform := p,
                d_UpstreamModel := (case ResolvedUpstreamModelFromContext ctx of Some m \<Rightarrow> m | None \<Rightarrow> model),
                d_Endpoint := normalizeCompositeRouteEndpoint endpoint\<rparr>))
          | None \<Rightarrow>
              (case Resolve ok g model endpoint t of
                 Inl err \<Rightarrow> Inl err | Inr d \<Rightarrow> Inr (if Matched d then Some d else None)))"

section \<open>Well-formed tables\<close>

definition well_formed_route :: "CompositeModelRoute \<Rightarrow> bool" where
  "well_formed_route r = (PublicModel r \<noteq> [] \<and> TrimSpace (PublicModel r) = PublicModel r \<and>
     MatchType r \<in> {CompositeRouteMatchExact, CompositeRouteMatchPrefix} \<and> isConcreteRequestPlatform (TargetPlatform r) \<and>
     TrimSpace (UpstreamModel r) = UpstreamModel r \<and> (MatchType r = CompositeRouteMatchExact \<longrightarrow> UpstreamModel r \<noteq> []) \<and>
     Endpoint r \<in> insert CompositeRouteEndpointAny (set concrete_endpoints) \<and> Priority r \<noteq> 0)"

definition well_formed_table :: "route_table \<Rightarrow> bool" where
  "well_formed_table t = ((\<forall>r\<in>set (rows t). well_formed_route r \<and> ID r < next_id t) \<and> distinct (map ID (rows t)) \<and>
     distinct (map unique_key (rows t)))"

text \<open>What administrators do to the table, and the deletion of a group.\<close>

datatype route_op =
    CreateOp route_env ident CompositeRouteInput
  | UpdateOp route_env ident ident CompositeRouteInput
  | DeleteOp route_env ident ident
  | DeleteGroupOp bool ident

fun table_step :: "route_op \<Rightarrow> route_table \<Rightarrow> route_table" where
  "table_step (CreateOp e g i) t = snd (CreateCompositeRoute e g i t)"
| "table_step (UpdateOp e g r i) t = snd (UpdateCompositeRoute e g r i t)"
| "table_step (DeleteOp e g r) t = snd (DeleteCompositeRoute e g r t)"
| "table_step (DeleteGroupOp ok g) t = snd (repo_DeleteByGroup ok g t)"

definition table_after :: "route_op list \<Rightarrow> route_table" where
  "table_after ops = fold table_step ops \<lparr>rows = [], next_id = 1\<rparr>"

lemma endpoint_known: "normalizeCompositeRouteEndpoint s \<in> insert CompositeRouteEndpointAny (set concrete_endpoints)"
  by (simp add: normalizeCompositeRouteEndpoint_def Let_def)

lemma match_type_known: "normalizeCompositeRouteMatchType s \<in> {CompositeRouteMatchExact, CompositeRouteMatchPrefix}"
  by (simp add: normalizeCompositeRouteMatchType_def)

lemma exact_not_prefix [simp]: "CompositeRouteMatchExact \<noteq> CompositeRouteMatchPrefix" "CompositeRouteMatchPrefix \<noteq> CompositeRouteMatchExact"
  by (simp_all add: CompositeRouteMatchExact_def CompositeRouteMatchPrefix_def)

lemma input_well_formed:
  assumes "compositeRouteFromInput g input = Inr r"
  shows "well_formed_route r \<and> GroupID r = g"
  using assms endpoint_known [of "in_Endpoint input"] match_type_known [of "in_MatchType input"]
  by (auto simp: compositeRouteFromInput_def normalizeCompositeRouteInput_def Let_def well_formed_route_def split: if_splits)

lemma well_formed_id [simp]: "well_formed_route (r\<lparr>ID := i\<rparr>) = well_formed_route r" "well_formed_route (r\<lparr>GroupID := g\<rparr>) = well_formed_route r"
  by (simp_all add: well_formed_route_def)

lemma unique_key_id [simp]: "unique_key (r\<lparr>ID := i\<rparr>) = unique_key r"
  by (simp add: unique_key_def)

lemma create_well_formed:
  assumes "well_formed_table t" "well_formed_route r"
  shows "well_formed_table (snd (repo_Create ok r t))"
  using assms by (fastforce simp: repo_Create_def well_formed_table_def Let_def image_iff)

lemma distinct_map_filter: "distinct (map f xs) \<Longrightarrow> distinct (map f (filter P xs))"
  by (induction xs) auto

lemma filter_well_formed: "well_formed_table t \<Longrightarrow> well_formed_table (t\<lparr>rows := filter P (rows t)\<rparr>)"
  by (simp add: well_formed_table_def distinct_map_filter)

lemma distinct_map_replace:
  assumes "distinct (map f xs)" "distinct (map k xs)" "\<forall>x\<in>set xs. f x \<noteq> i \<longrightarrow> k x \<noteq> k r"
  shows "distinct (map k (map (\<lambda>x. if f x = i then r else x) xs))"
  using assms by (induction xs) (auto simp: image_iff)

lemma update_well_formed:
  assumes t: "well_formed_table t" and r: "well_formed_route r"
  shows "well_formed_table (snd (repo_Update ok r t))"
proof (cases "first_match (\<lambda>x. ID x = ID r) (rows t)")
  case None
  then show ?thesis using t by (simp add: repo_Update_def)
next
  case (Some old)
  let ?r = "r\<lparr>GroupID := GroupID old\<rparr>"
  let ?rows = "map (\<lambda>x. if ID x = ID r then ?r else x) (rows t)"
  have ids: "map ID ?rows = map ID (rows t)" by simp
  have "distinct (map unique_key ?rows)" if "\<forall>x\<in>set (rows t). ID x \<noteq> ID r \<longrightarrow> unique_key x \<noteq> unique_key ?r"
    using t that by (intro distinct_map_replace) (auto simp: well_formed_table_def)
  moreover have "ID r < next_id t" using first_match_SomeD [OF Some] t by (auto simp: well_formed_table_def)
  moreover have "\<forall>x\<in>set ?rows. well_formed_route x \<and> ID x < next_id t" using t r calculation(2) by (auto simp: well_formed_table_def)
  ultimately show ?thesis using t Some ids by (auto simp: repo_Update_def Let_def well_formed_table_def simp del: map_map)
qed

lemma table_step_well_formed: "well_formed_table t \<Longrightarrow> well_formed_table (table_step op t)"
  using create_well_formed update_well_formed input_well_formed filter_well_formed
  by (cases op) (auto simp: CreateCompositeRoute_def UpdateCompositeRoute_def DeleteCompositeRoute_def repo_Delete_def repo_DeleteByGroup_def
      split: option.splits sum.splits bool.splits)

lemma table_after_well_formed: "well_formed_table (table_after ops)"
proof -
  have "well_formed_table t \<Longrightarrow> well_formed_table (fold table_step ops t)" for t
    by (induction ops arbitrary: t) (simp_all add: table_step_well_formed)
  moreover have "well_formed_table \<lparr>rows = [], next_id = 1\<rparr>" by (simp add: well_formed_table_def)
  ultimately show ?thesis unfolding table_after_def by blast
qed

text \<open>C17. However administrators create, change and delete routes and whatever fails, every route in the table is well typed: a
  trimmed, non-empty public model, a known match type and endpoint, a concrete platform, a priority, and for exact routes an
  upstream model; and no two routes share an id or the same group, endpoint, match type and public model.\<close>
theorem composite_routes_well_typed:
  "(\<forall>r\<in>set (rows (table_after ops)). well_formed_route r) \<and> distinct (map ID (rows (table_after ops))) \<and>
   distinct (map unique_key (rows (table_after ops)))"
  using table_after_well_formed [of ops] by (simp add: well_formed_table_def)

definition composite_env :: route_env where
  "composite_env = \<lparr>group_platform = Some PlatformComposite, list_ok = True, write_ok = True\<rparr>"

definition route_input :: "string \<Rightarrow> string \<Rightarrow> string \<Rightarrow> CompositeRouteInput" where
  "route_input model kind platform = \<lparr>in_PublicModel = model, in_MatchType = kind, in_TargetPlatform = platform, in_UpstreamModel = [],
     in_Endpoint = [], in_Priority = 0, in_Enabled = True, in_Notes = []\<rparr>"

definition sample_ops :: "route_op list" where
  "sample_ops = [CreateOp composite_env 5 (route_input '' deepseek '' ''PREFIX'' ''openai''),
     CreateOp composite_env 5 (route_input ''deepseek-v4'' ''x'' ''grok''), CreateOp composite_env 5 (route_input ''deepseek-v4'' ''exact'' ''gemini''),
     CreateOp composite_env 5 (route_input ''deepseek-v'' ''prefix'' ''gemini''), UpdateOp composite_env 5 1 (route_input ''deepseek'' ''prefix'' ''anthropic'')]"

lemma composite_routes_well_typed_witness:
  "map TargetPlatform (rows (table_after sample_ops)) = [''anthropic'', ''grok'', ''gemini''] \<and>
   list_all well_formed_route (rows (table_after sample_ops))"
proof -
  have "map TargetPlatform (rows (table_after sample_ops)) = [''anthropic'', ''grok'', ''gemini'']" by code_simp
  then show ?thesis using composite_routes_well_typed [of sample_ops] by (simp add: list_all_iff)
qed

section \<open>The best route\<close>

definition candidate_key :: "candidate \<Rightarrow> int \<times> int \<times> int \<times> int \<times> int" where
  "candidate_key c = (- matchStrength c, - endpointWeight c, - prefixLen c, Priority (c_route c), ID (c_route c))"

interpretation routes: weak_order candidate_before
  by (rule key_weak_order [of _ candidate_key]) (auto simp: candidate_before_def candidate_key_def)

text \<open>Which routes apply to a request, and their rank: exact before prefix, the endpoint before any, then the longer model, the
  priority and the id.\<close>

definition route_applies :: "ident \<Rightarrow> string \<Rightarrow> string \<Rightarrow> CompositeModelRoute \<Rightarrow> bool" where
  "route_applies g model endpoint r = (GroupID r = g \<and> Enabled r \<and> (Endpoint r = endpoint \<or> Endpoint r = CompositeRouteEndpointAny) \<and>
     (if MatchType r = CompositeRouteMatchExact then PublicModel r = model else HasPrefix model (PublicModel r)))"

definition route_rank :: "string \<Rightarrow> CompositeModelRoute \<Rightarrow> bool \<times> bool \<times> int \<times> int \<times> ident" where
  "route_rank endpoint r = (MatchType r \<noteq> CompositeRouteMatchExact, Endpoint r \<noteq> endpoint, - int (length (PublicModel r)), Priority r, ID r)"

lemma known_endpoint_normal: "e \<in> insert CompositeRouteEndpointAny (set concrete_endpoints) \<Longrightarrow> normalizeCompositeRouteEndpoint e = e"
  by (auto simp: concrete_endpoints_def CompositeRouteEndpointAny_def) (code_simp+)

lemma known_match_type_normal: "m \<in> {CompositeRouteMatchExact, CompositeRouteMatchPrefix} \<Longrightarrow> normalizeCompositeRouteMatchType m = m"
  by (auto simp: CompositeRouteMatchExact_def CompositeRouteMatchPrefix_def) (code_simp+)

definition as_candidate :: "string \<Rightarrow> CompositeModelRoute \<Rightarrow> candidate" where
  "as_candidate endpoint r = \<lparr>c_route = r, matchStrength = (if MatchType r = CompositeRouteMatchExact then 2 else 1),
     endpointWeight = (if Endpoint r = endpoint then 1 else 0), prefixLen = int (length (PublicModel r))\<rparr>"

lemma well_formed_candidate:
  assumes "well_formed_route r" "Enabled r" "GroupID r = g"
  shows "route_candidate model endpoint r = (if route_applies g model endpoint r then Some (as_candidate endpoint r) else None)"
proof -
  have n: "normalizeCompositeRouteEndpoint (Endpoint r) = Endpoint r" "normalizeCompositeRouteMatchType (MatchType r) = MatchType r"
    using assms(1) known_endpoint_normal known_match_type_normal by (simp_all add: well_formed_route_def)
  then show ?thesis using assms
    by (auto simp: route_candidate_def Let_def route_applies_def as_candidate_def well_formed_route_def)
qed

lemma candidate_rank: "candidate_before (as_candidate e a) (as_candidate e b) \<longleftrightarrow> route_rank e a < route_rank e b"
  by (auto simp: candidate_before_def as_candidate_def route_rank_def)

lemma map_filter_candidates:
  "(\<And>r. r \<in> set rs \<Longrightarrow> f r = (if P r then Some (h r) else None)) \<Longrightarrow> List.map_filter f rs = map h (filter P rs)"
  by (induction rs) (auto simp: List.map_filter_simps)

lemma listed_routes:
  assumes t: "well_formed_table t" and l: "repo_ListByGroup True g False t = Inr rs"
  shows "set rs = {r \<in> set (rows t). GroupID r = g \<and> Enabled r}"
    "matchCompositeRoute rs model endpoint = Some r \<Longrightarrow> route_applies g model endpoint r \<and> r \<in> set (rows t) \<and>
       (\<forall>s\<in>set (rows t). route_applies g model endpoint s \<longrightarrow> \<not> route_rank endpoint s < route_rank endpoint r)"
    "matchCompositeRoute rs model endpoint = None \<Longrightarrow> \<forall>s\<in>set (rows t). \<not> route_applies g model endpoint s"
proof -
  show set: "set rs = {r \<in> set (rows t). GroupID r = g \<and> Enabled r}" using l by (auto simp: repo_ListByGroup_def)
  have "route_candidate model endpoint r = (if route_applies g model endpoint r then Some (as_candidate endpoint r) else None)" if "r \<in> set rs" for r
    using well_formed_candidate [of r g] that t set by (auto simp: well_formed_table_def)
  then have c: "List.map_filter (route_candidate model endpoint) rs = map (as_candidate endpoint) (filter (route_applies g model endpoint) rs)"
    by (rule map_filter_candidates)
  have all: "s \<in> set rs \<longleftrightarrow> s \<in> set (rows t)" if "route_applies g model endpoint s" for s
    using that set by (auto simp: route_applies_def)
  show "matchCompositeRoute rs model endpoint = Some r \<Longrightarrow> route_applies g model endpoint r \<and> r \<in> set (rows t) \<and>
       (\<forall>s\<in>set (rows t). route_applies g model endpoint s \<longrightarrow> \<not> route_rank endpoint s < route_rank endpoint r)"
  proof -
    assume "matchCompositeRoute rs model endpoint = Some r"
    then obtain c cs where s: "SliceStable candidate_before (map (as_candidate endpoint) (filter (route_applies g model endpoint) rs)) = c # cs"
      "r = c_route c" by (auto simp: matchCompositeRoute_def \<open>List.map_filter _ _ = _\<close> split: list.splits)
    from routes.first_is_best [OF s(1)] obtain x where x: "x \<in> set rs" "route_applies g model endpoint x" "c = as_candidate endpoint x" by auto
    have "\<not> candidate_before (as_candidate endpoint s) c" if "s \<in> set rs" "route_applies g model endpoint s" for s
      using routes.first_is_best(2) [OF s(1)] that by simp
    then show ?thesis using x s(2) all candidate_rank by (auto simp: as_candidate_def)
  qed
  show "matchCompositeRoute rs model endpoint = None \<Longrightarrow> \<forall>s\<in>set (rows t). \<not> route_applies g model endpoint s"
    using c all by (auto simp: matchCompositeRoute_def filter_empty_conv split: list.splits)
qed

text \<open>C13. The route that resolves a request is the best one: of the enabled routes of the group that apply to the endpoint and the
  model there is exactly one that ranks before all others, whatever the order of the table, and \<open>Resolve\<close> answers with its platform
  and its upstream model, or the requested model where it has none. Without such a route the built-in detector decides.\<close>
theorem Resolve_best_route:
  fixes ops g model endpoint
  defines "t \<equiv> table_after ops" and "m \<equiv> TrimSpace model" and "e \<equiv> normalizeCompositeRouteEndpoint endpoint"
  defines "applicable \<equiv> {r \<in> set (rows t). route_applies g m e r}"
  assumes m: "m \<noteq> []" and g: "0 < g"
  shows "if applicable = {}
    then Resolve True g model endpoint t = Inr (case DetectModelPlatform m of
        Some p \<Rightarrow> no_decision\<lparr>d_GroupID := g, d_PublicModel := m, d_Endpoint := e, Matched := True, Source := CompositeRouteSourceDetector,
          d_TargetPlatform := p, d_UpstreamModel := m\<rparr>
      | None \<Rightarrow> no_decision\<lparr>d_GroupID := g, d_PublicModel := m, d_Endpoint := e, Reason := ''no explicit route or built-in detector match''\<rparr>)
    else \<exists>r\<in>applicable. (\<forall>s\<in>applicable. s \<noteq> r \<longrightarrow> route_rank e r < route_rank e s) \<and>
      Resolve True g model endpoint t = Inr (no_decision\<lparr>d_GroupID := g, d_PublicModel := m, d_Endpoint := e, Matched := True,
        Source := CompositeRouteSourceExplicit, d_TargetPlatform := TargetPlatform r,
        d_UpstreamModel := (if UpstreamModel r = [] then m else UpstreamModel r), Route := Some r\<rparr>)"
proof -
  have t: "well_formed_table t" unfolding t_def by (rule table_after_well_formed)
  obtain rs where rs: "repo_ListByGroup True g False t = Inr rs" by (simp add: repo_ListByGroup_def)
  note l = listed_routes(2,3) [OF t rs, of m e]
  have R: "Resolve True g model endpoint t = (case matchCompositeRoute rs m e of
      Some r \<Rightarrow> Inr (no_decision\<lparr>d_GroupID := g, d_PublicModel := m, d_Endpoint := e, Matched := True, Source := CompositeRouteSourceExplicit,
         d_TargetPlatform := TargetPlatform r,
         d_UpstreamModel := (if TrimSpace (UpstreamModel r) = [] then m else TrimSpace (UpstreamModel r)), Route := Some r\<rparr>)
    | None \<Rightarrow> (case DetectModelPlatform m of
        Some p \<Rightarrow> Inr (no_decision\<lparr>d_GroupID := g, d_PublicModel := m, d_Endpoint := e, Matched := True, Source := CompositeRouteSourceDetector,
          d_TargetPlatform := p, d_UpstreamModel := m\<rparr>)
      | None \<Rightarrow> Inr (no_decision\<lparr>d_GroupID := g, d_PublicModel := m, d_Endpoint := e, Reason := ''no explicit route or built-in detector match''\<rparr>)))"
    using m g rs by (simp add: Resolve_def m_def [symmetric] e_def [symmetric] Let_def split: option.split)
  show ?thesis
  proof (cases "matchCompositeRoute rs m e")
    case None
    then have "applicable = {}" using l(2) by (auto simp: applicable_def)
    then show ?thesis using R None by (simp split: option.split)
  next
    case (Some r)
    from l(1) [OF Some] have r: "r \<in> applicable" and best: "\<forall>s\<in>applicable. \<not> route_rank e s < route_rank e r"
      by (auto simp: applicable_def)
    have "route_rank e r < route_rank e s" if "s \<in> applicable" "s \<noteq> r" for s
    proof -
      have "ID s \<noteq> ID r" using t that r by (auto simp: applicable_def well_formed_table_def distinct_map inj_on_def)
      then have "route_rank e s \<noteq> route_rank e r" by (simp add: route_rank_def)
      then show ?thesis using best that(1) by (metis linorder_neqE)
    qed
    moreover have "TrimSpace (UpstreamModel r) = UpstreamModel r"
      using r t by (auto simp: applicable_def well_formed_table_def well_formed_route_def)
    ultimately show ?thesis using R Some r by auto
  qed
qed

text \<open>Of a prefix route and an exact route with the same model the exact one is taken, for a longer model the prefix route with the
  requested model.\<close>
lemma Resolve_best_route_witness:
  "\<exists>r. Resolve True 5 ''deepseek-v4'' ''messages'' (table_after sample_ops) = Inr (no_decision\<lparr>d_GroupID := 5, d_PublicModel := ''deepseek-v4'',
     d_Endpoint := ''messages'', Matched := True, Source := ''route'', d_TargetPlatform := ''grok'', d_UpstreamModel := ''deepseek-v4'', Route := Some r\<rparr>)"
proof -
  have t: "TrimSpace ''deepseek-v4'' = ''deepseek-v4''" "normalizeCompositeRouteEndpoint ''messages'' = ''messages''" by code_simp+
  let ?A = "{r \<in> set (rows (table_after sample_ops)). route_applies 5 ''deepseek-v4'' ''messages'' r}"
  have "map (\<lambda>r. (ID r, MatchType r, TargetPlatform r, UpstreamModel r)) (filter (route_applies 5 ''deepseek-v4'' ''messages'') (rows (table_after sample_ops))) =
      [(1, ''prefix'', ''anthropic'', ''''), (2, ''exact'', ''grok'', ''deepseek-v4''), (3, ''prefix'', ''gemini'', '''')]" by code_simp
  then obtain a b c where abc: "filter (route_applies 5 ''deepseek-v4'' ''messages'') (rows (table_after sample_ops)) = [a, b, c]"
    "MatchType a = ''prefix''" "MatchType b = ''exact''" "MatchType c = ''prefix''" "TargetPlatform b = ''grok''" "UpstreamModel b = ''deepseek-v4''"
    by (auto simp: map_eq_Cons_conv)
  then have A: "?A = {a, b, c}" unfolding set_filter [symmetric] abc(1) by simp
  have "b \<noteq> a" "b \<noteq> c" using abc(2-4) by auto
  moreover have "\<not> route_rank ''messages'' a < route_rank ''messages'' b" "\<not> route_rank ''messages'' c < route_rank ''messages'' b"
    using abc(2-4) by (simp_all add: route_rank_def CompositeRouteMatchExact_def)
  ultimately show ?thesis
    using Resolve_best_route [of "''deepseek-v4''" 5 sample_ops "''messages''"] abc(5,6)
    unfolding t A by (auto simp: CompositeRouteSourceExplicit_def)
qed

section \<open>The decision comes back\<close>

lemma family_concrete: "family_platform m = Some p \<Longrightarrow> isConcreteRequestPlatform p"
  by (auto simp: family_platform_def isConcreteRequestPlatform_def split: if_splits)

lemma provider_concrete: "provider_platform m = Some p \<Longrightarrow> isConcreteRequestPlatform p"
  by (auto simp: provider_platform_def isConcreteRequestPlatform_def split: if_splits)

lemma detector_concrete: "DetectModelPlatform m = Some p \<Longrightarrow> isConcreteRequestPlatform p"
  using family_concrete provider_concrete by (auto simp: DetectModelPlatform_def Let_def split: if_splits option.splits)

lemma concrete_platform_value: "isConcreteRequestPlatform p \<Longrightarrow> TrimSpace p = p \<and> p \<noteq> []"
  by (auto simp: isConcreteRequestPlatform_def platform_defs) (code_simp+)

lemma Resolve_cases:
  assumes R: "Resolve ok g model endpoint t = Inr d" and m: "Matched d"
  defines "base \<equiv> no_decision\<lparr>d_GroupID := g, d_PublicModel := TrimSpace model, d_Endpoint := normalizeCompositeRouteEndpoint endpoint,
    Matched := True\<rparr>"
  obtains rs r where "TrimSpace model \<noteq> []" "repo_ListByGroup ok g False t = Inr rs"
      "matchCompositeRoute rs (TrimSpace model) (normalizeCompositeRouteEndpoint endpoint) = Some r"
      "d = base\<lparr>Source := CompositeRouteSourceExplicit, d_TargetPlatform := TargetPlatform r,
         d_UpstreamModel := (if TrimSpace (UpstreamModel r) = [] then TrimSpace model else TrimSpace (UpstreamModel r)), Route := Some r\<rparr>"
  | p where "TrimSpace model \<noteq> []" "DetectModelPlatform (TrimSpace model) = Some p"
      "d = base\<lparr>Source := CompositeRouteSourceDetector, d_TargetPlatform := p, d_UpstreamModel := TrimSpace model\<rparr>"
proof -
  let ?m = "TrimSpace model" and ?e = "normalizeCompositeRouteEndpoint endpoint"
  have ne: "?m \<noteq> []" using R m by (auto simp: Resolve_def no_decision_def)
  define found where "found = (if 0 < g then map_sum id (\<lambda>rs. matchCompositeRoute rs ?m ?e) (repo_ListByGroup ok g False t) else Inr None)"
  let ?dec = "no_decision\<lparr>d_GroupID := g, d_PublicModel := ?m, d_Endpoint := ?e\<rparr>"
  have R': "(case found of Inl err \<Rightarrow> Inl err
      | Inr (Some r) \<Rightarrow> Inr (?dec\<lparr>Matched := True, Source := CompositeRouteSourceExplicit, d_TargetPlatform := TargetPlatform r,
          d_UpstreamModel := (if TrimSpace (UpstreamModel r) = [] then ?m else TrimSpace (UpstreamModel r)), Route := Some r\<rparr>)
      | Inr None \<Rightarrow> (case DetectModelPlatform ?m of
          Some p \<Rightarrow> Inr (?dec\<lparr>Matched := True, Source := CompositeRouteSourceDetector, d_TargetPlatform := p, d_UpstreamModel := ?m\<rparr>)
        | None \<Rightarrow> Inr (?dec\<lparr>Reason := ''no explicit route or built-in detector match''\<rparr>))) = Inr d"
    using R ne by (simp only: Resolve_def Let_def found_def if_False)
  show thesis
  proof (cases found)
    case (Inl x)
    then show thesis using R' by simp
  next
    case (Inr o')
    show thesis
    proof (cases o')
      case None
      show thesis
      proof (cases "DetectModelPlatform ?m")
        case None
        then have "d = ?dec\<lparr>Reason := ''no explicit route or built-in detector match''\<rparr>" using R' Inr \<open>o' = None\<close> by simp
        then show thesis using m by (simp add: no_decision_def)
      next
        case (Some p)
        show thesis by (rule that(2) [OF ne Some]) (use R' Inr Some \<open>o' = None\<close> in \<open>simp add: base_def\<close>)
      qed
    next
      case (Some r)
      obtain rs where rs: "repo_ListByGroup ok g False t = Inr rs" "matchCompositeRoute rs ?m ?e = Some r"
        using Inr Some by (cases "repo_ListByGroup ok g False t") (auto simp: found_def split: if_splits)
      show thesis by (rule that(1) [OF ne rs]) (use R' Inr Some in \<open>simp add: base_def\<close>)
    qed
  qed
qed

text \<open>What \<open>Resolve\<close> decides is a concrete platform and a model to ask it for.\<close>

lemma Resolve_decision:
  assumes t: "well_formed_table t" and R: "Resolve ok g model endpoint t = Inr d" and m: "Matched d"
  shows "isConcreteRequestPlatform (d_TargetPlatform d) \<and> TrimSpace (d_UpstreamModel d) = d_UpstreamModel d \<and> d_UpstreamModel d \<noteq> [] \<and>
    Source d \<in> {CompositeRouteSourceExplicit, CompositeRouteSourceDetector} \<and> d_GroupID d = g \<and> d_PublicModel d = TrimSpace model \<and>
    TrimSpace model \<noteq> [] \<and> d_Endpoint d = normalizeCompositeRouteEndpoint endpoint"
  using R m
proof (rule Resolve_cases)
  fix rs r
  assume a: "TrimSpace model \<noteq> []" and rs: "repo_ListByGroup ok g False t = Inr rs"
    "matchCompositeRoute rs (TrimSpace model) (normalizeCompositeRouteEndpoint endpoint) = Some r"
    and d: "d = no_decision\<lparr>d_GroupID := g, d_PublicModel := TrimSpace model, d_Endpoint := normalizeCompositeRouteEndpoint endpoint,
      Matched := True, Source := CompositeRouteSourceExplicit, d_TargetPlatform := TargetPlatform r,
         d_UpstreamModel := (if TrimSpace (UpstreamModel r) = [] then TrimSpace model else TrimSpace (UpstreamModel r)), Route := Some r\<rparr>"
  from rs(1) have "ok" by (auto simp: repo_ListByGroup_def split: if_splits)
  then have "r \<in> set (rows t)" using listed_routes(2) [OF t _ rs(2), of g] rs(1) by simp
  then have "well_formed_route r" using t by (simp add: well_formed_table_def)
  then show ?thesis using a by (simp add: d no_decision_def well_formed_route_def)
next
  fix p
  assume "TrimSpace model \<noteq> []" "DetectModelPlatform (TrimSpace model) = Some p"
    "d = no_decision\<lparr>d_GroupID := g, d_PublicModel := TrimSpace model, d_Endpoint := normalizeCompositeRouteEndpoint endpoint,
      Matched := True, Source := CompositeRouteSourceDetector, d_TargetPlatform := p, d_UpstreamModel := TrimSpace model\<rparr>"
  then show ?thesis using detector_concrete by (simp add: no_decision_def)
qed

text \<open>C24. The decision made for a request comes back from its context: whatever the context held before, a later lookup for the
  composite group answers with the decided platform, upstream model, source and endpoint, without another look at the routes, and
  the platform is one of the five that can be called.\<close>
theorem decision_comes_back:
  assumes "Resolve ok g model endpoint (table_after ops) = Inr d" "Matched d"
  shows "resolveCompositeRouteDecision ok' (WithCompositeRouteDecision d ctx) (Some (g, PlatformComposite)) (TrimSpace model) endpoint t' =
      Inr (Some (d\<lparr>Route := None, Reason := []\<rparr>)) \<and>
    isConcreteRequestPlatform (d_TargetPlatform d) \<and>
    RequestedPublicModelFromContext (WithCompositeRouteDecision d ctx) = Some (TrimSpace model)"
proof -
  note d = Resolve_decision [OF table_after_well_formed assms]
  have src: "TrimSpace (Source d) = Source d" "Source d \<noteq> []"
    using d by (auto simp: CompositeRouteSourceExplicit_def CompositeRouteSourceDetector_def) (code_simp+)
  have tp: "TrimSpace (d_TargetPlatform d) = d_TargetPlatform d" "d_TargetPlatform d \<noteq> []" using concrete_platform_value d by blast+
  let ?ctx = "ctx\<lparr>ResolvedTargetPlatform := Some (d_TargetPlatform d), ResolvedUpstreamModel := Some (d_UpstreamModel d),
    RequestedPublicModel := Some (TrimSpace model), CompositeRouteSource := Some (Source d)\<rparr>"
  have c: "WithCompositeRouteDecision d ctx = ?ctx"
    using d src tp assms(2) by (simp add: WithCompositeRouteDecision_def WithResolvedTargetPlatform_def Let_def)
  show ?thesis unfolding c using d src tp assms(2)
    by (cases d) (simp add: resolveCompositeRouteDecision_def ResolvedTargetPlatformFromContext_def ResolvedUpstreamModelFromContext_def
      CompositeRouteSourceFromContext_def RequestedPublicModelFromContext_def context_value_def no_decision_def)
qed

lemma decision_comes_back_witness:
  "let ctx = \<lparr>ResolvedTargetPlatform = Some ''openai'', ResolvedUpstreamModel = None, RequestedPublicModel = None, CompositeRouteSource = None\<rparr>;
       d = no_decision\<lparr>d_GroupID := 5, d_PublicModel := ''claude-x'', d_Endpoint := ''any'', Matched := True, Source := ''detector'',
         d_TargetPlatform := ''anthropic'', d_UpstreamModel := ''claude-x''\<rparr> in
   resolveCompositeRouteDecision True (WithCompositeRouteDecision d ctx) (Some (5, PlatformComposite)) ''claude-x'' '''' \<lparr>rows = [], next_id = 1\<rparr> =
     Inr (Some d)"
proof -
  let ?ctx = "\<lparr>ResolvedTargetPlatform = Some ''openai'', ResolvedUpstreamModel = None, RequestedPublicModel = None, CompositeRouteSource = None\<rparr>"
  let ?d = "no_decision\<lparr>d_GroupID := 5, d_PublicModel := ''claude-x'', d_Endpoint := ''any'', Matched := True, Source := ''detector'',
         d_TargetPlatform := ''anthropic'', d_UpstreamModel := ''claude-x''\<rparr>"
  have r: "Resolve True 5 ''claude-x'' '''' (table_after sample_ops) = Inr ?d" by code_simp
  have m: "Matched ?d" by (simp add: no_decision_def)
  have t: "TrimSpace ''claude-x'' = ''claude-x''" by code_simp
  have e: "?d\<lparr>Route := None, Reason := []\<rparr> = ?d" by (simp add: no_decision_def)
  show ?thesis using decision_comes_back [OF r m, of True ?ctx "\<lparr>rows = [], next_id = 1\<rparr>"] unfolding t e Let_def by blast
qed

end
