(* ===== verification/Channels.thy ===== *)
theory Channels
  imports Complex_Main CompositeRouting
begin

text \<open>
  Channels (\<open>service/channel.go\<close>, \<open>service/channel_service.go\<close>, \<open>repository/channel_repo*.go\<close>). A channel gives the groups it
  serves their own prices and model names. Administrators keep the table of channels; every request looks its price and its
  mapped model up in a cache that is built from the whole table and rebuilt after every change. Prices are rationals where the
  code has \<open>float64\<close>. A Go map that is iterated over is an association list, whose order stands for the order of the iteration.
\<close>

section \<open>Channels and prices\<close>

type_synonym BillingMode = string

definition BillingModeToken :: BillingMode where "BillingModeToken = ''token''"
definition BillingModePerRequest :: BillingMode where "BillingModePerRequest = ''per_request''"
definition BillingModeImage :: BillingMode where "BillingModeImage = ''image''"
definition BillingModeVideo :: BillingMode where "BillingModeVideo = ''video''"
definition StatusActive :: string where "StatusActive = ''active''"
definition BillingModelSourceChannelMapped :: string where "BillingModelSourceChannelMapped = ''channel_mapped''"

lemmas mode_defs = BillingModeToken_def BillingModePerRequest_def BillingModeImage_def BillingModeVideo_def

record PricingInterval =
  MinTokens :: int
  MaxTokens :: "int option"
  TierLabel :: string
  iv_InputPrice :: "rat option"
  iv_OutputPrice :: "rat option"
  iv_CacheWritePrice :: "rat option"
  iv_CacheReadPrice :: "rat option"
  iv_PerRequestPrice :: "rat option"
  SortOrder :: int

record ChannelModelPricing =
  Platform :: string
  Models :: "string list"
  BillingMode :: BillingMode
  InputPrice :: "rat option"
  OutputPrice :: "rat option"
  CacheWritePrice :: "rat option"
  CacheReadPrice :: "rat option"
  ImageInputPrice :: "rat option"
  ImageOutputPrice :: "rat option"
  PerRequestPrice :: "rat option"
  Intervals :: "PricingInterval list"

record AccountStatsPricingRule =
  rule_GroupIDs :: "ident list"
  rule_AccountIDs :: "ident list"
  Pricing :: "ChannelModelPricing list"

type_synonym model_mapping = "(string \<times> (string \<times> string) list) list"

record Channel =
  ch_ID :: ident
  Name :: string
  Status :: string
  BillingModelSource :: string
  RestrictModels :: bool
  GroupIDs :: "ident list"
  ModelPricing :: "ChannelModelPricing list"
  ModelMapping :: model_mapping
  ApplyPricingToAccountStats :: bool
  AccountStatsPricingRules :: "AccountStatsPricingRule list"

definition IsActive :: "Channel \<Rightarrow> bool" where
  "IsActive c = (Status c = StatusActive)"

definition normalizeBillingModelSource :: "Channel \<Rightarrow> Channel" where
  "normalizeBillingModelSource c =
     (if BillingModelSource c = [] then c\<lparr>BillingModelSource := BillingModelSourceChannelMapped\<rparr> else c)"

definition FindMatchingInterval :: "PricingInterval list \<Rightarrow> int \<Rightarrow> PricingInterval option" where
  "FindMatchingInterval ivs n =
     first_match (\<lambda>iv. MinTokens iv < n \<and> (case MaxTokens iv of None \<Rightarrow> True | Some m \<Rightarrow> n \<le> m)) ivs"

definition splitWildcardSuffix :: "string \<Rightarrow> string \<times> bool" where
  "splitWildcardSuffix p = (if HasSuffix p ''*'' then (TrimSuffix p ''*'', True) else (p, False))"

definition normalizeChannelPricingModelName :: "string \<Rightarrow> string" where
  "normalizeChannelPricingModelName m =
     (let m = ToLower (TrimSpace m) in
      if HasPrefix m ''claude-'' then map (\<lambda>c. if c = CHR ''.'' then CHR ''-'' else c) m else m)"

section \<open>Validation\<close>

datatype interval_error = MinNegative nat | MaxNotPositive nat | MaxNotAboveMin nat | PriceNegative nat
  | UnboundedNotLast nat | IntervalsOverlap nat

datatype channel_error = ErrChannelNotFound | ErrChannelExists | ErrGroupAlreadyInChannel | ModelPatternConflict
  | MappingPatternConflict | InvalidPricingIntervals interval_error | BillingModeMissingPrice | NegativePrice
  | IntervalMissingPrice | ChannelDBError

definition negative :: "rat option \<Rightarrow> bool" where
  "negative p = (case p of None \<Rightarrow> False | Some v \<Rightarrow> v < 0)"

definition validateIntervalPrices :: "PricingInterval \<Rightarrow> nat \<Rightarrow> interval_error option" where
  "validateIntervalPrices iv i =
     (if list_ex negative [iv_InputPrice iv, iv_OutputPrice iv, iv_CacheWritePrice iv, iv_CacheReadPrice iv, iv_PerRequestPrice iv]
      then Some (PriceNegative i) else None)"

definition validateSingleInterval :: "PricingInterval \<Rightarrow> nat \<Rightarrow> interval_error option" where
  "validateSingleInterval iv i =
     (if MinTokens iv < 0 then Some (MinNegative i)
      else case MaxTokens iv of
        None \<Rightarrow> validateIntervalPrices iv i
      | Some m \<Rightarrow>
          if m \<le> 0 then Some (MaxNotPositive i) else if m \<le> MinTokens iv then Some (MaxNotAboveMin i)
          else validateIntervalPrices iv i)"

fun single_intervals :: "nat \<Rightarrow> PricingInterval list \<Rightarrow> interval_error option" where
  "single_intervals i [] = None"
| "single_intervals i (iv # ivs) =
     (case validateSingleInterval iv i of Some e \<Rightarrow> Some e | None \<Rightarrow> single_intervals (i + 1) ivs)"

text \<open>The loop over the sorted intervals with the one before, and whether there is one after.\<close>

fun overlap_loop :: "PricingInterval option \<Rightarrow> nat \<Rightarrow> PricingInterval list \<Rightarrow> interval_error option" where
  "overlap_loop prev i [] = None"
| "overlap_loop prev i (iv # ivs) =
     (if MaxTokens iv = None \<and> ivs \<noteq> [] then Some (UnboundedNotLast i)
      else case prev of
        None \<Rightarrow> overlap_loop (Some iv) (i + 1) ivs
      | Some p \<Rightarrow>
          (case MaxTokens p of
             None \<Rightarrow> Some (IntervalsOverlap i)
           | Some m \<Rightarrow> if MinTokens iv < m then Some (IntervalsOverlap i) else overlap_loop (Some iv) (i + 1) ivs))"

definition validateIntervalOverlap :: "PricingInterval list \<Rightarrow> interval_error option" where
  "validateIntervalOverlap ivs = overlap_loop None 0 ivs"

text \<open>\<open>srt\<close> is what \<open>sort.Slice\<close> does with the intervals; it may order equal ones in any way.\<close>

definition ValidateIntervals ::
  "(PricingInterval list \<Rightarrow> PricingInterval list) \<Rightarrow> PricingInterval list \<Rightarrow> BillingMode \<Rightarrow> interval_error option" where
  "ValidateIntervals srt ivs mode =
     (if ivs = [] then None
      else let sorted_ivs = srt ivs in
        case single_intervals 0 sorted_ivs of
          Some e \<Rightarrow> Some e
        | None \<Rightarrow> if mode = BillingModePerRequest \<or> mode = BillingModeImage then None else validateIntervalOverlap sorted_ivs)"

definition by_min_tokens :: "PricingInterval list \<Rightarrow> PricingInterval list" where
  "by_min_tokens = SliceStable (\<lambda>a b. MinTokens a < MinTokens b)"

record modelEntry =
  prefix :: string
  wildcard :: bool

definition conflictsBetween :: "modelEntry \<Rightarrow> modelEntry \<Rightarrow> bool" where
  "conflictsBetween a b =
     (if \<not> wildcard a \<and> \<not> wildcard b then prefix a = prefix b
      else if wildcard a \<and> \<not> wildcard b then HasPrefix (prefix b) (prefix a)
      else if \<not> wildcard a \<and> wildcard b then HasPrefix (prefix a) (prefix b)
      else HasPrefix (prefix a) (prefix b) \<or> HasPrefix (prefix b) (prefix a))"

definition toModelEntry :: "string \<Rightarrow> modelEntry" where
  "toModelEntry pattern = (case splitWildcardSuffix (ToLower pattern) of (p, w) \<Rightarrow> \<lparr>prefix = p, wildcard = w\<rparr>)"

definition toPricingModelEntry :: "string \<Rightarrow> modelEntry" where
  "toPricingModelEntry pattern =
     (case splitWildcardSuffix pattern of (p, w) \<Rightarrow> \<lparr>prefix = normalizeChannelPricingModelName p, wildcard = w\<rparr>)"

fun detectConflicts :: "modelEntry list \<Rightarrow> bool" where
  "detectConflicts [] = False"
| "detectConflicts (e # es) = (list_ex (conflictsBetween e) es \<or> detectConflicts es)"

definition platform_entries :: "string \<Rightarrow> ChannelModelPricing list \<Rightarrow> modelEntry list" where
  "platform_entries pf ps = concat (map (\<lambda>p. map toPricingModelEntry (Models p)) (filter (\<lambda>p. Platform p = pf) ps))"

definition validateNoConflictingModels :: "ChannelModelPricing list \<Rightarrow> channel_error option" where
  "validateNoConflictingModels ps =
     (if list_ex (\<lambda>p. detectConflicts (platform_entries (Platform p) ps)) ps then Some ModelPatternConflict else None)"

definition validateNoConflictingMappings :: "model_mapping \<Rightarrow> channel_error option" where
  "validateNoConflictingMappings mm =
     (if list_ex (\<lambda>(pf, m). detectConflicts (map (toModelEntry \<circ> fst) m)) mm then Some MappingPatternConflict else None)"

fun validatePricingIntervals ::
  "(PricingInterval list \<Rightarrow> PricingInterval list) \<Rightarrow> ChannelModelPricing list \<Rightarrow> channel_error option" where
  "validatePricingIntervals srt [] = None"
| "validatePricingIntervals srt (p # ps) =
     (case ValidateIntervals srt (Intervals p) (BillingMode p) of
        Some e \<Rightarrow> Some (InvalidPricingIntervals e) | None \<Rightarrow> validatePricingIntervals srt ps)"

definition checkBillingModeRequirements :: "ChannelModelPricing \<Rightarrow> channel_error option" where
  "checkBillingModeRequirements p =
     (if BillingMode p = BillingModePerRequest \<or> BillingMode p = BillingModeImage
      then if PerRequestPrice p = None \<and> Intervals p = [] then Some BillingModeMissingPrice else None
      else None)"

definition checkPricesNotNegative :: "ChannelModelPricing \<Rightarrow> channel_error option" where
  "checkPricesNotNegative p =
     (if list_ex negative [InputPrice p, OutputPrice p, CacheWritePrice p, CacheReadPrice p, ImageInputPrice p, ImageOutputPrice p,
        PerRequestPrice p] then Some NegativePrice else None)"

definition interval_has_price :: "PricingInterval \<Rightarrow> bool" where
  "interval_has_price iv = (iv_InputPrice iv \<noteq> None \<or> iv_OutputPrice iv \<noteq> None \<or> iv_CacheWritePrice iv \<noteq> None \<or>
     iv_CacheReadPrice iv \<noteq> None \<or> iv_PerRequestPrice iv \<noteq> None)"

definition checkIntervalsHavePrices :: "ChannelModelPricing \<Rightarrow> channel_error option" where
  "checkIntervalsHavePrices p = (if list_ex (\<lambda>iv. \<not> interval_has_price iv) (Intervals p) then Some IntervalMissingPrice else None)"

definition or_else :: "'e option \<Rightarrow> 'e option \<Rightarrow> 'e option" where
  "or_else a b = (case a of Some e \<Rightarrow> Some e | None \<Rightarrow> b)"

fun validatePricingBillingMode :: "ChannelModelPricing list \<Rightarrow> channel_error option" where
  "validatePricingBillingMode [] = None"
| "validatePricingBillingMode (p # ps) =
     or_else (checkBillingModeRequirements p) (or_else (checkPricesNotNegative p)
       (or_else (checkIntervalsHavePrices p) (validatePricingBillingMode ps)))"

definition validatePricingEntries ::
  "(PricingInterval list \<Rightarrow> PricingInterval list) \<Rightarrow> ChannelModelPricing list \<Rightarrow> channel_error option" where
  "validatePricingEntries srt ps =
     or_else (validateNoConflictingModels ps) (or_else (validatePricingIntervals srt ps) (validatePricingBillingMode ps))"

definition validateChannelConfig ::
  "(PricingInterval list \<Rightarrow> PricingInterval list) \<Rightarrow> ChannelModelPricing list \<Rightarrow> model_mapping \<Rightarrow> channel_error option" where
  "validateChannelConfig srt ps mm = or_else (validatePricingEntries srt ps) (validateNoConflictingMappings mm)"

fun validate_rules ::
  "(PricingInterval list \<Rightarrow> PricingInterval list) \<Rightarrow> AccountStatsPricingRule list \<Rightarrow> channel_error option" where
  "validate_rules srt [] = None"
| "validate_rules srt (r # rs) = or_else (validatePricingEntries srt (Pricing r)) (validate_rules srt rs)"

section \<open>The cache\<close>

definition isPlatformPricingMatch :: "string \<Rightarrow> string \<Rightarrow> bool" where
  "isPlatformPricingMatch groupPlatform pricingPlatform =
     (if groupPlatform = PlatformComposite then isConcreteRequestPlatform pricingPlatform else groupPlatform = pricingPlatform)"

definition matchingPlatforms :: "string \<Rightarrow> string list" where
  "matchingPlatforms groupPlatform =
     (if groupPlatform = PlatformComposite
      then [PlatformAnthropic, PlatformGemini, PlatformOpenAI, PlatformAntigravity, PlatformGrok] else [groupPlatform])"

record channelCache =
  pricingByGroupModel :: "ident \<times> string \<times> string \<rightharpoonup> ChannelModelPricing"
  wildcardByGroupPlatform :: "ident \<times> string \<Rightarrow> (string \<times> ChannelModelPricing) list"
  mappingByGroupModel :: "ident \<times> string \<times> string \<rightharpoonup> string"
  wildcardMappingByGP :: "ident \<times> string \<Rightarrow> (string \<times> string) list"
  channelByGroupID :: "ident \<rightharpoonup> Channel"
  groupPlatform :: "ident \<rightharpoonup> string"
  loadedAt :: time

definition newEmptyChannelCache :: channelCache where
  "newEmptyChannelCache = \<lparr>pricingByGroupModel = Map.empty, wildcardByGroupPlatform = (\<lambda>_. []), mappingByGroupModel = Map.empty,
     wildcardMappingByGP = (\<lambda>_. []), channelByGroupID = Map.empty, groupPlatform = Map.empty, loadedAt = 0\<rparr>"

definition put_price :: "ident \<Rightarrow> ChannelModelPricing \<Rightarrow> string \<Rightarrow> channelCache \<Rightarrow> channelCache" where
  "put_price g p model c =
     (if HasSuffix model ''*''
      then c\<lparr>wildcardByGroupPlatform := (wildcardByGroupPlatform c)((g, Platform p) := wildcardByGroupPlatform c (g, Platform p) @
             [(normalizeChannelPricingModelName (TrimSuffix model ''*''), p)])\<rparr>
      else c\<lparr>pricingByGroupModel := (pricingByGroupModel c)((g, Platform p, normalizeChannelPricingModelName model) \<mapsto> p)\<rparr>)"

definition expandPricingToCache :: "channelCache \<Rightarrow> Channel \<Rightarrow> ident \<Rightarrow> string \<Rightarrow> channelCache" where
  "expandPricingToCache c ch g platform =
     fold (\<lambda>p c. if isPlatformPricingMatch platform (Platform p) then fold (put_price g p) (Models p) c else c) (ModelPricing ch) c"

definition put_mapping :: "ident \<Rightarrow> string \<Rightarrow> string \<times> string \<Rightarrow> channelCache \<Rightarrow> channelCache" where
  "put_mapping g pf = (\<lambda>(src, dst) c.
     if HasSuffix src ''*''
     then c\<lparr>wildcardMappingByGP := (wildcardMappingByGP c)((g, pf) := wildcardMappingByGP c (g, pf) @ [(ToLower (TrimSuffix src ''*''), dst)])\<rparr>
     else c\<lparr>mappingByGroupModel := (mappingByGroupModel c)((g, pf, ToLower src) \<mapsto> dst)\<rparr>)"

definition expandMappingToCache :: "channelCache \<Rightarrow> Channel \<Rightarrow> ident \<Rightarrow> string \<Rightarrow> channelCache" where
  "expandMappingToCache c ch g platform =
     fold (\<lambda>pf c. case map_of (ModelMapping ch) pf of None \<Rightarrow> c | Some m \<Rightarrow> fold (put_mapping g pf) m c) (matchingPlatforms platform) c"

definition read_platform :: "(ident \<rightharpoonup> string) \<Rightarrow> ident \<Rightarrow> string" where
  "read_platform m g = (case m g of None \<Rightarrow> [] | Some p \<Rightarrow> p)"

definition put_group :: "(ident \<rightharpoonup> string) \<Rightarrow> Channel \<Rightarrow> ident \<Rightarrow> channelCache \<Rightarrow> channelCache" where
  "put_group platforms ch g c =
     (let c = c\<lparr>channelByGroupID := (channelByGroupID c)(g \<mapsto> ch)\<rparr>;
          c = expandPricingToCache c ch g (read_platform platforms g)
      in expandMappingToCache c ch g (read_platform platforms g))"

definition put_channel :: "(ident \<rightharpoonup> string) \<Rightarrow> Channel \<Rightarrow> channelCache \<Rightarrow> channelCache" where
  "put_channel platforms ch c = (let ch = normalizeBillingModelSource ch in fold (put_group platforms ch) (GroupIDs ch) c)"

definition populateChannelCache :: "Channel list \<Rightarrow> (ident \<rightharpoonup> string) \<Rightarrow> time \<Rightarrow> channelCache" where
  "populateChannelCache chs platforms now =
     fold (put_channel platforms) chs (newEmptyChannelCache\<lparr>groupPlatform := platforms, loadedAt := now\<rparr>)"

section \<open>Lookups in the cache\<close>

definition matchWildcard :: "channelCache \<Rightarrow> ident \<Rightarrow> string \<Rightarrow> string \<Rightarrow> ChannelModelPricing option" where
  "matchWildcard c g platform model = map_option snd (first_match (\<lambda>(pre, p). HasPrefix model pre) (wildcardByGroupPlatform c (g, platform)))"

definition matchWildcardMapping :: "channelCache \<Rightarrow> ident \<Rightarrow> string \<Rightarrow> string \<Rightarrow> string" where
  "matchWildcardMapping c g platform model =
     (case first_match (\<lambda>(pre, t). HasPrefix model pre) (wildcardMappingByGP c (g, platform)) of None \<Rightarrow> [] | Some (pre, t) \<Rightarrow> t)"

fun first_some :: "('a \<Rightarrow> 'b option) \<Rightarrow> 'a list \<Rightarrow> 'b option" where
  "first_some f [] = None"
| "first_some f (x # xs) = (case f x of Some y \<Rightarrow> Some y | None \<Rightarrow> first_some f xs)"

definition lookupPricingAcrossPlatforms :: "channelCache \<Rightarrow> ident \<Rightarrow> string \<Rightarrow> string \<Rightarrow> ChannelModelPricing option" where
  "lookupPricingAcrossPlatforms c g gp model =
     (let m = normalizeChannelPricingModelName model; ps = matchingPlatforms gp in
      case first_some (\<lambda>p. pricingByGroupModel c (g, p, m)) ps of
        Some x \<Rightarrow> Some x
      | None \<Rightarrow> first_some (\<lambda>p. matchWildcard c g p m) ps)"

definition lookupMappingAcrossPlatforms :: "channelCache \<Rightarrow> ident \<Rightarrow> string \<Rightarrow> string \<Rightarrow> string" where
  "lookupMappingAcrossPlatforms c g gp model =
     (let ps = matchingPlatforms gp in
      case first_some (\<lambda>p. mappingByGroupModel c (g, p, model)) ps of
        Some t \<Rightarrow> t
      | None \<Rightarrow> (case first_some (\<lambda>p. let t = matchWildcardMapping c g p model in if t = [] then None else Some t) ps of
          Some t \<Rightarrow> t | None \<Rightarrow> []))"

text \<open>The platform a request is looked up for: \<open>force\<close> is the platform a forced route put into the context.\<close>

definition channelLookupPlatform :: "string option \<Rightarrow> request_context \<Rightarrow> string \<Rightarrow> string" where
  "channelLookupPlatform force ctx gp =
     (case force of
        Some f \<Rightarrow> if TrimSpace f \<noteq> [] then TrimSpace f
          else if gp = PlatformComposite
          then (case ResolvedTargetPlatformFromContext ctx of Some p \<Rightarrow> p | None \<Rightarrow> gp) else gp
      | None \<Rightarrow> if gp = PlatformComposite
          then (case ResolvedTargetPlatformFromContext ctx of Some p \<Rightarrow> p | None \<Rightarrow> gp) else gp)"

record channelLookup =
  lk_cache :: channelCache
  lk_channel :: Channel
  lk_platform :: string

record ChannelMappingResult =
  MappedModel :: string
  ChannelID :: ident
  Mapped :: bool
  res_BillingModelSource :: string



definition arrow :: string where "arrow = map char_of [226, 134, 146 :: nat]"

definition BuildModelMappingChain :: "ChannelMappingResult \<Rightarrow> string \<Rightarrow> string \<Rightarrow> string" where
  "BuildModelMappingChain r req upstream =
     (if \<not> Mapped r then (if upstream \<noteq> [] \<and> upstream \<noteq> req then req @ arrow @ upstream else [])
      else if upstream \<noteq> [] \<and> upstream \<noteq> MappedModel r then req @ arrow @ MappedModel r @ arrow @ upstream
      else req @ arrow @ MappedModel r)"

section \<open>The table and the service\<close>

text \<open>
  The tables of channels and of the platforms of groups, the cache, the rebuilds that have read the tables but not yet stored
  what they built (\<open>None\<close> for one that failed to read), and the groups whose cached keys were dropped. \<open>changes\<close> counts the
  changes of the tables, \<open>cache_of\<close> is the change the cache was built after and \<open>failed_at\<close> the last failed build; the
  program does not keep these three.
\<close>

record channel_world =
  channels :: "Channel list"
  next_channel :: ident
  platforms :: "ident \<rightharpoonup> string"
  cache :: "channelCache option"
  in_flight :: "(channelCache \<times> nat) option list"
  auth_invalidated :: "ident list"
  changes :: nat
  cache_of :: nat
  failed_at :: "time option"

text \<open>The clock and the answers of the database to one call: whether each statement succeeds.\<close>

record channel_env =
  clock :: time
  exists_ok :: bool
  conflicts_ok :: bool
  get_ok :: bool
  groups_ok :: bool
  db_write_ok :: bool
  list_all_ok :: bool
  platforms_ok :: bool
  reread_ok :: bool

definition channelCacheTTL :: duration where "channelCacheTTL = 10 * Minute"
definition channelErrorTTL :: duration where "channelErrorTTL = 5 * Second"

definition storeErrorCache :: "time \<Rightarrow> channel_world \<Rightarrow> channel_world" where
  "storeErrorCache now w =
     w\<lparr>cache := Some (newEmptyChannelCache\<lparr>loadedAt := now - (channelCacheTTL - channelErrorTTL)\<rparr>), failed_at := Some now,
       cache_of := changes w\<rparr>"

definition GetGroupPlatforms :: "ident list \<Rightarrow> channel_world \<Rightarrow> (ident \<rightharpoonup> string)" where
  "GetGroupPlatforms ids w = platforms w |` set ids"

definition fetchChannelData :: "channel_env \<Rightarrow> channel_world \<Rightarrow> (Channel list \<times> (ident \<rightharpoonup> string)) option" where
  "fetchChannelData e w =
     (if \<not> list_all_ok e then None
      else let ids = concat (map GroupIDs (channels w)) in
        if ids = [] then Some (channels w, Map.empty)
        else if \<not> platforms_ok e then None
        else Some (channels w, GetGroupPlatforms ids w))"

definition buildCache :: "channel_env \<Rightarrow> channel_world \<Rightarrow> channelCache option \<times> channel_world" where
  "buildCache e w =
     (case fetchChannelData e w of
        None \<Rightarrow> (None, storeErrorCache (clock e) w)
      | Some (chs, gp) \<Rightarrow>
          let c = populateChannelCache chs gp (clock e) in (Some c, w\<lparr>cache := Some c, cache_of := changes w\<rparr>))"

definition fresh_cache :: "channel_env \<Rightarrow> channel_world \<Rightarrow> channelCache option" where
  "fresh_cache e w = (case cache w of None \<Rightarrow> None | Some c \<Rightarrow> if clock e - loadedAt c < channelCacheTTL then Some c else None)"

definition loadCache :: "channel_env \<Rightarrow> channel_world \<Rightarrow> channelCache option \<times> channel_world" where
  "loadCache e w = (case fresh_cache e w of Some c \<Rightarrow> (Some c, w) | None \<Rightarrow> buildCache e w)"

definition InvalidateCache :: "channel_env \<Rightarrow> channel_world \<Rightarrow> channel_world" where
  "InvalidateCache e w = snd (buildCache e (w\<lparr>cache := None\<rparr>))"

text \<open>A rebuild of \<open>loadCache\<close> in two steps: it reads the tables, and later stores what it built.\<close>

definition begin_build :: "channel_env \<Rightarrow> channel_world \<Rightarrow> channel_world" where
  "begin_build e w =
     (if fresh_cache e w \<noteq> None then w
      else w\<lparr>in_flight := in_flight w @ [case fetchChannelData e w of
          None \<Rightarrow> None | Some (chs, gp) \<Rightarrow> Some (populateChannelCache chs gp (clock e), changes w)]\<rparr>)"

definition finish_build :: "channel_env \<Rightarrow> nat \<Rightarrow> channel_world \<Rightarrow> channel_world" where
  "finish_build e k w =
     (if k < length (in_flight w)
      then let rest = w\<lparr>in_flight := take k (in_flight w) @ drop (k + 1) (in_flight w)\<rparr> in
        case in_flight w ! k of
          None \<Rightarrow> storeErrorCache (clock e) rest
        | Some (c, v) \<Rightarrow> rest\<lparr>cache := Some c, cache_of := v\<rparr>
      else w)"

definition lookupGroupChannel ::
  "channel_env \<Rightarrow> string option \<Rightarrow> request_context \<Rightarrow> ident \<Rightarrow> channel_world \<Rightarrow> channelLookup option \<times> channel_world" where
  "lookupGroupChannel e force ctx g w =
     (case loadCache e w of
        (None, w) \<Rightarrow> (None, w)
      | (Some c, w) \<Rightarrow>
          (case channelByGroupID c g of
             None \<Rightarrow> (None, w)
           | Some ch \<Rightarrow>
               if \<not> IsActive ch then (None, w)
               else (Some \<lparr>lk_cache = c, lk_channel = ch, lk_platform = channelLookupPlatform force ctx (read_platform (groupPlatform c) g)\<rparr>, w)))"

definition GetChannelForGroup :: "channel_env \<Rightarrow> ident \<Rightarrow> channel_world \<Rightarrow> Channel option \<times> channel_world" where
  "GetChannelForGroup e g w =
     (case loadCache e w of
        (None, w) \<Rightarrow> (None, w)
      | (Some c, w) \<Rightarrow> (case channelByGroupID c g of None \<Rightarrow> None | Some ch \<Rightarrow> if IsActive ch then Some ch else None, w))"

definition GetGroupPlatform :: "channel_env \<Rightarrow> ident \<Rightarrow> channel_world \<Rightarrow> string \<times> channel_world" where
  "GetGroupPlatform e g w =
     (case loadCache e w of (None, w) \<Rightarrow> ([], w) | (Some c, w) \<Rightarrow> (read_platform (groupPlatform c) g, w))"

definition GetChannelModelPricing ::
  "channel_env \<Rightarrow> string option \<Rightarrow> request_context \<Rightarrow> ident \<Rightarrow> string \<Rightarrow> channel_world \<Rightarrow> ChannelModelPricing option \<times> channel_world" where
  "GetChannelModelPricing e force ctx g model w =
     (case lookupGroupChannel e force ctx g w of
        (None, w) \<Rightarrow> (None, w)
      | (Some lk, w) \<Rightarrow> (lookupPricingAcrossPlatforms (lk_cache lk) g (lk_platform lk) (ToLower model), w))"



section \<open>Operations of administrators\<close>

text \<open>What the tables give back of the prices written to them.\<close>

definition stored_pricing :: "ChannelModelPricing \<Rightarrow> ChannelModelPricing" where
  "stored_pricing p = p\<lparr>BillingMode := (if BillingMode p = [] then BillingModeToken else BillingMode p),
     Platform := (if Platform p = [] then PlatformAnthropic else Platform p),
     Intervals := SliceStable (\<lambda>a b. SortOrder a < SortOrder b) (Intervals p)\<rparr>"

definition stored_rule :: "AccountStatsPricingRule \<Rightarrow> AccountStatsPricingRule" where
  "stored_rule r = r\<lparr>Pricing := map (\<lambda>p. p\<lparr>BillingMode := (if BillingMode p = [] then BillingModeToken else BillingMode p),
     ImageInputPrice := None, Intervals := SliceStable (\<lambda>a b. SortOrder a < SortOrder b) (Intervals p)\<rparr>) (Pricing r)\<rparr>"

definition stored_channel :: "Channel \<Rightarrow> Channel" where
  "stored_channel ch = ch\<lparr>GroupIDs := sort (GroupIDs ch), ModelPricing := map stored_pricing (ModelPricing ch),
     AccountStatsPricingRules := map stored_rule (AccountStatsPricingRules ch)\<rparr>"

definition GetGroupsInOtherChannels :: "ident \<Rightarrow> ident list \<Rightarrow> Channel list \<Rightarrow> ident list" where
  "GetGroupsInOtherChannels i gids chs =
     concat (map (\<lambda>ch. if ch_ID ch = i then [] else filter (\<lambda>g. g \<in> set gids) (GroupIDs ch)) chs)"

text \<open>The unique index of \<open>channel_groups\<close>: no group twice, none of another channel.\<close>

definition groups_unique :: "ident \<Rightarrow> ident list \<Rightarrow> Channel list \<Rightarrow> bool" where
  "groups_unique i gids chs = (distinct gids \<and> GetGroupsInOtherChannels i gids chs = [])"

definition channel_Create :: "bool \<Rightarrow> Channel \<Rightarrow> channel_world \<Rightarrow> (channel_error + ident) \<times> channel_world" where
  "channel_Create ok ch w =
     (let i = next_channel w in
      if \<not> ok then (Inl ChannelDBError, w)
      else if Name ch \<in> Name ` set (channels w) then (Inl ErrChannelExists, w)
      else if \<not> groups_unique i (GroupIDs ch) (channels w) then (Inl ChannelDBError, w)
      else (Inr i, w\<lparr>channels := channels w @ [stored_channel (ch\<lparr>ch_ID := i\<rparr>)], next_channel := i + 1, changes := changes w + 1\<rparr>))"

definition channel_Update :: "bool \<Rightarrow> Channel \<Rightarrow> channel_world \<Rightarrow> (channel_error + unit) \<times> channel_world" where
  "channel_Update ok ch w =
     (if \<not> ok then (Inl ChannelDBError, w)
      else if \<exists>x\<in>set (channels w). ch_ID x \<noteq> ch_ID ch \<and> Name x = Name ch then (Inl ErrChannelExists, w)
      else if ch_ID ch \<notin> ch_ID ` set (channels w) then (Inl ErrChannelNotFound, w)
      else if \<not> groups_unique (ch_ID ch) (GroupIDs ch) (channels w) then (Inl ChannelDBError, w)
      else (Inr (), w\<lparr>channels := map (\<lambda>x. if ch_ID x = ch_ID ch then stored_channel ch else x) (channels w), changes := changes w + 1\<rparr>))"

definition channel_Delete :: "bool \<Rightarrow> ident \<Rightarrow> channel_world \<Rightarrow> (channel_error + unit) \<times> channel_world" where
  "channel_Delete ok i w =
     (if \<not> ok then (Inl ChannelDBError, w)
      else if i \<notin> ch_ID ` set (channels w) then (Inl ErrChannelNotFound, w)
      else (Inr (), w\<lparr>channels := filter (\<lambda>x. ch_ID x \<noteq> i) (channels w), changes := changes w + 1\<rparr>))"

record CreateChannelInput =
  ci_Name :: string
  ci_GroupIDs :: "ident list"
  ci_ModelPricing :: "ChannelModelPricing list"
  ci_ModelMapping :: model_mapping
  ci_BillingModelSource :: string
  ci_RestrictModels :: bool
  ci_ApplyPricing :: bool
  ci_Rules :: "AccountStatsPricingRule list"

record UpdateChannelInput =
  ui_Name :: string
  ui_Status :: string
  ui_GroupIDs :: "ident list option"
  ui_ModelPricing :: "ChannelModelPricing list option"
  ui_ModelMapping :: "model_mapping option"
  ui_BillingModelSource :: string
  ui_RestrictModels :: "bool option"
  ui_ApplyPricing :: "bool option"
  ui_Rules :: "AccountStatsPricingRule list option"

text \<open>The handlers fill in the platform of a price that has none before they call the service.\<close>

definition fill_platform :: "ChannelModelPricing \<Rightarrow> ChannelModelPricing" where
  "fill_platform p = (if Platform p = [] then p\<lparr>Platform := PlatformAnthropic\<rparr> else p)"

definition checkGroupConflicts :: "channel_env \<Rightarrow> ident \<Rightarrow> ident list \<Rightarrow> channel_world \<Rightarrow> channel_error option" where
  "checkGroupConflicts e i gids w =
     (if gids = [] then None
      else if \<not> conflicts_ok e then Some ChannelDBError
      else if GetGroupsInOtherChannels i gids (channels w) \<noteq> [] then Some ErrGroupAlreadyInChannel else None)"

definition read_back :: "channel_env \<Rightarrow> ident \<Rightarrow> channel_world \<Rightarrow> channel_error + Channel" where
  "read_back e i w =
     (if \<not> reread_ok e then Inl ChannelDBError
      else case first_match (\<lambda>x. ch_ID x = i) (channels w) of None \<Rightarrow> Inl ErrChannelNotFound | Some ch \<Rightarrow> Inr (normalizeBillingModelSource ch))"

definition Create ::
  "(PricingInterval list \<Rightarrow> PricingInterval list) \<Rightarrow> channel_env \<Rightarrow> CreateChannelInput \<Rightarrow> channel_world \<Rightarrow>
     (channel_error + Channel) \<times> channel_world" where
  "Create srt e i w =
     (if \<not> exists_ok e then (Inl ChannelDBError, w)
      else if ci_Name i \<in> Name ` set (channels w) then (Inl ErrChannelExists, w)
      else case checkGroupConflicts e 0 (ci_GroupIDs i) w of
        Some err \<Rightarrow> (Inl err, w)
      | None \<Rightarrow>
          let ch = normalizeBillingModelSource
                \<lparr>ch_ID = 0, Name = ci_Name i, Status = StatusActive, BillingModelSource = ci_BillingModelSource i,
                 RestrictModels = ci_RestrictModels i, GroupIDs = ci_GroupIDs i, ModelPricing = ci_ModelPricing i,
                 ModelMapping = ci_ModelMapping i, ApplyPricingToAccountStats = ci_ApplyPricing i, AccountStatsPricingRules = ci_Rules i\<rparr>
          in case or_else (validateChannelConfig srt (ModelPricing ch) (ModelMapping ch)) (validate_rules srt (AccountStatsPricingRules ch)) of
            Some err \<Rightarrow> (Inl err, w)
          | None \<Rightarrow>
              (case channel_Create (db_write_ok e) ch w of
                 (Inl err, w) \<Rightarrow> (Inl err, w)
               | (Inr j, w) \<Rightarrow> let w = InvalidateCache e w in (read_back e j w, w)))"

definition applyUpdateInput :: "channel_env \<Rightarrow> Channel \<Rightarrow> UpdateChannelInput \<Rightarrow> channel_world \<Rightarrow> channel_error + Channel" where
  "applyUpdateInput e ch i w =
     (if ui_Name i \<noteq> [] \<and> ui_Name i \<noteq> Name ch \<and> \<not> exists_ok e then Inl ChannelDBError
      else if ui_Name i \<noteq> [] \<and> ui_Name i \<noteq> Name ch \<and> (\<exists>x\<in>set (channels w). Name x = ui_Name i \<and> ch_ID x \<noteq> ch_ID ch)
      then Inl ErrChannelExists
      else let ch = (if ui_Name i \<noteq> [] \<and> ui_Name i \<noteq> Name ch then ch\<lparr>Name := ui_Name i\<rparr> else ch);
               ch = (if ui_Status i \<noteq> [] then ch\<lparr>Status := ui_Status i\<rparr> else ch);
               ch = (case ui_RestrictModels i of None \<Rightarrow> ch | Some b \<Rightarrow> ch\<lparr>RestrictModels := b\<rparr>)
        in case (case ui_GroupIDs i of None \<Rightarrow> None | Some gids \<Rightarrow> checkGroupConflicts e (ch_ID ch) gids w) of
          Some err \<Rightarrow> Inl err
        | None \<Rightarrow>
            let ch = (case ui_GroupIDs i of None \<Rightarrow> ch | Some gids \<Rightarrow> ch\<lparr>GroupIDs := gids\<rparr>);
                ch = (case ui_ModelPricing i of None \<Rightarrow> ch | Some ps \<Rightarrow> ch\<lparr>ModelPricing := ps\<rparr>);
                ch = (case ui_ModelMapping i of None \<Rightarrow> ch | Some m \<Rightarrow> ch\<lparr>ModelMapping := m\<rparr>);
                ch = (if ui_BillingModelSource i \<noteq> [] then ch\<lparr>BillingModelSource := ui_BillingModelSource i\<rparr> else ch);
                ch = (case ui_ApplyPricing i of None \<Rightarrow> ch | Some b \<Rightarrow> ch\<lparr>ApplyPricingToAccountStats := b\<rparr>);
                ch = (case ui_Rules i of None \<Rightarrow> ch | Some rs \<Rightarrow> ch\<lparr>AccountStatsPricingRules := rs\<rparr>)
            in Inr ch)"

definition invalidateAuthCacheForGroups :: "ident list \<Rightarrow> channel_world \<Rightarrow> channel_world" where
  "invalidateAuthCacheForGroups gids w = w\<lparr>auth_invalidated := auth_invalidated w @ rev (remdups (rev gids))\<rparr>"

definition getOldGroupIDs :: "channel_env \<Rightarrow> ident \<Rightarrow> channel_world \<Rightarrow> ident list" where
  "getOldGroupIDs e i w =
     (if \<not> groups_ok e then [] else concat (map GroupIDs (filter (\<lambda>ch. ch_ID ch = i) (channels w))))"

definition Update ::
  "(PricingInterval list \<Rightarrow> PricingInterval list) \<Rightarrow> channel_env \<Rightarrow> ident \<Rightarrow> UpdateChannelInput \<Rightarrow> channel_world \<Rightarrow>
     (channel_error + Channel) \<times> channel_world" where
  "Update srt e i input w =
     (if \<not> get_ok e then (Inl ChannelDBError, w)
      else case first_match (\<lambda>x. ch_ID x = i) (channels w) of
        None \<Rightarrow> (Inl ErrChannelNotFound, w)
      | Some old \<Rightarrow>
          (case applyUpdateInput e old input w of
             Inl err \<Rightarrow> (Inl err, w)
           | Inr ch \<Rightarrow>
               (case or_else (validateChannelConfig srt (ModelPricing ch) (ModelMapping ch)) (validate_rules srt (AccountStatsPricingRules ch)) of
                  Some err \<Rightarrow> (Inl err, w)
                | None \<Rightarrow>
                    let gids = getOldGroupIDs e i w in
                    (case channel_Update (db_write_ok e) ch w of
                       (Inl err, w) \<Rightarrow> (Inl err, w)
                     | (Inr _, w) \<Rightarrow>
                         let w = invalidateAuthCacheForGroups (gids @ GroupIDs ch) (InvalidateCache e w) in (read_back e i w, w)))))"

definition Delete :: "channel_env \<Rightarrow> ident \<Rightarrow> channel_world \<Rightarrow> (channel_error + unit) \<times> channel_world" where
  "Delete e i w =
     (let gids = getOldGroupIDs e i w in
      case channel_Delete (db_write_ok e) i w of
        (Inl err, w) \<Rightarrow> (Inl err, w)
      | (Inr _, w) \<Rightarrow> (Inr (), invalidateAuthCacheForGroups gids (InvalidateCache e w)))"

text \<open>A group changes its platform (\<open>admin_group.go\<close>) and has the cache rebuilt.\<close>

definition change_platform :: "channel_env \<Rightarrow> ident \<Rightarrow> string \<Rightarrow> channel_world \<Rightarrow> channel_world" where
  "change_platform e g p w =
     (case platforms w g of
        None \<Rightarrow> w
      | Some old \<Rightarrow>
          if \<not> db_write_ok e \<or> old = p then w
          else InvalidateCache e (w\<lparr>platforms := (platforms w)(g \<mapsto> p), changes := changes w + 1\<rparr>))"

section \<open>What happens to the channels\<close>

text \<open>
  A step is a call of an administrator, a lookup that loads the cache, or half of a lookup's rebuild. Two rebuilds can overlap
  with each other and with changes: \<open>InvalidateCache\<close> lets a new one start while an old one has not stored its result.
\<close>

datatype channel_op =
    CreateChannelOp channel_env CreateChannelInput
  | UpdateChannelOp channel_env ident UpdateChannelInput
  | DeleteChannelOp channel_env ident
  | PlatformOp channel_env ident string
  | LoadOp channel_env
  | BeginBuildOp channel_env
  | FinishBuildOp channel_env nat

fun channel_step :: "(PricingInterval list \<Rightarrow> PricingInterval list) \<Rightarrow> channel_op \<Rightarrow> channel_world \<Rightarrow> channel_world" where
  "channel_step srt (CreateChannelOp e i) w = snd (Create srt e (i\<lparr>ci_ModelPricing := map fill_platform (ci_ModelPricing i)\<rparr>) w)"
| "channel_step srt (UpdateChannelOp e j i) w =
     snd (Update srt e j (i\<lparr>ui_ModelPricing := map_option (map fill_platform) (ui_ModelPricing i)\<rparr>) w)"
| "channel_step srt (DeleteChannelOp e j) w = snd (Delete e j w)"
| "channel_step srt (PlatformOp e g p) w = change_platform e g p w"
| "channel_step srt (LoadOp e) w = snd (loadCache e w)"
| "channel_step srt (BeginBuildOp e) w = begin_build e w"
| "channel_step srt (FinishBuildOp e k) w = finish_build e k w"

definition first_world :: "(ident \<rightharpoonup> string) \<Rightarrow> channel_world" where
  "first_world ps = \<lparr>channels = [], next_channel = 1, platforms = ps, cache = None, in_flight = [], auth_invalidated = [], changes = 0,
     cache_of = 0, failed_at = None\<rparr>"

definition world_after ::
  "(PricingInterval list \<Rightarrow> PricingInterval list) \<Rightarrow> (ident \<rightharpoonup> string) \<Rightarrow> channel_op list \<Rightarrow> channel_world" where
  "world_after srt ps ops = fold (channel_step srt) ops (first_world ps)"

section \<open>What the tables say\<close>

definition covers :: "modelEntry \<Rightarrow> string \<Rightarrow> bool" where
  "covers a m = (if wildcard a then HasPrefix m (prefix a) else m = prefix a)"

text \<open>A price of an active channel of the group, for the platform, with a pattern that covers the model.\<close>

definition listed_price :: "channel_world \<Rightarrow> ident \<Rightarrow> string \<Rightarrow> string \<Rightarrow> ChannelModelPricing \<Rightarrow> bool" where
  "listed_price w g pf model p =
     (\<exists>ch\<in>set (channels w). g \<in> set (GroupIDs ch) \<and> IsActive ch \<and> p \<in> set (ModelPricing ch) \<and> Platform p = pf \<and>
        isPlatformPricingMatch (read_platform (platforms w) g) pf \<and>
        (\<exists>pat\<in>set (Models p). covers (toPricingModelEntry pat) (normalizeChannelPricingModelName (ToLower model))))"


section \<open>Patterns that conflict\<close>

lemma conflicts_sym: "conflictsBetween a b = conflictsBetween b a"
  by (auto simp: conflictsBetween_def)

lemma prefixes_comparable: "HasPrefix m a \<Longrightarrow> HasPrefix m b \<Longrightarrow> HasPrefix a b \<or> HasPrefix b a"
  unfolding HasPrefix_iff by (metis append_eq_append_conv2)

lemma covers_conflict: "covers a m \<Longrightarrow> covers b m \<Longrightarrow> conflictsBetween a b"
  using prefixes_comparable [of m "prefix a" "prefix b"] by (auto simp: covers_def conflictsBetween_def split: if_splits)

lemma no_conflict_append:
  "detectConflicts (xs @ ys) \<longleftrightarrow> detectConflicts xs \<or> detectConflicts ys \<or> (\<exists>x\<in>set xs. \<exists>y\<in>set ys. conflictsBetween x y)"
  by (induction xs) (auto simp: list_ex_iff)

text \<open>In a list without conflicts at most one place covers a model.\<close>

lemma covering_unique:
  assumes "\<not> detectConflicts (concat (map f xs))" "x \<in> set xs" "y \<in> set xs" "a \<in> set (f x)" "b \<in> set (f y)" "covers a m" "covers b m"
  shows "x = y \<and> a = b"
proof -
  have one: "\<not> detectConflicts zs \<Longrightarrow> a \<in> set zs \<Longrightarrow> b \<in> set zs \<Longrightarrow> a = b" for zs
    using covers_conflict [OF assms(6,7)] conflicts_sym [of a b] by (induction zs) (auto simp: list_ex_iff)
  have "x = y"
    using assms(1-5)
  proof (induction xs)
    case (Cons z zs)
    have nc: "\<not> conflictsBetween c d" if "c \<in> set (f z)" "u \<in> set zs" "d \<in> set (f u)" for c d u
      using Cons.prems(1) that by (auto simp: no_conflict_append)
    have "\<not> (x = z \<and> y \<in> set zs)" "\<not> (y = z \<and> x \<in> set zs)"
      using nc [of a y b] nc [of b x a] covers_conflict [OF assms(6,7)] conflicts_sym [of a b] Cons.prems(4,5) by blast+
    then show ?case using Cons by (auto simp: no_conflict_append)
  qed simp
  moreover have "\<not> detectConflicts (f x)" using assms(1,2) by (induction xs) (auto simp: no_conflict_append)
  ultimately show ?thesis using one [of "f x"] assms(4,5) by blast
qed

section \<open>What a built cache holds\<close>

text \<open>
  What a map holds after a number of writes at keys, and what a map of lists holds after a number of appends: \<open>S\<close> has the
  keys and values written.
\<close>

definition written :: "('k \<rightharpoonup> 'v) \<Rightarrow> ('k \<times> 'v) set \<Rightarrow> bool" where
  "written m S = ((\<forall>k v. m k = Some v \<longrightarrow> (k, v) \<in> S) \<and> (\<forall>(k, v)\<in>S. m k \<noteq> None))"

definition appended :: "('k \<Rightarrow> 'v list) \<Rightarrow> ('k \<times> 'v) set \<Rightarrow> bool" where
  "appended f S = (\<forall>k v. v \<in> set (f k) \<longleftrightarrow> (k, v) \<in> S)"

lemma written_upd: "written m S \<Longrightarrow> written (m(k \<mapsto> v)) (insert (k, v) S)"
  by (auto simp: written_def)

lemma appended_upd: "appended f S \<Longrightarrow> appended (f(k := f k @ [v])) (insert (k, v) S)"
  by (auto simp: appended_def)

text \<open>The keys and values that a pattern of a price, and a source of a mapping, add to the two structures.\<close>

definition price_exact :: "(ident \<times> ChannelModelPricing \<times> string) set \<Rightarrow> ((ident \<times> string \<times> string) \<times> ChannelModelPricing) set" where
  "price_exact S = {((g, Platform p, prefix (toPricingModelEntry model)), p) |g p model. (g, p, model) \<in> S \<and> \<not> wildcard (toPricingModelEntry model)}"

definition price_wild :: "(ident \<times> ChannelModelPricing \<times> string) set \<Rightarrow> ((ident \<times> string) \<times> string \<times> ChannelModelPricing) set" where
  "price_wild S = {((g, Platform p), prefix (toPricingModelEntry model), p) |g p model. (g, p, model) \<in> S \<and> wildcard (toPricingModelEntry model)}"

definition mapping_exact :: "(ident \<times> string \<times> string \<times> string) set \<Rightarrow> ((ident \<times> string \<times> string) \<times> string) set" where
  "mapping_exact S = {((g, pf, prefix (toModelEntry src)), dst) |g pf src dst. (g, pf, src, dst) \<in> S \<and> \<not> wildcard (toModelEntry src)}"

definition mapping_wild :: "(ident \<times> string \<times> string \<times> string) set \<Rightarrow> ((ident \<times> string) \<times> string \<times> string) set" where
  "mapping_wild S = {((g, pf), prefix (toModelEntry src), dst) |g pf src dst. (g, pf, src, dst) \<in> S \<and> wildcard (toModelEntry src)}"

definition price_places :: "channelCache \<Rightarrow> (ident \<times> ChannelModelPricing \<times> string) set \<Rightarrow> bool" where
  "price_places c S = (written (pricingByGroupModel c) (price_exact S) \<and> appended (wildcardByGroupPlatform c) (price_wild S))"

definition mapping_places :: "channelCache \<Rightarrow> (ident \<times> string \<times> string \<times> string) set \<Rightarrow> bool" where
  "mapping_places c S = (written (mappingByGroupModel c) (mapping_exact S) \<and> appended (wildcardMappingByGP c) (mapping_wild S))"

lemma price_exact_insert: "price_exact (insert (g, p, model) S) =
    (if wildcard (toPricingModelEntry model) then price_exact S else insert ((g, Platform p, prefix (toPricingModelEntry model)), p) (price_exact S))"
  by (auto simp: price_exact_def)

lemma price_wild_insert: "price_wild (insert (g, p, model) S) =
    (if wildcard (toPricingModelEntry model) then insert ((g, Platform p), prefix (toPricingModelEntry model), p) (price_wild S) else price_wild S)"
  by (auto simp: price_wild_def)

lemma mapping_exact_insert: "mapping_exact (insert (g, pf, src, dst) S) =
    (if wildcard (toModelEntry src) then mapping_exact S else insert ((g, pf, prefix (toModelEntry src)), dst) (mapping_exact S))"
  by (auto simp: mapping_exact_def)

lemma mapping_wild_insert: "mapping_wild (insert (g, pf, src, dst) S) =
    (if wildcard (toModelEntry src) then insert ((g, pf), prefix (toModelEntry src), dst) (mapping_wild S) else mapping_wild S)"
  by (auto simp: mapping_wild_def)

lemma pricing_entry: "toPricingModelEntry model =
    (if HasSuffix model ''*'' then \<lparr>prefix = normalizeChannelPricingModelName (TrimSuffix model ''*''), wildcard = True\<rparr>
     else \<lparr>prefix = normalizeChannelPricingModelName model, wildcard = False\<rparr>)"
  by (simp add: toPricingModelEntry_def splitWildcardSuffix_def)

lemma lower_star: "lower_char c = CHR ''*'' \<longleftrightarrow> c = CHR ''*''"
proof (cases "65 \<le> (of_char c :: nat) \<and> of_char c \<le> (90 :: nat)")
  case True
  then have "(of_char (lower_char c) :: nat) \<noteq> 42" "(of_char c :: nat) \<noteq> 42" by (auto simp: lower_char_def)
  then show ?thesis by auto
qed (auto simp: lower_char_def)

lemma ToLower_star: "HasSuffix (ToLower s) ''*'' \<longleftrightarrow> HasSuffix s ''*''"
proof (cases s rule: rev_cases)
  case Nil
  then show ?thesis by (simp add: HasSuffix_def)
next
  case (snoc t c)
  then show ?thesis by (simp add: HasSuffix_def lower_star)
qed

lemma TrimSuffix_lower: "HasSuffix s ''*'' \<Longrightarrow> TrimSuffix (ToLower s) ''*'' = ToLower (TrimSuffix s ''*'')"
  by (auto simp: HasSuffix_iff) (metis TrimSuffix_append lower_star)

lemma mapping_entry: "toModelEntry src =
    (if HasSuffix src ''*'' then \<lparr>prefix = ToLower (TrimSuffix src ''*''), wildcard = True\<rparr>
     else \<lparr>prefix = ToLower src, wildcard = False\<rparr>)"
  by (simp add: toModelEntry_def splitWildcardSuffix_def ToLower_star TrimSuffix_lower)

lemma put_price_entry: "put_price g p model c =
    (let e = toPricingModelEntry model in
     if wildcard e
     then c\<lparr>wildcardByGroupPlatform := (wildcardByGroupPlatform c)((g, Platform p) := wildcardByGroupPlatform c (g, Platform p) @ [(prefix e, p)])\<rparr>
     else c\<lparr>pricingByGroupModel := (pricingByGroupModel c)((g, Platform p, prefix e) \<mapsto> p)\<rparr>)"
  by (simp add: put_price_def pricing_entry Let_def)

lemma put_mapping_entry: "put_mapping g pf (src, dst) c =
    (let e = toModelEntry src in
     if wildcard e then c\<lparr>wildcardMappingByGP := (wildcardMappingByGP c)((g, pf) := wildcardMappingByGP c (g, pf) @ [(prefix e, dst)])\<rparr>
     else c\<lparr>mappingByGroupModel := (mappingByGroupModel c)((g, pf, prefix e) \<mapsto> dst)\<rparr>)"
  by (simp add: put_mapping_def mapping_entry Let_def)

lemma put_price_places: "price_places c S \<Longrightarrow> price_places (put_price g p model c) (insert (g, p, model) S)"
  by (simp add: price_places_def put_price_entry Let_def price_exact_insert price_wild_insert written_upd appended_upd)

lemma put_mapping_places: "mapping_places c S \<Longrightarrow> mapping_places (put_mapping g pf st c) (insert (g, pf, st) S)"
  by (cases st) (simp add: mapping_places_def put_mapping_entry Let_def mapping_exact_insert mapping_wild_insert written_upd appended_upd)

text \<open>What the prices and mappings of a channel add for one of its groups.\<close>

definition price_src :: "(ident \<rightharpoonup> string) \<Rightarrow> Channel \<Rightarrow> ident \<Rightarrow> (ident \<times> ChannelModelPricing \<times> string) set" where
  "price_src ps ch g = {(g, p, model) |p model. p \<in> set (ModelPricing ch) \<and> isPlatformPricingMatch (read_platform ps g) (Platform p) \<and>
     model \<in> set (Models p)}"

definition mapping_src :: "(ident \<rightharpoonup> string) \<Rightarrow> Channel \<Rightarrow> ident \<Rightarrow> (ident \<times> string \<times> string \<times> string) set" where
  "mapping_src ps ch g = {(g, pf, st) |pf st m. pf \<in> set (matchingPlatforms (read_platform ps g)) \<and> map_of (ModelMapping ch) pf = Some m \<and>
     st \<in> set m}"

definition holds :: "channelCache \<Rightarrow> (ident \<times> ChannelModelPricing \<times> string) set \<Rightarrow> (ident \<times> string \<times> string \<times> string) set \<Rightarrow>
    (ident \<times> Channel) set \<Rightarrow> bool" where
  "holds c P M G = (price_places c P \<and> mapping_places c M \<and> written (channelByGroupID c) G)"

lemma fold_collects:
  assumes "\<And>x c S. x \<in> set xs \<Longrightarrow> I c S \<Longrightarrow> I (f x c) (S \<union> T x)" "I c S"
  shows "I (fold f xs c) (S \<union> (\<Union>x\<in>set xs. T x))"
  using assms
proof (induction xs arbitrary: c S)
  case (Cons x xs)
  have "I (fold f xs (f x c)) ((S \<union> T x) \<union> (\<Union>x\<in>set xs. T x))" using Cons by simp
  then show ?case by (simp add: Un_assoc)
qed simp

lemma put_price_holds: "holds c P M G \<Longrightarrow> holds (put_price g p model c) (P \<union> {(g, p, model)}) M G"
  using put_price_places by (auto simp: holds_def mapping_places_def put_price_def)

lemma put_mapping_holds: "holds c P M G \<Longrightarrow> holds (put_mapping g pf st c) P (M \<union> {(g, pf, st)}) G"
  using put_mapping_places by (auto simp: holds_def price_places_def put_mapping_def split: prod.splits)

lemma expand_prices_holds:
  assumes "holds c P M G"
  shows "holds (expandPricingToCache c ch g (read_platform ps g)) (P \<union> price_src ps ch g) M G"
proof -
  have one: "holds (fold (put_price g p) (Models p) c) (P \<union> (\<Union>model\<in>set (Models p). {(g, p, model)})) M G" if "holds c P M G" for c P p
    by (rule fold_collects [where I = "\<lambda>c P. holds c P M G"]) (use put_price_holds that in auto)
  have "price_src ps ch g = (\<Union>p\<in>set (ModelPricing ch). if isPlatformPricingMatch (read_platform ps g) (Platform p)
      then \<Union>model\<in>set (Models p). {(g, p, model)} else {})"
    by (auto simp: price_src_def split: if_splits)
  then show ?thesis unfolding expandPricingToCache_def
    by (simp only:) (rule fold_collects [where I = "\<lambda>c P. holds c P M G"], use one assms in auto)
qed

lemma expand_mappings_holds:
  assumes "holds c P M G"
  shows "holds (expandMappingToCache c ch g (read_platform ps g)) P (M \<union> mapping_src ps ch g) G"
proof -
  have one: "holds (fold (put_mapping g pf) m c) P (M \<union> (\<Union>st\<in>set m. {(g, pf, st)})) G" if "holds c P M G" for c M pf m
    by (rule fold_collects [where I = "\<lambda>c M. holds c P M G"]) (use put_mapping_holds that in auto)
  have "mapping_src ps ch g = (\<Union>pf\<in>set (matchingPlatforms (read_platform ps g)).
      case map_of (ModelMapping ch) pf of None \<Rightarrow> {} | Some m \<Rightarrow> \<Union>st\<in>set m. {(g, pf, st)})"
    by (auto simp: mapping_src_def split: option.splits)
  then show ?thesis unfolding expandMappingToCache_def
    by (simp only:) (rule fold_collects [where I = "\<lambda>c M. holds c P M G"], use one assms in \<open>auto split: option.splits\<close>)
qed

lemma group_written: "holds c P M G \<Longrightarrow> holds (c\<lparr>channelByGroupID := (channelByGroupID c)(g \<mapsto> ch)\<rparr>) P M (insert (g, ch) G)"
  by (simp add: holds_def price_places_def mapping_places_def written_upd)

lemma put_group_holds: "holds c P M G \<Longrightarrow>
    holds (put_group ps ch g c) (P \<union> price_src ps ch g) (M \<union> mapping_src ps ch g) (insert (g, ch) G)"
  unfolding put_group_def Let_def by (intro expand_mappings_holds expand_prices_holds group_written)

definition holds_all :: "channelCache \<Rightarrow> (ident \<rightharpoonup> string) \<Rightarrow> (ident \<times> Channel) set \<Rightarrow> bool" where
  "holds_all c ps G = holds c (\<Union>(g, ch)\<in>G. price_src ps ch g) (\<Union>(g, ch)\<in>G. mapping_src ps ch g) G"

lemma put_group_all: "holds_all c ps G \<Longrightarrow> holds_all (put_group ps ch g c) ps (G \<union> {(g, ch)})"
  using put_group_holds [of c "\<Union>(g, ch)\<in>G. price_src ps ch g" "\<Union>(g, ch)\<in>G. mapping_src ps ch g" G ps ch g]
  by (simp add: holds_all_def Un_commute)

lemma put_channel_all:
  assumes "holds_all c ps G"
  shows "holds_all (put_channel ps ch c) ps (G \<union> {(g, normalizeBillingModelSource ch) |g. g \<in> set (GroupIDs ch)})"
proof -
  let ?ch = "normalizeBillingModelSource ch"
  have "holds_all (fold (put_group ps ?ch) (GroupIDs ?ch) c) ps (G \<union> (\<Union>g\<in>set (GroupIDs ?ch). {(g, ?ch)}))"
    by (rule fold_collects [where I = "\<lambda>c G. holds_all c ps G"]) (use put_group_all assms in auto)
  moreover have "(\<Union>g\<in>set (GroupIDs ?ch). {(g, ?ch)}) = {(g, ?ch) |g. g \<in> set (GroupIDs ch)}"
    by (auto simp: normalizeBillingModelSource_def)
  ultimately show ?thesis by (simp add: put_channel_def Let_def)
qed

lemma populated: "holds_all (populateChannelCache chs ps now) ps
    {(g, normalizeBillingModelSource ch) |g ch. ch \<in> set chs \<and> g \<in> set (GroupIDs ch)}"
proof -
  let ?c0 = "newEmptyChannelCache\<lparr>groupPlatform := ps, loadedAt := now\<rparr>"
  have start: "holds_all ?c0 ps {}"
    by (simp add: holds_all_def holds_def price_places_def mapping_places_def written_def appended_def newEmptyChannelCache_def
      price_exact_def price_wild_def mapping_exact_def mapping_wild_def)
  have "holds_all (populateChannelCache chs ps now) ps
      ({} \<union> (\<Union>ch\<in>set chs. {(g, normalizeBillingModelSource ch) |g. g \<in> set (GroupIDs ch)}))"
    unfolding populateChannelCache_def
    by (rule fold_collects [where I = "\<lambda>c G. holds_all c ps G", OF put_channel_all start])
  moreover have "{} \<union> (\<Union>ch\<in>set chs. {(g, normalizeBillingModelSource ch) |g. g \<in> set (GroupIDs ch)}) =
      {(g, normalizeBillingModelSource ch) |g ch. ch \<in> set chs \<and> g \<in> set (GroupIDs ch)}" by blast
  ultimately show ?thesis by simp
qed

lemma fold_keeps: "(\<And>x c. x \<in> set xs \<Longrightarrow> h (f x c) = h c) \<Longrightarrow> h (fold f xs c) = h c"
  by (induction xs arbitrary: c) auto

lemma put_price_fields [simp]: "groupPlatform (put_price g p m c) = groupPlatform c" "loadedAt (put_price g p m c) = loadedAt c"
  by (simp_all add: put_price_def)

lemma put_mapping_fields [simp]: "groupPlatform (put_mapping g pf st c) = groupPlatform c" "loadedAt (put_mapping g pf st c) = loadedAt c"
  by (simp_all add: put_mapping_def split: prod.splits)

lemma fold_put_price [simp]:
  "groupPlatform (fold (put_price g p) ms c) = groupPlatform c" "loadedAt (fold (put_price g p) ms c) = loadedAt c"
  by (rule fold_keeps, simp)+

lemma fold_put_mapping [simp]:
  "groupPlatform (fold (put_mapping g pf) ms c) = groupPlatform c" "loadedAt (fold (put_mapping g pf) ms c) = loadedAt c"
  by (rule fold_keeps, simp)+

lemma expand_fields [simp]:
  "groupPlatform (expandPricingToCache c ch g pf) = groupPlatform c" "loadedAt (expandPricingToCache c ch g pf) = loadedAt c"
  "groupPlatform (expandMappingToCache c ch g pf) = groupPlatform c" "loadedAt (expandMappingToCache c ch g pf) = loadedAt c"
  unfolding expandPricingToCache_def expandMappingToCache_def by (rule fold_keeps, simp split: option.split)+

lemma put_channel_fields [simp]:
  "groupPlatform (put_channel ps ch c) = groupPlatform c" "loadedAt (put_channel ps ch c) = loadedAt c"
  unfolding put_channel_def Let_def by (rule fold_keeps, simp add: put_group_def Let_def)+

lemma populated_fields:
  "groupPlatform (populateChannelCache chs ps now) = ps" "loadedAt (populateChannelCache chs ps now) = now"
proof -
  let ?c0 = "newEmptyChannelCache\<lparr>groupPlatform := ps, loadedAt := now\<rparr>"
  have "groupPlatform (fold (put_channel ps) chs ?c0) = groupPlatform ?c0" "loadedAt (fold (put_channel ps) chs ?c0) = loadedAt ?c0"
    by (rule fold_keeps, simp)+
  then show "groupPlatform (populateChannelCache chs ps now) = ps" "loadedAt (populateChannelCache chs ps now) = now"
    by (simp_all add: populateChannelCache_def)
qed

section \<open>A lookup in a built cache\<close>

definition price_match :: "(ident \<rightharpoonup> string) \<Rightarrow> Channel \<Rightarrow> ident \<Rightarrow> string \<Rightarrow> string \<Rightarrow> ChannelModelPricing \<Rightarrow> bool" where
  "price_match ps ch g pf m p = (p \<in> set (ModelPricing ch) \<and> Platform p = pf \<and> isPlatformPricingMatch (read_platform ps g) pf \<and>
     (\<exists>pat\<in>set (Models p). covers (toPricingModelEntry pat) m))"

definition mapping_match :: "(ident \<rightharpoonup> string) \<Rightarrow> Channel \<Rightarrow> ident \<Rightarrow> string \<Rightarrow> string \<Rightarrow> string \<Rightarrow> bool" where
  "mapping_match ps ch g pf m t = (pf \<in> set (matchingPlatforms (read_platform ps g)) \<and>
     (case map_of (ModelMapping ch) pf of None \<Rightarrow> False | Some mm \<Rightarrow> \<exists>(src, dst)\<in>set mm. dst = t \<and> covers (toModelEntry src) m))"

lemma price_match_unique:
  assumes "\<not> detectConflicts (platform_entries pf (ModelPricing ch))" "price_match ps ch g pf m p" "price_match ps ch g pf m q"
  shows "p = q"
proof -
  obtain a b where ab: "a \<in> set (Models p)" "covers (toPricingModelEntry a) m" "b \<in> set (Models q)" "covers (toPricingModelEntry b) m"
    using assms(2,3) by (auto simp: price_match_def)
  have "p \<in> set (filter (\<lambda>p. Platform p = pf) (ModelPricing ch))" "q \<in> set (filter (\<lambda>p. Platform p = pf) (ModelPricing ch))"
    using assms(2,3) by (simp_all add: price_match_def)
  moreover have "toPricingModelEntry a \<in> set (map toPricingModelEntry (Models p))" "toPricingModelEntry b \<in> set (map toPricingModelEntry (Models q))"
    using ab by simp_all
  ultimately show ?thesis
    using covering_unique [of "\<lambda>p. map toPricingModelEntry (Models p)" "filter (\<lambda>p. Platform p = pf) (ModelPricing ch)" p q] assms(1) ab(2,4)
    unfolding platform_entries_def by blast
qed

lemma mapping_match_unique:
  assumes "\<And>mm. map_of (ModelMapping ch) pf = Some mm \<Longrightarrow> \<not> detectConflicts (map (toModelEntry \<circ> fst) mm)"
    "mapping_match ps ch g pf m t" "mapping_match ps ch g pf m u"
  shows "t = u"
proof -
  obtain mm where mm: "map_of (ModelMapping ch) pf = Some mm" using assms(2) by (auto simp: mapping_match_def split: option.splits)
  obtain s s' where s: "(s, t) \<in> set mm" "covers (toModelEntry s) m" "(s', u) \<in> set mm" "covers (toModelEntry s') m"
    using assms(2,3) mm by (auto simp: mapping_match_def)
  have "map (toModelEntry \<circ> fst) mm = concat (map (\<lambda>x. [toModelEntry (fst x)]) mm)" by (induction mm) auto
  then show ?thesis
    using covering_unique [of "\<lambda>x. [toModelEntry (fst x)]" mm "(s, t)" "(s', u)" "toModelEntry s" "toModelEntry s'" m] assms(1) [OF mm] s
    by (simp add: comp_def)
qed

lemma first_some_one [simp]: "first_some f [x] = f x"
  by (simp split: option.split)

text \<open>A lookup first in the exact entries, then in the wildcards, that finds only matches and misses none.\<close>

lemma two_stage_lookup:
  assumes exact: "\<And>x. e = Some x \<Longrightarrow> match x" and found: "\<And>x. match x \<Longrightarrow> e = None \<Longrightarrow> \<exists>pre. (pre, x) \<in> set ws \<and> HasPrefix m pre"
    and wild: "\<And>pre x. (pre, x) \<in> set ws \<Longrightarrow> HasPrefix m pre \<Longrightarrow> match x"
    and one: "\<And>x y. match x \<Longrightarrow> match y \<Longrightarrow> x = y"
  shows "(case e of Some x \<Rightarrow> Some x | None \<Rightarrow> map_option snd (first_match (\<lambda>(pre, x). HasPrefix m pre) ws)) = Some x \<longleftrightarrow> match x"
proof (cases e)
  case (Some y)
  then show ?thesis using exact one by auto
next
  case None
  show ?thesis
  proof (cases "first_match (\<lambda>(pre, x). HasPrefix m pre) ws")
    case None
    then have "\<not> match x" using found [OF _ \<open>e = None\<close>, of x] by (auto simp: first_match_None_iff)
    then show ?thesis using None \<open>e = None\<close> by simp
  next
    case (Some y)
    then have "match (snd y)" using first_match_SomeD [OF Some] wild by (cases y) auto
    then show ?thesis using Some \<open>e = None\<close> one by auto
  qed
qed

definition one_channel :: "(ident \<times> Channel) set \<Rightarrow> ident \<Rightarrow> Channel \<Rightarrow> bool" where
  "one_channel G g ch = (\<forall>ch'. (g, ch') \<in> G \<longleftrightarrow> ch' = ch)"

lemma one_channel_src:
  assumes "one_channel G g ch"
  shows "(g, p, model) \<in> (\<Union>(g, ch)\<in>G. price_src ps ch g) \<longleftrightarrow> (g, p, model) \<in> price_src ps ch g"
    "(g, pf, st) \<in> (\<Union>(g, ch)\<in>G. mapping_src ps ch g) \<longleftrightarrow> (g, pf, st) \<in> mapping_src ps ch g"
proof -
  have UN: "(g, x) \<in> (\<Union>(g, ch)\<in>G. f ch g) \<longleftrightarrow> (g, x) \<in> f ch g" if "\<And>g' ch'. (g, x) \<in> f ch' g' \<Longrightarrow> g' = g" for x :: 'x and f
  proof
    assume "(g, x) \<in> (\<Union>(g, ch)\<in>G. f ch g)"
    then obtain g' ch' where "(g', ch') \<in> G" "(g, x) \<in> f ch' g'" by blast
    then show "(g, x) \<in> f ch g" using assms that [of ch' g'] by (simp add: one_channel_def)
  next
    have "(g, ch) \<in> G" using assms by (simp add: one_channel_def)
    then show "(g, x) \<in> f ch g \<Longrightarrow> (g, x) \<in> (\<Union>(g, ch)\<in>G. f ch g)" by blast
  qed
  show "(g, p, model) \<in> (\<Union>(g, ch)\<in>G. price_src ps ch g) \<longleftrightarrow> (g, p, model) \<in> price_src ps ch g"
    by (rule UN) (simp add: price_src_def)
  show "(g, pf, st) \<in> (\<Union>(g, ch)\<in>G. mapping_src ps ch g) \<longleftrightarrow> (g, pf, st) \<in> mapping_src ps ch g"
    by (rule UN) (auto simp: mapping_src_def)
qed

lemma entry_eq: "e = \<lparr>prefix = m, wildcard = b\<rparr> \<longleftrightarrow> prefix e = m \<and> wildcard e = b"
  by (cases e) auto

lemma price_exact_iff: "((g, pf, m), q) \<in> price_exact S \<longleftrightarrow>
    (\<exists>pat. (g, q, pat) \<in> S \<and> Platform q = pf \<and> toPricingModelEntry pat = \<lparr>prefix = m, wildcard = False\<rparr>)"
  unfolding price_exact_def entry_eq by blast

lemma price_wild_iff: "((g, pf), pre, q) \<in> price_wild S \<longleftrightarrow>
    (\<exists>pat. (g, q, pat) \<in> S \<and> Platform q = pf \<and> toPricingModelEntry pat = \<lparr>prefix = pre, wildcard = True\<rparr>)"
  unfolding price_wild_def entry_eq by blast

lemma mapping_exact_iff: "((g, pf, m), t) \<in> mapping_exact S \<longleftrightarrow>
    (\<exists>src. (g, pf, src, t) \<in> S \<and> toModelEntry src = \<lparr>prefix = m, wildcard = False\<rparr>)"
  unfolding mapping_exact_def entry_eq by blast

lemma mapping_wild_iff: "((g, pf), pre, t) \<in> mapping_wild S \<longleftrightarrow>
    (\<exists>src. (g, pf, src, t) \<in> S \<and> toModelEntry src = \<lparr>prefix = pre, wildcard = True\<rparr>)"
  unfolding mapping_wild_def entry_eq by blast

lemma built_price_lookup:
  assumes c: "holds_all c ps G" and g: "one_channel G g ch" and pf: "pf \<noteq> PlatformComposite"
    and v: "\<not> detectConflicts (platform_entries pf (ModelPricing ch))"
  shows "lookupPricingAcrossPlatforms c g pf model = Some p \<longleftrightarrow> price_match ps ch g pf (normalizeChannelPricingModelName model) p"
proof -
  let ?m = "normalizeChannelPricingModelName model" and ?P = "\<Union>(g, ch)\<in>G. price_src ps ch g"
  let ?match = "price_match ps ch g pf ?m"
  have P: "written (pricingByGroupModel c) (price_exact ?P)" "appended (wildcardByGroupPlatform c) (price_wild ?P)"
    using c by (simp_all add: holds_all_def holds_def price_places_def)
  note src = one_channel_src(1) [OF g]
  have E: "((g, pf, m), q) \<in> price_exact ?P \<longleftrightarrow> (\<exists>pat. (g, q, pat) \<in> price_src ps ch g \<and> Platform q = pf \<and>
      toPricingModelEntry pat = \<lparr>prefix = m, wildcard = False\<rparr>)" for m q
    unfolding price_exact_iff src ..
  have W: "((g, pf), pre, q) \<in> price_wild ?P \<longleftrightarrow> (\<exists>pat. (g, q, pat) \<in> price_src ps ch g \<and> Platform q = pf \<and>
      toPricingModelEntry pat = \<lparr>prefix = pre, wildcard = True\<rparr>)" for pre q
    unfolding price_wild_iff src ..
  have "(case pricingByGroupModel c (g, pf, ?m) of Some x \<Rightarrow> Some x
      | None \<Rightarrow> map_option snd (first_match (\<lambda>(pre, x). HasPrefix ?m pre) (wildcardByGroupPlatform c (g, pf)))) = Some p \<longleftrightarrow> ?match p"
  proof (rule two_stage_lookup)
    fix x assume "pricingByGroupModel c (g, pf, ?m) = Some x"
    then have "((g, pf, ?m), x) \<in> price_exact ?P" using P(1) by (simp add: written_def)
    then show "?match x" unfolding E by (auto simp: price_src_def price_match_def covers_def intro!: bexI)
  next
    fix x assume x: "?match x" and n: "pricingByGroupModel c (g, pf, ?m) = None"
    then obtain pat where pat: "(g, x, pat) \<in> price_src ps ch g" "covers (toPricingModelEntry pat) ?m" "Platform x = pf"
      by (auto simp: price_match_def price_src_def)
    obtain pre b where e: "toPricingModelEntry pat = \<lparr>prefix = pre, wildcard = b\<rparr>" by (cases "toPricingModelEntry pat")
    have "b" using n P(1) pat e E [of ?m x] by (cases b) (auto simp: written_def covers_def)
    then show "\<exists>pre. (pre, x) \<in> set (wildcardByGroupPlatform c (g, pf)) \<and> HasPrefix ?m pre"
      using P(2) pat e W [of pre x] by (auto simp: appended_def covers_def)
  next
    fix pre x assume "(pre, x) \<in> set (wildcardByGroupPlatform c (g, pf))" "HasPrefix ?m pre"
    then show "?match x" using P(2) W [of pre x] by (auto simp: appended_def price_src_def price_match_def covers_def intro!: bexI)
  qed (use price_match_unique [OF v] in blast)
  then show ?thesis using pf
    by (cases "pricingByGroupModel c (g, pf, ?m)")
      (simp_all add: lookupPricingAcrossPlatforms_def Let_def matchingPlatforms_def matchWildcard_def del: first_some.simps)
qed

lemma built_mapping_lookup:
  assumes c: "holds_all c ps G" and g: "one_channel G g ch" and pf: "pf \<noteq> PlatformComposite"
    and v: "\<And>mm. map_of (ModelMapping ch) pf = Some mm \<Longrightarrow> \<not> detectConflicts (map (toModelEntry \<circ> fst) mm)"
  shows "lookupMappingAcrossPlatforms c g pf (ToLower model) = t \<and> t \<noteq> [] \<longleftrightarrow> mapping_match ps ch g pf (ToLower model) t \<and> t \<noteq> []"
proof -
  let ?m = "ToLower model" and ?M = "\<Union>(g, ch)\<in>G. mapping_src ps ch g"
  let ?match = "mapping_match ps ch g pf ?m"
  let ?found = "case mappingByGroupModel c (g, pf, ?m) of Some x \<Rightarrow> Some x
      | None \<Rightarrow> map_option snd (first_match (\<lambda>(pre, x). HasPrefix ?m pre) (wildcardMappingByGP c (g, pf)))"
  have M: "written (mappingByGroupModel c) (mapping_exact ?M)" "appended (wildcardMappingByGP c) (mapping_wild ?M)"
    using c by (simp_all add: holds_all_def holds_def mapping_places_def)
  note src = one_channel_src(2) [OF g]
  have E: "((g, pf, m), q) \<in> mapping_exact ?M \<longleftrightarrow> (\<exists>src. (g, pf, src, q) \<in> mapping_src ps ch g \<and>
      toModelEntry src = \<lparr>prefix = m, wildcard = False\<rparr>)" for m q
    unfolding mapping_exact_iff src ..
  have W: "((g, pf), pre, q) \<in> mapping_wild ?M \<longleftrightarrow> (\<exists>src. (g, pf, src, q) \<in> mapping_src ps ch g \<and>
      toModelEntry src = \<lparr>prefix = pre, wildcard = True\<rparr>)" for pre q
    unfolding mapping_wild_iff src ..
  have match: "?match x \<longleftrightarrow> (\<exists>src. (g, pf, src, x) \<in> mapping_src ps ch g \<and> covers (toModelEntry src) ?m)" for x
    by (auto simp: mapping_match_def mapping_src_def split: option.splits)
  have "?found = Some t \<longleftrightarrow> ?match t"
  proof (rule two_stage_lookup)
    fix x assume "mappingByGroupModel c (g, pf, ?m) = Some x"
    then have "((g, pf, ?m), x) \<in> mapping_exact ?M" using M(1) by (simp add: written_def)
    then show "?match x" unfolding E match by (auto simp: covers_def)
  next
    fix x assume x: "?match x" and n: "mappingByGroupModel c (g, pf, ?m) = None"
    then obtain s where s: "(g, pf, s, x) \<in> mapping_src ps ch g" "covers (toModelEntry s) ?m" unfolding match by blast
    obtain pre b where e: "toModelEntry s = \<lparr>prefix = pre, wildcard = b\<rparr>" by (cases "toModelEntry s")
    have "b" using n M(1) s e E [of ?m x] by (cases b) (auto simp: written_def covers_def)
    then show "\<exists>pre. (pre, x) \<in> set (wildcardMappingByGP c (g, pf)) \<and> HasPrefix ?m pre"
      using M(2) s e W [of pre x] by (auto simp: appended_def covers_def)
  next
    fix pre x assume "(pre, x) \<in> set (wildcardMappingByGP c (g, pf))" "HasPrefix ?m pre"
    then show "?match x" using M(2) W [of pre x] unfolding match by (auto simp: appended_def covers_def)
  qed (use mapping_match_unique [OF v] in blast)
  moreover have "lookupMappingAcrossPlatforms c g pf ?m = (case ?found of None \<Rightarrow> [] | Some t \<Rightarrow> t)"
    using pf by (cases "mappingByGroupModel c (g, pf, ?m)")
      (auto simp: lookupMappingAcrossPlatforms_def matchingPlatforms_def matchWildcardMapping_def Let_def simp del: first_some.simps
        split: option.splits prod.splits)
  ultimately show ?thesis by (auto split: option.splits)
qed

section \<open>The tables stay valid\<close>

definition valid_channel :: "Channel \<Rightarrow> bool" where
  "valid_channel ch = (validateNoConflictingModels (ModelPricing ch) = None \<and> validateNoConflictingMappings (ModelMapping ch) = None \<and>
     (\<forall>p\<in>set (ModelPricing ch). Platform p \<noteq> []))"

definition valid_channels :: "channel_world \<Rightarrow> bool" where
  "valid_channels w = ((\<forall>ch\<in>set (channels w). valid_channel ch \<and> ch_ID ch < next_channel w) \<and> distinct (map ch_ID (channels w)) \<and>
     distinct (map Name (channels w)) \<and>
     (\<forall>x\<in>set (channels w). distinct (GroupIDs x) \<and> (\<forall>y\<in>set (channels w). ch_ID x \<noteq> ch_ID y \<longrightarrow> (\<forall>g\<in>set (GroupIDs x). g \<notin> set (GroupIDs y)))))"

lemma valid_channelsI:
  assumes "\<And>x. x \<in> set (channels w) \<Longrightarrow> valid_channel x \<and> ch_ID x < next_channel w \<and> distinct (GroupIDs x)"
    "distinct (map ch_ID (channels w))" "distinct (map Name (channels w))"
    "\<And>x y g. x \<in> set (channels w) \<Longrightarrow> y \<in> set (channels w) \<Longrightarrow> g \<in> set (GroupIDs x) \<Longrightarrow> g \<in> set (GroupIDs y) \<Longrightarrow> ch_ID x = ch_ID y"
  shows "valid_channels w"
  unfolding valid_channels_def using assms by blast

lemma valid_channelsD:
  assumes "valid_channels w"
  shows "x \<in> set (channels w) \<Longrightarrow> valid_channel x \<and> ch_ID x < next_channel w \<and> distinct (GroupIDs x)"
    "distinct (map ch_ID (channels w))" "distinct (map Name (channels w))"
    "x \<in> set (channels w) \<Longrightarrow> y \<in> set (channels w) \<Longrightarrow> g \<in> set (GroupIDs x) \<Longrightarrow> g \<in> set (GroupIDs y) \<Longrightarrow> ch_ID x = ch_ID y"
  using assms unfolding valid_channels_def by blast+

lemma valid_price_entries: "valid_channel ch \<Longrightarrow> \<not> detectConflicts (platform_entries pf (ModelPricing ch))"
proof (cases "\<exists>p\<in>set (ModelPricing ch). Platform p = pf")
  case True
  then show "valid_channel ch \<Longrightarrow> ?thesis" by (auto simp: valid_channel_def validateNoConflictingModels_def list_ex_iff split: if_splits)
next
  case False
  then have "filter (\<lambda>p. Platform p = pf) (ModelPricing ch) = []" by (simp add: filter_empty_conv)
  then show ?thesis by (simp add: platform_entries_def)
qed

lemma valid_mapping_entries:
  "valid_channel ch \<Longrightarrow> map_of (ModelMapping ch) pf = Some mm \<Longrightarrow> \<not> detectConflicts (map (toModelEntry \<circ> fst) mm)"
  by (auto simp: valid_channel_def validateNoConflictingMappings_def list_ex_iff split: if_splits dest!: map_of_SomeD)

lemma or_else_None [simp]: "or_else a b = None \<longleftrightarrow> a = None \<and> b = None"
  by (auto simp: or_else_def split: option.splits)

lemma validated: "validateChannelConfig srt ps mm = None \<Longrightarrow> validateNoConflictingModels ps = None \<and> validateNoConflictingMappings mm = None"
  by (simp add: validateChannelConfig_def validatePricingEntries_def)

lemma stored_valid:
  assumes "validateNoConflictingModels (ModelPricing ch) = None" "validateNoConflictingMappings (ModelMapping ch) = None"
    "\<forall>p\<in>set (ModelPricing ch). Platform p \<noteq> []"
  shows "valid_channel (stored_channel ch)"
proof -
  have "platform_entries pf (map stored_pricing ps) = platform_entries pf ps" if "\<forall>p\<in>set ps. Platform p \<noteq> []" for pf ps
    using that by (induction ps) (simp_all add: platform_entries_def stored_pricing_def)
  then have "validateNoConflictingModels (map stored_pricing ps) = validateNoConflictingModels ps" if "\<forall>p\<in>set ps. Platform p \<noteq> []" for ps
    using that by (simp add: validateNoConflictingModels_def list_ex_iff stored_pricing_def)
  then show ?thesis using assms by (auto simp: valid_channel_def stored_channel_def stored_pricing_def)
qed

lemma stored_fields [simp]: "ch_ID (stored_channel ch) = ch_ID ch" "Name (stored_channel ch) = Name ch"
  "set (GroupIDs (stored_channel ch)) = set (GroupIDs ch)" "distinct (GroupIDs (stored_channel ch)) = distinct (GroupIDs ch)"
  by (simp_all add: stored_channel_def)

lemma groups_unique_iff: "groups_unique i gids chs \<longleftrightarrow>
    distinct gids \<and> (\<forall>x\<in>set chs. ch_ID x \<noteq> i \<longrightarrow> (\<forall>g\<in>set (GroupIDs x). g \<notin> set gids))"
proof -
  have "GetGroupsInOtherChannels i gids chs = [] \<longleftrightarrow> (\<forall>x\<in>set chs. ch_ID x \<noteq> i \<longrightarrow> (\<forall>g\<in>set (GroupIDs x). g \<notin> set gids))"
    by (induction chs) (auto simp: GetGroupsInOtherChannels_def filter_empty_conv)
  then show ?thesis by (simp add: groups_unique_def)
qed

lemma create_valid:
  assumes w: "valid_channels w" and ch: "valid_channel (stored_channel ch)"
  shows "valid_channels (snd (channel_Create ok ch w))"
proof (cases "ok \<and> Name ch \<notin> Name ` set (channels w) \<and> groups_unique (next_channel w) (GroupIDs ch) (channels w)")
  case True
  let ?r = "stored_channel (ch\<lparr>ch_ID := next_channel w\<rparr>)"
  have r: "valid_channel ?r" "ch_ID ?r = next_channel w" "Name ?r = Name ch" "set (GroupIDs ?r) = set (GroupIDs ch)" "distinct (GroupIDs ?r)"
    using ch True by (simp_all add: valid_channel_def stored_channel_def groups_unique_iff)
  have fresh: "ch_ID x \<noteq> next_channel w" "ch_ID x < next_channel w + 1" if "x \<in> set (channels w)" for x
    using w that by (fastforce simp: valid_channels_def)+
  have g: "\<forall>x\<in>set (channels w). \<forall>g\<in>set (GroupIDs x). g \<notin> set (GroupIDs ch)" using True fresh(1) by (simp add: groups_unique_iff)
  have "snd (channel_Create ok ch w) = w\<lparr>channels := channels w @ [?r], next_channel := next_channel w + 1, changes := changes w + 1\<rparr>"
    using True by (simp add: channel_Create_def Let_def)
  moreover have "valid_channels (w\<lparr>channels := channels w @ [?r], next_channel := next_channel w + 1, changes := changes w + 1\<rparr>)"
  proof (rule valid_channelsI, goal_cases)
    case (1 x)
    then show ?case using r fresh valid_channelsD(1) [OF w] by auto
  next
    case 2
    have "next_channel w \<notin> ch_ID ` set (channels w)" using fresh(1) by (metis imageE)
    then show ?case using r(2) valid_channelsD(2) [OF w] by simp
  next
    case 3
    then show ?case using r(3) True valid_channelsD(3) [OF w] by auto
  next
    case (4 x y k)
    then consider "x \<in> set (channels w)" "y \<in> set (channels w)" | "x = ?r" "y = ?r" using g r(4) by auto
    then show ?case using 4 valid_channelsD(4) [OF w, of x y k] by cases auto
  qed
  ultimately show ?thesis by simp
qed (use w in \<open>auto simp: channel_Create_def Let_def\<close>)

lemma distinct_replaced:
  assumes "distinct (map ch_ID xs)" "distinct (map Name xs)" "\<forall>x\<in>set xs. ch_ID x \<noteq> ch_ID ch \<longrightarrow> Name x \<noteq> Name ch"
  shows "distinct (map Name (map (\<lambda>x. if ch_ID x = ch_ID ch then ch else x) xs))"
  using assms by (induction xs) (auto simp: image_iff)

lemma update_valid:
  assumes "valid_channels w" "valid_channel (stored_channel ch)"
  shows "valid_channels (snd (channel_Update ok ch w))"
proof (cases "ok \<and> \<not> (\<exists>x\<in>set (channels w). ch_ID x \<noteq> ch_ID ch \<and> Name x = Name ch) \<and> ch_ID ch \<in> ch_ID ` set (channels w) \<and>
    groups_unique (ch_ID ch) (GroupIDs ch) (channels w)")
  case True
  let ?new = "map (\<lambda>x. if ch_ID x = ch_ID ch then stored_channel ch else x) (channels w)"
  have rows: "x = stored_channel ch \<or> x \<in> set (channels w) \<and> ch_ID x \<noteq> ch_ID ch" if "x \<in> set ?new" for x
    using that by (auto split: if_splits)
  have g: "distinct (GroupIDs ch)" "\<forall>x\<in>set (channels w). ch_ID x \<noteq> ch_ID ch \<longrightarrow> (\<forall>g\<in>set (GroupIDs x). g \<notin> set (GroupIDs ch))"
    using True by (auto simp: groups_unique_iff)
  obtain x0 where "x0 \<in> set (channels w)" "ch_ID x0 = ch_ID ch" using True by (metis imageE)
  then have old: "ch_ID ch < next_channel w" using valid_channelsD(1) [OF assms(1), of x0] by simp
  have "snd (channel_Update ok ch w) = w\<lparr>channels := ?new, changes := changes w + 1\<rparr>"
    unfolding channel_Update_def using True by simp blast
  moreover have "valid_channels (w\<lparr>channels := ?new, changes := changes w + 1\<rparr>)"
  proof (rule valid_channelsI, goal_cases)
    case (1 x)
    then have "x \<in> set ?new" by simp
    from rows [OF this] show ?case
    proof
      assume "x = stored_channel ch"
      then show ?case using assms(2) g(1) old by simp
    next
      assume "x \<in> set (channels w) \<and> ch_ID x \<noteq> ch_ID ch"
      then show ?case using valid_channelsD(1) [OF assms(1), of x] by simp
    qed
  next
    case 2
    have "map ch_ID ?new = map ch_ID (channels w)" by simp
    then show ?case using valid_channelsD(2) [OF assms(1)] by (simp del: map_map)
  next
    case 3
    have "\<forall>x\<in>set (channels w). ch_ID x \<noteq> ch_ID (stored_channel ch) \<longrightarrow> Name x \<noteq> Name (stored_channel ch)" using True by auto
    then have "distinct (map Name ?new)" using distinct_replaced [OF valid_channelsD(2,3) [OF assms(1)], of "stored_channel ch"] by simp
    then show ?case by (simp del: map_map)
  next
    case (4 x y k)
    then have "x \<in> set ?new" "y \<in> set ?new" by simp_all
    then consider "x = stored_channel ch" "y = stored_channel ch" | "x \<in> set (channels w)" "y \<in> set (channels w)"
      using rows [of x] rows [of y] g(2) 4(3,4) by auto
    then show ?case using 4 valid_channelsD(4) [OF assms(1), of x y k] by cases auto
  qed
  ultimately show ?thesis by simp
next
  case False
  then have "snd (channel_Update ok ch w) = w" by (auto simp: channel_Update_def)
  then show ?thesis using assms(1) by simp
qed

lemma delete_valid: "valid_channels w \<Longrightarrow> valid_channels (snd (channel_Delete ok i w))"
  by (auto simp: channel_Delete_def valid_channels_def distinct_map_filter)

section \<open>The cache follows the tables\<close>

definition table_platforms :: "channel_world \<Rightarrow> (ident \<rightharpoonup> string)" where
  "table_platforms w = GetGroupPlatforms (concat (map GroupIDs (channels w))) w"

definition built :: "channel_world \<Rightarrow> channelCache \<Rightarrow> bool" where
  "built w c = (\<exists>now. c = populateChannelCache (channels w) (table_platforms w) now)"

text \<open>The empty cache that a failed read leaves for five seconds.\<close>

definition failed_cache :: "channel_world \<Rightarrow> channelCache \<Rightarrow> bool" where
  "failed_cache w c = (\<exists>t. failed_at w = Some t \<and> c = newEmptyChannelCache\<lparr>loadedAt := t - (channelCacheTTL - channelErrorTTL)\<rparr>)"

definition channel_inv :: "channel_world \<Rightarrow> bool" where
  "channel_inv w = (valid_channels w \<and> cache_of w \<le> changes w \<and>
     (\<forall>c. cache w = Some c \<longrightarrow> cache_of w = changes w \<longrightarrow> built w c \<or> failed_cache w c) \<and>
     (\<forall>c v. Some (c, v) \<in> set (in_flight w) \<longrightarrow> v \<le> changes w \<and> (v = changes w \<longrightarrow> built w c)))"

lemma fetched: "fetchChannelData e w = Some (chs, gp) \<Longrightarrow> chs = channels w \<and> gp = table_platforms w"
  by (auto simp: fetchChannelData_def table_platforms_def GetGroupPlatforms_def Let_def restrict_map_def split: if_splits)

lemma built_frame [simp]:
  "built (w\<lparr>cache := x0\<rparr>) c = built w c"
  "built (w\<lparr>in_flight := x1\<rparr>) c = built w c"
  "built (w\<lparr>auth_invalidated := x2\<rparr>) c = built w c"
  "built (w\<lparr>changes := x3\<rparr>) c = built w c"
  "built (w\<lparr>cache_of := x4\<rparr>) c = built w c"
  "built (w\<lparr>failed_at := x5\<rparr>) c = built w c"
  by (simp_all add: built_def table_platforms_def GetGroupPlatforms_def)

lemma valid_frame [simp]:
  "valid_channels (w\<lparr>cache := x0\<rparr>) = valid_channels w"
  "valid_channels (w\<lparr>in_flight := x1\<rparr>) = valid_channels w"
  "valid_channels (w\<lparr>auth_invalidated := x2\<rparr>) = valid_channels w"
  "valid_channels (w\<lparr>changes := x3\<rparr>) = valid_channels w"
  "valid_channels (w\<lparr>cache_of := x4\<rparr>) = valid_channels w"
  "valid_channels (w\<lparr>failed_at := x5\<rparr>) = valid_channels w"
  by (simp_all add: valid_channels_def)

lemma failed_frame [simp]:
  "failed_cache (w\<lparr>cache := x0\<rparr>) c = failed_cache w c"
  "failed_cache (w\<lparr>in_flight := x1\<rparr>) c = failed_cache w c"
  "failed_cache (w\<lparr>auth_invalidated := x2\<rparr>) c = failed_cache w c"
  "failed_cache (w\<lparr>changes := x3\<rparr>) c = failed_cache w c"
  "failed_cache (w\<lparr>cache_of := x4\<rparr>) c = failed_cache w c"
  by (simp_all add: failed_cache_def)

lemma error_cache_inv: "channel_inv w \<Longrightarrow> channel_inv (storeErrorCache now w)"
  unfolding channel_inv_def
  by (simp add: storeErrorCache_def failed_cache_def)

lemma build_inv: "channel_inv w \<Longrightarrow> channel_inv (snd (buildCache e w))"
proof (cases "fetchChannelData e w")
  case None
  then show "channel_inv w \<Longrightarrow> ?thesis" by (simp add: buildCache_def error_cache_inv)
next
  case (Some x)
  assume w: "channel_inv w"
  obtain chs gp where x: "x = (chs, gp)" by (cases x)
  have b: "built w (populateChannelCache chs gp (clock e))" using fetched [of e w] Some x by (auto simp: built_def)
  then show ?thesis using w Some x
    unfolding channel_inv_def by (simp add: buildCache_def Let_def)
qed

text \<open>A change of the tables, with the rebuild that follows it.\<close>

lemma change_inv:
  assumes w: "channel_inv w" and v: "valid_channels w'" and c: "changes w' = changes w + 1" "cache_of w' = cache_of w" "in_flight w' = in_flight w"
  shows "channel_inv (InvalidateCache e w')"
proof -
  have "channel_inv (w'\<lparr>cache := None\<rparr>)"
    unfolding channel_inv_def using w v c by (fastforce simp: channel_inv_def)
  then show ?thesis by (simp add: InvalidateCache_def build_inv)
qed

lemma auth_inv: "channel_inv (invalidateAuthCacheForGroups gids w) = channel_inv w"
  by (simp add: invalidateAuthCacheForGroups_def channel_inv_def)

lemma load_inv: "channel_inv w \<Longrightarrow> channel_inv (snd (loadCache e w))"
  using build_inv by (simp add: loadCache_def split: option.split)

lemma begin_inv:
  assumes "channel_inv w"
  shows "channel_inv (begin_build e w)"
proof -
  have "built w (populateChannelCache chs gp now)" if "fetchChannelData e w = Some (chs, gp)" for chs gp now
    using fetched [OF that] by (auto simp: built_def)
  then show ?thesis using assms unfolding channel_inv_def
    by (auto simp: begin_build_def split: option.splits)
qed

lemma finish_inv:
  assumes w: "channel_inv w"
  shows "channel_inv (finish_build e k w)"
proof (cases "k < length (in_flight w)")
  case True
  let ?rest = "w\<lparr>in_flight := take k (in_flight w) @ drop (k + 1) (in_flight w)\<rparr>"
  have "set (take k (in_flight w) @ drop (k + 1) (in_flight w)) \<subseteq> set (in_flight w)"
    using set_take_subset set_drop_subset by fastforce
  then have rest: "channel_inv ?rest" using w unfolding channel_inv_def
    by (auto simp: failed_cache_def)
  show ?thesis
  proof (cases "in_flight w ! k")
    case None
    then show ?thesis using error_cache_inv [OF rest] True by (simp add: finish_build_def Let_def)
  next
    case (Some x)
    obtain c v where x: "x = (c, v)" by (cases x)
    have "Some (c, v) \<in> set (in_flight w)" using True Some x by (metis nth_mem)
    then have "v \<le> changes w" "v = changes w \<Longrightarrow> built w c" using w by (simp_all add: channel_inv_def)
    then show ?thesis using rest True Some x unfolding channel_inv_def
      by (simp add: finish_build_def Let_def failed_cache_def)
  qed
qed (simp add: finish_build_def w)

lemma create_fields: "changes (snd (channel_Create ok ch w)) = (case fst (channel_Create ok ch w) of Inl _ \<Rightarrow> changes w | Inr _ \<Rightarrow> changes w + 1)"
  "cache_of (snd (channel_Create ok ch w)) = cache_of w" "in_flight (snd (channel_Create ok ch w)) = in_flight w"
  "fst (channel_Create ok ch w) = Inl err \<Longrightarrow> snd (channel_Create ok ch w) = w"
  by (auto simp: channel_Create_def Let_def)

lemma update_fields: "changes (snd (channel_Update ok ch w)) = (case fst (channel_Update ok ch w) of Inl _ \<Rightarrow> changes w | Inr _ \<Rightarrow> changes w + 1)"
  "cache_of (snd (channel_Update ok ch w)) = cache_of w" "in_flight (snd (channel_Update ok ch w)) = in_flight w"
  "fst (channel_Update ok ch w) = Inl err \<Longrightarrow> snd (channel_Update ok ch w) = w"
  by (auto simp: channel_Update_def split: if_splits)

lemma delete_fields: "changes (snd (channel_Delete ok i w)) = (case fst (channel_Delete ok i w) of Inl _ \<Rightarrow> changes w | Inr _ \<Rightarrow> changes w + 1)"
  "cache_of (snd (channel_Delete ok i w)) = cache_of w" "in_flight (snd (channel_Delete ok i w)) = in_flight w"
  "fst (channel_Delete ok i w) = Inl err \<Longrightarrow> snd (channel_Delete ok i w) = w"
  by (auto simp: channel_Delete_def split: if_splits)

lemma source_fields [simp]: "ModelPricing (normalizeBillingModelSource ch) = ModelPricing ch" "ModelMapping (normalizeBillingModelSource ch) = ModelMapping ch"
  "GroupIDs (normalizeBillingModelSource ch) = GroupIDs ch" "ch_ID (normalizeBillingModelSource ch) = ch_ID ch"
  "IsActive (normalizeBillingModelSource ch) = IsActive ch" "RestrictModels (normalizeBillingModelSource ch) = RestrictModels ch"
  by (simp_all add: normalizeBillingModelSource_def IsActive_def)

lemma create_inv:
  assumes w: "channel_inv w" and i: "\<forall>p\<in>set (ci_ModelPricing i). Platform p \<noteq> []"
  shows "channel_inv (snd (Create srt e i w))"
proof -
  define ch where "ch = normalizeBillingModelSource
      \<lparr>ch_ID = 0, Name = ci_Name i, Status = StatusActive, BillingModelSource = ci_BillingModelSource i,
       RestrictModels = ci_RestrictModels i, GroupIDs = ci_GroupIDs i, ModelPricing = ci_ModelPricing i,
       ModelMapping = ci_ModelMapping i, ApplyPricingToAccountStats = ci_ApplyPricing i, AccountStatsPricingRules = ci_Rules i\<rparr>"
  obtain r w' where c: "channel_Create (db_write_ok e) ch w = (r, w')" by fastforce
  have good: "channel_inv (InvalidateCache e w')" if "validateChannelConfig srt (ModelPricing ch) (ModelMapping ch) = None" "r = Inr j" for j
  proof (rule change_inv [OF w])
    have "valid_channel (stored_channel ch)" using validated [OF that(1)] i by (intro stored_valid) (simp_all add: ch_def)
    then have "valid_channels (snd (channel_Create (db_write_ok e) ch w))" using w by (intro create_valid) (simp_all add: channel_inv_def)
    then show "valid_channels w'" using c by simp
  qed (use create_fields(1-3) [of "db_write_ok e" ch w] c that(2) in simp_all)
  have same: "w' = w" if "r = Inl err" for err using create_fields(4) [of "db_write_ok e" ch w err] c that by simp
  have call: "channel_inv (snd (case channel_Create (db_write_ok e) ch w of (Inl err, w) \<Rightarrow> (Inl err, w)
      | (Inr j, w) \<Rightarrow> (read_back e j (InvalidateCache e w), InvalidateCache e w)))"
    if "validateChannelConfig srt (ModelPricing ch) (ModelMapping ch) = None"
    using good [OF that] same w unfolding c by (cases r) simp_all
  show ?thesis using w unfolding Create_def ch_def [symmetric] Let_def by (simp add: call split: option.split)
qed

lemma case_same: "(case x of None \<Rightarrow> a | Some y \<Rightarrow> a) = a"
  by (cases x) simp_all

lemma applied_update:
  assumes "applyUpdateInput e old i w = Inr ch"
  shows "ch_ID ch = ch_ID old \<and> ModelPricing ch = (case ui_ModelPricing i of None \<Rightarrow> ModelPricing old | Some ps \<Rightarrow> ps)"
proof -
  have last: "x = y" if "(if a then Inl er else if b then Inl er' else case c of Some err \<Rightarrow> Inl err | None \<Rightarrow> Inr x) = Inr y" for a b c er er' x and y :: Channel
    using that by (simp split: if_splits option.splits)
  show ?thesis using last [OF assms [unfolded applyUpdateInput_def Let_def], symmetric]
    by (simp add: option.case_distrib [where h = ch_ID] option.case_distrib [where h = ModelPricing] if_distrib [where f = ch_ID]
      if_distrib [where f = ModelPricing] case_same cong: option.case_cong)
qed

lemma update_inv:
  assumes w: "channel_inv w" and i: "\<forall>ps p. ui_ModelPricing i = Some ps \<longrightarrow> p \<in> set ps \<longrightarrow> Platform p \<noteq> []"
  shows "channel_inv (snd (Update srt e j i w))"
proof -
  have good: "channel_inv (InvalidateCache e w')"
    if "first_match (\<lambda>x. ch_ID x = j) (channels w) = Some old" "applyUpdateInput e old i w = Inr ch"
      "validateChannelConfig srt (ModelPricing ch) (ModelMapping ch) = None" "channel_Update (db_write_ok e) ch w = (Inr u, w')" for old ch u w'
  proof (rule change_inv [OF w])
    have "valid_channel old" using first_match_SomeD [OF that(1)] w valid_channelsD(1) by (auto simp: channel_inv_def)
    then have "\<forall>p\<in>set (ModelPricing ch). Platform p \<noteq> []"
      using applied_update [OF that(2)] i by (auto simp: valid_channel_def split: option.splits)
    then have "valid_channel (stored_channel ch)" using validated [OF that(3)] by (intro stored_valid) simp_all
    then have "valid_channels (snd (channel_Update (db_write_ok e) ch w))" using w by (intro update_valid) (simp_all add: channel_inv_def)
    then show "valid_channels w'" using that(4) by simp
  qed (use update_fields(1-3) [of "db_write_ok e" ch w] that(4) in simp_all)
  have same: "w' = w" if "channel_Update (db_write_ok e) ch w = (Inl err, w')" for err ch w'
    using update_fields(4) [of "db_write_ok e" ch w err] that by simp
  have call: "channel_inv (snd (case channel_Update (db_write_ok e) ch w of (Inl err, w) \<Rightarrow> (Inl err, w)
      | (Inr _, w) \<Rightarrow> (read_back e j (invalidateAuthCacheForGroups gids (InvalidateCache e w)), invalidateAuthCacheForGroups gids (InvalidateCache e w))))"
    if "first_match (\<lambda>x. ch_ID x = j) (channels w) = Some old" "applyUpdateInput e old i w = Inr ch"
      "validateChannelConfig srt (ModelPricing ch) (ModelMapping ch) = None" for old ch gids
  proof (cases "channel_Update (db_write_ok e) ch w")
    case (Pair r w')
    then show ?thesis using good [OF that, of _ w'] same [of ch _ w'] w by (cases r) (simp_all add: auth_inv)
  qed
  show ?thesis using w unfolding Update_def Let_def by (simp add: call split: option.split sum.split)
qed

lemma delete_inv:
  assumes w: "channel_inv w"
  shows "channel_inv (snd (Delete e j w))"
proof -
  obtain r w' where c: "channel_Delete (db_write_ok e) j w = (r, w')" by fastforce
  have "channel_inv (InvalidateCache e w')" if "r = Inr u" for u
  proof (rule change_inv [OF w])
    show "valid_channels w'" using delete_valid [of w "db_write_ok e" j] w c by (simp add: channel_inv_def)
  qed (use delete_fields(1-3) [of "db_write_ok e" j w] c that in simp_all)
  moreover have "w' = w" if "r = Inl err" for err using delete_fields(4) [of "db_write_ok e" j w err] c that by simp
  ultimately show ?thesis using w c by (auto simp: Delete_def Let_def auth_inv split: sum.splits)
qed

lemma platform_inv:
  assumes w: "channel_inv w"
  shows "channel_inv (change_platform e g p w)"
proof -
  have "channel_inv (InvalidateCache e (w\<lparr>platforms := (platforms w)(g \<mapsto> p), changes := changes w + 1\<rparr>))"
    by (rule change_inv [OF w]) (use w in \<open>simp_all add: channel_inv_def valid_channels_def\<close>)
  then show ?thesis using w by (simp add: change_platform_def split: option.split)
qed

lemma anthropic_ne: "PlatformAnthropic \<noteq> []"
  by (simp add: PlatformAnthropic_def)

lemma channel_step_inv: "channel_inv w \<Longrightarrow> channel_inv (channel_step srt x w)"
  by (cases x) (auto intro!: create_inv update_inv delete_inv platform_inv load_inv begin_inv finish_inv simp: fill_platform_def anthropic_ne)

lemma world_inv: "channel_inv (world_after srt ps ops)"
proof -
  have "channel_inv w \<Longrightarrow> channel_inv (fold (channel_step srt) ops w)" for w
    by (induction ops arbitrary: w) (simp_all add: channel_step_inv)
  moreover have "channel_inv (first_world ps)" by (simp add: first_world_def channel_inv_def valid_channels_def)
  ultimately show ?thesis unfolding world_after_def by blast
qed

lemma group_channel:
  assumes w: "valid_channels w" and ch: "ch \<in> set (channels w)" "g \<in> set (GroupIDs ch)"
  shows "one_channel {(g, normalizeBillingModelSource ch) |g ch. ch \<in> set (channels w) \<and> g \<in> set (GroupIDs ch)} g (normalizeBillingModelSource ch)"
proof -
  have "ch' = ch" if "ch' \<in> set (channels w)" "g \<in> set (GroupIDs ch')" for ch'
    using inj_onD [of ch_ID "set (channels w)" ch' ch] valid_channelsD(2) [OF w] valid_channelsD(4) [OF w that(1) ch(1) that(2) ch(2)] that(1) ch(1)
    by (simp add: distinct_map)
  then show ?thesis using ch unfolding one_channel_def by blast
qed

section \<open>What requests are answered\<close>

text \<open>A lookup that follows a failed read of the tables within five seconds, and one in a cache whose rebuild began before the
  last change.\<close>

definition read_failed :: "channel_env \<Rightarrow> channel_world \<Rightarrow> bool" where
  "read_failed e w = (\<exists>t. failed_at w = Some t \<and> clock e < t + channelErrorTTL)"

definition late_cache :: "channel_world \<Rightarrow> bool" where
  "late_cache w = (cache_of w \<noteq> changes w)"

lemma load_cases:
  assumes w: "channel_inv w" and l: "loadCache e w = (found, w')"
  obtains "found = None" "read_failed e w'" | c where "found = Some c" "built w c"
    | c where "found = Some c" "channelByGroupID c = Map.empty" "read_failed e w'" | "late_cache w'"
proof (cases "fresh_cache e w")
  case None
  then have b: "buildCache e w = (found, w')" using l by (simp add: loadCache_def)
  show thesis
  proof (cases "fetchChannelData e w")
    case None
    then show thesis using b that(1) by (auto simp: buildCache_def storeErrorCache_def read_failed_def channelErrorTTL_def)
  next
    case (Some x)
    then show thesis using b that(2) fetched [of e w] by (cases x) (auto simp: buildCache_def Let_def built_def)
  qed
next
  case (Some c)
  then have c: "found = Some c" "w' = w" "cache w = Some c" "clock e - loadedAt c < channelCacheTTL"
    using l by (auto simp: loadCache_def fresh_cache_def split: option.splits if_splits)
  show thesis
  proof (cases "cache_of w = changes w")
    case True
    then consider "built w c" | "failed_cache w c" using w c(3) by (auto simp: channel_inv_def)
    then show thesis
    proof cases
      case 2
      then show thesis using that(3) c by (auto simp: failed_cache_def newEmptyChannelCache_def read_failed_def)
    qed (use that(2) c in blast)
  qed (use that(4) c in \<open>simp add: late_cache_def\<close>)
qed

lemma built_group:
  assumes w: "channel_inv w" and c: "built w c"
  shows "if \<exists>ch\<in>set (channels w). g \<in> set (GroupIDs ch)
    then \<exists>ch\<in>set (channels w). g \<in> set (GroupIDs ch) \<and> channelByGroupID c g = Some (normalizeBillingModelSource ch) \<and>
      one_channel {(g, normalizeBillingModelSource ch) |g ch. ch \<in> set (channels w) \<and> g \<in> set (GroupIDs ch)} g (normalizeBillingModelSource ch) \<and>
      read_platform (groupPlatform c) g = read_platform (platforms w) g \<and> (\<forall>ch'\<in>set (channels w). g \<in> set (GroupIDs ch') \<longrightarrow> ch' = ch)
    else channelByGroupID c g = None"
proof -
  obtain now where now: "c = populateChannelCache (channels w) (table_platforms w) now" using c by (auto simp: built_def)
  let ?G = "{(g, normalizeBillingModelSource ch) |g ch. ch \<in> set (channels w) \<and> g \<in> set (GroupIDs ch)}"
  have wr: "written (channelByGroupID c) ?G" using populated [of "channels w" "table_platforms w" now] now by (simp add: holds_all_def holds_def)
  have v: "valid_channels w" using w by (simp add: channel_inv_def)
  show ?thesis
  proof (cases "\<exists>ch\<in>set (channels w). g \<in> set (GroupIDs ch)")
    case True
    then obtain ch where ch: "ch \<in> set (channels w)" "g \<in> set (GroupIDs ch)" by blast
    note one = group_channel [OF v ch]
    have "channelByGroupID c g \<noteq> None" using wr ch unfolding written_def by blast
    then obtain ch' where ch': "channelByGroupID c g = Some ch'" by blast
    have "channelByGroupID c g = Some ch' \<Longrightarrow> (g, ch') \<in> ?G" using wr unfolding written_def by blast
    with ch' have "(g, ch') \<in> ?G" by blast
    then have "ch' = normalizeBillingModelSource ch" using one unfolding one_channel_def by blast
    with ch' have found: "channelByGroupID c g = Some (normalizeBillingModelSource ch)" by simp
    have "read_platform (groupPlatform c) g = read_platform (platforms w) g"
      using ch by (auto simp: now populated_fields table_platforms_def GetGroupPlatforms_def read_platform_def restrict_map_def)
    moreover have "ch' = ch" if "ch' \<in> set (channels w)" "g \<in> set (GroupIDs ch')" for ch'
      using inj_onD [of ch_ID "set (channels w)" ch' ch] valid_channelsD(2) [OF v] valid_channelsD(4) [OF v that(1) ch(1) that(2) ch(2)] that(1) ch(1)
      by (simp add: distinct_map)
    ultimately show ?thesis unfolding if_P [OF True] using found one ch by (intro bexI [OF _ ch(1)] conjI ballI impI) blast+
  next
    case False
    have "channelByGroupID c g = Some y \<Longrightarrow> (g, y) \<in> ?G" for y using wr unfolding written_def by blast
    then have "channelByGroupID c g = None" using False by (cases "channelByGroupID c g") auto
    then show ?thesis unfolding if_not_P [OF False] .
  qed
qed

lemma table_match: "price_match (table_platforms w) ch g pf m p = price_match (platforms w) ch g pf m p"
  "mapping_match (table_platforms w) ch g pf m t = mapping_match (platforms w) ch g pf m t"
  if "ch \<in> set (channels w)" "g \<in> set (GroupIDs ch)"
proof -
  have "g \<in> set (concat (map GroupIDs (channels w)))" using that by auto
  then have "table_platforms w g = platforms w g" by (simp add: table_platforms_def GetGroupPlatforms_def del: set_concat)
  then show "price_match (table_platforms w) ch g pf m p = price_match (platforms w) ch g pf m p"
    "mapping_match (table_platforms w) ch g pf m t = mapping_match (platforms w) ch g pf m t"
    by (simp_all add: price_match_def mapping_match_def read_platform_def)
qed

lemma normal_match [simp]: "price_match ps (normalizeBillingModelSource ch) g pf m p = price_match ps ch g pf m p"
  "mapping_match ps (normalizeBillingModelSource ch) g pf m t = mapping_match ps ch g pf m t"
  by (simp_all add: price_match_def mapping_match_def)

text \<open>What a lookup of a group's channel finds in a cache built from the tables.\<close>

lemma built_lookups:
  assumes w: "channel_inv w" and c: "built w c" and ch: "ch \<in> set (channels w)" "g \<in> set (GroupIDs ch)" and pf: "pf \<noteq> PlatformComposite"
  shows "lookupPricingAcrossPlatforms c g pf model = Some p \<longleftrightarrow> price_match (platforms w) ch g pf (normalizeChannelPricingModelName model) p"
    "lookupMappingAcrossPlatforms c g pf (ToLower model) = t \<and> t \<noteq> [] \<longleftrightarrow> mapping_match (platforms w) ch g pf (ToLower model) t \<and> t \<noteq> []"
proof -
  obtain now where now: "c = populateChannelCache (channels w) (table_platforms w) now" using c by (auto simp: built_def)
  let ?G = "{(g, normalizeBillingModelSource ch) |g ch. ch \<in> set (channels w) \<and> g \<in> set (GroupIDs ch)}"
  have h: "holds_all c (table_platforms w) ?G" using populated now by simp
  have v: "valid_channels w" using w by (simp add: channel_inv_def)
  have vc: "valid_channel ch" using valid_channelsD(1) [OF v ch(1)] by simp
  note one = group_channel [OF v ch]
  show "lookupPricingAcrossPlatforms c g pf model = Some p \<longleftrightarrow> price_match (platforms w) ch g pf (normalizeChannelPricingModelName model) p"
    using built_price_lookup [OF h one pf] valid_price_entries [OF vc] table_match(1) [OF ch] by simp
  show "lookupMappingAcrossPlatforms c g pf (ToLower model) = t \<and> t \<noteq> [] \<longleftrightarrow> mapping_match (platforms w) ch g pf (ToLower model) t \<and> t \<noteq> []"
    using built_mapping_lookup [OF h one pf] valid_mapping_entries [OF vc] table_match(2) [OF ch] by simp
qed

lemma listed_price_iff: "listed_price w g pf model p \<longleftrightarrow> (\<exists>ch\<in>set (channels w). g \<in> set (GroupIDs ch) \<and> IsActive ch \<and>
    price_match (platforms w) ch g pf (normalizeChannelPricingModelName (ToLower model)) p)"
  by (auto simp: listed_price_def price_match_def)


text \<open>What \<open>lookupGroupChannel\<close> answers: the group's active channel and the cache built from the tables.\<close>

lemma lookup_cases:
  assumes w: "channel_inv w" and l: "lookupGroupChannel e force ctx g w = (found, w')"
  obtains "found = None" "read_failed e w'" | "late_cache w'"
    | "found = None" "\<And>ch. ch \<in> set (channels w) \<Longrightarrow> g \<in> set (GroupIDs ch) \<Longrightarrow> \<not> IsActive ch"
    | c ch where "ch \<in> set (channels w)" "g \<in> set (GroupIDs ch)" "IsActive ch" "built w c"
        "\<And>ch'. ch' \<in> set (channels w) \<Longrightarrow> g \<in> set (GroupIDs ch') \<Longrightarrow> ch' = ch"
        "found = Some \<lparr>lk_cache = c, lk_channel = normalizeBillingModelSource ch,
           lk_platform = channelLookupPlatform force ctx (read_platform (platforms w) g)\<rparr>"
proof -
  obtain lc w1 where lc: "loadCache e w = (lc, w1)" by fastforce
  from w lc show thesis
  proof (cases rule: load_cases)
    case 1
    then show thesis using that(1) l lc by (simp add: lookupGroupChannel_def)
  next
    case (2 c)
    note gr = built_group [OF w 2(2), of g]
    show thesis
    proof (cases "\<exists>ch\<in>set (channels w). g \<in> set (GroupIDs ch)")
      case True
      then obtain ch where ch: "ch \<in> set (channels w)" "g \<in> set (GroupIDs ch)" "channelByGroupID c g = Some (normalizeBillingModelSource ch)"
        "read_platform (groupPlatform c) g = read_platform (platforms w) g" "\<forall>ch'\<in>set (channels w). g \<in> set (GroupIDs ch') \<longrightarrow> ch' = ch"
        using gr unfolding if_P [OF True] by blast
      show thesis
      proof (cases "IsActive ch")
        case True
        show thesis
        proof (rule that(4) [OF ch(1,2) True 2(2)])
          show "ch' = ch" if "ch' \<in> set (channels w)" "g \<in> set (GroupIDs ch')" for ch' using ch(5) that by blast
          show "found = Some \<lparr>lk_cache = c, lk_channel = normalizeBillingModelSource ch,
              lk_platform = channelLookupPlatform force ctx (read_platform (platforms w) g)\<rparr>"
            using ch(3,4) l lc 2(1) True by (simp add: lookupGroupChannel_def)
        qed
      next
        case False
        show thesis
        proof (rule that(3))
          show "found = None" using ch(3) l lc 2(1) False by (simp add: lookupGroupChannel_def)
          show "\<not> IsActive ch'" if "ch' \<in> set (channels w)" "g \<in> set (GroupIDs ch')" for ch' using ch(5) that False by blast
        qed
      qed
    next
      case False
      show thesis by (rule that(3)) (use gr False l lc 2(1) in \<open>auto simp: lookupGroupChannel_def\<close>)
    qed
  next
    case (3 c)
    then show thesis using that(1) l lc by (simp add: lookupGroupChannel_def)
  next
    case 4
    have "w' = w1" using l lc by (auto simp: lookupGroupChannel_def split: option.splits if_splits)
    then show thesis using that(2) 4 by simp
  qed
qed

text \<open>C12. However administrators create, change and delete channels, groups change their platforms and cache rebuilds overlap, the
  price a request is given is the one the tables list: it is listed for the group, the platform and the model, it is the only
  one that is, and there is none exactly when none is listed. The exceptions are a read of the tables that failed in the last five
  seconds, when there is no price, and a cache whose rebuild began before the last change.\<close>
theorem price_lookup_is_listed:
  fixes srt ps ops force ctx g
  defines "w \<equiv> world_after srt ps ops"
  defines "pf \<equiv> channelLookupPlatform force ctx (read_platform (platforms w) g)"
  assumes pf: "pf \<noteq> PlatformComposite" and r: "GetChannelModelPricing e force ctx g model w = (answer, w')"
  shows "(\<forall>p. answer = Some p \<longleftrightarrow> listed_price w g pf model p) \<or> answer = None \<and> read_failed e w' \<or> late_cache w'"
proof -
  have w: "channel_inv w" unfolding w_def by (rule world_inv)
  obtain found w1 where l: "lookupGroupChannel e force ctx g w = (found, w1)" by fastforce
  have w1: "w1 = w'" using r l by (auto simp: GetChannelModelPricing_def split: option.splits)
  from w l show ?thesis
  proof (cases rule: lookup_cases)
    case 3
    then show ?thesis using r l by (auto simp: GetChannelModelPricing_def listed_price_iff)
  next
    case (4 c ch)
    have "answer = lookupPricingAcrossPlatforms c g pf (ToLower model)" using r l 4(6) by (simp add: GetChannelModelPricing_def pf_def)
    moreover have "listed_price w g pf model p \<longleftrightarrow> lookupPricingAcrossPlatforms c g pf (ToLower model) = Some p" for p
      unfolding listed_price_iff built_lookups(1) [OF w 4(4,1,2) pf] using 4(1-3,5) by blast
    ultimately show ?thesis by simp
  qed (use r l w1 in \<open>auto simp: GetChannelModelPricing_def\<close>)
qed


section \<open>Sample runs\<close>

definition calm :: "time \<Rightarrow> channel_env" where
  "calm now = \<lparr>clock = now, exists_ok = True, conflicts_ok = True, get_ok = True, groups_ok = True, db_write_ok = True,
     list_all_ok = True, platforms_ok = True, reread_ok = True\<rparr>"

definition no_context :: request_context where
  "no_context = \<lparr>ResolvedTargetPlatform = None, ResolvedUpstreamModel = None, RequestedPublicModel = None, CompositeRouteSource = None\<rparr>"

definition sample_pricing :: "rat \<Rightarrow> ChannelModelPricing" where
  "sample_pricing v = \<lparr>Platform = ''openai'', Models = [''GPT-5'', ''o3*''], BillingMode = ''token'', InputPrice = Some v, OutputPrice = None,
     CacheWritePrice = None, CacheReadPrice = None, ImageInputPrice = None, ImageOutputPrice = None, PerRequestPrice = None, Intervals = []\<rparr>"

definition sample_channel :: CreateChannelInput where
  "sample_channel = \<lparr>ci_Name = ''c'', ci_GroupIDs = [5], ci_ModelPricing = [sample_pricing 1], ci_ModelMapping = [(''openai'', [(''fast*'', ''o3-mini'')])],
     ci_BillingModelSource = [], ci_RestrictModels = True, ci_ApplyPricing = False, ci_Rules = []\<rparr>"

definition new_price :: "rat \<Rightarrow> UpdateChannelInput" where
  "new_price v = \<lparr>ui_Name = [], ui_Status = [], ui_GroupIDs = None, ui_ModelPricing = Some [sample_pricing v], ui_ModelMapping = None,
     ui_BillingModelSource = [], ui_RestrictModels = None, ui_ApplyPricing = None, ui_Rules = None\<rparr>"

definition openai_group :: "ident \<rightharpoonup> string" where
  "openai_group = [5 \<mapsto> ''openai'']"

definition late_ops :: "channel_op list" where
  "late_ops = [CreateChannelOp (calm 0) sample_channel, BeginBuildOp (calm (11 * Minute)),
     UpdateChannelOp (calm (11 * Minute + Second)) 1 (new_price 2), FinishBuildOp (calm (11 * Minute + 2 * Second)) 0]"


lemma price_lookup_is_listed_witness:
  "let w = world_after by_min_tokens openai_group (take 3 late_ops) in
   fst (GetChannelModelPricing (calm (20 * Minute)) None no_context 5 '' O3-Mini '' w) = Some (sample_pricing 2) \<and>
   (\<forall>p. listed_price w 5 ''openai'' '' O3-Mini '' p \<longleftrightarrow> p = sample_pricing 2)"
proof -
  let ?w = "world_after by_min_tokens openai_group (take 3 late_ops)"
  let ?pf = "channelLookupPlatform None no_context (read_platform (platforms ?w) 5)"
  obtain w' where r: "GetChannelModelPricing (calm (20 * Minute)) None no_context 5 '' O3-Mini '' ?w = (Some (sample_pricing 2), w')"
    and c: "\<not> late_cache w'"
  proof -
    have "fst (GetChannelModelPricing (calm (20 * Minute)) None no_context 5 '' O3-Mini '' ?w) = Some (sample_pricing 2)" by code_simp
    moreover have "\<not> late_cache (snd (GetChannelModelPricing (calm (20 * Minute)) None no_context 5 '' O3-Mini '' ?w))" by code_simp
    ultimately show thesis using that by (metis prod.collapse)
  qed
  have pf: "?pf = ''openai''" "?pf \<noteq> PlatformComposite" by code_simp+
  have "\<forall>p. Some (sample_pricing 2) = Some p \<longleftrightarrow> listed_price ?w 5 ''openai'' '' O3-Mini '' p"
    using price_lookup_is_listed [OF pf(2) r] c unfolding pf(1) by blast
  then show ?thesis unfolding Let_def using r by (metis fst_conv option.inject)
qed


end
