(* ===== verification/PaymentOrders.thy ===== *)
theory PaymentOrders
  imports Prelude Complex_Main
begin

text \<open>
  Payment orders: the statuses and types of \<open>internal/payment/types.go\<close>, the currencies of
  \<open>internal/payment/currency.go\<close>, the provider checks of \<open>internal/service/payment_order_provider_snapshot.go\<close>
  and the tables the payment services share, with the statements they run on them.

  Amounts are float64 in the code. Here a finite amount is a rational number and the comparisons are exact;
  infinities and NaN, which can only come from a provider or a caller, are constructors of \<open>float64\<close>. The decoded
  provider snapshot of an order is a record; its JSON is not modelled.
\<close>

section \<open>Amounts\<close>

datatype float64 = Finite rat | PosInf | NegInf | NaN

definition isValidProviderAmount :: "float64 \<Rightarrow> bool" where
  "isValidProviderAmount x = (case x of Finite q \<Rightarrow> 0 < q | _ \<Rightarrow> False)"

section \<open>Payment types\<close>

definition TypeAlipay :: string where "TypeAlipay = ''alipay''"
definition TypeWxpay :: string where "TypeWxpay = ''wxpay''"
definition TypeStripe :: string where "TypeStripe = ''stripe''"
definition TypeCard :: string where "TypeCard = ''card''"
definition TypeLink :: string where "TypeLink = ''link''"
definition TypeEasyPay :: string where "TypeEasyPay = ''easypay''"
definition TypeAirwallex :: string where "TypeAirwallex = ''airwallex''"

datatype order_status =
    Pending | Paid | Recharging | Completed | Expired | Cancelled | Failed
  | RefundRequested | Refunding | RefundPending | PartiallyRefunded | Refunded | RefundFailed

datatype order_type = BalanceOrder | SubscriptionOrder | OtherOrder string

definition GetBasePaymentType :: "string \<Rightarrow> string" where
  "GetBasePaymentType t =
     (if t = TypeEasyPay then TypeEasyPay
      else if t = TypeAirwallex then TypeAirwallex
      else if t = TypeStripe \<or> t = TypeCard \<or> t = TypeLink then TypeStripe
      else if length TypeAlipay \<le> length t \<and> take (length TypeAlipay) t = TypeAlipay then TypeAlipay
      else if length TypeWxpay \<le> length t \<and> take (length TypeWxpay) t = TypeWxpay then TypeWxpay
      else t)"

definition psIsRefundStatus :: "order_status \<Rightarrow> bool" where
  "psIsRefundStatus s =
     (s \<in> {RefundRequested, Refunding, RefundPending, PartiallyRefunded, Refunded, RefundFailed})"

section \<open>Currencies\<close>

definition upper_char :: "char \<Rightarrow> char" where
  "upper_char c = (if 97 \<le> (of_char c :: nat) \<and> of_char c \<le> (122 :: nat)
     then char_of (of_char c - 32 :: nat) else c)"

definition ToUpper :: "string \<Rightarrow> string" where
  "ToUpper s = map upper_char s"

definition EqualFold :: "string \<Rightarrow> string \<Rightarrow> bool" where
  "EqualFold a b = (ToLower a = ToLower b)"

definition DefaultPaymentCurrency :: string where "DefaultPaymentCurrency = ''CNY''"

record paymentCurrencyAmountUnit =
  apiMinorUnit :: nat
  maxFractionDigits :: nat

definition paymentCurrencyAmountUnits :: "(string \<times> paymentCurrencyAmountUnit) list" where
  "paymentCurrencyAmountUnits =
     map (\<lambda>c. (c, \<lparr>apiMinorUnit = 0, maxFractionDigits = 0\<rparr>))
       [''BIF'', ''CLP'', ''DJF'', ''GNF'', ''JPY'', ''KMF'', ''KRW'', ''MGA'', ''PYG'', ''RWF'', ''VND'', ''VUV'',
        ''XAF'', ''XOF'', ''XPF''] @
     map (\<lambda>c. (c, \<lparr>apiMinorUnit = 2, maxFractionDigits = 0\<rparr>)) [''ISK'', ''UGX''] @
     map (\<lambda>c. (c, \<lparr>apiMinorUnit = 3, maxFractionDigits = 3\<rparr>))
       [''BHD'', ''IQD'', ''JOD'', ''KWD'', ''LYD'', ''OMR'', ''TND'']"

definition NormalizePaymentCurrency :: "string \<Rightarrow> string option" where
  "NormalizePaymentCurrency raw =
     (let currency = ToUpper (TrimSpace raw) in
      if currency = [] then Some DefaultPaymentCurrency
      else if length currency \<noteq> 3 then None
      else if \<exists>ch\<in>set currency. (of_char ch :: nat) < 65 \<or> 90 < (of_char ch :: nat) then None
      else Some currency)"

definition paymentCurrencyAmountUnitFor :: "string \<Rightarrow> paymentCurrencyAmountUnit" where
  "paymentCurrencyAmountUnitFor currency =
     (case NormalizePaymentCurrency currency of
        None \<Rightarrow> \<lparr>apiMinorUnit = 2, maxFractionDigits = 2\<rparr>
      | Some normalized \<Rightarrow>
          (case map_of paymentCurrencyAmountUnits normalized of
             Some u \<Rightarrow> u
           | None \<Rightarrow> \<lparr>apiMinorUnit = 2, maxFractionDigits = 2\<rparr>))"

definition CurrencyMinorUnit :: "string \<Rightarrow> nat" where
  "CurrencyMinorUnit currency = apiMinorUnit (paymentCurrencyAmountUnitFor currency)"

definition CurrencyMaxFractionDigits :: "string \<Rightarrow> nat" where
  "CurrencyMaxFractionDigits currency = maxFractionDigits (paymentCurrencyAmountUnitFor currency)"

definition Truncate :: "rat \<Rightarrow> int" where
  "Truncate x = (if 0 \<le> x then \<lfloor>x\<rfloor> else \<lceil>x\<rceil>)"

text \<open>A decimal string has been read as the rational number \<open>d\<close> (\<open>decimal.NewFromString\<close>); \<open>None\<close> is an error.\<close>

definition AmountToMinorUnit :: "rat option \<Rightarrow> string \<Rightarrow> int option" where
  "AmountToMinorUnit amount currency =
     (case amount of
        None \<Rightarrow> None
      | Some d \<Rightarrow>
          (case NormalizePaymentCurrency currency of
             None \<Rightarrow> None
           | Some normalized \<Rightarrow>
               let unit = paymentCurrencyAmountUnitFor normalized;
                   scaled = d * 10 ^ maxFractionDigits unit
               in if scaled \<noteq> of_int (Truncate scaled) then None
                  else let minor = d * 10 ^ apiMinorUnit unit
                       in Some (Truncate minor)))"

definition MinorUnitToAmount :: "int \<Rightarrow> string \<Rightarrow> rat" where
  "MinorUnitToAmount value currency = of_int value / 10 ^ CurrencyMinorUnit currency"

section \<open>Orders\<close>

record paymentOrderProviderSnapshot =
  snapProviderInstanceID :: string
  snapProviderKey :: string
  snapMerchantAppID :: string
  snapMerchantID :: string
  snapCurrency :: string

record PaymentOrder =
  oid :: ident
  ouser :: ident
  amount :: rat
  pay_amount :: rat
  recharge_code :: string
  out_trade_no :: string
  payment_type :: string
  payment_trade_no :: string
  order_type :: order_type
  status :: order_status
  provider_instance_id :: "string option"
  provider_key :: "string option"
  snapshot :: "paymentOrderProviderSnapshot option"
  sub_group :: "ident option"
  sub_days :: "int option"
  refund_amount :: rat
  refund_reason :: "string option"
  refund_request_reason :: "string option"
  force_refund :: bool
  failed_reason :: "string option"
  paid_at :: "time option"
  expires_at :: time
  updated_at :: time

definition PaymentOrderCurrency :: "PaymentOrder \<Rightarrow> string" where
  "PaymentOrderCurrency ord =
     (case snapshot ord of
        None \<Rightarrow> DefaultPaymentCurrency
      | Some snap \<Rightarrow>
          (case NormalizePaymentCurrency (snapCurrency snap) of
             Some c \<Rightarrow> c | None \<Rightarrow> DefaultPaymentCurrency))"

definition amountToleranceCNY :: rat where "amountToleranceCNY = 1 / 100"

definition paymentAmountToleranceForCurrency :: "string \<Rightarrow> rat" where
  "paymentAmountToleranceForCurrency currency =
     (let minorUnit = CurrencyMinorUnit currency in
      if minorUnit \<le> 2 then amountToleranceCNY else 1 / 10 ^ minorUnit / 2)"

section \<open>Which provider may report an order\<close>

definition expectedNotificationProviderKey :: "(string \<Rightarrow> string) \<Rightarrow> string \<Rightarrow> string \<Rightarrow> string \<Rightarrow> string" where
  "expectedNotificationProviderKey registry orderPaymentType orderProviderKey instanceProviderKey =
     (if TrimSpace instanceProviderKey \<noteq> [] then TrimSpace instanceProviderKey
      else if TrimSpace orderProviderKey \<noteq> [] then TrimSpace orderProviderKey
      else if TrimSpace (registry orderPaymentType) \<noteq> [] then TrimSpace (registry orderPaymentType)
      else TrimSpace orderPaymentType)"

definition expectedNotificationProviderKeyForOrder :: "(string \<Rightarrow> string) \<Rightarrow> PaymentOrder \<Rightarrow> string \<Rightarrow> string" where
  "expectedNotificationProviderKeyForOrder registry ord instanceProviderKey =
     (let k = (case provider_key ord of Some k \<Rightarrow> k | None \<Rightarrow> []);
          k = (case snapshot ord of
                 Some snap \<Rightarrow> if snapProviderKey snap \<noteq> [] then snapProviderKey snap else k
               | None \<Rightarrow> k)
      in expectedNotificationProviderKey registry (payment_type ord) k instanceProviderKey)"

type_synonym metadata = "(string \<times> string) list"

definition meta :: "metadata \<Rightarrow> string \<Rightarrow> string" where
  "meta m k = (case map_of m k of Some v \<Rightarrow> v | None \<Rightarrow> [])"

text \<open>One comparison of the switch: an expected value that is set must be reported and equal. The result is the
  error, if there is one.\<close>

definition expect_field :: "string \<Rightarrow> string \<Rightarrow> string \<Rightarrow> string option" where
  "expect_field name expected actual =
     (if TrimSpace expected = [] then None
      else if actual = [] then Some (name @ '' missing'')
      else if \<not> EqualFold (TrimSpace expected) actual then Some (name @ '' mismatch'')
      else None)"

definition expect_state :: "string \<Rightarrow> string \<Rightarrow> string \<Rightarrow> string option" where
  "expect_state name wanted actual =
     (if actual \<noteq> [] \<and> \<not> EqualFold actual wanted then Some (name @ '' mismatch'') else None)"

fun first_error :: "string option list \<Rightarrow> string option" where
  "first_error [] = None"
| "first_error (None # es) = first_error es"
| "first_error (Some e # es) = Some e"

definition validateProviderSnapshotMetadata :: "PaymentOrder \<Rightarrow> string \<Rightarrow> metadata \<Rightarrow> string option" where
  "validateProviderSnapshotMetadata ord providerKey metadata =
     (if metadata = [] then None
      else case snapshot ord of
        None \<Rightarrow> None
      | Some snap \<Rightarrow>
          let key = TrimSpace providerKey;
              actual = (\<lambda>k. TrimSpace (meta metadata k))
          in if key = TypeWxpay then first_error
               [expect_field ''wxpay appid'' (snapMerchantAppID snap) (actual ''appid''),
                expect_field ''wxpay mchid'' (snapMerchantID snap) (actual ''mchid''),
                expect_field ''wxpay currency'' (snapCurrency snap) (ToUpper (actual ''currency'')),
                expect_state ''wxpay trade_state'' ''SUCCESS'' (actual ''trade_state'')]
             else if key = TypeAlipay then
               expect_field ''alipay app_id'' (snapMerchantAppID snap) (actual ''app_id'')
             else if key = TypeEasyPay then
               expect_field ''easypay pid'' (snapMerchantID snap) (actual ''pid'')
             else if key = TypeStripe then
               expect_field ''stripe currency'' (snapCurrency snap) (ToUpper (actual ''currency''))
             else if key = TypeAirwallex then first_error
               [expect_field ''airwallex account_id'' (snapMerchantID snap) (actual ''account_id''),
                expect_field ''airwallex currency'' (snapCurrency snap) (ToUpper (actual ''currency'')),
                expect_state ''airwallex status'' ''SUCCEEDED'' (actual ''status'')]
             else None)"

section \<open>Tables\<close>

text \<open>
  The tables the payment services read and write: orders, audit log, redeem codes of type balance and user balances. The audit log has
  a unique index over order and action (\<open>migrations/131_affiliate_rebate_hardening.sql\<close>), redeem codes over the
  code. \<open>credits\<close> lists the balance updates made by redeeming codes, \<open>grants\<close> the subscription
  assignments made for orders and \<open>rebates\<close> the affiliate rebates accrued for orders; they are the history of the other
  tables, kept to state what happened.
\<close>

datatype code_status = CodeUnused | CodeUsed | CodeExpired

record RedeemCode =
  rc_code :: string
  rc_value :: rat
  rc_status :: code_status
  rc_used_by :: "ident option"
  rc_expires :: "time option"

record audit =
  a_order :: ident
  a_action :: string
  a_refund_id :: string
  a_rollback_ok :: bool

record paydb =
  orders :: "PaymentOrder list"
  audits :: "audit list"
  codes :: "RedeemCode list"
  balances :: "(ident \<times> rat) list"
  credits :: "(string \<times> ident \<times> rat) list"
  grants :: "ident list"
  rebates :: "ident list"

definition get_order :: "paydb \<Rightarrow> ident \<Rightarrow> PaymentOrder option" where
  "get_order db i = first_match (\<lambda>r. oid r = i) (orders db)"

definition update_orders ::
  "(PaymentOrder \<Rightarrow> bool) \<Rightarrow> (PaymentOrder \<Rightarrow> PaymentOrder) \<Rightarrow> paydb \<Rightarrow> nat \<times> paydb" where
  "update_orders P f db =
     (length (filter P (orders db)), db\<lparr>orders := map (\<lambda>r. if P r then f r else r) (orders db)\<rparr>)"

definition has_audit :: "paydb \<Rightarrow> ident \<Rightarrow> string \<Rightarrow> bool" where
  "has_audit db i act = (\<exists>a\<in>set (audits db). a_order a = i \<and> a_action a = act)"

text \<open>An insertion into the audit log; a second row with the same order and action violates the unique index.\<close>

definition insert_audit :: "audit \<Rightarrow> paydb \<Rightarrow> bool \<times> paydb" where
  "insert_audit a db =
     (if has_audit db (a_order a) (a_action a) then (False, db) else (True, db\<lparr>audits := audits db @ [a]\<rparr>))"

definition plain_audit :: "ident \<Rightarrow> string \<Rightarrow> audit" where
  "plain_audit i act = \<lparr>a_order = i, a_action = act, a_refund_id = [], a_rollback_ok = True\<rparr>"

definition get_code :: "paydb \<Rightarrow> string \<Rightarrow> RedeemCode option" where
  "get_code db c = first_match (\<lambda>r. rc_code r = c) (codes db)"

definition insert_code :: "RedeemCode \<Rightarrow> paydb \<Rightarrow> bool \<times> paydb" where
  "insert_code r db =
     (if get_code db (rc_code r) \<noteq> None then (False, db) else (True, db\<lparr>codes := codes db @ [r]\<rparr>))"

definition balance_of :: "paydb \<Rightarrow> ident \<Rightarrow> rat option" where
  "balance_of db u = map_of (balances db) u"

definition add_balance :: "ident \<Rightarrow> rat \<Rightarrow> paydb \<Rightarrow> paydb" where
  "add_balance u x db =
     db\<lparr>balances := map (\<lambda>(v, b). (v, if v = u then b + x else b)) (balances db)\<rparr>"

text \<open>\<open>redeemCodeRepository.Use\<close> and the credit in one transaction of \<open>RedeemService.Redeem\<close>: the update of the
  row requires that the code is unused. A negative value takes at most the whole balance.\<close>

definition IsExpiredAt :: "RedeemCode \<Rightarrow> time \<Rightarrow> bool" where
  "IsExpiredAt r t = (rc_status r = CodeExpired \<or>
     rc_status r = CodeUnused \<and> (case rc_expires r of Some e \<Rightarrow> \<not> t < e | None \<Rightarrow> False))"

definition CanUse :: "RedeemCode \<Rightarrow> time \<Rightarrow> bool" where
  "CanUse r t = (rc_status r = CodeUnused \<and> \<not> IsExpiredAt r t)"

definition use_code :: "string \<Rightarrow> ident \<Rightarrow> paydb \<Rightarrow> paydb" where
  "use_code c u db = db\<lparr>codes := map (\<lambda>r. if rc_code r = c
     then r\<lparr>rc_status := CodeUsed, rc_used_by := Some u\<rparr> else r) (codes db)\<rparr>"

definition redeem_tx :: "RedeemCode \<Rightarrow> ident \<Rightarrow> paydb \<Rightarrow> bool \<times> paydb" where
  "redeem_tx r u db =
     (case get_code db (rc_code r) of
        None \<Rightarrow> (False, db)
      | Some cur \<Rightarrow>
          if rc_status cur \<noteq> CodeUnused then (False, db)
          else case balance_of db u of
            None \<Rightarrow> (False, db)
          | Some b \<Rightarrow>
              let db = use_code (rc_code r) u db;
                  x = (if rc_value r < 0 then max (b + rc_value r) 0 - b else rc_value r)
              in (True, (add_balance u x db)\<lparr>credits := (rc_code r, u, rc_value r) # credits db\<rparr>))"

section \<open>Lemmas\<close>

lemma update_orders_simps [simp]:
  "audits (snd (update_orders P f db)) = audits db" "codes (snd (update_orders P f db)) = codes db"
  "balances (snd (update_orders P f db)) = balances db" "credits (snd (update_orders P f db)) = credits db"
  "grants (snd (update_orders P f db)) = grants db" "rebates (snd (update_orders P f db)) = rebates db"
  "orders (snd (update_orders P f db)) = map (\<lambda>r. if P r then f r else r) (orders db)"
  by (simp_all add: update_orders_def)

text \<open>Converting an amount to minor units and back loses nothing, in any currency.\<close>

lemma api_ge_fraction: "maxFractionDigits (paymentCurrencyAmountUnitFor c) \<le> apiMinorUnit (paymentCurrencyAmountUnitFor c)"
proof -
  have "\<forall>(k, u)\<in>set paymentCurrencyAmountUnits. maxFractionDigits u \<le> apiMinorUnit u"
    by (simp add: paymentCurrencyAmountUnits_def)
  then show ?thesis
    by (auto simp: paymentCurrencyAmountUnitFor_def split: option.split dest: map_of_SomeD)
qed

lemma TrimSpace_id: "\<forall>c\<in>set s. \<not> is_space c \<Longrightarrow> TrimSpace s = s"
proof -
  assume a: "\<forall>c\<in>set s. \<not> is_space c"
  have id: "dropWhile is_space t = t" if "\<forall>c\<in>set t. \<not> is_space c" for t
    using that by (cases t) auto
  have "dropWhile is_space s = s" "dropWhile is_space (rev s) = rev s"
    using a by (auto intro!: id)
  then show ?thesis by (simp add: TrimSpace_def)
qed

lemma letters_normal:
  assumes "length n = 3" "\<forall>ch\<in>set n. 65 \<le> (of_char ch :: nat) \<and> (of_char ch :: nat) \<le> 90"
  shows "NormalizePaymentCurrency n = Some n"
proof -
  have "\<not> is_space c" if "c \<in> set n" for c
  proof -
    have "65 \<le> (of_char c :: nat)" using assms(2) that by blast
    then show ?thesis by (auto simp: is_space_def)
  qed
  then have t: "TrimSpace n = n" by (intro TrimSpace_id) blast
  have "map upper_char n = n"
  proof (rule map_idI)
    fix c assume "c \<in> set n"
    then have "(of_char c :: nat) \<le> 90" using assms(2) by blast
    then show "upper_char c = c" by (simp add: upper_char_def)
  qed
  then have u: "ToUpper (TrimSpace n) = n" by (simp add: t ToUpper_def)
  have "n \<noteq> []" "\<not> (\<exists>ch\<in>set n. (of_char ch :: nat) < 65 \<or> 90 < (of_char ch :: nat))"
    using assms by (auto simp: not_less)
  then show ?thesis using assms(1) by (simp only: NormalizePaymentCurrency_def u Let_def if_False if_True simp_thms)
qed

lemma normalize_idem: "NormalizePaymentCurrency c = Some n \<Longrightarrow> NormalizePaymentCurrency n = Some n"
proof -
  assume n: "NormalizePaymentCurrency c = Some n"
  have cny: "NormalizePaymentCurrency DefaultPaymentCurrency = Some DefaultPaymentCurrency" by code_simp
  show ?thesis
  proof (cases "ToUpper (TrimSpace c) = []")
    case True
    with n cny show ?thesis by (simp add: NormalizePaymentCurrency_def)
  next
    case False
    with n have "length n = 3" "\<not> (\<exists>ch\<in>set n. (of_char ch :: nat) < 65 \<or> 90 < (of_char ch :: nat))"
      by (auto simp: NormalizePaymentCurrency_def Let_def split: if_splits)
    then show ?thesis by (intro letters_normal) (auto simp: not_less)
  qed
qed

lemma normalized_unit: "NormalizePaymentCurrency c = Some n \<Longrightarrow> paymentCurrencyAmountUnitFor n = paymentCurrencyAmountUnitFor c"
  by (simp add: paymentCurrencyAmountUnitFor_def normalize_idem)

lemma Truncate_of_int [simp]: "Truncate (of_int k) = k"
  by (simp add: Truncate_def)

lemma whole_scaled: "(d :: rat) * 10 ^ m = of_int k \<Longrightarrow> m \<le> a \<Longrightarrow> d * 10 ^ a = of_int (k * 10 ^ (a - m))"
proof -
  assume d: "d * 10 ^ m = of_int k" and "m \<le> a"
  then have "(10 :: rat) ^ a = 10 ^ m * 10 ^ (a - m)" by (simp flip: power_add)
  then have "d * 10 ^ a = d * 10 ^ m * 10 ^ (a - m)" by (simp only: mult.assoc)
  with d show ?thesis by simp
qed

section \<open>Properties\<close>

text \<open>An amount that is accepted in a currency is converted to whole minor units that convert back to exactly
  that amount: nothing is rounded away, whatever the currency's number of digits.\<close>
lemma minor_units_lose_nothing:
  assumes "AmountToMinorUnit (Some d) c = Some v"
  shows "MinorUnitToAmount v c = d"
proof -
  from assms obtain n where n: "NormalizePaymentCurrency c = Some n"
    by (auto simp: AmountToMinorUnit_def split: option.splits)
  let ?u = "paymentCurrencyAmountUnitFor c"
  from assms n have k: "d * 10 ^ maxFractionDigits ?u = of_int (Truncate (d * 10 ^ maxFractionDigits ?u))"
    and v: "v = Truncate (d * 10 ^ apiMinorUnit ?u)"
    by (simp_all add: AmountToMinorUnit_def Let_def normalized_unit [OF n] split: if_splits)
  from whole_scaled [OF k api_ge_fraction] v have "d * 10 ^ apiMinorUnit ?u = of_int v" by (simp only: Truncate_of_int)
  then show ?thesis by (simp add: MinorUnitToAmount_def CurrencyMinorUnit_def field_simps)
qed

theorem minor_units_lose_nothing_witness: "MinorUnitToAmount 1234 '' usd '' = 1234 / 100"
proof -
  have "AmountToMinorUnit (Some (1234 / 100)) '' usd '' = Some 1234" by code_simp
  from minor_units_lose_nothing [OF this] show ?thesis .
qed

end
