(* ===== verification/PaymentFulfillment.thy ===== *)
theory PaymentFulfillment
  imports PaymentOrders
begin

text \<open>
  How a paid order is credited: \<open>internal/service/payment_fulfillment.go\<close>, the cancellation, expiry and upstream
  check of \<open>internal/service/payment_order_lifecycle.go\<close>, and the redeeming of a balance code
  (\<open>RedeemService.CreateCode\<close>, \<open>RedeemService.Redeem\<close>).

  A call of one of these methods is a \<open>worker\<close>: the point it has reached, with the data it holds. A step runs the code
  from one database call to the next, so the steps of any number of workers, of refunds and of users who redeem codes can
  interleave. Each call may fail before it has an effect or after it (\<open>LostReply\<close>), which is also how a
  worker looks that stops for good. A database transaction is one step, except where the code reacts to a
  conflict with another one. Log lines, notification mails and details of audit rows are left out; errors are
  strings. The environment of a step says what the parts that are not modelled answer: the provider instance of
  the order, the provider's own order state, the rate limit and lock of the redeem service, the group, the
  subscription service and the affiliate service.
\<close>

section \<open>Environment\<close>

datatype answer = Answered | Refused | LostReply

record step_env =
  answer :: answer
  now :: time
  instance_key :: string
  upstream :: "(rat \<times> string \<times> metadata) option"
  upstream_key :: string
  admitted :: bool
  group_active :: bool
  noted :: bool
  assigned :: bool
  cache_cleared :: bool
  affiliate :: bool
  rebate :: "rat option"

definition ask :: "step_env \<Rightarrow> 'a \<Rightarrow> 'a option" where
  "ask e x = (if answer e = Answered then Some x else None)"

definition tell :: "step_env \<Rightarrow> 'a \<times> paydb \<Rightarrow> paydb \<Rightarrow> 'a option \<times> paydb" where
  "tell e r db =
     (case answer e of Answered \<Rightarrow> (Some (fst r), snd r) | LostReply \<Rightarrow> (None, snd r) | Refused \<Rightarrow> (None, db))"

section \<open>Workers\<close>

record PaymentNotification =
  n_status :: string
  n_trade_no :: string
  n_order_id :: string
  n_amount :: float64
  n_metadata :: metadata

datatype worker =
    Notify PaymentNotification string
  | Confirm ident string float64 string metadata
  | ToPaid PaymentOrder string rat
  | Processed ident
  | Log audit worker
  | Execute ident
  | ExecuteBalance ident
  | ExecuteSubscription ident
  | Acquire PaymentOrder
  | AcquireCheck PaymentOrder
  | Claim PaymentOrder
  | LookupCode PaymentOrder time
  | CreateCode PaymentOrder time
  | RedeemRead PaymentOrder time
  | RedeemTx PaymentOrder time RedeemCode
  | SubGroup PaymentOrder time
  | SubRead PaymentOrder time
  | SubWrite PaymentOrder time
  | SubClaimed PaymentOrder time
  | Rebate PaymentOrder time
  | Complete PaymentOrder time
  | CompleteCheck PaymentOrder time
  | CompleteLog PaymentOrder
  | MarkFailed ident time string
  | Retry ident
  | Cancel ident "ident option"
  | Expire ident
  | Verify ident
  | Probe PaymentOrder "order_status option"
  | PersistTradeNo PaymentOrder string rat metadata
  | CancelUpdate ident order_status
  | Done "string option"

section \<open>Small functions\<close>

definition orderIDPrefix :: string where "orderIDPrefix = ''sub2_''"
definition paymentGrace :: duration where "paymentGrace = 5 * Minute"
definition paymentFulfillmentLeaseDuration :: duration where "paymentFulfillmentLeaseDuration = 5 * Minute"

definition parseLegacyPaymentOrderID :: "string \<Rightarrow> bool \<Rightarrow> ident option" where
  "parseLegacyPaymentOrderID orderID notFound =
     (if \<not> notFound then None
      else let orderID = TrimSpace orderID in
      if \<not> HasPrefix orderID orderIDPrefix then None
      else let trimmed = drop (length orderIDPrefix) orderID in
      if trimmed = [] then None
      else case ParseInt trimmed of
        None \<Rightarrow> None
      | Some i \<Rightarrow> if i \<le> 0 then None else Some i)"

definition affiliateRebateBaseAmount :: "PaymentOrder \<Rightarrow> rat" where
  "affiliateRebateBaseAmount r =
     (case order_type r of BalanceOrder \<Rightarrow> amount r | SubscriptionOrder \<Rightarrow> amount r | OtherOrder _ \<Rightarrow> 0)"

definition paymentOrderQueryReference :: "PaymentOrder \<Rightarrow> string \<Rightarrow> string" where
  "paymentOrderQueryReference r provKey =
     (let k = TrimSpace provKey;
          k = (if k = [] then (case snapshot r of Some s \<Rightarrow> TrimSpace (snapProviderKey s) | None \<Rightarrow> []) else k);
          k = (if k = [] then TrimSpace (case provider_key r of Some p \<Rightarrow> p | None \<Rightarrow> []) else k);
          k = (if k = [] then TrimSpace (payment_type r) else k);
          b = GetBasePaymentType k
      in if b = TypeAlipay \<or> b = TypeEasyPay \<or> b = TypeWxpay then TrimSpace (out_trade_no r)
         else if TrimSpace (payment_trade_no r) \<noteq> [] then TrimSpace (payment_trade_no r)
         else TrimSpace (out_trade_no r))"

definition paymentOrderShouldPersistUpstreamTradeNo :: "string \<Rightarrow> string \<Rightarrow> string \<Rightarrow> bool" where
  "paymentOrderShouldPersistUpstreamTradeNo queryRef upstreamTradeNo currentTradeNo =
     (let up = TrimSpace upstreamTradeNo in
      up \<noteq> [] \<and> \<not> EqualFold up (TrimSpace currentTradeNo) \<and> \<not> EqualFold up (TrimSpace queryRef))"

datatype redeemAction = redeemActionCreate | redeemActionRedeem | redeemActionSkipCompleted

definition resolveRedeemAction :: "RedeemCode option \<Rightarrow> bool \<Rightarrow> redeemAction" where
  "resolveRedeemAction existing lookupErr =
     (case existing of
        None \<Rightarrow> redeemActionCreate
      | Some r \<Rightarrow>
          if lookupErr then redeemActionCreate
          else if rc_status r = CodeUsed then redeemActionSkipCompleted
          else redeemActionRedeem)"

section \<open>Statements\<close>

definition orders_by_out_trade_no :: "string \<Rightarrow> paydb \<Rightarrow> PaymentOrder list" where
  "orders_by_out_trade_no n db = filter (\<lambda>r. out_trade_no r = n) (orders db)"

definition set_paid :: "ident \<Rightarrow> string \<Rightarrow> rat \<Rightarrow> time \<Rightarrow> paydb \<Rightarrow> nat \<times> paydb" where
  "set_paid i tradeNo paid t =
     update_orders
       (\<lambda>r. oid r = i \<and> (status r = Pending \<or> status r = Cancelled \<or>
          status r = Expired \<and> t - paymentGrace \<le> updated_at r))
       (\<lambda>r. r\<lparr>status := Paid, pay_amount := paid, payment_trade_no := tradeNo, paid_at := Some t,
              failed_reason := None, updated_at := t\<rparr>)"

definition take_lease :: "ident \<Rightarrow> time \<Rightarrow> paydb \<Rightarrow> nat \<times> paydb" where
  "take_lease i t =
     (let t = t - t mod 1000 in
      update_orders
        (\<lambda>r. oid r = i \<and> (status r = Paid \<or> status r = Failed \<or>
           status r = Recharging \<and> updated_at r \<le> t - paymentFulfillmentLeaseDuration))
        (\<lambda>r. r\<lparr>status := Recharging, updated_at := t, failed_reason := None\<rparr>))"

definition set_completed :: "ident \<Rightarrow> time \<Rightarrow> time \<Rightarrow> paydb \<Rightarrow> nat \<times> paydb" where
  "set_completed i lease t =
     update_orders (\<lambda>r. oid r = i \<and> status r = Recharging \<and> updated_at r = lease)
       (\<lambda>r. r\<lparr>status := Completed, updated_at := t\<rparr>)"

definition set_failed :: "ident \<Rightarrow> time \<Rightarrow> string \<Rightarrow> time \<Rightarrow> paydb \<Rightarrow> nat \<times> paydb" where
  "set_failed i lease reason t =
     update_orders (\<lambda>r. oid r = i \<and> status r = Recharging \<and> updated_at r = lease)
       (\<lambda>r. r\<lparr>status := Failed, failed_reason := Some reason, updated_at := t\<rparr>)"

definition set_cancelled :: "ident \<Rightarrow> order_status \<Rightarrow> time \<Rightarrow> paydb \<Rightarrow> nat \<times> paydb" where
  "set_cancelled i fs t =
     update_orders (\<lambda>r. oid r = i \<and> status r = Pending) (\<lambda>r. r\<lparr>status := fs, updated_at := t\<rparr>)"

definition set_trade_no :: "ident \<Rightarrow> string \<Rightarrow> time \<Rightarrow> paydb \<Rightarrow> nat \<times> paydb" where
  "set_trade_no i tradeNo t =
     update_orders (\<lambda>r. oid r = i) (\<lambda>r. r\<lparr>payment_trade_no := tradeNo, updated_at := t\<rparr>)"

text \<open>The transaction of \<open>applyAffiliateRebateForOrder\<close>: the claim, the accrual and the final action. The first
  component is false when the affiliate service fails, and then nothing is kept.\<close>

definition rebate_tx :: "ident \<Rightarrow> rat option \<Rightarrow> paydb \<Rightarrow> bool \<times> paydb" where
  "rebate_tx i accrued db =
     (if has_audit db i ''AFFILIATE_REBATE_APPLIED'' \<or> has_audit db i ''AFFILIATE_REBATE_SKIPPED'' then (True, db)
      else case accrued of
        None \<Rightarrow> (False, db)
      | Some x \<Rightarrow>
          if x \<le> 0 then (True, snd (insert_audit (plain_audit i ''AFFILIATE_REBATE_SKIPPED'') db))
          else (True, (snd (insert_audit (plain_audit i ''AFFILIATE_REBATE_APPLIED'') db))\<lparr>rebates := i # rebates db\<rparr>))"

definition hasPaymentSubscriptionAssignmentAudit :: "paydb \<Rightarrow> ident \<Rightarrow> bool" where
  "hasPaymentSubscriptionAssignmentAudit db i =
     (has_audit db i ''SUBSCRIPTION_ASSIGNED'' \<or> has_audit db i ''SUBSCRIPTION_SUCCESS'')"

text \<open>The writes of \<open>ensurePaymentSubscriptionAssigned\<close>, committed together: the assignment, unless the
  subscription already carries the note of this order, and the audit row. False is the violation of the unique index.\<close>

definition assign_tx :: "ident \<Rightarrow> bool \<Rightarrow> paydb \<Rightarrow> bool \<times> paydb" where
  "assign_tx i recoveredFromNote db =
     (case insert_audit (plain_audit i ''SUBSCRIPTION_ASSIGNED'') db of
        (False, _) \<Rightarrow> (False, db)
      | (True, db') \<Rightarrow> (True, if recoveredFromNote then db' else db'\<lparr>grants := i # grants db\<rparr>))"

section \<open>Steps\<close>

definition logged :: "ident \<Rightarrow> string \<Rightarrow> worker \<Rightarrow> worker" where
  "logged i act w = Log (plain_audit i act) w"

text \<open>\<open>HandlePaymentNotification\<close>: the lookup of the order. \<open>Only\<close> fails on no row, which is not-found, and on several.\<close>

definition notify_step :: "step_env \<Rightarrow> PaymentNotification \<Rightarrow> string \<Rightarrow> paydb \<Rightarrow> worker" where
  "notify_step e n pk db =
     (if n_status n \<noteq> ''success'' then Done None
      else case ask e (orders_by_out_trade_no (n_order_id n) db) of
        Some [r] \<Rightarrow> Confirm (oid r) (n_trade_no n) (n_amount n) pk (n_metadata n)
      | rows \<Rightarrow>
          (case parseLegacyPaymentOrderID (n_order_id n) (rows = Some []) of
             Some i \<Rightarrow> Confirm i (n_trade_no n) (n_amount n) pk (n_metadata n)
           | None \<Rightarrow> Done (Some (if rows = Some [] then ''order not found'' else ''lookup order failed''))))"

definition confirmPayment ::
  "(string \<Rightarrow> string) \<Rightarrow> step_env \<Rightarrow> ident \<Rightarrow> string \<Rightarrow> float64 \<Rightarrow> string \<Rightarrow> metadata \<Rightarrow> paydb \<Rightarrow> worker" where
  "confirmPayment registry e i tradeNo paid pk metadata db =
     (case ask e (get_order db i) of
        Some (Some r) \<Rightarrow>
          let expected = expectedNotificationProviderKeyForOrder registry r (instance_key e) in
          if expected \<noteq> [] \<and> TrimSpace pk \<noteq> [] \<and> \<not> EqualFold expected (TrimSpace pk)
          then logged i ''PAYMENT_PROVIDER_MISMATCH'' (Done (Some ''provider mismatch''))
          else (case validateProviderSnapshotMetadata r pk metadata of
            Some err \<Rightarrow> logged i ''PAYMENT_PROVIDER_METADATA_MISMATCH'' (Done (Some err))
          | None \<Rightarrow>
              (case paid of
                 Finite q \<Rightarrow>
                   if \<not> 0 < q then logged i ''PAYMENT_INVALID_AMOUNT'' (Done (Some ''invalid paid amount''))
                   else if \<bar>q - pay_amount r\<bar> > paymentAmountToleranceForCurrency (PaymentOrderCurrency r)
                   then logged i ''PAYMENT_AMOUNT_MISMATCH'' (Done (Some ''amount mismatch''))
                   else ToPaid r tradeNo q
               | _ \<Rightarrow> logged i ''PAYMENT_INVALID_AMOUNT'' (Done (Some ''invalid paid amount''))))
      | _ \<Rightarrow> Done None)"

definition toPaid :: "step_env \<Rightarrow> PaymentOrder \<Rightarrow> string \<Rightarrow> rat \<Rightarrow> paydb \<Rightarrow> worker \<times> paydb" where
  "toPaid e r tradeNo paid db =
     (case tell e (set_paid (oid r) tradeNo paid (now e) db) db of
        (None, db) \<Rightarrow> (Done (Some ''update to PAID''), db)
      | (Some c, db) \<Rightarrow>
          (if c = 0 then Processed (oid r)
           else let go = logged (oid r) ''ORDER_PAID'' (Execute (oid r)) in
           if status r = Cancelled \<or> status r = Expired then logged (oid r) ''ORDER_RECOVERED'' go else go, db))"

definition alreadyProcessed :: "step_env \<Rightarrow> ident \<Rightarrow> paydb \<Rightarrow> worker" where
  "alreadyProcessed e i db =
     (case ask e (get_order db i) of
        Some (Some r) \<Rightarrow>
          (case status r of
             Completed \<Rightarrow> Done None
           | Refunded \<Rightarrow> Done None
           | Failed \<Rightarrow> Execute i
           | Paid \<Rightarrow> Execute i
           | Recharging \<Rightarrow> Execute i
           | Expired \<Rightarrow> logged i ''PAYMENT_AFTER_EXPIRY'' (Done None)
           | _ \<Rightarrow> Done None)
      | _ \<Rightarrow> Done None)"

definition executeFulfillment :: "step_env \<Rightarrow> ident \<Rightarrow> paydb \<Rightarrow> worker" where
  "executeFulfillment e i db =
     (case ask e (get_order db i) of
        Some (Some r) \<Rightarrow> if order_type r = SubscriptionOrder then ExecuteSubscription i else ExecuteBalance i
      | _ \<Rightarrow> Done (Some ''get order''))"

definition ExecuteBalanceFulfillment :: "step_env \<Rightarrow> ident \<Rightarrow> paydb \<Rightarrow> worker" where
  "ExecuteBalanceFulfillment e i db =
     (case ask e (get_order db i) of
        Some (Some r) \<Rightarrow>
          if status r = Completed then Done None
          else if psIsRefundStatus (status r) then Done (Some ''INVALID_STATUS'')
          else if status r \<noteq> Paid \<and> status r \<noteq> Failed \<and> status r \<noteq> Recharging then Done (Some ''INVALID_STATUS'')
          else Acquire r
      | _ \<Rightarrow> Done (Some ''NOT_FOUND''))"

definition ExecuteSubscriptionFulfillment :: "step_env \<Rightarrow> ident \<Rightarrow> paydb \<Rightarrow> worker" where
  "ExecuteSubscriptionFulfillment e i db =
     (case ask e (get_order db i) of
        Some (Some r) \<Rightarrow>
          if status r = Completed then Done None
          else if psIsRefundStatus (status r) then Done (Some ''INVALID_STATUS'')
          else if status r \<noteq> Paid \<and> status r \<noteq> Failed \<and> status r \<noteq> Recharging then Done (Some ''INVALID_STATUS'')
          else if sub_group r = None \<or> sub_days r = None then Done (Some ''INVALID_STATUS'')
          else Acquire r
      | _ \<Rightarrow> Done (Some ''NOT_FOUND''))"

text \<open>\<open>acquirePaymentFulfillmentLease\<close>: the update, and the reload after it took no row or one. A lease is the
  time the reload finds. What follows a lease depends on the method that asked for it.\<close>

definition acquire_step :: "step_env \<Rightarrow> PaymentOrder \<Rightarrow> paydb \<Rightarrow> worker \<times> paydb" where
  "acquire_step e r db =
     (case tell e (take_lease (oid r) (now e) db) db of
        (None, db) \<Rightarrow> (Done (Some ''acquire fulfillment lease''), db)
      | (Some c, db) \<Rightarrow> (if c = 0 then AcquireCheck r else Claim r, db))"

definition acquire_check :: "step_env \<Rightarrow> PaymentOrder \<Rightarrow> paydb \<Rightarrow> worker" where
  "acquire_check e r db =
     (case ask e (get_order db (oid r)) of
        Some (Some cur) \<Rightarrow> if status cur = Completed then Done None else Done (Some ''CONFLICT'')
      | _ \<Rightarrow> Done (Some ''reload fulfillment lease''))"

definition claim_step :: "step_env \<Rightarrow> PaymentOrder \<Rightarrow> paydb \<Rightarrow> worker" where
  "claim_step e r db =
     (case ask e (get_order db (oid r)) of
        Some (Some cur) \<Rightarrow>
          if status cur \<noteq> Recharging then Done (Some ''CONFLICT'')
          else if order_type r = SubscriptionOrder then SubGroup r (updated_at cur)
          else LookupCode r (updated_at cur)
      | _ \<Rightarrow> Done (Some ''reload acquired fulfillment lease''))"

text \<open>\<open>doBalance\<close>. An error of any of its calls marks the order as failed and is returned.\<close>

definition lookup_code :: "step_env \<Rightarrow> PaymentOrder \<Rightarrow> time \<Rightarrow> paydb \<Rightarrow> worker" where
  "lookup_code e r lease db =
     (let res = ask e (get_code db (recharge_code r));
          existing = (case res of Some x \<Rightarrow> x | None \<Rightarrow> None)
      in case resolveRedeemAction existing (res = None) of
           redeemActionSkipCompleted \<Rightarrow> Rebate r lease
         | redeemActionCreate \<Rightarrow> CreateCode r lease
         | redeemActionRedeem \<Rightarrow> RedeemRead r lease)"

definition create_code :: "step_env \<Rightarrow> PaymentOrder \<Rightarrow> time \<Rightarrow> paydb \<Rightarrow> worker \<times> paydb" where
  "create_code e r lease db =
     (let c = TrimSpace (recharge_code r);
          fail = MarkFailed (oid r) lease ''create redeem code''
      in if c = [] \<or> amount r = 0 then (fail, db)
         else case tell e (insert_code \<lparr>rc_code = c, rc_value = amount r, rc_status = CodeUnused,
                rc_used_by = None, rc_expires = None\<rparr> db) db of
           (Some True, db) \<Rightarrow> (RedeemRead r lease, db)
         | (_, db) \<Rightarrow> (fail, db))"

definition redeem_read :: "step_env \<Rightarrow> PaymentOrder \<Rightarrow> time \<Rightarrow> paydb \<Rightarrow> worker" where
  "redeem_read e r lease db =
     (let fail = MarkFailed (oid r) lease ''redeem balance'' in
      if \<not> admitted e then fail
      else case ask e (get_code db (recharge_code r)) of
        Some (Some code) \<Rightarrow>
          if \<not> CanUse code (now e) then fail
          else if balance_of db (ouser r) = None then fail
          else RedeemTx r lease code
      | _ \<Rightarrow> fail)"

definition redeem_step :: "step_env \<Rightarrow> PaymentOrder \<Rightarrow> time \<Rightarrow> RedeemCode \<Rightarrow> paydb \<Rightarrow> worker \<times> paydb" where
  "redeem_step e r lease code db =
     (case tell e (redeem_tx code (ouser r) db) db of
        (Some True, db) \<Rightarrow> (Rebate r lease, db)
      | (_, db) \<Rightarrow> (MarkFailed (oid r) lease ''redeem balance'', db))"

definition rebate_step :: "step_env \<Rightarrow> PaymentOrder \<Rightarrow> time \<Rightarrow> paydb \<Rightarrow> worker \<times> paydb" where
  "rebate_step e r lease db =
     (if affiliateRebateBaseAmount r \<le> 0 \<or> \<not> affiliate e then (Complete r lease, db)
      else case tell e (rebate_tx (oid r) (rebate e) db) db of
        (Some True, db) \<Rightarrow> (Complete r lease, db)
      | (_, db) \<Rightarrow> (logged (oid r) ''AFFILIATE_REBATE_FAILED'' (MarkFailed (oid r) lease ''affiliate rebate''), db))"

text \<open>\<open>doSub\<close> and \<open>ensurePaymentSubscriptionAssigned\<close>.\<close>

definition sub_group_step :: "step_env \<Rightarrow> PaymentOrder \<Rightarrow> time \<Rightarrow> worker" where
  "sub_group_step e r lease =
     (if group_active e then SubRead r lease else MarkFailed (oid r) lease ''group no longer exists or inactive'')"

definition sub_read :: "step_env \<Rightarrow> PaymentOrder \<Rightarrow> time \<Rightarrow> paydb \<Rightarrow> worker" where
  "sub_read e r lease db =
     (case ask e (hasPaymentSubscriptionAssignmentAudit db (oid r)) of
        None \<Rightarrow> MarkFailed (oid r) lease ''check subscription assignment audit''
      | Some True \<Rightarrow> if cache_cleared e then Rebate r lease
                      else MarkFailed (oid r) lease ''invalidate subscription cache''
      | Some False \<Rightarrow> SubWrite r lease)"

definition sub_write :: "step_env \<Rightarrow> PaymentOrder \<Rightarrow> time \<Rightarrow> paydb \<Rightarrow> worker \<times> paydb" where
  "sub_write e r lease db =
     (if \<not> noted e \<and> \<not> assigned e then (MarkFailed (oid r) lease ''assign subscription'', db)
      else case tell e (assign_tx (oid r) (noted e) db) db of
        (Some True, db) \<Rightarrow>
          (if cache_cleared e then Rebate r lease else MarkFailed (oid r) lease ''invalidate subscription cache'', db)
      | (Some False, db) \<Rightarrow> (SubClaimed r lease, db)
      | (None, db) \<Rightarrow> (MarkFailed (oid r) lease ''commit subscription fulfillment tx'', db))"

definition sub_claimed :: "step_env \<Rightarrow> PaymentOrder \<Rightarrow> time \<Rightarrow> paydb \<Rightarrow> worker" where
  "sub_claimed e r lease db =
     (case ask e (hasPaymentSubscriptionAssignmentAudit db (oid r)) of
        Some True \<Rightarrow> if cache_cleared e then Rebate r lease
                      else MarkFailed (oid r) lease ''invalidate subscription cache''
      | _ \<Rightarrow> MarkFailed (oid r) lease ''record subscription assignment audit'')"

definition markCompleted :: "step_env \<Rightarrow> PaymentOrder \<Rightarrow> time \<Rightarrow> paydb \<Rightarrow> worker \<times> paydb" where
  "markCompleted e r lease db =
     (case tell e (set_completed (oid r) lease (now e) db) db of
        (None, db) \<Rightarrow> (MarkFailed (oid r) lease ''mark completed'', db)
      | (Some c, db) \<Rightarrow> (if c = 0 then CompleteCheck r lease else CompleteLog r, db))"

definition complete_check :: "step_env \<Rightarrow> PaymentOrder \<Rightarrow> time \<Rightarrow> paydb \<Rightarrow> worker" where
  "complete_check e r lease db =
     (case ask e (get_order db (oid r)) of
        Some (Some cur) \<Rightarrow>
          if status cur = Completed then Done None else MarkFailed (oid r) lease ''fulfillment lease was lost''
      | _ \<Rightarrow> MarkFailed (oid r) lease ''fulfillment lease was lost'')"

definition complete_log :: "step_env \<Rightarrow> PaymentOrder \<Rightarrow> paydb \<Rightarrow> worker" where
  "complete_log e r db =
     (let act = (if order_type r = SubscriptionOrder then ''SUBSCRIPTION_SUCCESS'' else ''RECHARGE_SUCCESS'') in
      if ask e (has_audit db (oid r) act) = Some True then Done None else logged (oid r) act (Done None))"

definition markFailed :: "step_env \<Rightarrow> ident \<Rightarrow> time \<Rightarrow> string \<Rightarrow> paydb \<Rightarrow> worker \<times> paydb" where
  "markFailed e i lease cause db =
     (case tell e (set_failed i lease cause (now e) db) db of
        (Some c, db) \<Rightarrow>
          (if c > 0 then logged i ''FULFILLMENT_FAILED'' (Done (Some cause)) else Done (Some cause), db)
      | (None, db) \<Rightarrow> (Done (Some cause), db))"

definition RetryFulfillment :: "step_env \<Rightarrow> ident \<Rightarrow> paydb \<Rightarrow> worker" where
  "RetryFulfillment e i db =
     (case ask e (get_order db i) of
        Some (Some r) \<Rightarrow>
          if paid_at r = None then Done (Some ''INVALID_STATUS'')
          else if psIsRefundStatus (status r) then Done (Some ''INVALID_STATUS'')
          else if status r = Completed then Done (Some ''INVALID_STATUS'')
          else if status r \<noteq> Failed \<and> status r \<noteq> Paid \<and> status r \<noteq> Recharging then Done (Some ''INVALID_STATUS'')
          else logged i ''RECHARGE_RETRY'' (Execute i)
      | _ \<Rightarrow> Done (Some ''NOT_FOUND''))"

text \<open>Cancellation by the user (\<open>Some uid\<close>) or an administrator, expiry of an order the query has found, and the
  upstream check before both; \<open>VerifyOrderByOutTradeNo\<close> and \<open>ReconcilePendingWxpayOrders\<close> run the check alone.\<close>

definition CancelOrder :: "step_env \<Rightarrow> ident \<Rightarrow> ident option \<Rightarrow> paydb \<Rightarrow> worker" where
  "CancelOrder e i user db =
     (case ask e (get_order db i) of
        Some (Some r) \<Rightarrow>
          if user \<noteq> None \<and> user \<noteq> Some (ouser r) then Done (Some ''FORBIDDEN'')
          else if status r \<noteq> Pending then Done (Some ''INVALID_STATUS'')
          else Probe r (Some Cancelled)
      | _ \<Rightarrow> Done (Some ''NOT_FOUND''))"

definition ExpireTimedOutOrder :: "step_env \<Rightarrow> ident \<Rightarrow> paydb \<Rightarrow> worker" where
  "ExpireTimedOutOrder e i db =
     (case ask e (get_order db i) of
        Some (Some r) \<Rightarrow>
          if status r = Pending \<and> expires_at r \<le> now e then Probe r (Some Expired) else Done None
      | _ \<Rightarrow> Done (Some ''query expired''))"

definition VerifyOrder :: "step_env \<Rightarrow> ident \<Rightarrow> paydb \<Rightarrow> worker" where
  "VerifyOrder e i db =
     (case ask e (get_order db i) of
        Some (Some r) \<Rightarrow> if status r = Pending \<or> status r = Expired then Probe r None else Done None
      | _ \<Rightarrow> Done (Some ''NOT_FOUND''))"

text \<open>\<open>upstream\<close> is the provider's answer that the order is paid, with a valid amount, on the first or the
  second query; without one the check says nothing and a cancellation goes on. The caller ignores what the notification
  returns.\<close>

definition checkPaid :: "step_env \<Rightarrow> PaymentOrder \<Rightarrow> order_status option \<Rightarrow> worker" where
  "checkPaid e r cancel =
     (let unpaid = (case cancel of None \<Rightarrow> Done None | Some fs \<Rightarrow> CancelUpdate (oid r) fs) in
      if cancel \<noteq> None \<and> payment_trade_no r = [] \<and> payment_type r = [] then unpaid
      else let queryRef = paymentOrderQueryReference r (upstream_key e) in
      if queryRef = [] then unpaid
      else case upstream e of
        None \<Rightarrow> unpaid
      | Some (paid, tradeNo, md) \<Rightarrow>
          if paid \<le> 0 then unpaid
          else if paymentOrderShouldPersistUpstreamTradeNo queryRef tradeNo (payment_trade_no r)
          then PersistTradeNo r (TrimSpace tradeNo) paid md
          else Notify \<lparr>n_status = ''success'', n_trade_no = payment_trade_no r, n_order_id = out_trade_no r,
                 n_amount = Finite paid, n_metadata = md\<rparr> (upstream_key e))"

definition persist_step :: "step_env \<Rightarrow> PaymentOrder \<Rightarrow> string \<Rightarrow> rat \<Rightarrow> metadata \<Rightarrow> paydb \<Rightarrow> worker \<times> paydb" where
  "persist_step e r tradeNo paid md db =
     (Notify \<lparr>n_status = ''success'', n_trade_no = tradeNo, n_order_id = out_trade_no r,
        n_amount = Finite paid, n_metadata = md\<rparr> (upstream_key e),
      snd (tell e (set_trade_no (oid r) tradeNo (now e) db) db))"

definition cancel_update :: "step_env \<Rightarrow> ident \<Rightarrow> order_status \<Rightarrow> paydb \<Rightarrow> worker \<times> paydb" where
  "cancel_update e i fs db =
     (case tell e (set_cancelled i fs (now e) db) db of
        (None, db) \<Rightarrow> (Done (Some ''update order status''), db)
      | (Some c, db) \<Rightarrow>
          (if c > 0 then logged i (if fs = Expired then ''ORDER_EXPIRED'' else ''ORDER_CANCELLED'') (Done None)
           else Done None, db))"

text \<open>One step of a worker. Writing an audit row is best effort.\<close>

fun step :: "(string \<Rightarrow> string) \<Rightarrow> step_env \<Rightarrow> worker \<Rightarrow> paydb \<Rightarrow> worker \<times> paydb" where
  "step R e (Notify n pk) db = (notify_step e n pk db, db)"
| "step R e (Confirm i t x pk md) db = (confirmPayment R e i t x pk md db, db)"
| "step R e (ToPaid r t x) db = toPaid e r t x db"
| "step R e (Processed i) db = (alreadyProcessed e i db, db)"
| "step R e (Log a w) db = (w, snd (tell e (insert_audit a db) db))"
| "step R e (Execute i) db = (executeFulfillment e i db, db)"
| "step R e (ExecuteBalance i) db = (ExecuteBalanceFulfillment e i db, db)"
| "step R e (ExecuteSubscription i) db = (ExecuteSubscriptionFulfillment e i db, db)"
| "step R e (Acquire r) db = acquire_step e r db"
| "step R e (AcquireCheck r) db = (acquire_check e r db, db)"
| "step R e (Claim r) db = (claim_step e r db, db)"
| "step R e (LookupCode r l) db = (lookup_code e r l db, db)"
| "step R e (CreateCode r l) db = create_code e r l db"
| "step R e (RedeemRead r l) db = (redeem_read e r l db, db)"
| "step R e (RedeemTx r l c) db = redeem_step e r l c db"
| "step R e (SubGroup r l) db = (sub_group_step e r l, db)"
| "step R e (SubRead r l) db = (sub_read e r l db, db)"
| "step R e (SubWrite r l) db = sub_write e r l db"
| "step R e (SubClaimed r l) db = (sub_claimed e r l db, db)"
| "step R e (Rebate r l) db = rebate_step e r l db"
| "step R e (Complete r l) db = markCompleted e r l db"
| "step R e (CompleteCheck r l) db = (complete_check e r l db, db)"
| "step R e (CompleteLog r) db = (complete_log e r db, db)"
| "step R e (MarkFailed i l c) db = markFailed e i l c db"
| "step R e (Retry i) db = (RetryFulfillment e i db, db)"
| "step R e (Cancel i u) db = (CancelOrder e i u db, db)"
| "step R e (Expire i) db = (ExpireTimedOutOrder e i db, db)"
| "step R e (Verify i) db = (VerifyOrder e i db, db)"
| "step R e (Probe r c) db = (checkPaid e r c, db)"
| "step R e (PersistTradeNo r t x md) db = persist_step e r t x md db"
| "step R e (CancelUpdate i fs) db = cancel_update e i fs db"
| "step R e (Done res) db = (Done res, db)"

end
