(* ===== verification/PaymentSystem.thy ===== *)
theory PaymentSystem
  imports PaymentFulfillment
begin

text \<open>
  The payment tables under any interleaving: the creation of an order (\<open>createOrderInTx\<close> of
  \<open>internal/service/payment_order.go\<close>), any number of fulfillment workers, users who redeem codes, new codes of
  administrators and the status changes of refunds. \<open>payment_step\<close> is the step relation over all of them and
  \<open>safe\<close> the invariant that makes a paid order credited exactly once.
\<close>

section \<open>Creating an order\<close>

definition defaultMaxPendingOrders :: int where "defaultMaxPendingOrders = 3"
definition defaultOrderTimeoutMin :: int where "defaultOrderTimeoutMin = 30"

definition psStartOfDayUTC :: "time \<Rightarrow> time" where
  "psStartOfDayUTC t = t - t mod (24 * Hour)"

definition psComputeValidityDays :: "int \<Rightarrow> string \<Rightarrow> int" where
  "psComputeValidityDays days u =
     (if u = ''week'' \<or> u = ''weeks'' then days * 7
      else if u = ''month'' \<or> u = ''months'' then days * 30 else days)"

record InstanceSelection =
  selInstanceID :: string
  selProviderKey :: string
  selPaymentMode :: string
  selConfig :: metadata

definition paymentProviderConfigCurrency :: "string \<Rightarrow> metadata \<Rightarrow> string" where
  "paymentProviderConfigCurrency providerKey cfg =
     (if TrimSpace providerKey = TypeStripe \<or> TrimSpace providerKey = TypeAirwallex
      then case NormalizePaymentCurrency (meta cfg ''currency'') of
             Some c \<Rightarrow> c | None \<Rightarrow> DefaultPaymentCurrency
      else DefaultPaymentCurrency)"

definition ResolveWxpayJSAPIAppID :: "metadata \<Rightarrow> string" where
  "ResolveWxpayJSAPIAppID cfg =
     (if TrimSpace (meta cfg ''mpAppId'') \<noteq> [] then TrimSpace (meta cfg ''mpAppId'')
      else TrimSpace (meta cfg ''appId''))"

definition paymentOrderSnapshotWxpayAppID :: "InstanceSelection \<Rightarrow> string \<Rightarrow> string" where
  "paymentOrderSnapshotWxpayAppID sel openID =
     (if TrimSpace (selProviderKey sel) \<noteq> TypeWxpay then []
      else if TrimSpace openID \<noteq> [] then TrimSpace (ResolveWxpayJSAPIAppID (selConfig sel))
      else TrimSpace (meta (selConfig sel) ''appId''))"

text \<open>A field that the snapshot does not have reads as the empty string.\<close>

definition buildPaymentOrderProviderSnapshot ::
  "InstanceSelection option \<Rightarrow> string \<Rightarrow> paymentOrderProviderSnapshot option" where
  "buildPaymentOrderProviderSnapshot selection openID =
     (case selection of
        None \<Rightarrow> None
      | Some sel \<Rightarrow>
          let k = TrimSpace (selProviderKey sel);
              cfg = (\<lambda>f. TrimSpace (meta (selConfig sel) f));
              snap = \<lparr>snapProviderInstanceID = TrimSpace (selInstanceID sel),
                snapProviderKey = k,
                snapMerchantAppID = (if k = TypeWxpay then paymentOrderSnapshotWxpayAppID sel openID
                  else if k = TypeAlipay then cfg ''appId'' else []),
                snapMerchantID = (if k = TypeWxpay then cfg ''mchId''
                  else if k = TypeEasyPay then cfg ''pid''
                  else if k = TypeAirwallex then cfg ''accountId'' else []),
                snapCurrency = (if k = TypeWxpay then DefaultPaymentCurrency
                  else if k = TypeStripe \<or> k = TypeAirwallex then paymentProviderConfigCurrency k (selConfig sel)
                  else [])\<rparr>
          in if snap = \<lparr>snapProviderInstanceID = [], snapProviderKey = [], snapMerchantAppID = [],
                 snapMerchantID = [], snapCurrency = []\<rparr> \<and> TrimSpace (selPaymentMode sel) = []
             then None else Some snap)"

definition checkPendingLimit :: "paydb \<Rightarrow> ident \<Rightarrow> int \<Rightarrow> bool" where
  "checkPendingLimit db u maxOrders =
     (let m = (if maxOrders \<le> 0 then defaultMaxPendingOrders else maxOrders)
      in int (length (filter (\<lambda>r. ouser r = u \<and> status r = Pending) (orders db))) < m)"

definition daily_used :: "paydb \<Rightarrow> ident \<Rightarrow> time \<Rightarrow> rat" where
  "daily_used db u t =
     sum_list (map (\<lambda>r. if order_type r = BalanceOrder then pay_amount r else amount r)
       (filter (\<lambda>r. ouser r = u \<and> (status r = Paid \<or> status r = Recharging \<or> status r = Completed) \<and>
          (case paid_at r of Some p \<Rightarrow> psStartOfDayUTC t \<le> p | None \<Rightarrow> False)) (orders db)))"

definition checkDailyLimit :: "paydb \<Rightarrow> ident \<Rightarrow> rat \<Rightarrow> rat \<Rightarrow> time \<Rightarrow> bool" where
  "checkDailyLimit db u x limit t = (limit \<le> 0 \<or> \<not> daily_used db u t + x > limit)"

text \<open>The five candidates the random generator gives.\<close>

definition allocateOutTradeNo :: "paydb \<Rightarrow> string list \<Rightarrow> string option" where
  "allocateOutTradeNo db candidates =
     first_match (\<lambda>c. orders_by_out_trade_no c db = []) (take 5 candidates)"

definition order_recharge_code :: "ident \<Rightarrow> time \<Rightarrow> string" where
  "order_recharge_code i t = ''PAY-'' @ FormatInt i @ ''-'' @ FormatInt (t smod 100000)"

record CreateOrderRequest =
  req_user :: ident
  req_payment_type :: string
  req_order_type :: order_type
  req_open_id :: string

record plan =
  plan_group :: ident
  plan_days :: int
  plan_unit :: string

record order_limits =
  MaxPendingOrders :: int
  DailyLimit :: rat
  OrderTimeoutMin :: int

text \<open>The transaction: \<open>i\<close> is the identifier the table assigns, \<open>candidates\<close> are the random trade numbers
  and \<open>nanos\<close> is the clock reading the recharge code takes.\<close>

definition createOrderInTx ::
  "CreateOrderRequest \<Rightarrow> plan option \<Rightarrow> order_limits \<Rightarrow> rat \<Rightarrow> rat \<Rightarrow> rat \<Rightarrow> InstanceSelection option \<Rightarrow>
   ident \<Rightarrow> string list \<Rightarrow> time \<Rightarrow> time \<Rightarrow> paydb \<Rightarrow> (string + PaymentOrder) \<times> paydb" where
  "createOrderInTx req pl cfg orderAmount limitAmount payAmount sel i candidates t nanos db =
     (if \<not> checkPendingLimit db (req_user req) (MaxPendingOrders cfg) then (Inl ''TOO_MANY_PENDING'', db)
      else if \<not> checkDailyLimit db (req_user req) limitAmount (DailyLimit cfg) t
      then (Inl ''DAILY_LIMIT_EXCEEDED'', db)
      else case allocateOutTradeNo db candidates of
        None \<Rightarrow> (Inl ''generate unique out_trade_no'', db)
      | Some outTradeNo \<Rightarrow>
          let tm = (if OrderTimeoutMin cfg \<le> 0 then defaultOrderTimeoutMin else OrderTimeoutMin cfg);
              k = (case sel of Some s \<Rightarrow> TrimSpace (selProviderKey s) | None \<Rightarrow> []);
              inst = (case sel of Some s \<Rightarrow> TrimSpace (selInstanceID s) | None \<Rightarrow> []);
              r = \<lparr>oid = i, ouser = req_user req, amount = orderAmount, pay_amount = payAmount,
                recharge_code = order_recharge_code i nanos, out_trade_no = outTradeNo,
                payment_type = req_payment_type req, payment_trade_no = [],
                order_type = req_order_type req, status = Pending,
                provider_instance_id = (if inst = [] then None else Some inst),
                provider_key = (if k = [] then None else Some k),
                snapshot = buildPaymentOrderProviderSnapshot sel (req_open_id req),
                sub_group = map_option plan_group pl,
                sub_days = map_option (\<lambda>p. psComputeValidityDays (plan_days p) (plan_unit p)) pl,
                refund_amount = 0, refund_reason = None, refund_request_reason = None, force_refund = False,
                failed_reason = None, paid_at = None, expires_at = t + tm * Minute, updated_at = t\<rparr>
          in (Inr r, db\<lparr>orders := orders db @ [r]\<rparr>))"

text \<open>The recharge code of an order contains its identifier, so two orders never share one.\<close>

lemma order_recharge_code_spaces: "c \<in> set (order_recharge_code i t) \<Longrightarrow> \<not> is_space c"
proof -
  have d: "\<not> is_space c" if "is_digit c \<or> c = CHR ''-''" for c
    using that by (auto simp: is_space_def is_digit_def)
  assume "c \<in> set (order_recharge_code i t)"
  then consider "c \<in> set ''PAY-''" | "c \<in> set (FormatInt i)" | "c = CHR ''-''" | "c \<in> set (FormatInt (t smod 100000))"
    by (auto simp: order_recharge_code_def)
  then show ?thesis
  proof cases
    case 1 then show ?thesis by (auto simp: is_space_def)
  next
    case 2 then show ?thesis using FormatInt_chars by (intro d)
  next
    case 3 then show ?thesis by (intro d) simp
  next
    case 4 then show ?thesis using FormatInt_chars by (intro d)
  qed
qed

lemma TrimSpace_order_code [simp]: "TrimSpace (order_recharge_code i t) = order_recharge_code i t"
  by (intro TrimSpace_id) (blast dest: order_recharge_code_spaces)

lemma order_code_inj:
  assumes "order_recharge_code i s = order_recharge_code j t" "0 \<le> i" "0 \<le> j"
  shows "i = j"
proof -
  have tk: "takeWhile (\<lambda>c. c \<noteq> CHR ''-'') (FormatInt n @ CHR ''-'' # xs) = FormatInt n" if "0 \<le> n" for n xs
  proof -
    have "\<forall>c\<in>set (FormatInt n). c \<noteq> CHR ''-''"
      using that nat_digits_are_digits is_digit_not_sign by (auto simp: FormatInt_def)
    then show ?thesis by (subst takeWhile_append2) auto
  qed
  from assms(1) have "FormatInt i @ CHR ''-'' # FormatInt (s smod 100000) = FormatInt j @ CHR ''-'' # FormatInt (t smod 100000)"
    by (simp add: order_recharge_code_def)
  then have "FormatInt i = FormatInt j" using tk assms(2,3) by metis
  then show ?thesis by simp
qed

section \<open>The system\<close>

text \<open>
  Next to the tables and the running calls the state lists the confirmations: the order, the amount the provider reported
  and the amount the order asked for. It is history that no code reads.
\<close>

record pay_system =
  pdb :: paydb
  calls :: "worker list"
  confirmations :: "(ident \<times> rat \<times> rat) list"

definition entry_point :: "worker \<Rightarrow> bool" where
  "entry_point w = (case w of Notify _ _ \<Rightarrow> True | Retry _ \<Rightarrow> True | Cancel _ _ \<Rightarrow> True | Expire _ \<Rightarrow> True
     | Verify _ \<Rightarrow> True | _ \<Rightarrow> False)"

definition final_status :: "order_status \<Rightarrow> bool" where
  "final_status s = (s = Completed \<or> psIsRefundStatus s)"

definition record_confirmation :: "worker \<Rightarrow> (ident \<times> rat \<times> rat) list \<Rightarrow> (ident \<times> rat \<times> rat) list" where
  "record_confirmation w cs = (case w of ToPaid r _ q \<Rightarrow> (oid r, q, pay_amount r) # cs | _ \<Rightarrow> cs)"

definition fail_creation :: "ident \<Rightarrow> time \<Rightarrow> paydb \<Rightarrow> paydb" where
  "fail_creation i t db = snd (update_orders (\<lambda>r. oid r = i) (\<lambda>r. r\<lparr>status := Failed, updated_at := t\<rparr>) db)"

inductive payment_step :: "(string \<Rightarrow> string) \<Rightarrow> pay_system \<Rightarrow> pay_system \<Rightarrow> bool" for R where
  spawn: "entry_point w \<Longrightarrow> payment_step R s (s\<lparr>calls := calls s @ [w]\<rparr>)"
| work: "n < length (calls s) \<Longrightarrow> step R e (calls s ! n) (pdb s) = (w, db) \<Longrightarrow>
    payment_step R s (s\<lparr>calls := (calls s)[n := w], pdb := db,
      confirmations := record_confirmation (calls s ! n) (confirmations s)\<rparr>)"
| create: "0 \<le> i \<Longrightarrow> i \<notin> oid ` set (orders (pdb s)) \<Longrightarrow>
    createOrderInTx req pl cfg x y z sel i candidates t nanos (pdb s) = (res, db) \<Longrightarrow>
    payment_step R s (s\<lparr>pdb := db\<rparr>)"
| create_failed: "payment_step R s (s\<lparr>pdb := fail_creation i t (pdb s)\<rparr>)"
| refund: "final_status new \<Longrightarrow>
    payment_step R s (s\<lparr>pdb := snd (update_orders (\<lambda>r. oid r = i \<and> final_status (status r))
      (\<lambda>r. r\<lparr>status := new, updated_at := t\<rparr>) (pdb s))\<rparr>)"
| user_redeems: "k \<in> set (codes (pdb s)) \<Longrightarrow> redeem_tx k u (pdb s) = (ok, db) \<Longrightarrow>
    payment_step R s (s\<lparr>pdb := db\<rparr>)"
| admin_code: "rc_status k = CodeUnused \<Longrightarrow> \<forall>i t. rc_code k \<noteq> order_recharge_code i t \<Longrightarrow>
    insert_code k (pdb s) = (ok, db) \<Longrightarrow> payment_step R s (s\<lparr>pdb := db\<rparr>)"

definition empty_tables :: "(ident \<times> rat) list \<Rightarrow> pay_system" where
  "empty_tables bs = \<lparr>pdb = \<lparr>orders = [], audits = [], codes = [], balances = bs, credits = [], grants = [],
     rebates = []\<rparr>, calls = [], confirmations = []\<rparr>"

inductive payment_reachable :: "(string \<Rightarrow> string) \<Rightarrow> pay_system \<Rightarrow> bool" for R where
  start: "payment_reachable R (empty_tables bs)"
| move: "payment_reachable R s \<Longrightarrow> payment_step R s s' \<Longrightarrow> payment_reachable R s'"

section \<open>The invariant\<close>

definition same_order :: "PaymentOrder \<Rightarrow> PaymentOrder \<Rightarrow> bool" where
  "same_order r r' = (oid r' = oid r \<and> ouser r' = ouser r \<and> amount r' = amount r \<and>
     recharge_code r' = recharge_code r \<and> order_type r' = order_type r)"

definition known :: "paydb \<Rightarrow> PaymentOrder \<Rightarrow> bool" where
  "known db r = (\<exists>r'\<in>set (orders db). same_order r r')"

definition code_used :: "paydb \<Rightarrow> string \<Rightarrow> bool" where
  "code_used db c = (\<exists>k\<in>set (codes db). rc_code k = c \<and> rc_status k = CodeUsed)"

definition fulfilled :: "paydb \<Rightarrow> PaymentOrder \<Rightarrow> bool" where
  "fulfilled db r = (if order_type r = SubscriptionOrder then has_audit db (oid r) ''SUBSCRIPTION_ASSIGNED''
     else code_used db (recharge_code r))"

definition code_value :: "paydb \<Rightarrow> string \<Rightarrow> rat \<Rightarrow> bool" where
  "code_value db c x = (\<exists>k\<in>set (codes db). rc_code k = c \<and> rc_value k = x)"

fun worker_ok :: "paydb \<Rightarrow> ident set \<Rightarrow> worker \<Rightarrow> bool" where
  "worker_ok db C (ToPaid r t q) =
     (known db r \<and> 0 < q \<and> \<bar>q - pay_amount r\<bar> \<le> paymentAmountToleranceForCurrency (PaymentOrderCurrency r))"
| "worker_ok db C (Processed i) = (i \<in> C)"
| "worker_ok db C (Log a w) = (worker_ok db C w \<and>
     (a_action a = ''SUBSCRIPTION_SUCCESS'' \<longrightarrow> has_audit db (a_order a) ''SUBSCRIPTION_ASSIGNED''))"
| "worker_ok db C (Execute i) = (i \<in> C)"
| "worker_ok db C (ExecuteBalance i) = (i \<in> C)"
| "worker_ok db C (ExecuteSubscription i) = (i \<in> C)"
| "worker_ok db C (Acquire r) = (known db r \<and> oid r \<in> C)"
| "worker_ok db C (AcquireCheck r) = (known db r \<and> oid r \<in> C)"
| "worker_ok db C (Claim r) = (known db r \<and> oid r \<in> C)"
| "worker_ok db C (LookupCode r l) = (known db r \<and> oid r \<in> C \<and> order_type r \<noteq> SubscriptionOrder)"
| "worker_ok db C (CreateCode r l) = (known db r \<and> oid r \<in> C \<and> order_type r \<noteq> SubscriptionOrder)"
| "worker_ok db C (RedeemRead r l) = (known db r \<and> oid r \<in> C \<and> order_type r \<noteq> SubscriptionOrder)"
| "worker_ok db C (RedeemTx r l k) = (known db r \<and> oid r \<in> C \<and> order_type r \<noteq> SubscriptionOrder \<and>
     rc_code k = recharge_code r \<and> code_value db (rc_code k) (rc_value k))"
| "worker_ok db C (SubGroup r l) = (known db r \<and> oid r \<in> C \<and> order_type r = SubscriptionOrder)"
| "worker_ok db C (SubRead r l) = (known db r \<and> oid r \<in> C \<and> order_type r = SubscriptionOrder)"
| "worker_ok db C (SubWrite r l) = (known db r \<and> oid r \<in> C \<and> order_type r = SubscriptionOrder)"
| "worker_ok db C (SubClaimed r l) = (known db r \<and> oid r \<in> C \<and> order_type r = SubscriptionOrder)"
| "worker_ok db C (Rebate r l) = (known db r \<and> oid r \<in> C \<and> fulfilled db r)"
| "worker_ok db C (Complete r l) = (known db r \<and> fulfilled db r)"
| "worker_ok db C (CompleteCheck r l) = (known db r \<and> fulfilled db r)"
| "worker_ok db C (CompleteLog r) = (known db r \<and> fulfilled db r)"
| "worker_ok db C (Probe r c) = (\<forall>fs. c = Some fs \<longrightarrow> \<not> final_status fs)"
| "worker_ok db C (CancelUpdate i fs) = (\<not> final_status fs)"
| "worker_ok db C _ = True"

definition orders_ok :: "paydb \<Rightarrow> bool" where
  "orders_ok db = (distinct (map oid (orders db)) \<and>
     (\<forall>r\<in>set (orders db). 0 \<le> oid r \<and> (\<exists>t. recharge_code r = order_recharge_code (oid r) t)))"

definition credits_ok :: "paydb \<Rightarrow> bool" where
  "credits_ok db = (distinct (map rc_code (codes db)) \<and> distinct (map fst (credits db)) \<and>
     (\<lambda>(c, u, x). (c, x)) ` set (credits db) =
       (\<lambda>k. (rc_code k, rc_value k)) ` {k \<in> set (codes db). rc_status k = CodeUsed})"

definition history_ok :: "ident set \<Rightarrow> paydb \<Rightarrow> bool" where
  "history_ok C db = (distinct (grants db) \<and> distinct (rebates db) \<and> set (grants db) \<subseteq> C \<and> set (rebates db) \<subseteq> C \<and>
     (\<forall>i\<in>set (grants db). has_audit db i ''SUBSCRIPTION_ASSIGNED'') \<and>
     (\<forall>i\<in>set (rebates db). has_audit db i ''AFFILIATE_REBATE_APPLIED'') \<and>
     (\<forall>i. has_audit db i ''SUBSCRIPTION_SUCCESS'' \<longrightarrow> has_audit db i ''SUBSCRIPTION_ASSIGNED''))"

definition rows_ok :: "ident set \<Rightarrow> paydb \<Rightarrow> bool" where
  "rows_ok C db = (\<forall>r\<in>set (orders db).
     (\<forall>k\<in>set (codes db). rc_code k = recharge_code r \<longrightarrow> rc_value k = amount r \<and> oid r \<in> C) \<and>
     (final_status (status r) \<longrightarrow> fulfilled db r) \<and> (paid_at r \<noteq> None \<longrightarrow> oid r \<in> C))"

definition codes_known :: "paydb \<Rightarrow> bool" where
  "codes_known db = (\<forall>k\<in>set (codes db).
     (\<exists>r\<in>set (orders db). rc_code k = recharge_code r) \<or> (\<forall>i t. rc_code k \<noteq> order_recharge_code i t))"

definition tables_ok :: "ident set \<Rightarrow> paydb \<Rightarrow> bool" where
  "tables_ok C db = (orders_ok db \<and> credits_ok db \<and> history_ok C db \<and> rows_ok C db \<and> codes_known db)"

definition grows :: "paydb \<Rightarrow> paydb \<Rightarrow> bool" where
  "grows db db' = ((\<forall>r. known db r \<longrightarrow> known db' r) \<and> (\<forall>c. code_used db c \<longrightarrow> code_used db' c) \<and>
     (\<forall>i a. has_audit db i a \<longrightarrow> has_audit db' i a) \<and> (\<forall>c x. code_value db c x \<longrightarrow> code_value db' c x))"

text \<open>Everything a call relies on is stable.\<close>

lemma tables_grow_refl [simp]: "grows db db"
  by (simp add: grows_def)

lemma fulfilled_mono: "grows db db' \<Longrightarrow> fulfilled db r \<Longrightarrow> fulfilled db' r"
  by (auto simp: grows_def fulfilled_def split: if_splits)

lemma worker_ok_mono: "worker_ok db C w \<Longrightarrow> grows db db' \<Longrightarrow> C \<subseteq> C' \<Longrightarrow> worker_ok db' C' w"
proof (induction w)
  case (Rebate r l) then show ?case using fulfilled_mono by (auto simp: grows_def)
next
  case (Complete r l) then show ?case using fulfilled_mono by (auto simp: grows_def)
next
  case (CompleteCheck r l) then show ?case using fulfilled_mono by (auto simp: grows_def)
next
  case (CompleteLog r) then show ?case using fulfilled_mono by (auto simp: grows_def)
qed (auto simp: grows_def)

lemma same_order_refl [simp]: "same_order r r"
  by (simp add: same_order_def)

lemma knownI: "r \<in> set (orders db) \<Longrightarrow> known db r"
  unfolding known_def by (rule bexI [of _ r]) auto

lemma get_orderD: "get_order db i = Some r \<Longrightarrow> r \<in> set (orders db) \<and> oid r = i"
  unfolding get_order_def by (blast dest: first_match_SomeD)

lemma get_codeD: "get_code db c = Some k \<Longrightarrow> k \<in> set (codes db) \<and> rc_code k = c"
  unfolding get_code_def by (blast dest: first_match_SomeD)

section \<open>Statements keep the invariant\<close>

lemma has_audit_insert [simp]:
  "has_audit (snd (insert_audit a db)) i act \<longleftrightarrow> has_audit db i act \<or> (a_order a = i \<and> a_action a = act)"
  by (auto simp: insert_audit_def has_audit_def)

lemma insert_audit_simps [simp]:
  "orders (snd (insert_audit a db)) = orders db" "codes (snd (insert_audit a db)) = codes db"
  "credits (snd (insert_audit a db)) = credits db" "grants (snd (insert_audit a db)) = grants db"
  "rebates (snd (insert_audit a db)) = rebates db" "balances (snd (insert_audit a db)) = balances db"
  by (simp_all add: insert_audit_def)

lemma grows_orders_codes:
  assumes "orders db' = orders db" "codes db' = codes db" "\<And>i a. has_audit db i a \<Longrightarrow> has_audit db' i a"
  shows "grows db db'"
  using assms by (simp add: grows_def known_def code_used_def code_value_def)

lemma tables_ok_audits:
  assumes ok: "tables_ok C db"
    and o: "orders db' = orders db" and k: "codes db' = codes db" and c: "credits db' = credits db"
    and a: "\<And>i a. has_audit db i a \<Longrightarrow> has_audit db' i a"
    and h: "history_ok C db'"
  shows "tables_ok C db'"
proof -
  have "fulfilled db r \<Longrightarrow> fulfilled db' r" for r
    by (rule fulfilled_mono [OF grows_orders_codes [OF o k a]])
  then have "rows_ok C db'" using ok o k unfolding tables_ok_def rows_ok_def by metis
  with ok h show ?thesis by (simp add: tables_ok_def orders_ok_def credits_ok_def codes_known_def o k c)
qed

lemma insert_audit_ok:
  assumes "tables_ok C db" "a_action a = ''SUBSCRIPTION_SUCCESS'' \<Longrightarrow> has_audit db (a_order a) ''SUBSCRIPTION_ASSIGNED''"
  shows "tables_ok C (snd (insert_audit a db))" "grows db (snd (insert_audit a db))"
proof -
  have "history_ok C (snd (insert_audit a db))"
    using assms by (auto simp: tables_ok_def history_ok_def)
  then show "tables_ok C (snd (insert_audit a db))" by (intro tables_ok_audits [OF assms(1)]) simp_all
  show "grows db (snd (insert_audit a db))" by (rule grows_orders_codes) simp_all
qed

lemma rebate_tx_ok:
  assumes ok: "tables_ok C db" and i: "i \<in> C"
  shows "tables_ok C (snd (rebate_tx i x db))" "grows db (snd (rebate_tx i x db))"
proof -
  let ?n = "snd (rebate_tx i x db)"
  have f: "orders ?n = orders db" "codes ?n = codes db" "credits ?n = credits db"
    by (simp_all add: rebate_tx_def split: option.split)
  have a: "has_audit db j act \<Longrightarrow> has_audit ?n j act" for j act
    using has_audit_insert by (auto simp: rebate_tx_def has_audit_def split: option.split)
  have "history_ok C ?n"
  proof (cases "has_audit db i ''AFFILIATE_REBATE_APPLIED'' \<or> has_audit db i ''AFFILIATE_REBATE_SKIPPED'' \<or> x = None")
    case True
    then show ?thesis using ok by (auto simp: rebate_tx_def tables_ok_def split: option.split)
  next
    case False
    then obtain y where x: "x = Some y" by auto
    let ?a = "plain_audit i (if y \<le> 0 then ''AFFILIATE_REBATE_SKIPPED'' else ''AFFILIATE_REBATE_APPLIED'')"
    have n: "?n = (snd (insert_audit ?a db))\<lparr>rebates := (if y \<le> 0 then rebates db else i # rebates db)\<rparr>"
      using False x by (simp add: rebate_tx_def)
    have au: "has_audit ?n j act \<longleftrightarrow> has_audit (snd (insert_audit ?a db)) j act" for j act
      unfolding n by (simp add: has_audit_def)
    have "i \<notin> set (rebates db)" using False ok by (auto simp: tables_ok_def history_ok_def)
    moreover have "rebates ?n = (if y \<le> 0 then rebates db else i # rebates db)" "grants ?n = grants db"
      unfolding n by simp_all
    ultimately show ?thesis using ok i
      by (auto simp: tables_ok_def history_ok_def au plain_audit_def simp del: insert_audit_simps split: if_splits)
  qed
  with f a ok show "tables_ok C ?n" by (intro tables_ok_audits [OF ok]) simp_all
  from f a show "grows db ?n" by (intro grows_orders_codes) simp_all
qed

lemma assign_tx_ok:
  assumes ok: "tables_ok C db" and i: "i \<in> C"
  shows "tables_ok C (snd (assign_tx i b db))" "grows db (snd (assign_tx i b db))"
    "fst (assign_tx i b db) \<Longrightarrow> has_audit (snd (assign_tx i b db)) i ''SUBSCRIPTION_ASSIGNED''"
proof -
  let ?n = "snd (assign_tx i b db)" and ?a = "plain_audit i ''SUBSCRIPTION_ASSIGNED''"
  let ?m = "snd (insert_audit ?a db)"
  consider "has_audit db i ''SUBSCRIPTION_ASSIGNED''" "assign_tx i b db = (False, db)"
    | "\<not> has_audit db i ''SUBSCRIPTION_ASSIGNED''" "assign_tx i b db = (True, ?m\<lparr>grants := (if b then grants db else i # grants db)\<rparr>)"
    by (cases "has_audit db i ''SUBSCRIPTION_ASSIGNED''") (simp_all add: assign_tx_def insert_audit_def plain_audit_def)
  then have "tables_ok C ?n \<and> grows db ?n \<and> (fst (assign_tx i b db) \<longrightarrow> has_audit ?n i ''SUBSCRIPTION_ASSIGNED'')"
  proof cases
    case 1 then show ?thesis using ok by simp
  next
    case 2
    then have n: "?n = ?m\<lparr>grants := (if b then grants db else i # grants db)\<rparr>" by simp
    have au: "has_audit ?n j act \<longleftrightarrow> has_audit db j act \<or> i = j \<and> act = ''SUBSCRIPTION_ASSIGNED''" for j act
      using has_audit_insert [of ?a db] unfolding n by (auto simp: has_audit_def plain_audit_def)
    have f: "orders ?n = orders db" "codes ?n = codes db" "credits ?n = credits db" "rebates ?n = rebates db"
      "grants ?n = (if b then grants db else i # grants db)"
      unfolding n by simp_all
    have "i \<notin> set (grants db)" using 2 ok by (auto simp: tables_ok_def history_ok_def)
    then have "history_ok C ?n" using ok i f by (auto simp: tables_ok_def history_ok_def au)
    then show ?thesis using f au by (auto intro!: tables_ok_audits [OF ok] grows_orders_codes)
  qed
  then show "tables_ok C ?n" "grows db ?n" "fst (assign_tx i b db) \<Longrightarrow> has_audit ?n i ''SUBSCRIPTION_ASSIGNED''" by simp_all
qed

lemma distinct_oids_inj: "orders_ok db \<Longrightarrow> r \<in> set (orders db) \<Longrightarrow> r' \<in> set (orders db) \<Longrightarrow> oid r = oid r' \<Longrightarrow> r = r'"
  by (auto simp: orders_ok_def distinct_map dest: inj_onD)

lemma same_code_same_order:
  "orders_ok db \<Longrightarrow> r \<in> set (orders db) \<Longrightarrow> r' \<in> set (orders db) \<Longrightarrow> recharge_code r = recharge_code r' \<Longrightarrow> r = r'"
  by (metis distinct_oids_inj order_code_inj orders_ok_def)

text \<open>An update of orders that keeps the immutable columns, and finishes only orders that have been fulfilled.\<close>

lemma update_orders_ok:
  assumes ok: "tables_ok C db" and C: "C \<subseteq> C'"
    and f: "\<And>r. same_order r (f r)"
    and fin: "\<And>r. r \<in> set (orders db) \<Longrightarrow> P r \<Longrightarrow> final_status (status (f r)) \<Longrightarrow> fulfilled db r"
    and paid: "\<And>r. r \<in> set (orders db) \<Longrightarrow> P r \<Longrightarrow> paid_at (f r) \<noteq> None \<Longrightarrow> paid_at r \<noteq> None \<or> oid r \<in> C'"
  shows "tables_ok C' (snd (update_orders P f db))" "grows db (snd (update_orders P f db))"
proof -
  let ?n = "snd (update_orders P f db)" and ?g = "\<lambda>r. if P r then f r else r"
  have g: "same_order r (?g r)" for r using f by simp
  have os: "orders ?n = map ?g (orders db)" by simp
  have ff: "oid (f r) = oid r" "recharge_code (f r) = recharge_code r" for r
    using f [of r] by (simp_all add: same_order_def)
  have au: "has_audit ?n i a = has_audit db i a" for i a by (simp add: has_audit_def)
  have cu: "code_used ?n c = code_used db c" for c by (simp add: code_used_def)
  have fu: "fulfilled ?n (?g r) = fulfilled db r" for r
    using g [of r] unfolding fulfilled_def same_order_def au cu by metis
  have kn: "known ?n r" if "known db r" for r
  proof -
    from that obtain r' where "r' \<in> set (orders db)" "same_order r r'" by (auto simp: known_def)
    moreover have "same_order r (?g r')" using \<open>same_order r r'\<close> g [of r'] by (simp add: same_order_def)
    ultimately show ?thesis unfolding known_def os by (intro bexI [of _ "?g r'"]) auto
  qed
  show gr: "grows db ?n" using kn by (simp add: grows_def au cu code_value_def)
  have ids: "map oid (orders ?n) = map oid (orders db)" using g by (simp add: same_order_def)
  have o: "orders_ok ?n"
    unfolding orders_ok_def ids using ok unfolding os tables_ok_def orders_ok_def by (auto simp: ff)
  have c: "credits_ok ?n" using ok by (simp add: tables_ok_def credits_ok_def)
  have h: "history_ok C' ?n" using ok C by (auto simp: tables_ok_def history_ok_def au)
  have r: "rows_ok C' ?n"
    unfolding rows_ok_def
  proof (intro ballI)
    fix r assume "r \<in> set (orders ?n)"
    then obtain r0 where r0: "r0 \<in> set (orders db)" "r = ?g r0" by auto
    have old: "(\<forall>k\<in>set (codes db). rc_code k = recharge_code r0 \<longrightarrow> rc_value k = amount r0 \<and> oid r0 \<in> C) \<and>
      (final_status (status r0) \<longrightarrow> fulfilled db r0) \<and> (paid_at r0 \<noteq> None \<longrightarrow> oid r0 \<in> C)"
      using ok r0(1) by (simp add: tables_ok_def rows_ok_def)
    have "final_status (status r) \<longrightarrow> fulfilled ?n r"
      using old fin [OF r0(1)] fu [of r0] r0(2) by (cases "P r0") auto
    moreover have "oid r = oid r0" "amount r = amount r0" "recharge_code r = recharge_code r0"
      using g [of r0] r0(2) by (simp_all add: same_order_def)
    moreover have "paid_at r \<noteq> None \<longrightarrow> oid r0 \<in> C'" using old paid [OF r0(1)] r0(2) C by (cases "P r0") auto
    ultimately show "(\<forall>k\<in>set (codes ?n). rc_code k = recharge_code r \<longrightarrow> rc_value k = amount r \<and> oid r \<in> C') \<and>
      (final_status (status r) \<longrightarrow> fulfilled ?n r) \<and> (paid_at r \<noteq> None \<longrightarrow> oid r \<in> C')"
      using old C by auto
  qed
  have rcs: "recharge_code ` set (orders ?n) = recharge_code ` set (orders db)"
  proof -
    have "map recharge_code (orders ?n) = map recharge_code (orders db)" unfolding os by (simp add: ff)
    then show ?thesis by (metis list.set_map)
  qed
  have k: "codes_known ?n"
    unfolding codes_known_def
  proof
    fix k assume "k \<in> set (codes ?n)"
    then have "rc_code k \<in> recharge_code ` set (orders db) \<or> (\<forall>i t. rc_code k \<noteq> order_recharge_code i t)"
      using ok by (auto simp: tables_ok_def codes_known_def)
    then show "(\<exists>r\<in>set (orders ?n). rc_code k = recharge_code r) \<or> (\<forall>i t. rc_code k \<noteq> order_recharge_code i t)"
      unfolding rcs [symmetric] by blast
  qed
  from o c h r k show "tables_ok C' ?n" by (simp add: tables_ok_def)
qed

lemma insert_code_ok:
  assumes ok: "tables_ok C db" and unused: "rc_status k = CodeUnused"
    and src: "(\<exists>r\<in>set (orders db). rc_code k = recharge_code r) \<or> (\<forall>i t. rc_code k \<noteq> order_recharge_code i t)"
    and val: "\<And>r. r \<in> set (orders db) \<Longrightarrow> rc_code k = recharge_code r \<Longrightarrow> rc_value k = amount r \<and> oid r \<in> C"
  shows "tables_ok C (snd (insert_code k db))" "grows db (snd (insert_code k db))"
proof -
  let ?n = "snd (insert_code k db)"
  have *: "tables_ok C ?n \<and> grows db ?n"
  proof (cases "get_code db (rc_code k)")
    case (Some x) then show ?thesis using ok by (simp add: insert_code_def)
  next
    case None
    then have n: "?n = db\<lparr>codes := codes db @ [k]\<rparr>" by (simp add: insert_code_def)
    have new: "rc_code k \<notin> rc_code ` set (codes db)"
      using None by (auto simp: get_code_def first_match_None_iff)
    have au: "has_audit ?n = has_audit db" unfolding n has_audit_def by (intro ext) simp
    have cu: "code_used ?n = code_used db" using unused unfolding n code_used_def by (intro ext) auto
    have fu: "fulfilled ?n = fulfilled db" unfolding fulfilled_def au cu ..
    have "credits_ok ?n" using ok new unused unfolding n tables_ok_def credits_ok_def by auto
    moreover have "rows_ok C ?n" using ok val unfolding tables_ok_def rows_ok_def fu by (auto simp: n)
    moreover have "codes_known ?n" using ok src unfolding n tables_ok_def codes_known_def by auto
    ultimately have "tables_ok C ?n" using ok unfolding tables_ok_def history_ok_def au by (auto simp: n orders_ok_def)
    moreover have "grows db ?n" unfolding grows_def au cu by (auto simp: n known_def code_value_def)
    ultimately show ?thesis by simp
  qed
  then show "tables_ok C ?n" "grows db ?n" by simp_all
qed

lemma redeem_tx_ok:
  assumes ok: "tables_ok C db" and val: "code_value db (rc_code k) (rc_value k)"
  shows "tables_ok C (snd (redeem_tx k u db))" "grows db (snd (redeem_tx k u db))"
    "fst (redeem_tx k u db) \<Longrightarrow> code_used (snd (redeem_tx k u db)) (rc_code k)"
proof -
  let ?n = "snd (redeem_tx k u db)" and ?c = "rc_code k"
  let ?g = "\<lambda>r. if rc_code r = ?c then r\<lparr>rc_status := CodeUsed, rc_used_by := Some u\<rparr> else r"
  have *: "tables_ok C ?n \<and> grows db ?n \<and> (fst (redeem_tx k u db) \<longrightarrow> code_used ?n ?c)"
  proof (cases "fst (redeem_tx k u db)")
    case False
    then have "?n = db" by (auto simp: redeem_tx_def Let_def split: option.splits if_splits)
    with False ok show ?thesis by simp
  next
    case True
    then obtain cur where cur: "get_code db ?c = Some cur" "rc_status cur = CodeUnused"
      by (auto simp: redeem_tx_def split: option.splits if_splits)
    have f: "orders ?n = orders db" "audits ?n = audits db" "grants ?n = grants db" "rebates ?n = rebates db"
      "codes ?n = map ?g (codes db)" "credits ?n = (?c, u, rc_value k) # credits db"
      using True by (auto simp: redeem_tx_def Let_def add_balance_def use_code_def split: option.splits if_splits)
    have d: "distinct (map rc_code (codes db))" using ok by (simp add: tables_ok_def credits_ok_def)
    have uniq: "r = cur" if "r \<in> set (codes db)" "rc_code r = ?c" for r
      using get_codeD [OF cur(1)] that d by (metis distinct_map inj_onD)
    have curv: "cur \<in> set (codes db)" "rc_code cur = ?c" "rc_value cur = rc_value k"
      using get_codeD [OF cur(1)] val uniq by (auto simp: code_value_def)
    have old: "(\<lambda>(c, u, x). (c, x)) ` set (credits db) =
       (\<lambda>k. (rc_code k, rc_value k)) ` {r \<in> set (codes db). rc_status r = CodeUsed}"
      using ok by (simp add: tables_ok_def credits_ok_def)
    have au: "has_audit ?n = has_audit db" unfolding has_audit_def f ..
    have cu: "code_used ?n c \<longleftrightarrow> code_used db c \<or> c = ?c" for c
    proof -
      have "code_used ?n c \<longleftrightarrow> (\<exists>r\<in>set (codes db). rc_code (?g r) = c \<and> rc_status (?g r) = CodeUsed)"
        unfolding code_used_def f(5) by (simp only: set_map bex_simps)
      also have "\<dots> \<longleftrightarrow> (\<exists>r\<in>set (codes db). rc_code r = c \<and> (rc_code r = ?c \<or> rc_status r = CodeUsed))"
        by (intro bex_cong) auto
      also have "\<dots> \<longleftrightarrow> code_used db c \<or> c = ?c" unfolding code_used_def using curv(1,2) by blast
      finally show ?thesis .
    qed
    have cv: "code_value ?n = code_value db"
      unfolding code_value_def f(5) set_map bex_simps by (intro ext bex_cong) auto
    have gr: "grows db ?n" by (auto simp: grows_def au cu cv known_def f(1))
    let ?cv = "\<lambda>S. (\<lambda>k. (rc_code k, rc_value k)) ` {r \<in> S. rc_status r = CodeUsed}"
    have mem: "(c, x) \<in> ?cv S \<longleftrightarrow> (\<exists>r\<in>S. rc_code r = c \<and> rc_value r = x \<and> rc_status r = CodeUsed)" for c x S
      by auto
    have "p \<in> ?cv (set (codes ?n)) \<longleftrightarrow> p \<in> insert (?c, rc_value k) (?cv (set (codes db)))" for p
    proof -
      obtain c x where p: "p = (c, x)" by (cases p)
      have "p \<in> ?cv (set (codes ?n)) \<longleftrightarrow>
          (\<exists>r\<in>set (codes db). rc_code (?g r) = c \<and> rc_value (?g r) = x \<and> rc_status (?g r) = CodeUsed)"
        unfolding p mem f(5) by (simp only: set_map bex_simps)
      also have "\<dots> \<longleftrightarrow> (\<exists>r\<in>set (codes db). rc_code r = c \<and> rc_value r = x \<and> (rc_code r = ?c \<or> rc_status r = CodeUsed))"
        by (intro bex_cong) auto
      also have "\<dots> \<longleftrightarrow> p = (?c, rc_value k) \<or> p \<in> ?cv (set (codes db))"
        unfolding p mem using curv uniq by (metis prod.inject)
      finally show ?thesis by simp
    qed
    then have "?cv (set (codes ?n)) = insert (?c, rc_value k) (?cv (set (codes db)))" by blast
    then have "(\<lambda>(c, u, x). (c, x)) ` set (credits ?n) =
      (\<lambda>k. (rc_code k, rc_value k)) ` {r \<in> set (codes ?n). rc_status r = CodeUsed}"
      using old unfolding f(6) by simp
    moreover have "?c \<notin> fst ` set (credits db)"
    proof
      assume "?c \<in> fst ` set (credits db)"
      then obtain v x where "(?c, v, x) \<in> set (credits db)" by auto
      then have "(?c, x) \<in> (\<lambda>(c, u, x). (c, x)) ` set (credits db)" by force
      then obtain r where "r \<in> set (codes db)" "rc_status r = CodeUsed" "rc_code r = ?c" unfolding old by auto
      with uniq cur(2) show False by auto
    qed
    moreover have cs: "map rc_code (codes ?n) = map rc_code (codes db)" unfolding f(5) by simp
    ultimately have c: "credits_ok ?n" using ok unfolding credits_ok_def tables_ok_def f(6) by simp
    have "rows_ok C ?n"
      unfolding rows_ok_def f(1)
    proof
      fix r assume r: "r \<in> set (orders db)"
      have o: "(\<forall>k\<in>set (codes db). rc_code k = recharge_code r \<longrightarrow> rc_value k = amount r \<and> oid r \<in> C) \<and>
        (final_status (status r) \<longrightarrow> fulfilled db r) \<and> (paid_at r \<noteq> None \<longrightarrow> oid r \<in> C)"
        using ok r by (simp add: tables_ok_def rows_ok_def)
      then show "(\<forall>k\<in>set (codes ?n). rc_code k = recharge_code r \<longrightarrow> rc_value k = amount r \<and> oid r \<in> C) \<and>
        (final_status (status r) \<longrightarrow> fulfilled ?n r) \<and> (paid_at r \<noteq> None \<longrightarrow> oid r \<in> C)"
        using fulfilled_mono [OF gr] unfolding f(5) by auto
    qed
    moreover have "codes_known ?n"
    proof -
      have "rc_code ` set (codes ?n) = rc_code ` set (codes db)"
        using arg_cong [OF cs, of set] by (simp only: list.set_map)
      then show ?thesis using ok unfolding tables_ok_def codes_known_def f(1) by (metis image_iff)
    qed
    ultimately have "tables_ok C ?n"
      using ok c unfolding tables_ok_def by (simp add: orders_ok_def history_ok_def au f)
    with gr show ?thesis by (simp add: cu)
  qed
  then show "tables_ok C ?n" "grows db ?n" "fst (redeem_tx k u db) \<Longrightarrow> code_used ?n ?c" by simp_all
qed

lemma new_order_ok:
  assumes ok: "tables_ok C db" and new: "oid r \<notin> oid ` set (orders db)" "0 \<le> oid r"
    and code: "recharge_code r = order_recharge_code (oid r) t" and st: "status r = Pending" "paid_at r = None"
  shows "tables_ok C (db\<lparr>orders := orders db @ [r]\<rparr>)" "grows db (db\<lparr>orders := orders db @ [r]\<rparr>)"
proof -
  let ?n = "db\<lparr>orders := orders db @ [r]\<rparr>"
  have e: "has_audit ?n = has_audit db" "code_used ?n = code_used db" "code_value ?n = code_value db"
    by (intro ext, simp add: has_audit_def code_used_def code_value_def)+
  have fu: "fulfilled ?n = fulfilled db" unfolding fulfilled_def e ..
  have nocode: "rc_code k \<noteq> recharge_code r" if k: "k \<in> set (codes db)" for k
  proof
    assume "rc_code k = recharge_code r"
    with k ok code obtain r' where r': "r' \<in> set (orders db)" "recharge_code r' = order_recharge_code (oid r) t"
      unfolding tables_ok_def codes_known_def by metis
    then obtain t' where "order_recharge_code (oid r') t' = order_recharge_code (oid r) t" "0 \<le> oid r'"
      using ok unfolding tables_ok_def orders_ok_def by metis
    then have "oid r' = oid r" using order_code_inj new(2) by blast
    with r'(1) new(1) show False by (metis image_eqI)
  qed
  have "rows_ok C ?n"
    using ok nocode st unfolding tables_ok_def rows_ok_def fu by (auto simp: final_status_def psIsRefundStatus_def)
  moreover have "orders_ok ?n" using ok new code unfolding tables_ok_def orders_ok_def by auto
  moreover have "codes_known ?n" using ok unfolding tables_ok_def codes_known_def by auto
  ultimately show "tables_ok C ?n"
    using ok unfolding tables_ok_def history_ok_def e by (simp add: credits_ok_def)
  show "grows db ?n" unfolding grows_def e by (auto simp: known_def)
qed

section \<open>Steps keep the invariant\<close>

lemma askD: "ask e x = Some y \<Longrightarrow> y = x"
  by (simp add: ask_def split: if_splits)

lemma tellD: "tell e r db = (x, db') \<Longrightarrow> db' = db \<or> db' = snd r"
  by (auto simp: tell_def split: answer.splits)

lemma tell_SomeD: "tell e r db = (Some v, db') \<Longrightarrow> r = (v, db')"
  by (auto simp: tell_def split: answer.splits)

lemma worker_ok_logged [simp]:
  "worker_ok db C (logged i act w) \<longleftrightarrow> worker_ok db C w \<and>
     (act = ''SUBSCRIPTION_SUCCESS'' \<longrightarrow> has_audit db i ''SUBSCRIPTION_ASSIGNED'')"
  by (simp add: logged_def plain_audit_def)

lemma reads_ok:
  assumes ok: "tables_ok C db"
  shows "worker_ok db C (notify_step e n pk db)" "worker_ok db C (confirmPayment R e i t x pk md db)"
    "i \<in> C \<Longrightarrow> worker_ok db C (alreadyProcessed e i db)" "i \<in> C \<Longrightarrow> worker_ok db C (executeFulfillment e i db)"
    "i \<in> C \<Longrightarrow> worker_ok db C (ExecuteBalanceFulfillment e i db)"
    "i \<in> C \<Longrightarrow> worker_ok db C (ExecuteSubscriptionFulfillment e i db)"
    "worker_ok db C (RetryFulfillment e i db)" "worker_ok db C (CancelOrder e i u db)"
    "worker_ok db C (ExpireTimedOutOrder e i db)" "worker_ok db C (VerifyOrder e i db)"
proof -
  have d: "known db r \<and> oid r = i" if "ask e (get_order db i) = Some (Some r)" for r
    using askD [OF that] by (auto dest!: get_orderD [OF sym] knownI)
  show "worker_ok db C (notify_step e n pk db)"
    by (auto simp: notify_step_def split: option.splits list.splits)
  show "worker_ok db C (confirmPayment R e i t x pk md db)"
    by (auto simp: confirmPayment_def Let_def split: option.splits float64.splits dest!: d)
  show "i \<in> C \<Longrightarrow> worker_ok db C (alreadyProcessed e i db)"
    by (auto simp: alreadyProcessed_def split: option.splits order_status.splits)
  show "i \<in> C \<Longrightarrow> worker_ok db C (executeFulfillment e i db)"
    by (auto simp: executeFulfillment_def split: option.splits)
  show "i \<in> C \<Longrightarrow> worker_ok db C (ExecuteBalanceFulfillment e i db)"
    by (auto simp: ExecuteBalanceFulfillment_def split: option.splits dest!: d)
  show "i \<in> C \<Longrightarrow> worker_ok db C (ExecuteSubscriptionFulfillment e i db)"
    by (auto simp: ExecuteSubscriptionFulfillment_def split: option.splits dest!: d)
  have paid: "i \<in> C" if "get_order db i = Some r" "paid_at r \<noteq> None" for r
    using that ok by (auto simp: tables_ok_def rows_ok_def dest!: get_orderD)
  show "worker_ok db C (RetryFulfillment e i db)"
    using paid by (auto simp: RetryFulfillment_def split: option.splits dest!: askD [THEN sym])
  show "worker_ok db C (CancelOrder e i u db)"
    by (auto simp: CancelOrder_def final_status_def psIsRefundStatus_def split: option.splits)
  show "worker_ok db C (ExpireTimedOutOrder e i db)"
    by (auto simp: ExpireTimedOutOrder_def final_status_def psIsRefundStatus_def split: option.splits)
  show "worker_ok db C (VerifyOrder e i db)"
    by (auto simp: VerifyOrder_def split: option.splits)
qed

lemma code_of_order: "tables_ok C db \<Longrightarrow> known db r \<Longrightarrow> TrimSpace (recharge_code r) = recharge_code r"
  unfolding tables_ok_def orders_ok_def known_def same_order_def by (metis TrimSpace_order_code)

lemma lease_reads_ok:
  shows "known db r \<Longrightarrow> oid r \<in> C \<Longrightarrow> worker_ok db C (acquire_check e r db)"
    "known db r \<Longrightarrow> oid r \<in> C \<Longrightarrow> worker_ok db C (claim_step e r db)"
    "worker_ok db C (LookupCode r l) \<Longrightarrow> worker_ok db C (lookup_code e r l db)"
    "worker_ok db C (RedeemRead r l) \<Longrightarrow> worker_ok db C (redeem_read e r l db)"
    "worker_ok db C (SubGroup r l) \<Longrightarrow> worker_ok db C (sub_group_step e r l)"
    "worker_ok db C (CompleteCheck r l) \<Longrightarrow> worker_ok db C (complete_check e r l db)"
    "worker_ok db C (Probe r c) \<Longrightarrow> worker_ok db C (checkPaid e r c)"
proof -
  show "known db r \<Longrightarrow> oid r \<in> C \<Longrightarrow> worker_ok db C (acquire_check e r db)"
    by (auto simp: acquire_check_def split: option.splits)
  show "known db r \<Longrightarrow> oid r \<in> C \<Longrightarrow> worker_ok db C (claim_step e r db)"
    by (auto simp: claim_step_def split: option.splits)
  show "worker_ok db C (LookupCode r l) \<Longrightarrow> worker_ok db C (lookup_code e r l db)"
    by (auto simp: lookup_code_def Let_def resolveRedeemAction_def fulfilled_def code_used_def
        split: option.splits redeemAction.splits dest!: askD dest: get_codeD get_codeD [OF sym])
  show "worker_ok db C (RedeemRead r l) \<Longrightarrow> worker_ok db C (redeem_read e r l db)"
    by (auto simp: redeem_read_def code_value_def Let_def split: option.splits dest!: askD dest: get_codeD get_codeD [OF sym])
  show "worker_ok db C (SubGroup r l) \<Longrightarrow> worker_ok db C (sub_group_step e r l)"
    by (auto simp: sub_group_step_def)
  show "worker_ok db C (CompleteCheck r l) \<Longrightarrow> worker_ok db C (complete_check e r l db)"
    by (auto simp: complete_check_def split: option.splits)
  show "worker_ok db C (Probe r c) \<Longrightarrow> worker_ok db C (checkPaid e r c)"
    by (auto simp: checkPaid_def Let_def split: option.splits)
qed

lemma sub_reads_ok:
  assumes ok: "tables_ok C db"
  shows "worker_ok db C (SubRead r l) \<Longrightarrow> worker_ok db C (sub_read e r l db)"
    "worker_ok db C (SubClaimed r l) \<Longrightarrow> worker_ok db C (sub_claimed e r l db)"
    "worker_ok db C (CompleteLog r) \<Longrightarrow> worker_ok db C (complete_log e r db)"
proof -
  have a: "hasPaymentSubscriptionAssignmentAudit db i \<Longrightarrow> has_audit db i ''SUBSCRIPTION_ASSIGNED''" for i
    using ok by (auto simp: hasPaymentSubscriptionAssignmentAudit_def tables_ok_def history_ok_def)
  show "worker_ok db C (SubRead r l) \<Longrightarrow> worker_ok db C (sub_read e r l db)"
    using a by (auto simp: sub_read_def fulfilled_def split: option.splits bool.splits dest!: askD)
  show "worker_ok db C (SubClaimed r l) \<Longrightarrow> worker_ok db C (sub_claimed e r l db)"
    using a by (auto simp: sub_claimed_def fulfilled_def split: option.splits bool.splits dest!: askD)
  show "worker_ok db C (CompleteLog r) \<Longrightarrow> worker_ok db C (complete_log e r db)"
    by (auto simp: complete_log_def Let_def fulfilled_def)
qed

definition good :: "ident set \<Rightarrow> paydb \<Rightarrow> worker \<times> paydb \<Rightarrow> bool" where
  "good C db p = (tables_ok C (snd p) \<and> grows db (snd p) \<and> worker_ok (snd p) C (fst p))"

lemma goodI: "tables_ok C db' \<Longrightarrow> grows db db' \<Longrightarrow> worker_ok db' C w \<Longrightarrow> good C db (w, db')"
  by (simp add: good_def)

lemma tell_cases:
  assumes "P db" "P (snd r)"
  shows "P (snd (tell e r db))"
  using assms by (simp add: tell_def split: answer.split)

lemma statement_ok:
  assumes "tables_ok C db" "tables_ok C (snd r)" "grows db (snd r)" "tell e r db = (x, db')"
  shows "tables_ok C db'" "grows db db'"
  using tellD [OF assms(4)] assms by auto

lemma snapshot_fields:
  assumes "tables_ok C db" "known db r" "r' \<in> set (orders db)" "oid r' = oid r"
  shows "same_order r r'"
proof -
  from assms(2) obtain q where q: "q \<in> set (orders db)" "same_order r q" by (auto simp: known_def)
  then have "q = r'" using assms distinct_oids_inj by (auto simp: tables_ok_def same_order_def)
  with q show ?thesis by simp
qed

lemma toPaid_good:
  assumes ok: "tables_ok C db" and w: "worker_ok db C (ToPaid r t q)"
  shows "good (insert (oid r) C) db (toPaid e r t q db)"
proof (cases "tell e (set_paid (oid r) t q (now e) db) db")
  case (Pair x db')
  let ?C = "insert (oid r) C"
  have u: "tables_ok ?C (snd (set_paid (oid r) t q (now e) db))" "grows db (snd (set_paid (oid r) t q (now e) db))"
    unfolding set_paid_def by (rule update_orders_ok [OF ok, where C' = ?C]; auto simp: same_order_def final_status_def psIsRefundStatus_def)+
  have okC: "tables_ok ?C db"
    using ok unfolding tables_ok_def history_ok_def rows_ok_def by blast
  note s = statement_ok [OF okC u Pair]
  show ?thesis using s w Pair by (auto simp: toPaid_def good_def Let_def grows_def split: option.split)
qed

lemma acquire_good:
  assumes ok: "tables_ok C db" and w: "worker_ok db C (Acquire r)"
  shows "good C db (acquire_step e r db)"
proof (cases "tell e (take_lease (oid r) (now e) db) db")
  case (Pair x db')
  have u: "tables_ok C (snd (take_lease (oid r) (now e) db))" "grows db (snd (take_lease (oid r) (now e) db))"
    unfolding take_lease_def Let_def
    by (rule update_orders_ok [OF ok, where C' = C]; auto simp: same_order_def final_status_def psIsRefundStatus_def)+
  note s = statement_ok [OF ok u Pair]
  show ?thesis using s w Pair by (auto simp: acquire_step_def good_def grows_def split: option.split)
qed

lemma create_code_good:
  assumes ok: "tables_ok C db" and w: "worker_ok db C (CreateCode r l)"
  shows "good C db (create_code e r l db)"
proof -
  have t: "TrimSpace (recharge_code r) = recharge_code r" using code_of_order [OF ok] w by simp
  let ?k = "\<lparr>rc_code = recharge_code r, rc_value = amount r, rc_status = CodeUnused, rc_used_by = None, rc_expires = None\<rparr>"
  from w obtain q where q: "q \<in> set (orders db)" "same_order r q" by (auto simp: known_def)
  then have "recharge_code r = recharge_code q" by (simp add: same_order_def)
  with q(1) have src: "(\<exists>r\<in>set (orders db). rc_code ?k = recharge_code r) \<or> (\<forall>i t. rc_code ?k \<noteq> order_recharge_code i t)"
    by (intro disjI1 bexI [of _ q]) simp_all
  have val: "rc_value ?k = amount r' \<and> oid r' \<in> C" if "r' \<in> set (orders db)" "rc_code ?k = recharge_code r'" for r'
  proof -
    have "q = r'" using same_code_same_order q that ok by (auto simp: tables_ok_def same_order_def)
    then show ?thesis using q w by (auto simp: same_order_def)
  qed
  have u: "tables_ok C (snd (insert_code ?k db))" "grows db (snd (insert_code ?k db))"
    using insert_code_ok [OF ok _ src val] by simp_all
  show ?thesis
  proof (cases "tell e (insert_code ?k db) db")
    case (Pair x db')
    note s = statement_ok [OF ok u Pair]
    show ?thesis using s w Pair ok t
      by (auto simp: create_code_def good_def Let_def grows_def split: option.split bool.split)
  qed
qed

lemma redeem_good:
  assumes ok: "tables_ok C db" and w: "worker_ok db C (RedeemTx r l k)"
  shows "good C db (redeem_step e r l k db)"
proof (cases "tell e (redeem_tx k (ouser r) db) db")
  case (Pair x db')
  have v: "code_value db (rc_code k) (rc_value k)" using w by auto
  note s = statement_ok [OF ok redeem_tx_ok(1,2) [OF ok v] Pair]
  have used: "code_used db' (recharge_code r)" if "x = Some True"
  proof -
    from Pair that have "redeem_tx k (ouser r) db = (True, db')" by (simp add: tell_SomeD)
    then show ?thesis using redeem_tx_ok(3) [OF ok v, of "ouser r"] w by simp
  qed
  show ?thesis using s w Pair used
    by (auto simp: redeem_step_def good_def grows_def fulfilled_def split: option.split bool.split)
qed

lemma rebate_good:
  assumes ok: "tables_ok C db" and w: "worker_ok db C (Rebate r l)"
  shows "good C db (rebate_step e r l db)"
proof (cases "tell e (rebate_tx (oid r) (rebate e) db) db")
  case (Pair x db')
  have i: "oid r \<in> C" using w by simp
  note s = statement_ok [OF ok rebate_tx_ok [OF ok i] Pair]
  have c: "known db' r \<and> fulfilled db' r"
    using s(2) w fulfilled_mono [OF s(2)] by (simp add: grows_def)
  show ?thesis using s w Pair c ok by (auto simp: rebate_step_def good_def split: option.split bool.split)
qed

lemma sub_write_good:
  assumes ok: "tables_ok C db" and w: "worker_ok db C (SubWrite r l)"
  shows "good C db (sub_write e r l db)"
proof (cases "tell e (assign_tx (oid r) (noted e) db) db")
  case (Pair x db')
  have i: "oid r \<in> C" using w by simp
  note s = statement_ok [OF ok assign_tx_ok(1,2) [OF ok i] Pair]
  have c: "has_audit db' (oid r) ''SUBSCRIPTION_ASSIGNED''" if "x = Some True"
  proof -
    from Pair that have "assign_tx (oid r) (noted e) db = (True, db')" by (simp add: tell_SomeD)
    then show ?thesis using assign_tx_ok(3) [OF ok i, of "noted e"] by simp
  qed
  show ?thesis using s w Pair c ok
    by (auto simp: sub_write_def good_def fulfilled_def grows_def split: option.split bool.split)
qed

lemma complete_good:
  assumes ok: "tables_ok C db" and w: "worker_ok db C (Complete r l)"
  shows "good C db (markCompleted e r l db)"
proof (cases "tell e (set_completed (oid r) l (now e) db) db")
  case (Pair x db')
  have f: "fulfilled db r'" if "r' \<in> set (orders db)" "oid r' = oid r" for r'
    using snapshot_fields [OF ok _ that] w by (auto simp: fulfilled_def same_order_def split: if_splits)
  have u: "tables_ok C (snd (set_completed (oid r) l (now e) db))" "grows db (snd (set_completed (oid r) l (now e) db))"
    unfolding set_completed_def
    by (rule update_orders_ok [OF ok, where C' = C]; use f in \<open>auto simp: same_order_def\<close>)+
  note s = statement_ok [OF ok u Pair]
  have c: "known db' r \<and> fulfilled db' r"
    using s(2) w fulfilled_mono [OF s(2)] by (simp add: grows_def)
  show ?thesis using s w Pair c by (auto simp: markCompleted_def good_def split: option.split)
qed

lemma other_writes_good:
  assumes ok: "tables_ok C db"
  shows "good C db (markFailed e i l c db)"
    "good C db (persist_step e r t q md db)"
    "worker_ok db C (CancelUpdate i fs) \<Longrightarrow> good C db (cancel_update e i fs db)"
proof -
  have u: "tables_ok C (snd (set_failed i l c (now e) db))" "grows db (snd (set_failed i l c (now e) db))"
    unfolding set_failed_def
    by (rule update_orders_ok [OF ok, where C' = C]; auto simp: same_order_def final_status_def psIsRefundStatus_def)+
  show "good C db (markFailed e i l c db)"
    by (cases "tell e (set_failed i l c (now e) db) db")
      (use statement_ok [OF ok u] in \<open>auto simp: markFailed_def good_def split: option.split\<close>)
  have f: "fulfilled db r'" if "r' \<in> set (orders db)" "final_status (status r')" for r'
    using ok that by (simp add: tables_ok_def rows_ok_def)
  have v: "tables_ok C (snd (set_trade_no (oid r) t (now e) db))" "grows db (snd (set_trade_no (oid r) t (now e) db))"
    unfolding set_trade_no_def
    by (rule update_orders_ok [OF ok, where C' = C]; use f in \<open>auto simp: same_order_def\<close>)+
  have "tables_ok C (snd (tell e (set_trade_no (oid r) t (now e) db) db)) \<and>
      grows db (snd (tell e (set_trade_no (oid r) t (now e) db) db))"
    by (rule tell_cases) (use ok v in simp_all)
  then show "good C db (persist_step e r t q md db)" by (simp add: persist_step_def good_def)
  assume fs: "worker_ok db C (CancelUpdate i fs)"
  have x: "tables_ok C (snd (set_cancelled i fs (now e) db))" "grows db (snd (set_cancelled i fs (now e) db))"
    unfolding set_cancelled_def
    by (rule update_orders_ok [OF ok, where C' = C]; use fs in \<open>auto simp: same_order_def\<close>)+
  show "good C db (cancel_update e i fs db)"
    by (cases "tell e (set_cancelled i fs (now e) db) db")
      (use statement_ok [OF ok x] in \<open>auto simp: cancel_update_def good_def split: option.split\<close>)
qed

lemma log_good:
  assumes ok: "tables_ok C db" and w: "worker_ok db C (Log a v)"
  shows "good C db (v, snd (tell e (insert_audit a db) db))"
proof -
  have "tables_ok C (snd (tell e (insert_audit a db) db)) \<and> grows db (snd (tell e (insert_audit a db) db))"
    by (rule tell_cases) (use insert_audit_ok [OF ok] ok w in auto)
  then show ?thesis using w worker_ok_mono [of db C v] by (simp add: good_def)
qed

definition confirms :: "worker \<Rightarrow> ident set" where
  "confirms w = (case w of ToPaid r _ _ \<Rightarrow> {oid r} | _ \<Rightarrow> {})"

lemma step_good:
  assumes ok: "tables_ok C db" and w: "worker_ok db C w"
  shows "good (C \<union> confirms w) db (step R e w db)"
proof (cases w)
  case (ToPaid r t q)
  with toPaid_good [OF ok] w show ?thesis by (simp add: confirms_def)
next
  case (Log a v) with log_good [OF ok] w show ?thesis by (simp add: confirms_def)
next
  case (Acquire r) with acquire_good [OF ok] w show ?thesis by (simp add: confirms_def)
next
  case (CreateCode r l) with create_code_good [OF ok] w show ?thesis by (simp add: confirms_def)
next
  case (RedeemTx r l k) with redeem_good [OF ok] w show ?thesis by (simp add: confirms_def)
next
  case (Rebate r l) with rebate_good [OF ok] w show ?thesis by (simp add: confirms_def)
next
  case (SubWrite r l) with sub_write_good [OF ok] w show ?thesis by (simp add: confirms_def)
next
  case (Complete r l) with complete_good [OF ok] w show ?thesis by (simp add: confirms_def)
next
  case (MarkFailed i l c) with other_writes_good(1) [OF ok] show ?thesis by (simp add: confirms_def)
next
  case (PersistTradeNo r t q md) with other_writes_good(2) [OF ok] show ?thesis by (simp add: confirms_def)
next
  case (CancelUpdate i fs) with other_writes_good(3) [OF ok] w show ?thesis by (simp add: confirms_def)
qed (use w reads_ok [OF ok] lease_reads_ok sub_reads_ok [OF ok] ok in \<open>simp_all add: confirms_def good_def\<close>)

definition confirmed :: "pay_system \<Rightarrow> ident set" where
  "confirmed s = fst ` set (confirmations s)"

definition safe :: "pay_system \<Rightarrow> bool" where
  "safe s = (tables_ok (confirmed s) (pdb s) \<and> (\<forall>w\<in>set (calls s). worker_ok (pdb s) (confirmed s) w) \<and>
     (\<forall>(i, q, p)\<in>set (confirmations s). 0 < q \<and> \<bar>q - p\<bar> \<le> 1 / 100))"

lemma safe_start: "safe (empty_tables bs)"
  by (simp add: safe_def empty_tables_def tables_ok_def orders_ok_def credits_ok_def history_ok_def rows_ok_def
      codes_known_def has_audit_def confirmed_def)

lemma tolerance_bound: "paymentAmountToleranceForCurrency c \<le> 1 / 100"
proof (cases "CurrencyMinorUnit c \<le> 2")
  case False
  then have "(10 :: rat) ^ 2 \<le> 10 ^ CurrencyMinorUnit c" by (intro power_increasing) simp_all
  then have "1 / (10 :: rat) ^ CurrencyMinorUnit c \<le> 1 / 100" by (simp add: field_simps)
  with False show ?thesis by (simp add: paymentAmountToleranceForCurrency_def)
qed (simp add: paymentAmountToleranceForCurrency_def amountToleranceCNY_def)

lemma safe_db:
  assumes "safe s" "tables_ok (confirmed s) db" "grows (pdb s) db"
  shows "safe (s\<lparr>pdb := db\<rparr>)"
  using assms worker_ok_mono by (auto simp: safe_def confirmed_def)

lemma safe_step: "payment_step R s s' \<Longrightarrow> safe s \<Longrightarrow> safe s'"
proof (induction rule: payment_step.induct)
  case (spawn w s)
  then show ?case by (auto simp: safe_def confirmed_def entry_point_def split: worker.splits)
next
  case (work n s e w db)
  let ?w = "calls s ! n" and ?C = "confirmed s"
  let ?s = "s\<lparr>calls := (calls s)[n := w], pdb := db, confirmations := record_confirmation ?w (confirmations s)\<rparr>"
  have ok: "tables_ok ?C (pdb s)" and ww: "worker_ok (pdb s) ?C ?w" using work by (simp_all add: safe_def)
  have c: "confirmed ?s = ?C \<union> confirms ?w"
    by (simp add: confirmed_def confirms_def record_confirmation_def split: worker.split)
  have g: "good (confirmed ?s) (pdb s) (w, db)" using step_good [OF ok ww, of R e] work unfolding c by simp
  have "worker_ok db (confirmed ?s) v" if "v \<in> set ((calls s)[n := w])" for v
  proof -
    from that have "v = w \<or> v \<in> set (calls s)" using set_update_subset_insert by fastforce
    then show ?thesis using g c worker_ok_mono [of "pdb s" ?C v db] work by (auto simp: good_def safe_def)
  qed
  moreover have "0 < q \<and> \<bar>q - p\<bar> \<le> 1 / 100" if "(i, q, p) \<in> set (record_confirmation ?w (confirmations s))" for i q p
  proof -
    from that consider "(i, q, p) \<in> set (confirmations s)" | r t where "?w = ToPaid r t q" "p = pay_amount r"
      by (auto simp: record_confirmation_def split: worker.splits)
    then show ?thesis
    proof cases
      case 1 then show ?thesis using work by (auto simp: safe_def)
    next
      case 2
      then have "0 < q" "\<bar>q - p\<bar> \<le> paymentAmountToleranceForCurrency (PaymentOrderCurrency r)" using ww by simp_all
      then show ?thesis using order_trans [OF _ tolerance_bound] by blast
    qed
  qed
  ultimately show ?case using g by (auto simp: safe_def good_def)
next
  case (create i s req pl cfg x y z sel candidates t nanos res db)
  have ok: "tables_ok (confirmed s) (pdb s)" using create by (simp add: safe_def)
  from create(3) consider "db = pdb s" | r where "db = (pdb s)\<lparr>orders := orders (pdb s) @ [r]\<rparr>" "oid r = i"
      "recharge_code r = order_recharge_code i nanos" "status r = Pending" "paid_at r = None"
    by (auto simp: createOrderInTx_def Let_def split: if_splits option.splits)
  then show ?case
  proof cases
    case 1 then show ?thesis using create by simp
  next
    case 2 then show ?thesis
      using create new_order_ok [OF ok, of r nanos] by (intro safe_db) simp_all
  qed
next
  case (create_failed s i t)
  have ok: "tables_ok (confirmed s) (pdb s)" using create_failed by (simp add: safe_def)
  show ?case unfolding fail_creation_def
    by (rule safe_db [OF create_failed]; rule update_orders_ok [OF ok];
        auto simp: same_order_def final_status_def psIsRefundStatus_def)
next
  case (refund new s i t)
  have ok: "tables_ok (confirmed s) (pdb s)" using refund by (simp add: safe_def)
  have f: "fulfilled (pdb s) r'" if "r' \<in> set (orders (pdb s))" "final_status (status r')" for r'
    using ok that by (simp add: tables_ok_def rows_ok_def)
  show ?case
    by (rule safe_db [OF refund(2)]; rule update_orders_ok [OF ok]; use f in \<open>auto simp: same_order_def\<close>)
next
  case (user_redeems k s u ok db)
  then have "tables_ok (confirmed s) (pdb s)" "code_value (pdb s) (rc_code k) (rc_value k)"
    by (auto simp: safe_def code_value_def)
  from redeem_tx_ok(1,2) [OF this, of u] user_redeems show ?case by (intro safe_db) simp_all
next
  case (admin_code k s ok db)
  have ok: "tables_ok (confirmed s) (pdb s)" using admin_code by (simp add: safe_def)
  have "rc_code k \<noteq> recharge_code r" if "r \<in> set (orders (pdb s))" for r
    using ok that admin_code(2) unfolding tables_ok_def orders_ok_def by metis
  then have "tables_ok (confirmed s) (snd (insert_code k (pdb s)))" "grows (pdb s) (snd (insert_code k (pdb s)))"
    using insert_code_ok [OF ok admin_code(1) disjI2 [OF admin_code(2)]] by simp_all
  then show ?case using admin_code by (intro safe_db) simp_all
qed

lemma reachable_safe: "payment_reachable R s \<Longrightarrow> safe s"
  by (induction rule: payment_reachable.induct) (use safe_start safe_step in blast)+

section \<open>An undisturbed call\<close>

fun run_call :: "(string \<Rightarrow> string) \<Rightarrow> step_env \<Rightarrow> nat \<Rightarrow> worker \<Rightarrow> paydb \<Rightarrow> worker \<times> paydb" where
  "run_call R e 0 w db = (w, db)"
| "run_call R e (Suc n) w db = (case step R e w db of (w', db') \<Rightarrow> run_call R e n w' db')"

lemma run_call_reachable:
  "payment_reachable R s \<Longrightarrow> i < length (calls s) \<Longrightarrow>
   \<exists>cs. payment_reachable R (s\<lparr>calls := (calls s)[i := fst (run_call R e n (calls s ! i) (pdb s))],
     pdb := snd (run_call R e n (calls s ! i) (pdb s)), confirmations := cs\<rparr>)"
proof (induction n arbitrary: s)
  case 0
  then show ?case by (intro exI [of _ "confirmations s"]) simp
next
  case (Suc n)
  obtain w db where st: "step R e (calls s ! i) (pdb s) = (w, db)" by fastforce
  let ?s = "s\<lparr>calls := (calls s)[i := w], pdb := db, confirmations := record_confirmation (calls s ! i) (confirmations s)\<rparr>"
  have "payment_reachable R ?s" by (rule move [OF Suc.prems(1) work [OF Suc.prems(2) st]])
  from Suc.IH [OF this] Suc.prems show ?case by (simp add: st)
qed

lemma run_from_entry:
  assumes "payment_reachable R s" "entry_point w"
  shows "\<exists>cs. payment_reachable R (s\<lparr>calls := calls s @ [fst (run_call R e n w (pdb s))],
     pdb := snd (run_call R e n w (pdb s)), confirmations := cs\<rparr>)"
proof -
  have "payment_reachable R (s\<lparr>calls := calls s @ [w]\<rparr>)" by (rule move [OF assms(1) spawn [OF assms(2)]])
  from run_call_reachable [OF this, of "length (calls s)" e n] show ?thesis by simp
qed

definition sample_req :: CreateOrderRequest where
  "sample_req = \<lparr>req_user = 7, req_payment_type = ''alipay'', req_order_type = BalanceOrder, req_open_id = []\<rparr>"

definition sample_limits :: order_limits where
  "sample_limits = \<lparr>MaxPendingOrders = 3, DailyLimit = 0, OrderTimeoutMin = 30\<rparr>"

definition sample_env :: step_env where
  "sample_env = \<lparr>answer = Answered, now = 1000000, instance_key = [], upstream = None, upstream_key = [],
     admitted = True, group_active = True, noted = False, assigned = True, cache_cleared = True,
     affiliate = False, rebate = None\<rparr>"

definition sample_created :: paydb where
  "sample_created = snd (createOrderInTx sample_req None sample_limits 10 10 10 None 1 [''n1''] 0 0
     (pdb (empty_tables [(7, 5)])))"

definition sample_note :: worker where
  "sample_note = Notify \<lparr>n_status = ''success'', n_trade_no = ''t'', n_order_id = ''n1'', n_amount = Finite 10,
     n_metadata = []\<rparr> ''alipay''"

definition sample_done :: "worker \<times> paydb" where
  "sample_done = run_call (\<lambda>_. ''alipay'') sample_env 17 sample_note sample_created"

lemma sample_run_reachable:
  "\<exists>s. payment_reachable (\<lambda>_. ''alipay'') s \<and>
     pdb s = snd (run_call (\<lambda>_. ''alipay'') sample_env n sample_note sample_created)"
proof -
  let ?R = "\<lambda>_. ''alipay''" and ?s = "empty_tables [(7, 5)]"
  have "payment_reachable ?R (?s\<lparr>pdb := sample_created\<rparr>)"
  proof (rule move [OF start create])
    show "createOrderInTx sample_req None sample_limits 10 10 10 None 1 [''n1''] 0 0 (pdb ?s) =
      (fst (createOrderInTx sample_req None sample_limits 10 10 10 None 1 [''n1''] 0 0 (pdb ?s)), sample_created)"
      by (simp add: sample_created_def)
  qed (simp_all add: empty_tables_def)
  from run_from_entry [OF this, of sample_note sample_env n] show ?thesis
    by (auto simp: entry_point_def sample_note_def empty_tables_def intro: exI)
qed

lemma sample_reachable: "\<exists>s. payment_reachable (\<lambda>_. ''alipay'') s \<and> pdb s = snd sample_done"
  unfolding sample_done_def by (rule sample_run_reachable)

lemma sample_facts:
  "fst sample_done = Done None"
  "map status (orders (snd sample_done)) = [Completed]"
  "map order_type (orders (snd sample_done)) = [BalanceOrder]"
  "map recharge_code (orders (snd sample_done)) = [''PAY-1-0'']"
  "map amount (orders (snd sample_done)) = [10]"
  "credits (snd sample_done) = [(''PAY-1-0'', 7, 10)]"
  "balances (snd sample_done) = [(7, 15)]"
  by code_simp+

section \<open>Retrying\<close>

definition credits_for :: "paydb \<Rightarrow> PaymentOrder \<Rightarrow> (string \<times> ident \<times> rat) list" where
  "credits_for db r = filter (\<lambda>(c, u, x). c = recharge_code r) (credits db)"

lemma credits_for_order:
  assumes s: "safe s" and r: "r \<in> set (orders (pdb s))"
  shows "length (credits_for (pdb s) r) \<le> 1" "(c, u, x) \<in> set (credits_for (pdb s) r) \<Longrightarrow> x = amount r \<and> oid r \<in> confirmed s"
    "code_used (pdb s) (recharge_code r) \<Longrightarrow> length (credits_for (pdb s) r) = 1"
proof -
  let ?db = "pdb s"
  have ok: "credits_ok ?db" "rows_ok (confirmed s) ?db" using s by (simp_all add: safe_def tables_ok_def)
  have eq: "(\<lambda>(c, u, x). (c, x)) ` set (credits ?db) = (\<lambda>k. (rc_code k, rc_value k)) ` {k \<in> set (codes ?db). rc_status k = CodeUsed}"
    using ok(1) by (simp add: credits_ok_def)
  have same: "map fst (credits_for ?db r) = filter (\<lambda>c. c = recharge_code r) (map fst (credits ?db))"
    unfolding credits_for_def filter_map by (intro arg_cong [of _ _ "map fst"] filter_cong) auto
  have d: "distinct (map fst (credits_for ?db r))" unfolding same using ok(1) by (simp add: credits_ok_def)
  have all: "y = recharge_code r" if "y \<in> set (map fst (credits_for ?db r))" for y using that unfolding same by simp
  show le: "length (credits_for ?db r) \<le> 1"
  proof (rule ccontr)
    assume "\<not> length (credits_for ?db r) \<le> 1"
    then obtain a b l where "map fst (credits_for ?db r) = a # b # l"
      by (cases "credits_for ?db r" rule: list.exhaust [case_names Nil Cons]; cases "tl (credits_for ?db r)") auto
    with d all show False by (metis distinct_length_2_or_more list.set_intros)
  qed
  show "(c, u, x) \<in> set (credits_for ?db r) \<Longrightarrow> x = amount r \<and> oid r \<in> confirmed s"
  proof -
    assume "(c, u, x) \<in> set (credits_for ?db r)"
    then have c: "c = recharge_code r" "(c, u, x) \<in> set (credits ?db)" by (auto simp: credits_for_def)
    then have "(c, x) \<in> (\<lambda>(c, u, x). (c, x)) ` set (credits ?db)" by force
    then obtain k where "k \<in> set (codes ?db)" "rc_code k = c" "rc_value k = x" unfolding eq by auto
    with ok(2) r c show ?thesis by (auto simp: rows_ok_def)
  qed
  assume "code_used ?db (recharge_code r)"
  then obtain k where "k \<in> set (codes ?db)" "rc_code k = recharge_code r" "rc_status k = CodeUsed"
    by (auto simp: code_used_def)
  then have "(recharge_code r, rc_value k) \<in> (\<lambda>(c, u, x). (c, x)) ` set (credits ?db)" unfolding eq by force
  then obtain u where "(recharge_code r, u, rc_value k) \<in> set (credits ?db)" by auto
  then have "credits_for ?db r \<noteq> []" by (auto simp: credits_for_def filter_empty_conv)
  with le show "length (credits_for ?db r) = 1" by (cases "credits_for ?db r") auto
qed

section \<open>Properties\<close>

text \<open>C2. In every reachable state, under any interleaving of notifications, retries, cancellations, expiries, refunds,
  redemptions, crashes and lost answers, an order is credited at most once and with exactly its amount; an order that pays for
  balance and is completed, or in any later refund state, has been credited.\<close>
theorem order_credited_exactly_once:
  assumes "payment_reachable R s" "r \<in> set (orders (pdb s))"
  shows "length (credits_for (pdb s) r) \<le> 1 \<and> (\<forall>(c, u, x)\<in>set (credits_for (pdb s) r). x = amount r) \<and>
    (order_type r \<noteq> SubscriptionOrder \<and> final_status (status r) \<longrightarrow> length (credits_for (pdb s) r) = 1)"
proof -
  have s: "safe s" by (rule reachable_safe [OF assms(1)])
  note c = credits_for_order [OF s assms(2)]
  have "fulfilled (pdb s) r" if "final_status (status r)"
    using s assms(2) that by (simp add: safe_def tables_ok_def rows_ok_def)
  then show ?thesis using c by (auto simp: fulfilled_def)
qed

theorem order_credited_exactly_once_witness:
  "\<exists>s r. payment_reachable (\<lambda>_. ''alipay'') s \<and> r \<in> set (orders (pdb s)) \<and> length (credits_for (pdb s) r) = 1"
proof -
  from sample_reachable obtain s where s: "payment_reachable (\<lambda>_. ''alipay'') s" "pdb s = snd sample_done" by blast
  from sample_facts(2) obtain r where o: "orders (pdb s) = [r]" "status r = Completed" using s(2) by auto
  then have r: "r \<in> set (orders (pdb s))" "order_type r \<noteq> SubscriptionOrder" "final_status (status r)"
    using sample_facts(3) s(2) by (simp_all add: final_status_def)
  from order_credited_exactly_once [OF s(1) r(1)] r s show ?thesis by blast
qed

text \<open>C9. Nothing is given for an order that the provider has not confirmed: every credit of an order's code, every
  subscription grant and every affiliate rebate has a confirmation before it, with a positive amount within one hundredth of
  the amount the order asked for.\<close>
theorem nothing_without_payment:
  assumes "payment_reachable R s" "r \<in> set (orders (pdb s))"
    and "credits_for (pdb s) r \<noteq> [] \<or> oid r \<in> set (grants (pdb s)) \<or> oid r \<in> set (rebates (pdb s))"
  shows "\<exists>q p. (oid r, q, p) \<in> set (confirmations s) \<and> 0 < q \<and> \<bar>q - p\<bar> \<le> 1 / 100"
proof -
  have s: "safe s" by (rule reachable_safe [OF assms(1)])
  have "oid r \<in> confirmed s"
    using assms(3)
  proof (elim disjE)
    assume "credits_for (pdb s) r \<noteq> []"
    then obtain c u x where "(c, u, x) \<in> set (credits_for (pdb s) r)" by (cases "credits_for (pdb s) r") auto
    then show ?thesis using credits_for_order(2) [OF s assms(2)] by blast
  qed (use s in \<open>auto simp: safe_def tables_ok_def history_ok_def\<close>)
  then obtain q p where "(oid r, q, p) \<in> set (confirmations s)" by (auto simp: confirmed_def)
  then show ?thesis using s unfolding safe_def by fast
qed

theorem nothing_without_payment_witness:
  "\<exists>s r q p. payment_reachable (\<lambda>_. ''alipay'') s \<and> r \<in> set (orders (pdb s)) \<and> (oid r, q, p) \<in> set (confirmations s)"
proof -
  from sample_reachable obtain s where s: "payment_reachable (\<lambda>_. ''alipay'') s" "pdb s = snd sample_done" by blast
  from sample_facts(2,4) obtain r where o: "orders (pdb s) = [r]" "recharge_code r = ''PAY-1-0''" using s(2) by auto
  then have "r \<in> set (orders (pdb s))" "credits_for (pdb s) r \<noteq> []"
    using sample_facts(6) s(2) by (simp_all add: credits_for_def)
  with nothing_without_payment [OF s(1), of r] s(1) show ?thesis by blast
qed



text \<open>What the steps of a healthy call do.\<close>

definition healthy :: "step_env \<Rightarrow> bool" where
  "healthy e = (answer e = Answered \<and> admitted e \<and> (affiliate e \<longrightarrow> rebate e \<noteq> None))"

lemma healthy_simps: "healthy e \<Longrightarrow> ask e x = Some x" "healthy e \<Longrightarrow> tell e r db = (Some (fst r), snd r)"
  by (simp_all add: healthy_def ask_def tell_def)

lemma get_order_update:
  "(\<And>r. oid (f r) = oid r) \<Longrightarrow>
   get_order (snd (update_orders P f db)) i = map_option (\<lambda>r. if P r then f r else r) (get_order db i)"
proof -
  assume f: "\<And>r. oid (f r) = oid r"
  have "first_match (\<lambda>r. oid r = i) (map (\<lambda>r. if P r then f r else r) os) =
    map_option (\<lambda>r. if P r then f r else r) (first_match (\<lambda>r. oid r = i) os)" for os
    by (induction os) (auto simp: f)
  then show ?thesis by (simp add: get_order_def)
qed

lemma update_orders_count: "get_order db i = Some r \<Longrightarrow> P r \<Longrightarrow> fst (update_orders P f db) \<noteq> 0"
  by (auto simp: update_orders_def filter_empty_conv dest: get_orderD)

lemma get_simps [simp]:
  "get_order (snd (insert_audit a db)) i = get_order db i" "get_code (snd (insert_audit a db)) c = get_code db c"
  "balance_of (snd (insert_audit a db)) u = balance_of db u"
  "get_code (snd (update_orders P f db)) c = get_code db c" "balance_of (snd (update_orders P f db)) u = balance_of db u"
  by (simp_all add: get_order_def get_code_def balance_of_def)

lemma get_code_insert:
  "get_code db (rc_code k) = None \<Longrightarrow> fst (insert_code k db) \<and> get_code (snd (insert_code k db)) (rc_code k) = Some k \<and>
     get_order (snd (insert_code k db)) i = get_order db i \<and> balance_of (snd (insert_code k db)) u = balance_of db u"
proof -
  assume none: "get_code db (rc_code k) = None"
  then have "first_match (\<lambda>r. rc_code r = rc_code k) (codes db @ [k]) = Some k"
    by (simp add: get_code_def first_match_None_iff first_match_append)
  with none show ?thesis by (simp add: insert_code_def get_code_def get_order_def balance_of_def)
qed

lemma redeem_tx_healthy:
  assumes "get_code db (rc_code k) = Some k" "rc_status k = CodeUnused" "balance_of db u \<noteq> None"
  shows "fst (redeem_tx k u db)" "get_order (snd (redeem_tx k u db)) i = get_order db i"
    "code_used (snd (redeem_tx k u db)) (rc_code k)"
proof -
  obtain b where "balance_of db u = Some b" using assms(3) by blast
  then show "fst (redeem_tx k u db)" "get_order (snd (redeem_tx k u db)) i = get_order db i"
    using assms by (simp_all add: redeem_tx_def Let_def add_balance_def use_code_def get_order_def)
  from get_codeD [OF assms(1)] have "rc_code k \<in> rc_code ` set (filter (\<lambda>r. rc_code r = rc_code k) (codes db))" by auto
  then obtain r where r: "r \<in> set (codes db)" "rc_code r = rc_code k" by auto
  then have "r\<lparr>rc_status := CodeUsed, rc_used_by := Some u\<rparr> \<in> set (codes (use_code (rc_code k) u db))"
    unfolding use_code_def by (simp add: image_iff) (rule bexI [of _ r], simp_all)
  moreover have "codes (snd (redeem_tx k u db)) = codes (use_code (rc_code k) u db)"
    using assms \<open>balance_of db u = Some b\<close> by (simp add: redeem_tx_def Let_def add_balance_def)
  ultimately show "code_used (snd (redeem_tx k u db)) (rc_code k)"
    unfolding code_used_def using r(2) by (metis (mono_tags) RedeemCode.select_convs(1,3) RedeemCode.surjective RedeemCode.update_convs(3,4))
qed

lemma rebate_tx_healthy:
  "x \<noteq> None \<Longrightarrow> fst (rebate_tx i x db)" "get_order (snd (rebate_tx i x db)) j = get_order db j"
  "code_used (snd (rebate_tx i x db)) c = code_used db c"
  by (auto simp: rebate_tx_def get_order_def code_used_def split: option.split)

lemma run_call_Done: "run_call R e n (Done res) db = (Done res, db)"
  by (induction n) simp_all

text \<open>From the rebate on: the order is completed and its code stays used.\<close>

lemma run_from_rebate:
  assumes h: "healthy e" and r: "get_order db (oid r) = Some cur" "status cur = Recharging" "updated_at cur = l"
    and c: "code_used db (recharge_code r)"
  shows "\<exists>db' r'. run_call R e (n + 4) (Rebate r l) db = (Done None, db') \<and> get_order db' (oid r) = Some r' \<and>
    status r' = Completed \<and> recharge_code r' = recharge_code cur \<and> code_used db' (recharge_code r)"
proof -
  obtain db1 where s1: "step R e (Rebate r l) db = (Complete r l, db1)"
    and d1: "get_order db1 (oid r) = Some cur" "code_used db1 (recharge_code r)"
  proof (cases "affiliateRebateBaseAmount r \<le> 0 \<or> \<not> affiliate e")
    case True with that [of db] r c show ?thesis by (auto simp: rebate_step_def)
  next
    case False
    let ?t = "rebate_tx (oid r) (rebate e) db"
    have "rebate e \<noteq> None" using False h by (simp add: healthy_def)
    with False h that [of "snd ?t"] r c rebate_tx_healthy show ?thesis
      by (simp add: rebate_step_def healthy_simps)
  qed
  let ?u = "set_completed (oid r) l (now e) db1"
  have cnt: "fst ?u \<noteq> 0"
    unfolding set_completed_def by (rule update_orders_count [OF d1(1)]) (use r get_orderD in auto)
  have s2: "step R e (Complete r l) db1 = (CompleteLog r, snd ?u)"
    using cnt h by (simp add: markCompleted_def healthy_simps)
  have g: "get_order (snd ?u) (oid r) = Some (cur\<lparr>status := Completed, updated_at := now e\<rparr>)"
    unfolding set_completed_def using d1(1) r get_orderD [OF r(1)] by (simp add: get_order_update)
  have cu: "code_used (snd ?u) (recharge_code r)" using d1(2) by (simp add: code_used_def set_completed_def)
  obtain w db3 where s3: "run_call R e (n + 2) (CompleteLog r) (snd ?u) = (Done None, db3)"
    and d3: "get_order db3 (oid r) = get_order (snd ?u) (oid r)" "codes db3 = codes (snd ?u)"
  proof -
    let ?act = "if order_type r = SubscriptionOrder then ''SUBSCRIPTION_SUCCESS'' else ''RECHARGE_SUCCESS''"
    show ?thesis
    proof (cases "has_audit (snd ?u) (oid r) ?act")
      case True
      with that [of "snd ?u"] h show ?thesis
        by (simp add: complete_log_def healthy_simps run_call_Done split del: if_split)
    next
      case False
      with that [of "snd (insert_audit (plain_audit (oid r) ?act) (snd ?u))"] h show ?thesis
        by (simp add: complete_log_def healthy_simps run_call_Done logged_def numeral_2_eq_2 split del: if_split)
    qed
  qed
  have "run_call R e (n + 4) (Rebate r l) db = (Done None, db3)"
    using s1 s2 s3 by (simp add: eval_nat_numeral)
  with g d3 cu show ?thesis by (auto simp: code_used_def)
qed

text \<open>From the lookup of the code on.\<close>

lemma run_from_lookup:
  assumes h: "healthy e" and r: "get_order db (oid r) = Some cur" "status cur = Recharging" "updated_at cur = l"
    and code: "TrimSpace (recharge_code r) = recharge_code r" "recharge_code r \<noteq> []" "amount r \<noteq> 0"
    and user: "balance_of db (ouser r) \<noteq> None"
    and k: "\<And>k. get_code db (recharge_code r) = Some k \<Longrightarrow> rc_status k = CodeUsed \<or> CanUse k (now e)"
  shows "\<exists>db' r'. run_call R e (n + 8) (LookupCode r l) db = (Done None, db') \<and> get_order db' (oid r) = Some r' \<and>
    status r' = Completed \<and> recharge_code r' = recharge_code cur \<and> code_used db' (recharge_code r)"
proof -
  have redeem: "\<exists>db' r'. run_call R e (m + 6) (RedeemRead r l) d = (Done None, db') \<and> get_order db' (oid r) = Some r' \<and>
      status r' = Completed \<and> recharge_code r' = recharge_code cur \<and> code_used db' (recharge_code r)"
    if d: "get_order d (oid r) = Some cur" "balance_of d (ouser r) \<noteq> None" "get_code d (recharge_code r) = Some k"
      "CanUse k (now e)" for d k m
  proof -
    have kc: "rc_code k = recharge_code r" using get_codeD [OF d(3)] by simp
    have gk: "get_code d (rc_code k) = Some k" "rc_status k = CodeUnused" using d(3,4) kc by (simp_all add: CanUse_def)
    note t = redeem_tx_healthy [OF gk d(2)]
    have "step R e (RedeemRead r l) d = (RedeemTx r l k, d)"
      using h d by (simp add: redeem_read_def Let_def healthy_simps healthy_def)
    moreover have "step R e (RedeemTx r l k) d = (Rebate r l, snd (redeem_tx k (ouser r) d))"
      using h t(1) by (simp add: redeem_step_def healthy_simps)
    moreover have "\<exists>db' r'. run_call R e (m + 4) (Rebate r l) (snd (redeem_tx k (ouser r) d)) = (Done None, db') \<and>
        get_order db' (oid r) = Some r' \<and> status r' = Completed \<and> recharge_code r' = recharge_code cur \<and> code_used db' (recharge_code r)"
      using t d(1) kc by (intro run_from_rebate [OF h _ r(2,3)]) simp_all
    ultimately show ?thesis by (simp add: eval_nat_numeral)
  qed
  consider (none) "get_code db (recharge_code r) = None" | (used) k where "get_code db (recharge_code r) = Some k" "rc_status k = CodeUsed"
    | (unused) k where "get_code db (recharge_code r) = Some k" "rc_status k \<noteq> CodeUsed" "CanUse k (now e)"
    using k by (cases "get_code db (recharge_code r)") auto
  then show ?thesis
  proof cases
    case none
    let ?k = "\<lparr>rc_code = recharge_code r, rc_value = amount r, rc_status = CodeUnused, rc_used_by = None, rc_expires = None\<rparr>"
    have g: "fst (insert_code ?k db)" "get_code (snd (insert_code ?k db)) (recharge_code r) = Some ?k"
      "get_order (snd (insert_code ?k db)) (oid r) = Some cur" "balance_of (snd (insert_code ?k db)) (ouser r) \<noteq> None"
      using get_code_insert [of db ?k "oid r" "ouser r"] none r(1) user by simp_all
    have "step R e (LookupCode r l) db = (CreateCode r l, db)"
      using none h by (simp add: lookup_code_def resolveRedeemAction_def healthy_simps)
    moreover have "step R e (CreateCode r l) db = (RedeemRead r l, snd (insert_code ?k db))"
      using g(1) h code by (simp add: create_code_def Let_def healthy_simps)
    moreover have "CanUse ?k (now e)" by (simp add: CanUse_def IsExpiredAt_def)
    ultimately show ?thesis using redeem [OF g(3,4,2), of n] by (simp add: eval_nat_numeral)
  next
    case used
    then have "step R e (LookupCode r l) db = (Rebate r l, db)"
      using h by (simp add: lookup_code_def resolveRedeemAction_def healthy_simps)
    moreover have "code_used db (recharge_code r)" using used get_codeD by (auto simp: code_used_def)
    ultimately show ?thesis using run_from_rebate [OF h r, of R "n + 3"] by (simp add: eval_nat_numeral)
  next
    case unused
    then have "step R e (LookupCode r l) db = (RedeemRead r l, db)"
      using h by (simp add: lookup_code_def resolveRedeemAction_def healthy_simps)
    then show ?thesis using redeem [OF r(1) user unused(1,3), of "n + 1"] by (simp add: eval_nat_numeral)
  qed
qed

lemma run_retry:
  assumes h: "healthy e" and r: "get_order db i = Some r" "paid_at r \<noteq> None" "order_type r \<noteq> SubscriptionOrder"
    and st: "status r = Paid \<or> status r = Failed \<or>
      status r = Recharging \<and> updated_at r \<le> now e - now e mod 1000 - paymentFulfillmentLeaseDuration"
    and code: "TrimSpace (recharge_code r) = recharge_code r" "recharge_code r \<noteq> []" "amount r \<noteq> 0"
    and user: "balance_of db (ouser r) \<noteq> None"
    and k: "\<And>k. get_code db (recharge_code r) = Some k \<Longrightarrow> rc_status k = CodeUsed \<or> CanUse k (now e)"
  shows "\<exists>db' r'. run_call R e 14 (Retry i) db = (Done None, db') \<and> get_order db' i = Some r' \<and>
    status r' = Completed \<and> recharge_code r' = recharge_code r \<and> code_used db' (recharge_code r)"
proof -
  let ?d1 = "snd (insert_audit (plain_audit i ''RECHARGE_RETRY'') db)"
  let ?u = "take_lease i (now e) ?d1" and ?t = "now e - now e mod 1000"
  let ?cur = "r\<lparr>status := Recharging, updated_at := ?t, failed_reason := None\<rparr>"
  have i: "oid r = i" using get_orderD [OF r(1)] by simp
  have s1: "step R e (Retry i) db = (logged i ''RECHARGE_RETRY'' (Execute i), db)"
    using h r st by (auto simp: RetryFulfillment_def healthy_simps psIsRefundStatus_def)
  have s2: "step R e (logged i ''RECHARGE_RETRY'' (Execute i)) db = (Execute i, ?d1)"
    using h by (simp add: logged_def healthy_simps)
  have s3: "step R e (Execute i) ?d1 = (ExecuteBalance i, ?d1)"
    using h r by (simp add: executeFulfillment_def healthy_simps)
  have s4: "step R e (ExecuteBalance i) ?d1 = (Acquire r, ?d1)"
    using h r st by (auto simp: ExecuteBalanceFulfillment_def healthy_simps psIsRefundStatus_def)
  have "fst ?u \<noteq> 0"
    unfolding take_lease_def Let_def by (rule update_orders_count [of _ i r]) (use r i st in auto)
  then have s5: "step R e (Acquire r) ?d1 = (Claim r, snd ?u)"
    using h i by (simp add: acquire_step_def healthy_simps)
  have g: "get_order (snd ?u) i = Some ?cur"
    unfolding take_lease_def Let_def using r i st by (auto simp: get_order_update)
  have s6: "step R e (Claim r) (snd ?u) = (LookupCode r ?t, snd ?u)"
    using h g i r(3) by (simp add: claim_step_def healthy_simps)
  have c: "get_code (snd ?u) x = get_code db x" "balance_of (snd ?u) x' = balance_of db x'" for x x'
    by (simp_all add: take_lease_def Let_def)
  have "\<exists>db' r'. run_call R e (0 + 8) (LookupCode r ?t) (snd ?u) = (Done None, db') \<and> get_order db' (oid r) = Some r' \<and>
    status r' = Completed \<and> recharge_code r' = recharge_code ?cur \<and> code_used db' (recharge_code r)"
    by (rule run_from_lookup [OF h, where cur = ?cur]) (use g i code user k c in simp_all)
  then show ?thesis using s1 s2 s3 s4 s5 s6 i by (simp add: eval_nat_numeral)
qed

text \<open>C7. Recovery: from every reachable state, a retry that is not disturbed and whose dependencies answer completes a paid
  order for balance that is waiting, has failed, or was abandoned by a call more than five minutes ago, and afterwards the order
  has been credited exactly once, whatever the earlier attempts had already done.\<close>
theorem retry_completes:
  assumes "payment_reachable R s" "get_order (pdb s) i = Some r" "paid_at r \<noteq> None" "order_type r \<noteq> SubscriptionOrder"
    and "status r = Paid \<or> status r = Failed \<or>
      status r = Recharging \<and> updated_at r \<le> now e - now e mod 1000 - paymentFulfillmentLeaseDuration"
    and "healthy e" "amount r \<noteq> 0" "balance_of (pdb s) (ouser r) \<noteq> None"
    and "\<And>k. get_code (pdb s) (recharge_code r) = Some k \<Longrightarrow> rc_status k = CodeUsed \<or> CanUse k (now e)"
  shows "\<exists>db' r'. run_call R e 14 (Retry i) (pdb s) = (Done None, db') \<and> get_order db' i = Some r' \<and>
    status r' = Completed \<and> length (credits_for db' r') = 1 \<and> (\<forall>(c, u, x)\<in>set (credits_for db' r'). x = amount r')"
proof -
  have row: "r \<in> set (orders (pdb s))" "oid r = i" using get_orderD [OF assms(2)] by auto
  have "orders_ok (pdb s)" using reachable_safe [OF assms(1)] by (simp add: safe_def tables_ok_def)
  then obtain t where t: "recharge_code r = order_recharge_code i t" using row by (auto simp: orders_ok_def)
  then have c: "TrimSpace (recharge_code r) = recharge_code r" "recharge_code r \<noteq> []"
    by (simp, simp add: order_recharge_code_def)
  obtain db' r' where run: "run_call R e 14 (Retry i) (pdb s) = (Done None, db')" "get_order db' i = Some r'"
    "status r' = Completed" "recharge_code r' = recharge_code r" "code_used db' (recharge_code r)"
    using run_retry [OF assms(6,2-5) c assms(7-9), of R] by blast
  obtain cs where "payment_reachable R (s\<lparr>calls := calls s @ [Done None], pdb := db', confirmations := cs\<rparr>)" (is "payment_reachable R ?s")
    using run_from_entry [OF assms(1), of "Retry i" e 14] run(1) by (auto simp: entry_point_def)
  then have s': "safe ?s" by (rule reachable_safe)
  have r': "r' \<in> set (orders (pdb ?s))" using get_orderD [OF run(2)] by simp
  have "length (credits_for db' r') = 1" "x = amount r'" if "(c, u, x) \<in> set (credits_for db' r')" for c u x
    using credits_for_order [OF s' r'] run(4,5) that by simp_all
  moreover have "length (credits_for db' r') = 1"
    using credits_for_order(3) [OF s' r'] run(4,5) by simp
  ultimately show ?thesis using run(1-3) by blast
qed

definition sample_stuck :: paydb where
  "sample_stuck = snd (run_call (\<lambda>_. ''alipay'') sample_env 12 sample_note sample_created)"

theorem retry_completes_witness:
  "\<exists>s db' r'. payment_reachable (\<lambda>_. ''alipay'') s \<and> pdb s = sample_stuck \<and>
     run_call (\<lambda>_. ''alipay'') (sample_env\<lparr>now := 7 * Minute\<rparr>) 14 (Retry 1) sample_stuck = (Done None, db') \<and>
     length (credits_for db' r') = 1"
proof -
  let ?R = "\<lambda>_. ''alipay''" and ?e = "sample_env\<lparr>now := 7 * Minute\<rparr>"
  obtain s where s: "payment_reachable ?R s" "pdb s = sample_stuck"
    using sample_run_reachable [of 12] unfolding sample_stuck_def by blast
  have facts: "map_option status (get_order sample_stuck 1) = Some Recharging"
    "map_option order_type (get_order sample_stuck 1) = Some BalanceOrder"
    "map_option updated_at (get_order sample_stuck 1) = Some 1000000"
    "map_option amount (get_order sample_stuck 1) = Some 10"
    "map_option ouser (get_order sample_stuck 1) = Some 7"
    "map_option paid_at (get_order sample_stuck 1) = Some (Some 1000000)"
    "map_option recharge_code (get_order sample_stuck 1) = Some ''PAY-1-0''"
    "map_option rc_status (get_code sample_stuck ''PAY-1-0'') = Some CodeUsed"
    "balance_of sample_stuck 7 = Some 15"
    by code_simp+
  then obtain r where r: "get_order sample_stuck 1 = Some r" by (cases "get_order sample_stuck 1") auto
  have "\<exists>db' r'. run_call ?R ?e 14 (Retry 1) (pdb s) = (Done None, db') \<and> get_order db' 1 = Some r' \<and>
    status r' = Completed \<and> length (credits_for db' r') = 1 \<and> (\<forall>(c, u, x)\<in>set (credits_for db' r'). x = amount r')"
    by (rule retry_completes [OF s(1)])
      (use facts r s(2) in \<open>auto simp: healthy_def sample_env_def paymentFulfillmentLeaseDuration_def\<close>)
  with s show ?thesis by auto
qed

end
