(* ===== verification/PaymentProviders.thy ===== *)
theory PaymentProviders
  imports PaymentSystem "HOL-Library.Word" "HOL-Library.Multiset"
begin

text \<open>
  Payment provider instances: the load balancer that selects the instance of a new order
  (\<open>internal/payment/load_balancer.go\<close>) and the lookup of the instance of an existing one
  (\<open>getOrderProviderInstance\<close> and \<open>getRefundOrderProviderInstance\<close> of \<open>internal/service/payment_refund.go\<close>,
  \<open>resolveSnapshotOrderProviderInstance\<close> of \<open>internal/service/payment_order_provider_snapshot.go\<close>).

  The configuration and the limits of an instance are stored as JSON, the former perhaps encrypted; an instance holds them
  decoded, with nothing for what cannot be read, as \<open>decryptConfig\<close> and \<open>getInstanceChannelLimits\<close> treat it.
\<close>

section \<open>Instances\<close>

record ChannelLimits =
  cl_daily :: rat
  cl_min :: rat
  cl_max :: rat

record ProviderInstance =
  pi_id :: ident
  pi_key :: string
  pi_enabled :: bool
  pi_types :: string
  pi_mode :: string
  pi_config :: metadata
  pi_limits :: "(string \<times> ChannelLimits) list"
  pi_sort :: int
  pi_refund_enabled :: bool
  pi_allow_user_refund :: bool

definition TypeAlipayDirect :: string where "TypeAlipayDirect = ''alipay_direct''"
definition TypeWxpayDirect :: string where "TypeWxpayDirect = ''wxpay_direct''"

definition normalizeVisibleMethodSupportType :: "string \<Rightarrow> string" where
  "normalizeVisibleMethodSupportType t =
     (let u = TrimSpace t in
      if u = TypeAlipay \<or> u = TypeAlipayDirect then TypeAlipay
      else if u = TypeWxpay \<or> u = TypeWxpayDirect then TypeWxpay
      else u)"

definition legacyVisibleMethodAlias :: "string \<Rightarrow> string" where
  "legacyVisibleMethodAlias t =
     (let u = normalizeVisibleMethodSupportType t in
      if u = TypeAlipay then TypeAlipayDirect else if u = TypeWxpay then TypeWxpayDirect else [])"

text \<open>\<open>strings.Split\<close> with a separator of one character.\<close>

fun split_on :: "char \<Rightarrow> string \<Rightarrow> string list" where
  "split_on s [] = [[]]"
| "split_on s (c # cs) =
     (if c = s then [] # split_on s cs else (c # hd (split_on s cs)) # tl (split_on s cs))"

definition InstanceSupportsType :: "string \<Rightarrow> string \<Rightarrow> bool" where
  "InstanceSupportsType supportedTypes target =
     (supportedTypes = [] \<or>
      (\<exists>t\<in>set (split_on (CHR '','') supportedTypes).
         TrimSpace t = target \<or>
         normalizeVisibleMethodSupportType (TrimSpace t) = normalizeVisibleMethodSupportType target))"

definition resolveWxpayJSAPIAppID :: "metadata \<Rightarrow> string" where
  "resolveWxpayJSAPIAppID config =
     (if TrimSpace (meta config ''mpAppId'') \<noteq> [] then TrimSpace (meta config ''mpAppId'')
      else TrimSpace (meta config ''appId''))"

section \<open>Selecting an instance\<close>

record instanceCandidate =
  cand :: ProviderInstance
  dailyUsed :: rat

datatype Strategy = RoundRobin | LeastAmount

text \<open>\<open>instances\<close> is the table in the order of its sort column; \<open>appID\<close> is the identifier the context carries.\<close>

definition instance_matches :: "string \<Rightarrow> string \<Rightarrow> ProviderInstance \<Rightarrow> bool" where
  "instance_matches paymentType appID p =
     (if paymentType = TypeStripe then pi_key p = TypeStripe
      else InstanceSupportsType (pi_types p) paymentType \<and>
        \<not> (appID \<noteq> [] \<and> normalizeVisibleMethodSupportType paymentType = TypeWxpay \<and> pi_key p = TypeWxpay \<and>
           resolveWxpayJSAPIAppID (pi_config p) \<noteq> appID))"

definition queryEnabledInstances ::
  "ProviderInstance list \<Rightarrow> string \<Rightarrow> string \<Rightarrow> string \<Rightarrow> ProviderInstance list option" where
  "queryEnabledInstances instances providerKey paymentType appID =
     (let matched = filter (instance_matches paymentType appID)
        (filter (\<lambda>p. pi_enabled p \<and> (providerKey = [] \<or> pi_key p = providerKey)) (sort_key pi_sort instances))
      in if matched = [] then None else Some matched)"

text \<open>The usage of today by instance; when the query fails nothing has been used.\<close>

definition attachDailyUsage :: "(ident \<Rightarrow> rat) option \<Rightarrow> ProviderInstance list \<Rightarrow> instanceCandidate list" where
  "attachDailyUsage usage instances =
     map (\<lambda>p. \<lparr>cand = p, dailyUsed = (case usage of Some f \<Rightarrow> f (pi_id p) | None \<Rightarrow> 0)\<rparr>) instances"

definition getInstanceChannelLimits :: "ProviderInstance \<Rightarrow> string \<Rightarrow> ChannelLimits" where
  "getInstanceChannelLimits p paymentType =
     (let lookupKey = (if pi_key p = ''stripe'' then ''stripe'' else paymentType);
          aliasKey = legacyVisibleMethodAlias lookupKey
      in case map_of (pi_limits p) lookupKey of
           Some cl \<Rightarrow> cl
         | None \<Rightarrow>
             (case (if aliasKey \<noteq> [] then map_of (pi_limits p) aliasKey else None) of
                Some cl \<Rightarrow> cl
              | None \<Rightarrow> \<lparr>cl_daily = 0, cl_min = 0, cl_max = 0\<rparr>))"

definition within_limits :: "string \<Rightarrow> rat \<Rightarrow> instanceCandidate \<Rightarrow> bool" where
  "within_limits paymentType orderAmount c =
     (let cl = getInstanceChannelLimits (cand c) paymentType in
      \<not> (cl_min cl > 0 \<and> orderAmount < cl_min cl) \<and>
      \<not> (cl_max cl > 0 \<and> orderAmount > cl_max cl) \<and>
      \<not> (cl_daily cl > 0 \<and> dailyUsed c + orderAmount > cl_daily cl))"

definition filterByLimits :: "instanceCandidate list \<Rightarrow> string \<Rightarrow> rat \<Rightarrow> instanceCandidate list" where
  "filterByLimits candidates paymentType orderAmount = filter (within_limits paymentType orderAmount) candidates"

fun least_from :: "instanceCandidate \<Rightarrow> instanceCandidate list \<Rightarrow> instanceCandidate" where
  "least_from best [] = best"
| "least_from best (c # cs) = least_from (if dailyUsed c < dailyUsed best then c else best) cs"

definition pickLeastAmount :: "instanceCandidate list \<Rightarrow> instanceCandidate" where
  "pickLeastAmount candidates = least_from (hd candidates) (tl candidates)"

text \<open>The counter is a 64-bit atomic that wraps around.\<close>

definition pickByStrategy ::
  "instanceCandidate list \<Rightarrow> Strategy \<Rightarrow> 64 word \<Rightarrow> instanceCandidate \<times> 64 word" where
  "pickByStrategy candidates strategy counter =
     (if strategy = LeastAmount \<and> length candidates > 1 then (pickLeastAmount candidates, counter)
      else (candidates ! (unat (counter + 1) mod length candidates), counter + 1))"

definition set_meta :: "string \<Rightarrow> string \<Rightarrow> metadata \<Rightarrow> metadata" where
  "set_meta k v m = (k, v) # filter (\<lambda>p. fst p \<noteq> k) m"

definition buildSelection :: "ProviderInstance \<Rightarrow> InstanceSelection" where
  "buildSelection p =
     \<lparr>selInstanceID = FormatInt (pi_id p), selProviderKey = pi_key p, selPaymentMode = pi_mode p,
      selConfig = (if pi_mode p \<noteq> [] then set_meta ''paymentMode'' (pi_mode p) (pi_config p) else pi_config p)\<rparr>"

definition SelectInstance ::
  "ProviderInstance list \<Rightarrow> (ident \<Rightarrow> rat) option \<Rightarrow> string \<Rightarrow> string \<Rightarrow> string \<Rightarrow> Strategy \<Rightarrow> rat \<Rightarrow> 64 word \<Rightarrow>
   (ProviderInstance \<times> InstanceSelection) option \<times> 64 word" where
  "SelectInstance instances usage providerKey paymentType appID strategy orderAmount counter =
     (case queryEnabledInstances instances providerKey paymentType appID of
        None \<Rightarrow> (None, counter)
      | Some matched \<Rightarrow>
          let candidates = attachDailyUsage usage matched;
              available = filterByLimits candidates paymentType orderAmount;
              available = (if available = [] then candidates else available)
          in case pickByStrategy available strategy counter of
               (c, counter') \<Rightarrow> (Some (cand c, buildSelection (cand c)), counter'))"

section \<open>The instance of an order\<close>

definition get_instance :: "ProviderInstance list \<Rightarrow> ident \<Rightarrow> ProviderInstance option" where
  "get_instance instances i = first_match (\<lambda>p. pi_id p = i) instances"

definition psStringValue :: "string option \<Rightarrow> string" where
  "psStringValue s = (case s of Some x \<Rightarrow> x | None \<Rightarrow> [])"

definition resolveSnapshotOrderProviderInstance ::
  "ProviderInstance list \<Rightarrow> PaymentOrder \<Rightarrow> paymentOrderProviderSnapshot \<Rightarrow> string + ProviderInstance" where
  "resolveSnapshotOrderProviderInstance instances ord snap =
     (let fromSnap = TrimSpace (snapProviderInstanceID snap);
          column = TrimSpace (psStringValue (provider_instance_id ord));
          i = (if fromSnap = [] then column else fromSnap)
      in if i = [] then Inl ''provider snapshot is missing provider_instance_id''
         else if column \<noteq> [] \<and> snapProviderInstanceID snap \<noteq> [] \<and> \<not> EqualFold column (snapProviderInstanceID snap)
         then Inl ''provider snapshot instance mismatch''
         else case ParseInt i of
           None \<Rightarrow> Inl ''provider snapshot instance id is invalid''
         | Some n \<Rightarrow>
             (case get_instance instances n of
                None \<Rightarrow> Inl ''provider snapshot instance is missing''
              | Some p \<Rightarrow>
                  if snapProviderKey snap \<noteq> [] \<and> \<not> EqualFold (TrimSpace (pi_key p)) (snapProviderKey snap)
                  then Inl ''provider snapshot key mismatch'' else Inr p))"

definition psLegacyOrderMatchesInstance :: "string \<Rightarrow> ProviderInstance \<Rightarrow> bool" where
  "psLegacyOrderMatchesInstance orderPaymentType p =
     (let baseType = GetBasePaymentType (TrimSpace orderPaymentType);
          k = TrimSpace (pi_key p)
      in if baseType = [] then False
         else if baseType = TypeStripe then k = TypeStripe
         else if k = TypeStripe then False
         else k = baseType \<or> InstanceSupportsType (pi_types p) baseType)"

definition psFilterLegacyOrderProviderInstances :: "string \<Rightarrow> ProviderInstance list \<Rightarrow> ProviderInstance list" where
  "psFilterLegacyOrderProviderInstances orderPaymentType instances =
     (if TrimSpace orderPaymentType = [] then instances
      else filter (psLegacyOrderMatchesInstance orderPaymentType) instances)"

definition resolveUniqueLegacyOrderProviderInstance ::
  "ProviderInstance list \<Rightarrow> PaymentOrder \<Rightarrow> ProviderInstance option" where
  "resolveUniqueLegacyOrderProviderInstance instances ord =
     (let paymentType = GetBasePaymentType (TrimSpace (payment_type ord));
          k = TrimSpace (psStringValue (provider_key ord));
          single = (\<lambda>ps. case ps of [p] \<Rightarrow> Some p | _ \<Rightarrow> None)
      in if k \<noteq> [] then single (psFilterLegacyOrderProviderInstances paymentType (filter (\<lambda>p. pi_key p = k) instances))
         else if paymentType = [] then None
         else single (psFilterLegacyOrderProviderInstances paymentType instances))"

text \<open>An error is \<open>Inl\<close>, no instance is \<open>Inr None\<close>.\<close>

definition getOrderProviderInstance ::
  "ProviderInstance list \<Rightarrow> PaymentOrder \<Rightarrow> string + ProviderInstance option" where
  "getOrderProviderInstance instances ord =
     (case snapshot ord of
        Some snap \<Rightarrow> map_sum id Some (resolveSnapshotOrderProviderInstance instances ord snap)
      | None \<Rightarrow>
          let i = TrimSpace (psStringValue (provider_instance_id ord)) in
          if i = [] then Inr (resolveUniqueLegacyOrderProviderInstance instances ord)
          else case ParseInt i of
            None \<Rightarrow> Inr None
          | Some n \<Rightarrow> (case get_instance instances n of None \<Rightarrow> Inl ''not found'' | Some p \<Rightarrow> Inr (Some p)))"

definition getRefundOrderProviderInstance ::
  "ProviderInstance list \<Rightarrow> PaymentOrder \<Rightarrow> string + ProviderInstance option" where
  "getRefundOrderProviderInstance instances ord =
     (case snapshot ord of
        Some snap \<Rightarrow> map_sum id Some (resolveSnapshotOrderProviderInstance instances ord snap)
      | None \<Rightarrow>
          let i = TrimSpace (psStringValue (provider_instance_id ord)) in
          if i = [] then Inr None
          else case ParseInt i of
            None \<Rightarrow> Inl ''refund provider instance id is invalid''
          | Some n \<Rightarrow>
              (case get_instance instances n of
                 None \<Rightarrow> Inl ''refund provider instance is missing'' | Some p \<Rightarrow> Inr (Some p)))"

section \<open>Lemmas\<close>

lemma TrimSpace_FormatInt [simp]: "TrimSpace (FormatInt i) = FormatInt i"
proof (rule TrimSpace_id, rule ballI)
  fix c assume "c \<in> set (FormatInt i)"
  then have "is_digit c \<or> c = CHR ''-''" by (rule FormatInt_chars)
  then show "\<not> is_space c" by (auto simp: is_space_def is_digit_def)
qed

lemma FormatInt_ne [simp]: "FormatInt i \<noteq> []"
  by (simp add: FormatInt_def)

lemma EqualFold_refl [simp]: "EqualFold s s"
  by (simp add: EqualFold_def)

lemma least_from_least: "c = least_from b cs \<Longrightarrow> c \<in> set (b # cs) \<and> (\<forall>d\<in>set (b # cs). dailyUsed c \<le> dailyUsed d)"
  by (induction b cs arbitrary: c rule: least_from.induct) (fastforce split: if_splits)+

lemma pick_mem: "candidates \<noteq> [] \<Longrightarrow> fst (pickByStrategy candidates strategy n) \<in> set candidates"
proof -
  assume ne: "candidates \<noteq> []"
  then have "pickLeastAmount candidates \<in> set (hd candidates # tl candidates)"
    using least_from_least by (metis pickLeastAmount_def)
  then show ?thesis using ne by (simp add: pickByStrategy_def)
qed

section \<open>Properties\<close>

text \<open>C26. The instance selected for an order is enabled, serves the payment type, and is within its limits whenever any
  matching instance is; with the least-amount strategy no other eligible instance has been used less today.\<close>
theorem SelectInstance_eligible:
  assumes sel: "SelectInstance instances usage providerKey paymentType appID strategy x n = (Some (p, s), n')"
  shows "p \<in> set instances \<and> pi_enabled p \<and> instance_matches paymentType appID p \<and> selInstanceID s = FormatInt (pi_id p) \<and>
    (let used = (\<lambda>q :: ProviderInstance. case usage of Some f \<Rightarrow> f (pi_id q) | None \<Rightarrow> 0);
         eligible = (\<lambda>q. q \<in> set instances \<and> pi_enabled q \<and> (providerKey = [] \<or> pi_key q = providerKey) \<and>
           instance_matches paymentType appID q \<and> within_limits paymentType x \<lparr>cand = q, dailyUsed = used q\<rparr>)
     in (\<exists>q. eligible q) \<longrightarrow> eligible p \<and> (strategy = LeastAmount \<longrightarrow> (\<forall>q. eligible q \<longrightarrow> used p \<le> used q)))"
proof -
  define used where "used = (\<lambda>q :: ProviderInstance. case usage of Some f \<Rightarrow> f (pi_id q) | None \<Rightarrow> (0 :: rat))"
  define fits where "fits = (\<lambda>q :: ProviderInstance. q \<in> set instances \<and> pi_enabled q \<and> (providerKey = [] \<or> pi_key q = providerKey) \<and>
    instance_matches paymentType appID q)"
  from sel obtain ms where ms: "queryEnabledInstances instances providerKey paymentType appID = Some ms"
    by (cases "queryEnabledInstances instances providerKey paymentType appID") (simp_all add: SelectInstance_def)
  then have set_ms: "set ms = {q. fits q}" and ne: "ms \<noteq> []"
    by (auto simp: queryEnabledInstances_def Let_def fits_def split: if_splits)
  let ?cs = "attachDailyUsage usage ms"
  let ?fs = "filterByLimits ?cs paymentType x"
  let ?as = "if ?fs = [] then ?cs else ?fs"
  have cs: "c \<in> set ?cs \<longleftrightarrow> fits (cand c) \<and> dailyUsed c = used (cand c)" for c
    unfolding attachDailyUsage_def set_map set_ms by (cases c) (auto simp: used_def)
  have ane: "?as \<noteq> []" using ne by (simp add: attachDailyUsage_def)
  define c where "c = fst (pickByStrategy ?as strategy n)"
  have c: "c \<in> set ?as" unfolding c_def by (rule pick_mem [OF ane])
  then have ccs: "c \<in> set ?cs" by (auto simp: filterByLimits_def split: if_splits)
  have p: "p = cand c" "s = buildSelection p"
    using sel ms by (auto simp: c_def SelectInstance_def Let_def split: prod.splits)
  have eq: "c = \<lparr>cand = p, dailyUsed = used p\<rparr>" using ccs p cs by (metis instanceCandidate.surjective old.unit.exhaust)
  define el where "el = (\<lambda>q :: ProviderInstance. fits q \<and> within_limits paymentType x \<lparr>cand = q, dailyUsed = used q\<rparr>)"
  have fs: "c \<in> set ?fs \<longleftrightarrow> el (cand c) \<and> dailyUsed c = used (cand c)" for c
  proof -
    have e: "dailyUsed c = used (cand c) \<Longrightarrow> \<lparr>cand = cand c, dailyUsed = used (cand c)\<rparr> = c" by (cases c) simp
    show ?thesis
    proof (cases "dailyUsed c = used (cand c)")
      case True
      have "within_limits paymentType x \<lparr>cand = cand c, dailyUsed = used (cand c)\<rparr> = within_limits paymentType x c"
        by (rule arg_cong [OF e [OF True]])
      with True show ?thesis using cs [of c] by (auto simp: filterByLimits_def el_def)
    qed (use cs [of c] in \<open>simp add: filterByLimits_def\<close>)
  qed
  have best: "el p \<and> (strategy = LeastAmount \<longrightarrow> (\<forall>q. el q \<longrightarrow> used p \<le> used q))" if "el q0" for q0
  proof -
    have "\<lparr>cand = q0, dailyUsed = used q0\<rparr> \<in> set ?fs" using that by (simp add: fs)
    then have fne: "?fs \<noteq> []" by auto
    then have "el p" using c fs eq by simp
    moreover have "used p \<le> used q" if "el q" "strategy = LeastAmount" for q
    proof (cases "length ?fs > 1")
      case True
      then have "c = least_from (hd ?fs) (tl ?fs)" using that(2) fne by (simp add: c_def pickByStrategy_def pickLeastAmount_def)
      from least_from_least [OF this] fne have "\<forall>d\<in>set ?fs. dailyUsed c \<le> dailyUsed d" by simp
      moreover have "\<lparr>cand = q, dailyUsed = used q\<rparr> \<in> set ?fs" using that(1) by (simp add: fs)
      ultimately show ?thesis using eq by (metis instanceCandidate.select_convs(2))
    next
      case False
      then obtain d where d: "?fs = [d]" using fne by (cases ?fs) auto
      have "\<lparr>cand = q, dailyUsed = used q\<rparr> \<in> set ?fs" "c \<in> set ?fs" using that(1) c fne by (simp_all add: fs)
      then show ?thesis using d eq by auto
    qed
    ultimately show ?thesis by blast
  qed
  have "fits p" using ccs cs p by simp
  then show ?thesis using best p unfolding el_def fits_def used_def Let_def buildSelection_def by auto
qed
theorem SelectInstance_eligible_witness:
  "\<exists>p s n'. fst (SelectInstance [\<lparr>pi_id = 4, pi_key = ''alipay'', pi_enabled = True, pi_types = [], pi_mode = [], pi_config = [],
       pi_limits = [(''alipay'', \<lparr>cl_daily = 0, cl_min = 0, cl_max = 5\<rparr>)], pi_sort = 1, pi_refund_enabled = True,
       pi_allow_user_refund = True\<rparr>] None [] ''alipay'' [] LeastAmount 10 0) = Some (p, s) \<and> pi_enabled p"
proof -
  let ?p = "\<lparr>pi_id = 4, pi_key = ''alipay'', pi_enabled = True, pi_types = [], pi_mode = [], pi_config = [],
       pi_limits = [(''alipay'', \<lparr>cl_daily = 0, cl_min = 0, cl_max = 5\<rparr>)], pi_sort = 1, pi_refund_enabled = True,
       pi_allow_user_refund = True\<rparr>"
  have "SelectInstance [?p] None [] ''alipay'' [] LeastAmount 10 0 = (Some (?p, buildSelection ?p), 1)" by code_simp
  from SelectInstance_eligible [OF this] this show ?thesis by simp
qed

fun pick_many :: "nat \<Rightarrow> instanceCandidate list \<Rightarrow> 64 word \<Rightarrow> instanceCandidate list" where
  "pick_many 0 cs n = []"
| "pick_many (Suc k) cs n = (case pickByStrategy cs RoundRobin n of (c, n') \<Rightarrow> c # pick_many k cs n')"

lemma pick_many_nth:
  "unat n + k < 2 ^ 64 \<Longrightarrow> pick_many k cs n = map (\<lambda>j. cs ! ((unat n + 1 + j) mod length cs)) [0..<k]"
proof (induction k arbitrary: n)
  case (Suc k)
  have u: "unat (n + 1) = unat n + 1" using Suc.prems by (simp add: unat_word_ariths)
  have "pick_many k cs (n + 1) = map (\<lambda>j. cs ! ((unat n + 1 + Suc j) mod length cs)) [0..<k]"
    using Suc.IH [of "n + 1"] Suc.prems by (simp add: u)
  then have "pick_many (Suc k) cs n = cs ! ((unat n + 1) mod length cs) # map (\<lambda>j. cs ! ((unat n + 1 + j) mod length cs)) (map Suc [0..<k])"
    by (simp add: pickByStrategy_def u)
  also have "map Suc [0..<k] = [Suc 0..<Suc k]" by (rule map_Suc_upt)
  finally show ?case by (simp add: upt_conv_Cons [of 0 "Suc k"] del: upt_Suc pick_many.simps)
qed simp

text \<open>C39. Round robin is fair: as long as the candidates stay the same, one turn of as many selections as there are
  candidates takes each of them exactly once, in the order of the list, from any value of the shared counter before its
  64 bits wrap around.\<close>
theorem round_robin_fair:
  assumes "unat n + length cs < 2 ^ 64"
  shows "pick_many (length cs) cs n = rotate (unat n + 1) cs \<and> mset (pick_many (length cs) cs n) = mset cs"
proof -
  have "pick_many (length cs) cs n = rotate (unat n + 1) cs"
    using assms by (intro nth_equalityI) (simp_all add: pick_many_nth nth_rotate del: rotate_Suc)
  moreover have "mset (rotate k cs) = mset cs" for k
    by (metis append_take_drop_id mset_append rotate_drop_take union_commute)
  ultimately show ?thesis by metis
qed

theorem round_robin_fair_witness:
  "pick_many 2 [\<lparr>cand = undefined, dailyUsed = 1\<rparr>, \<lparr>cand = undefined, dailyUsed = 2\<rparr>] 0 =
     [\<lparr>cand = undefined, dailyUsed = 2\<rparr>, \<lparr>cand = undefined, dailyUsed = 1\<rparr>]"
proof -
  let ?cs = "[\<lparr>cand = undefined, dailyUsed = 1\<rparr>, \<lparr>cand = undefined, dailyUsed = 2\<rparr>]"
  have "unat (0 :: 64 word) + length ?cs < 2 ^ 64" by simp
  from round_robin_fair [OF this] show ?thesis by (simp add: numeral_2_eq_2 del: pick_many.simps)
qed

text \<open>C25. A refund goes to the merchant account that took the payment: an order created with the selected instance finds
  exactly that instance again, for notifications and for refunds, as long as the instance exists and keeps its provider.\<close>
theorem order_finds_its_instance:
  assumes sel: "SelectInstance instances usage providerKey paymentType appID strategy x n = (Some (p, s), n')"
    and cr: "createOrderInTx req pl cfg a b c (Some s) i candidates t nanos db = (Inr ord, db')"
    and later: "get_instance instances' (pi_id p) = Some q" "pi_key q = pi_key p"
    and range: "- (2 ^ 63) \<le> pi_id p" "pi_id p < 2 ^ 63"
  shows "getRefundOrderProviderInstance instances' ord = Inr (Some q) \<and> getOrderProviderInstance instances' ord = Inr (Some q)"
proof -
  have s: "s = buildSelection p" using sel by (auto simp: SelectInstance_def Let_def split: option.splits prod.splits)
  then have sid: "selInstanceID s = FormatInt (pi_id p)" "selProviderKey s = pi_key p" by (simp_all add: buildSelection_def)
  have o: "provider_instance_id ord = Some (FormatInt (pi_id p))" "snapshot ord = buildPaymentOrderProviderSnapshot (Some s) (req_open_id req)"
    using cr sid by (auto simp: createOrderInTx_def Let_def split: if_splits option.splits)
  obtain snap where snap: "snapshot ord = Some snap" "snapProviderInstanceID snap = FormatInt (pi_id p)"
    "snapProviderKey snap = TrimSpace (pi_key p)"
    using sid unfolding o(2) by (simp add: buildPaymentOrderProviderSnapshot_def Let_def)
  have "resolveSnapshotOrderProviderInstance instances' ord snap = Inr q"
    using snap o(1) later ParseInt_FormatInt [OF range]
    by (simp add: resolveSnapshotOrderProviderInstance_def Let_def psStringValue_def)
  then show ?thesis by (simp add: getRefundOrderProviderInstance_def getOrderProviderInstance_def snap)
qed

theorem order_finds_its_instance_witness:
  "\<exists>p ord. getRefundOrderProviderInstance [p] ord = Inr (Some p) \<and> pay_amount ord = 10"
proof -
  let ?p = "\<lparr>pi_id = 4, pi_key = ''alipay'', pi_enabled = True, pi_types = [], pi_mode = [], pi_config = [],
       pi_limits = [], pi_sort = 1, pi_refund_enabled = True, pi_allow_user_refund = True\<rparr>"
  have a: "SelectInstance [?p] None [] ''alipay'' [] LeastAmount 10 0 = (Some (?p, buildSelection ?p), 1)" by code_simp
  let ?cr = "createOrderInTx sample_req None sample_limits 10 10 10 (Some (buildSelection ?p)) 1 [''n1''] 0 0 (pdb (empty_tables []))"
  have "case ?cr of (Inr ord, db) \<Rightarrow> pay_amount ord = 10 | _ \<Rightarrow> False" by code_simp
  then obtain ord db' where b: "?cr = (Inr ord, db')" "pay_amount ord = 10" by (auto split: prod.splits sum.splits)
  have "get_instance [?p] (pi_id ?p) = Some ?p" by (simp add: get_instance_def)
  from order_finds_its_instance [OF a b(1) this] b(2) show ?thesis by auto
qed

end
