(* ===== verification/Decimals.thy ===== *)
theory Decimals
  imports Complex_Main
begin

text \<open>
  The arithmetic of \<open>github.com/shopspring/decimal\<close> the modelled code uses: rounding to a number of digits and division.
  The components take both as parameters and rely on the laws of locale \<open>decimals\<close>; the rounding and the division
  the package documents, half away from zero and to sixteen digits, satisfy them.
\<close>

section \<open>Laws of decimals\<close>

locale decimals =
  fixes rnd :: "nat \<Rightarrow> rat \<Rightarrow> rat" and quot :: "rat \<Rightarrow> rat \<Rightarrow> rat"
  assumes rnd_mono: "x \<le> y \<Longrightarrow> rnd n x \<le> rnd n y"
    and rnd_zero: "rnd n 0 = 0"
    and quot_le: "0 < y \<Longrightarrow> x \<le> z * y \<Longrightarrow> rnd 16 z = z \<Longrightarrow> quot x y \<le> z"
    and quot_nonneg: "0 < y \<Longrightarrow> 0 \<le> x \<Longrightarrow> 0 \<le> quot x y"
begin

lemma rnd_nonneg: "0 \<le> x \<Longrightarrow> 0 \<le> rnd n x"
  using rnd_mono [of 0 x n] rnd_zero by simp

end

text \<open>The rounding of the decimal package, half away from zero, and its division to sixteen digits.\<close>

definition decimal_round :: "nat \<Rightarrow> rat \<Rightarrow> rat" where
  "decimal_round n x = (if 0 \<le> x then of_int \<lfloor>x * 10 ^ n + 1 / 2\<rfloor> else - of_int \<lfloor>- x * 10 ^ n + 1 / 2\<rfloor>) / 10 ^ n"

definition decimal_div :: "rat \<Rightarrow> rat \<Rightarrow> rat" where
  "decimal_div x y = decimal_round 16 (x / y)"

lemma decimal_round_sign: "0 \<le> x \<Longrightarrow> 0 \<le> decimal_round n x" "x < 0 \<Longrightarrow> decimal_round n x \<le> 0"
proof -
  assume "0 \<le> x"
  then have "0 \<le> x * 10 ^ n + 1 / 2" by simp
  then have "0 \<le> \<lfloor>x * 10 ^ n + 1 / 2\<rfloor>" by (simp only: zero_le_floor)
  then show "0 \<le> decimal_round n x" using \<open>0 \<le> x\<close> by (simp add: decimal_round_def)
next
  assume "x < 0"
  then have "x * 10 ^ n \<le> 0" by (simp add: mult_nonpos_nonneg)
  then have "0 \<le> - x * 10 ^ n + 1 / 2" by linarith
  then have "0 \<le> \<lfloor>- x * 10 ^ n + 1 / 2\<rfloor>" by (simp only: zero_le_floor)
  then show "decimal_round n x \<le> 0" using \<open>x < 0\<close> by (simp add: decimal_round_def divide_nonpos_nonneg)
qed

lemma decimal_round_mono:
  assumes "x \<le> y"
  shows "decimal_round n x \<le> decimal_round n y"
proof -
  consider "0 \<le> x" | "x < 0" "0 \<le> y" | "y < 0" using assms by linarith
  then show ?thesis
  proof cases
    case 1
    then have "x * 10 ^ n + 1 / 2 \<le> y * 10 ^ n + 1 / 2" using assms by simp
    from floor_mono [OF this] show ?thesis using 1 assms by (simp add: decimal_round_def divide_right_mono)
  next
    case 2 then show ?thesis using decimal_round_sign(2) [of x n] decimal_round_sign(1) [of y n] by linarith
  next
    case 3
    then have "- y * 10 ^ n + 1 / 2 \<le> - x * 10 ^ n + 1 / 2" using assms by simp
    from floor_mono [OF this] show ?thesis using 3 assms by (simp add: decimal_round_def divide_right_mono)
  qed
qed

interpretation dec: decimals decimal_round decimal_div
proof
  fix x y z :: rat and n
  show "x \<le> y \<Longrightarrow> decimal_round n x \<le> decimal_round n y" by (rule decimal_round_mono)
  show "decimal_round n 0 = 0" by (simp add: decimal_round_def floor_eq_iff)
  show "0 < y \<Longrightarrow> 0 \<le> x \<Longrightarrow> 0 \<le> decimal_div x y" by (simp add: decimal_div_def decimal_round_sign)
  assume "0 < y" "x \<le> z * y" "decimal_round 16 z = z"
  then have "x / y \<le> z" by (simp add: pos_divide_le_eq)
  from decimal_round_mono [OF this, of 16] \<open>decimal_round 16 z = z\<close> show "decimal_div x y \<le> z" by (simp add: decimal_div_def)
qed

end
