(* ===== verification/PaymentRefund.thy ===== *)
theory PaymentRefund
  imports PaymentProviders Decimals
begin

text \<open>
  Refunds: \<open>internal/service/payment_refund.go\<close>, the refund amounts of \<open>internal/service/payment_amounts.go\<close> and
  \<open>DeductAvailableBalance\<close> and \<open>UpdateBalance\<close> of \<open>internal/repository/user_repo.go\<close>.

  Each method is a function of the tables and of an environment that says what fails and what the gateway, the user
  table and the subscription service answer. \<open>sub_ops\<close> lists what was asked of the subscription service. The rounding
  of decimals and their division are parameters: \<open>rnd n x\<close> rounds to \<open>n\<close> digits, \<open>quot\<close> divides.
\<close>

section \<open>World and environment\<close>

datatype sub_op = ExtendBy ident int | Revoke ident

record refund_world =
  rdb :: paydb
  sub_ops :: "sub_op list"

datatype extend_answer = Extended | WouldExpire | ExtendFailed

text \<open>A reply of the gateway: an error, with a response or without; or a response, which may be missing.\<close>

record RefundResponse =
  rsp_status :: string
  rsp_id :: string

datatype gateway_reply = GwErr "RefundResponse option" | GwRsp "RefundResponse option"

record refund_env =
  rnow :: time
  instances :: "ProviderInstance list"
  user_found :: bool
  active_sub :: "ident option"
  lock_fails :: bool
  deduct_fails :: bool
  extends :: extend_answer
  revokes :: bool
  provider_made :: bool
  provider_is :: string
  identity :: metadata
  gateway :: gateway_reply
  query_supported :: bool
  update_fails :: bool
  commit_fails :: bool
  payback_fails :: bool
  extend_back_fails :: bool

datatype DeductionType = DeductNone | DeductBalanceType | DeductSubscription

record RefundPlan =
  p_order :: PaymentOrder
  RefundAmount :: rat
  GatewayAmount :: rat
  Reason :: string
  Force :: bool
  DeductBalance :: bool
  DeductionType :: DeductionType
  BalanceToDeduct :: rat
  SubDaysToDeduct :: int
  SubscriptionID :: ident

datatype refund_result =
    RefundOk rat int
  | RefundWarning string bool
  | RefundError string

section \<open>Amounts\<close>

definition calculateGatewayRefundAmount ::
  "(nat \<Rightarrow> rat \<Rightarrow> rat) \<Rightarrow> (rat \<Rightarrow> rat \<Rightarrow> rat) \<Rightarrow> rat \<Rightarrow> rat \<Rightarrow> rat \<Rightarrow> string \<Rightarrow> rat" where
  "calculateGatewayRefundAmount rnd quot orderAmount payAmount refundAmount currency =
     (if orderAmount \<le> 0 \<or> payAmount \<le> 0 \<or> refundAmount \<le> 0 then 0
      else if \<bar>refundAmount - orderAmount\<bar> \<le> paymentAmountToleranceForCurrency currency
      then rnd (CurrencyMaxFractionDigits currency) payAmount
      else rnd (CurrencyMaxFractionDigits currency) (quot (payAmount * refundAmount) orderAmount))"

definition defaultBalanceRechargeMultiplier :: rat where "defaultBalanceRechargeMultiplier = 1"

definition normalizeBalanceRechargeMultiplier :: "float64 \<Rightarrow> rat" where
  "normalizeBalanceRechargeMultiplier m =
     (case m of Finite q \<Rightarrow> if q \<le> 0 then defaultBalanceRechargeMultiplier else q
      | _ \<Rightarrow> defaultBalanceRechargeMultiplier)"

definition normalizeSubscriptionUSDToCNYRate :: "float64 \<Rightarrow> rat" where
  "normalizeSubscriptionUSDToCNYRate m = (case m of Finite q \<Rightarrow> if q < 0 then 0 else q | _ \<Rightarrow> 0)"

definition calculateCreditedBalance :: "(nat \<Rightarrow> rat \<Rightarrow> rat) \<Rightarrow> rat \<Rightarrow> float64 \<Rightarrow> rat" where
  "calculateCreditedBalance rnd paymentAmount m = rnd 2 (paymentAmount * normalizeBalanceRechargeMultiplier m)"

section \<open>Statements\<close>

text \<open>\<open>DeductAvailableBalance\<close> runs in a transaction of its own.\<close>

definition DeductAvailableBalance :: "refund_env \<Rightarrow> ident \<Rightarrow> rat \<Rightarrow> refund_world \<Rightarrow> rat option \<times> refund_world" where
  "DeductAvailableBalance e u x w =
     (if x < 0 then (None, w)
      else case balance_of (rdb w) u of
        None \<Rightarrow> (None, w)
      | Some b \<Rightarrow>
          if deduct_fails e then (None, w)
          else let d = min x (max b 0) in
            (Some d, if d > 0 then w\<lparr>rdb := add_balance u (- d) (rdb w)\<rparr> else w))"

definition UpdateBalance :: "refund_env \<Rightarrow> ident \<Rightarrow> rat \<Rightarrow> refund_world \<Rightarrow> bool \<times> refund_world" where
  "UpdateBalance e u x w =
     (if payback_fails e \<or> balance_of (rdb w) u = None then (False, w)
      else (True, w\<lparr>rdb := add_balance u x (rdb w)\<rparr>))"

definition audit_log :: "audit \<Rightarrow> refund_world \<Rightarrow> refund_world" where
  "audit_log a w = w\<lparr>rdb := snd (insert_audit a (rdb w))\<rparr>"

definition log_action :: "ident \<Rightarrow> string \<Rightarrow> refund_world \<Rightarrow> refund_world" where
  "log_action i act w = audit_log (plain_audit i act) w"

definition set_order :: "ident \<Rightarrow> (PaymentOrder \<Rightarrow> PaymentOrder) \<Rightarrow> refund_world \<Rightarrow> refund_world" where
  "set_order i f w = w\<lparr>rdb := snd (update_orders (\<lambda>r. oid r = i) f (rdb w))\<rparr>"

section \<open>Requests of users\<close>

definition validateRefundRequest :: "refund_env \<Rightarrow> ident \<Rightarrow> ident \<Rightarrow> paydb \<Rightarrow> string + PaymentOrder" where
  "validateRefundRequest e i u db =
     (case get_order db i of
        None \<Rightarrow> Inl ''NOT_FOUND''
      | Some r \<Rightarrow>
          if ouser r \<noteq> u then Inl ''FORBIDDEN''
          else if order_type r \<noteq> BalanceOrder then Inl ''INVALID_ORDER_TYPE''
          else if status r \<noteq> Completed then Inl ''INVALID_STATUS''
          else case getRefundOrderProviderInstance (instances e) r of
            Inr (Some p) \<Rightarrow> if pi_allow_user_refund p then Inr r else Inl ''USER_REFUND_DISABLED''
          | _ \<Rightarrow> Inl ''USER_REFUND_DISABLED'')"

definition RequestRefund :: "refund_env \<Rightarrow> ident \<Rightarrow> ident \<Rightarrow> string \<Rightarrow> refund_world \<Rightarrow> string option \<times> refund_world" where
  "RequestRefund e i u reason w =
     (case validateRefundRequest e i u (rdb w) of
        Inl err \<Rightarrow> (Some err, w)
      | Inr r \<Rightarrow>
          (case (if user_found e then balance_of (rdb w) (ouser r) else None) of
             None \<Rightarrow> (Some ''get user'', w)
           | Some b \<Rightarrow>
               if b < amount r then (Some ''BALANCE_NOT_ENOUGH'', w)
               else if update_fails e then (Some ''update'', w)
               else case update_orders
                   (\<lambda>x. oid x = i \<and> ouser x = u \<and> status x = Completed \<and> order_type x = BalanceOrder)
                   (\<lambda>x. x\<lparr>status := RefundRequested, refund_request_reason := Some (TrimSpace reason),
                          refund_amount := amount r, updated_at := rnow e\<rparr>) (rdb w) of
                 (c, db) \<Rightarrow>
                   if c = 0 then (Some ''CONFLICT'', w)
                   else (None, log_action i ''REFUND_REQUESTED'' (w\<lparr>rdb := db\<rparr>))))"

section \<open>Preparing a refund\<close>

definition prepDeduct :: "refund_env \<Rightarrow> PaymentOrder \<Rightarrow> RefundPlan \<Rightarrow> bool \<Rightarrow> paydb \<Rightarrow> refund_result + RefundPlan" where
  "prepDeduct e r p force db =
     (if order_type r = SubscriptionOrder then
        let p = p\<lparr>DeductionType := DeductSubscription\<rparr> in
        (case (sub_group r, sub_days r) of
           (Some g, Some d) \<Rightarrow>
             (case active_sub e of
                Some s \<Rightarrow> Inr (p\<lparr>SubDaysToDeduct := d, SubscriptionID := s\<rparr>)
              | None \<Rightarrow>
                  if \<not> force then Inl (RefundWarning ''cannot find active subscription for deduction, use force'' True)
                  else Inr (p\<lparr>SubDaysToDeduct := d\<rparr>))
         | _ \<Rightarrow> Inr p)
      else case (if user_found e then balance_of db (ouser r) else None) of
        None \<Rightarrow>
          if \<not> force then Inl (RefundWarning ''cannot fetch user balance, use force'' True) else Inr p
      | Some b \<Rightarrow>
          if b < RefundAmount p \<and> \<not> force
          then Inl (RefundWarning ''user balance is insufficient for deduction, use force'' True)
          else Inr (p\<lparr>DeductionType := DeductBalanceType, BalanceToDeduct := max 0 (min (RefundAmount p) b)\<rparr>))"

definition refundable :: "order_status \<Rightarrow> bool" where
  "refundable s = (s \<in> {Completed, RefundRequested, RefundPending, RefundFailed})"

definition default_reason :: "ident \<Rightarrow> string" where
  "default_reason i = ''refund order:'' @ FormatInt i"

definition PrepareRefund ::
  "(nat \<Rightarrow> rat \<Rightarrow> rat) \<Rightarrow> (rat \<Rightarrow> rat \<Rightarrow> rat) \<Rightarrow> refund_env \<Rightarrow> ident \<Rightarrow> float64 \<Rightarrow> string \<Rightarrow> bool \<Rightarrow> bool \<Rightarrow> paydb \<Rightarrow>
   refund_result + RefundPlan" where
  "PrepareRefund rnd quot e i amt reason force deduct db =
     (case get_order db i of
        None \<Rightarrow> Inl (RefundError ''NOT_FOUND'')
      | Some r \<Rightarrow>
          if \<not> refundable (status r) then Inl (RefundError ''INVALID_STATUS'')
          else (case getRefundOrderProviderInstance (instances e) r of
            Inl _ \<Rightarrow> Inl (RefundError ''PROVIDER_LOOKUP_FAILED'')
          | Inr None \<Rightarrow> Inl (RefundError ''REFUND_DISABLED'')
          | Inr (Some inst) \<Rightarrow>
              if \<not> pi_refund_enabled inst then Inl (RefundError ''REFUND_DISABLED'')
              else (case amt of
                Finite q \<Rightarrow>
                  let x = (if q \<le> 0 then amount r else q);
                      cur = PaymentOrderCurrency r
                  in if x - amount r > paymentAmountToleranceForCurrency cur
                     then Inl (RefundError ''REFUND_AMOUNT_EXCEEDED'')
                     else let rr = TrimSpace reason;
                              rr = (if rr = [] then psStringValue (refund_request_reason r) else rr);
                              rr = (if rr = [] then default_reason i else rr);
                              p = \<lparr>p_order = r, RefundAmount = x,
                                GatewayAmount = calculateGatewayRefundAmount rnd quot (amount r) (pay_amount r) x cur,
                                Reason = rr, Force = force, DeductBalance = deduct, DeductionType = DeductNone,
                                BalanceToDeduct = 0, SubDaysToDeduct = 0, SubscriptionID = 0\<rparr>
                          in if deduct then prepDeduct e r p force db else Inr p
              | _ \<Rightarrow> Inl (RefundError ''INVALID_AMOUNT''))))"

section \<open>Executing a refund\<close>

definition RollbackRefund :: "refund_env \<Rightarrow> RefundPlan \<Rightarrow> refund_world \<Rightarrow> bool \<times> refund_world" where
  "RollbackRefund e p w =
     (let i = oid (p_order p);
          b = (if DeductionType p = DeductBalanceType \<and> BalanceToDeduct p > 0
               then UpdateBalance e (ouser (p_order p)) (BalanceToDeduct p) w else (True, w))
      in if \<not> fst b then (False, log_action i ''REFUND_ROLLBACK_FAILED'' w)
         else let w = snd b in
         if DeductionType p = DeductSubscription \<and> SubDaysToDeduct p > 0 \<and> SubscriptionID p > 0
         then if extend_back_fails e then (False, log_action i ''REFUND_ROLLBACK_FAILED'' w)
              else (True, w\<lparr>sub_ops := ExtendBy (SubscriptionID p) (SubDaysToDeduct p) # sub_ops w\<rparr>)
         else (True, w))"

definition restoreStatus :: "refund_env \<Rightarrow> RefundPlan \<Rightarrow> refund_world \<Rightarrow> refund_world" where
  "restoreStatus e p w =
     (if update_fails e then w
      else set_order (oid (p_order p))
        (\<lambda>r. r\<lparr>status := (if status (p_order p) = RefundRequested then RefundRequested else Completed),
               updated_at := rnow e\<rparr>) w)"

definition handleGwFail :: "refund_env \<Rightarrow> RefundPlan \<Rightarrow> string \<Rightarrow> refund_world \<Rightarrow> refund_result \<times> refund_world" where
  "handleGwFail e p gErr w =
     (let i = oid (p_order p) in
      case RollbackRefund e p w of
        (True, w) \<Rightarrow>
          (RefundWarning (''gateway failed: '' @ gErr @ '', rolled back'') False,
           log_action i ''REFUND_GATEWAY_FAILED'' (restoreStatus e p w))
      | (False, w) \<Rightarrow>
          (RefundError ''REFUND_FAILED'',
           log_action i ''REFUND_FAILED''
             (if update_fails e then w
              else set_order i (\<lambda>r. r\<lparr>status := RefundFailed, failed_reason := Some gErr, updated_at := rnow e\<rparr>) w)))"

definition final_refund_status :: "RefundPlan \<Rightarrow> order_status" where
  "final_refund_status p = (if RefundAmount p < amount (p_order p) then PartiallyRefunded else Refunded)"

definition mark_refunded :: "refund_env \<Rightarrow> RefundPlan \<Rightarrow> refund_world \<Rightarrow> refund_world" where
  "mark_refunded e p =
     set_order (oid (p_order p))
       (\<lambda>r. r\<lparr>status := final_refund_status p, refund_amount := RefundAmount p, refund_reason := Some (Reason p),
              force_refund := Force p, updated_at := rnow e\<rparr>)"

definition markRefundOk :: "refund_env \<Rightarrow> RefundPlan \<Rightarrow> refund_world \<Rightarrow> refund_result \<times> refund_world" where
  "markRefundOk e p w =
     (if update_fails e then (RefundError ''mark refund'', w)
      else (RefundOk (BalanceToDeduct p) (SubDaysToDeduct p),
            log_action (oid (p_order p)) ''REFUND_SUCCESS'' (mark_refunded e p w)))"

definition refundResponseID :: "RefundResponse option \<Rightarrow> string" where
  "refundResponseID resp = (case resp of None \<Rightarrow> [] | Some r \<Rightarrow> TrimSpace (rsp_id r))"

definition markRefundPending ::
  "refund_env \<Rightarrow> RefundPlan \<Rightarrow> RefundResponse option \<Rightarrow> refund_world \<Rightarrow> refund_result \<times> refund_world" where
  "markRefundPending e p resp w =
     (case RollbackRefund e p w of
        (rollbackOK, w) \<Rightarrow>
          if update_fails e then (RefundError ''mark refund pending'', w)
          else let w = set_order (oid (p_order p))
                 (\<lambda>r. r\<lparr>status := RefundPending, refund_amount := RefundAmount p, refund_reason := Some (Reason p),
                        force_refund := Force p, failed_reason := None, updated_at := rnow e\<rparr>) w
               in (RefundWarning (''gateway refund is pending confirmation'' @
                     (if rollbackOK then [] else ''; refund deduction rollback failed'')) False,
                   audit_log \<lparr>a_order = oid (p_order p), a_action = ''REFUND_PENDING'',
                     a_refund_id = refundResponseID resp, a_rollback_ok = rollbackOK\<rparr> w))"

definition validateRefundProviderResponse :: "RefundResponse option \<Rightarrow> string option" where
  "validateRefundProviderResponse resp =
     (case resp of
        None \<Rightarrow> Some ''payment refund response missing''
      | Some r \<Rightarrow>
          let s = TrimSpace (rsp_status r) in
          if s = ''success'' \<or> s = ''refunded'' \<or> s = ''pending'' then None
          else if s = ''failed'' then Some ''payment refund failed: status failed''
          else Some (''payment refund returned unknown status: '' @ s))"

definition finishRefund ::
  "refund_env \<Rightarrow> RefundPlan \<Rightarrow> RefundResponse option \<Rightarrow> refund_world \<Rightarrow> refund_result \<times> refund_world" where
  "finishRefund e p resp w =
     (case (validateRefundProviderResponse resp, resp) of
        (None, Some r) \<Rightarrow>
          if TrimSpace (rsp_status r) = ''success'' \<or> TrimSpace (rsp_status r) = ''refunded'' then markRefundOk e p w
          else if TrimSpace (rsp_status r) = ''pending'' then markRefundPending e p resp w
          else handleGwFail e p ''payment refund returned unknown status'' w
      | (Some err, _) \<Rightarrow> handleGwFail e p err w
      | (None, None) \<Rightarrow> handleGwFail e p ''payment refund response missing'' w)"

text \<open>The call of the gateway, with the amount formatted for the currency of the order: the error or the response.\<close>

definition gwRefund :: "refund_env \<Rightarrow> RefundPlan \<Rightarrow> refund_world \<Rightarrow> (string + RefundResponse option) \<times> refund_world" where
  "gwRefund e p w =
     (let r = p_order p in
      if payment_trade_no r = []
      then (Inr (Some \<lparr>rsp_status = ''success'', rsp_id = []\<rparr>), log_action (oid r) ''REFUND_NO_TRADE_NO'' w)
      else case getRefundOrderProviderInstance (instances e) r of
        Inr (Some inst) \<Rightarrow>
          if \<not> provider_made e then (Inl ''get refund provider'', w)
          else (case validateProviderSnapshotMetadata r (provider_is e) (identity e) of
            Some err \<Rightarrow> (Inl err, log_action (oid r) ''REFUND_PROVIDER_METADATA_MISMATCH'' w)
          | None \<Rightarrow>
              (case gateway e of
                 GwErr (Some rsp) \<Rightarrow>
                   if TrimSpace (rsp_status rsp) = ''pending'' then (Inr (Some rsp), w) else (Inl ''gateway error'', w)
               | GwErr None \<Rightarrow> (Inl ''gateway error'', w)
               | GwRsp resp \<Rightarrow>
                   (case validateRefundProviderResponse resp of
                      Some err \<Rightarrow> (Inl err, w) | None \<Rightarrow> (Inr resp, w))))
      | _ \<Rightarrow> (Inl ''get refund provider'', w))"

text \<open>Taking the days of a subscription back; a subscription that would expire is revoked. False is an error.\<close>

definition deduct_days :: "refund_env \<Rightarrow> RefundPlan \<Rightarrow> refund_world \<Rightarrow> bool \<times> refund_world" where
  "deduct_days e p w =
     (case extends e of
        Extended \<Rightarrow> (True, w\<lparr>sub_ops := ExtendBy (SubscriptionID p) (- SubDaysToDeduct p) # sub_ops w\<rparr>)
      | WouldExpire \<Rightarrow>
          if revokes e then (True, w\<lparr>sub_ops := Revoke (SubscriptionID p) # sub_ops w\<rparr>) else (False, w)
      | ExtendFailed \<Rightarrow> (False, w))"

definition deduct_balance_step :: "refund_env \<Rightarrow> RefundPlan \<Rightarrow> refund_world \<Rightarrow> RefundPlan option \<times> refund_world" where
  "deduct_balance_step e p w =
     (if DeductionType p = DeductBalanceType \<and> BalanceToDeduct p > 0 then
        if has_audit (rdb w) (oid (p_order p)) ''REFUND_ROLLBACK_FAILED'' then (Some (p\<lparr>BalanceToDeduct := 0\<rparr>), w)
        else case DeductAvailableBalance e (ouser (p_order p)) (BalanceToDeduct p) w of
          (None, w) \<Rightarrow> (None, w)
        | (Some d, w) \<Rightarrow> (Some (p\<lparr>BalanceToDeduct := d\<rparr>), w)
      else (Some p, w))"

definition deduct_days_step :: "refund_env \<Rightarrow> RefundPlan \<Rightarrow> refund_world \<Rightarrow> RefundPlan option \<times> refund_world" where
  "deduct_days_step e p w =
     (if DeductionType p = DeductSubscription \<and> SubDaysToDeduct p > 0 \<and> SubscriptionID p > 0 then
        if has_audit (rdb w) (oid (p_order p)) ''REFUND_ROLLBACK_FAILED'' then (Some (p\<lparr>SubDaysToDeduct := 0\<rparr>), w)
        else case deduct_days e p w of
          (True, w) \<Rightarrow> (Some p, w)
        | (False, w) \<Rightarrow> (None, w)
      else (Some p, w))"

definition ExecuteRefund :: "refund_env \<Rightarrow> RefundPlan \<Rightarrow> refund_world \<Rightarrow> refund_result \<times> refund_world" where
  "ExecuteRefund e p w =
     (if lock_fails e then (RefundError ''lock'', w)
      else case update_orders (\<lambda>r. oid r = oid (p_order p) \<and> refundable (status r))
          (\<lambda>r. r\<lparr>status := Refunding, updated_at := rnow e\<rparr>) (rdb w) of
        (c, db) \<Rightarrow>
          if c = 0 then (RefundError ''CONFLICT'', w)
          else case deduct_balance_step e p (w\<lparr>rdb := db\<rparr>) of
            (None, w) \<Rightarrow> (RefundError ''deduction'', restoreStatus e p w)
          | (Some p, w) \<Rightarrow>
              (case deduct_days_step e p w of
                 (None, w) \<Rightarrow> (RefundError ''deduct subscription days'', restoreStatus e p w)
               | (Some p, w) \<Rightarrow>
                   (case gwRefund e p w of
                      (Inl err, w) \<Rightarrow> handleGwFail e p err w
                    | (Inr resp, w) \<Rightarrow> finishRefund e p resp w)))"

section \<open>Confirming a pending refund\<close>

record refundPendingAuditDetail =
  RefundID :: string
  DeductionRollbackOK :: bool

text \<open>The query orders by creation and takes the first; the unique index leaves at most one.\<close>

definition latestRefundPendingDetail :: "paydb \<Rightarrow> ident \<Rightarrow> refundPendingAuditDetail" where
  "latestRefundPendingDetail db i =
     (case first_match (\<lambda>a. a_order a = i \<and> a_action a = ''REFUND_PENDING'') (rev (audits db)) of
        None \<Rightarrow> \<lparr>RefundID = [], DeductionRollbackOK = True\<rparr>
      | Some a \<Rightarrow> \<lparr>RefundID = TrimSpace (a_refund_id a), DeductionRollbackOK = a_rollback_ok a\<rparr>)"

definition refundFinalizePlan ::
  "(nat \<Rightarrow> rat \<Rightarrow> rat) \<Rightarrow> (rat \<Rightarrow> rat \<Rightarrow> rat) \<Rightarrow> PaymentOrder \<Rightarrow> RefundPlan" where
  "refundFinalizePlan rnd quot r =
     (let reason = TrimSpace (psStringValue (refund_reason r)) in
      \<lparr>p_order = r, RefundAmount = refund_amount r,
       GatewayAmount = calculateGatewayRefundAmount rnd quot (amount r) (pay_amount r) (refund_amount r) (PaymentOrderCurrency r),
       Reason = (if reason = [] then default_reason (oid r) else reason), Force = force_refund r, DeductBalance = True,
       DeductionType = DeductBalanceType,
       BalanceToDeduct = (if order_type r = BalanceOrder then refund_amount r else 0),
       SubDaysToDeduct = 0, SubscriptionID = 0\<rparr>)"

definition applyRefundFinalDeduction :: "refund_env \<Rightarrow> RefundPlan \<Rightarrow> refund_world \<Rightarrow> RefundPlan option \<times> refund_world" where
  "applyRefundFinalDeduction e p w =
     (case (if DeductionType p = DeductBalanceType \<and> BalanceToDeduct p > 0
            then (case DeductAvailableBalance e (ouser (p_order p)) (BalanceToDeduct p) w of
                    (None, w) \<Rightarrow> (None, w)
                  | (Some d, w) \<Rightarrow> (Some (p\<lparr>BalanceToDeduct := d\<rparr>), w))
            else (Some p, w)) of
        (None, w) \<Rightarrow> (None, w)
      | (Some p, w) \<Rightarrow>
          if DeductionType p = DeductSubscription \<and> SubDaysToDeduct p > 0 \<and> SubscriptionID p > 0
          then (case deduct_days e p w of (True, w) \<Rightarrow> (Some p, w) | (False, w) \<Rightarrow> (None, w))
          else (Some p, w))"

text \<open>
  \<open>finalizePendingRefundSuccess\<close>: one transaction over the order and the audit row. When it is given up the order and
  the audit log are as before, but a deduction of balance, which has a transaction of its own, stays.
\<close>

definition finalizePendingRefundSuccess :: "refund_env \<Rightarrow> RefundPlan \<Rightarrow> refund_world \<Rightarrow> refund_result \<times> refund_world" where
  "finalizePendingRefundSuccess e p w =
     (let i = oid (p_order p);
          giveUp = (\<lambda>w'. w'\<lparr>rdb := (rdb w')\<lparr>orders := orders (rdb w), audits := audits (rdb w)\<rparr>, sub_ops := sub_ops w\<rparr>)
      in if lock_fails e then (RefundError ''begin refund finalization'', w)
      else case update_orders (\<lambda>r. oid r = i \<and> status r = RefundPending)
          (\<lambda>r. r\<lparr>status := Refunding, updated_at := rnow e\<rparr>) (rdb w) of
        (c, db) \<Rightarrow>
          if c = 0 then (RefundError ''CONFLICT'', w)
          else case applyRefundFinalDeduction e p (w\<lparr>rdb := db\<rparr>) of
            (None, w') \<Rightarrow> (RefundError ''deduction'', giveUp w')
          | (Some p, w') \<Rightarrow>
              if update_fails e then (RefundError ''mark refund'', giveUp w')
              else if has_audit (rdb w') i ''REFUND_SUCCESS'' then (RefundError ''write refund audit'', giveUp w')
              else if commit_fails e then (RefundError ''commit refund finalization'', giveUp w')
              else (RefundOk (BalanceToDeduct p) (SubDaysToDeduct p),
                    log_action i ''REFUND_SUCCESS'' (mark_refunded e p w')))"

definition finalizeRefundFailed :: "refund_env \<Rightarrow> PaymentOrder \<Rightarrow> string \<Rightarrow> refund_world \<Rightarrow> refund_result \<times> refund_world" where
  "finalizeRefundFailed e r gErr w =
     (RefundWarning (''gateway refund failed: '' @ gErr) False,
      log_action (oid r) ''REFUND_FAILED''
        (if update_fails e then w
         else set_order (oid r) (\<lambda>x. x\<lparr>status := RefundFailed, failed_reason := Some gErr, updated_at := rnow e\<rparr>) w))"

definition QueryAndFinalizeRefund ::
  "(nat \<Rightarrow> rat \<Rightarrow> rat) \<Rightarrow> (rat \<Rightarrow> rat \<Rightarrow> rat) \<Rightarrow> refund_env \<Rightarrow> ident \<Rightarrow> refund_world \<Rightarrow> refund_result \<times> refund_world" where
  "QueryAndFinalizeRefund rnd quot e i w =
     (case get_order (rdb w) i of
        None \<Rightarrow> (RefundError ''NOT_FOUND'', w)
      | Some r \<Rightarrow>
          if status r \<noteq> RefundPending then (RefundError ''INVALID_STATUS'', w)
          else (case getRefundOrderProviderInstance (instances e) r of
            Inr (Some inst) \<Rightarrow>
              if \<not> provider_made e then (RefundError ''get refund provider'', w)
              else if \<not> query_supported e then (RefundError ''REFUND_QUERY_UNSUPPORTED'', w)
              else (case gateway e of
                GwErr _ \<Rightarrow> (RefundError ''query refund'', w)
              | GwRsp resp \<Rightarrow>
                  (case (validateRefundProviderResponse resp, resp) of
                     (None, Some rsp) \<Rightarrow>
                       let plan = refundFinalizePlan rnd quot r;
                           prepared =
                             (if \<not> DeductionRollbackOK (latestRefundPendingDetail (rdb w) i)
                              then Inr (plan\<lparr>BalanceToDeduct := 0, SubDaysToDeduct := 0\<rparr>)
                              else if order_type r = SubscriptionOrder then prepDeduct e r plan True (rdb w)
                              else Inr plan)
                       in (case prepared of
                             Inl early \<Rightarrow> (early, w)
                           | Inr plan \<Rightarrow>
                               if TrimSpace (rsp_status rsp) = ''success'' \<or> TrimSpace (rsp_status rsp) = ''refunded''
                               then finalizePendingRefundSuccess e plan w
                               else if TrimSpace (rsp_status rsp) = ''pending''
                               then (RefundWarning ''gateway refund is still pending confirmation'' False,
                                     log_action i ''REFUND_QUERY_PENDING'' w)
                               else finalizeRefundFailed e r ''payment refund returned unknown status'' w)
                   | (Some err, _) \<Rightarrow> finalizeRefundFailed e r err w
                   | (None, None) \<Rightarrow> finalizeRefundFailed e r ''payment refund response missing'' w))
          | _ \<Rightarrow> (RefundError ''get refund provider'', w)))"

section \<open>What leaves the balances alone\<close>

lemma balance_of_add [simp]:
  "balance_of (add_balance u x db) v = map_option (\<lambda>b. if v = u then b + x else b) (balance_of db v)"
proof -
  have "map_of (map (\<lambda>(v, b). (v, if v = u then b + x else b)) bs) v =
    map_option (\<lambda>b. if v = u then b + x else b) (map_of bs v)" for bs
    by (induction bs) auto
  then show ?thesis by (simp add: balance_of_def add_balance_def)
qed

lemma add_balance_fields [simp]:
  "orders (add_balance u x db) = orders db" "audits (add_balance u x db) = audits db"
  by (simp_all add: add_balance_def)

lemma balance_of_fields [simp]:
  "balance_of (db\<lparr>orders := x\<rparr>) v = balance_of db v" "balance_of (db\<lparr>audits := y\<rparr>) v = balance_of db v"
  by (simp_all add: balance_of_def)

lemma world_simps [simp]:
  "balance_of (rdb (set_order i f w)) v = balance_of (rdb w) v"
  "balance_of (rdb (log_action i a w)) v = balance_of (rdb w) v"
  "balance_of (rdb (audit_log x w)) v = balance_of (rdb w) v"
  "balance_of (rdb (restoreStatus e p w)) v = balance_of (rdb w) v"
  "balance_of (rdb (mark_refunded e p w)) v = balance_of (rdb w) v"
  by (simp_all add: set_order_def log_action_def audit_log_def restoreStatus_def mark_refunded_def)

lemma RollbackRefund_balance:
  assumes "RollbackRefund e p w = (ok, w')"
  shows "balance_of (rdb w') v =
    (if DeductionType p = DeductBalanceType \<and> BalanceToDeduct p > 0 \<and> ok
     then map_option (\<lambda>b. if v = ouser (p_order p) then b + BalanceToDeduct p else b) (balance_of (rdb w) v)
     else balance_of (rdb w) v)"
  using assms by (auto simp: RollbackRefund_def Let_def UpdateBalance_def split: if_splits)

lemma RollbackRefund_ok:
  "DeductionType p = DeductBalanceType \<Longrightarrow> \<not> payback_fails e \<Longrightarrow> balance_of (rdb w) (ouser (p_order p)) \<noteq> None \<Longrightarrow>
   fst (RollbackRefund e p w)"
  by (auto simp: RollbackRefund_def Let_def UpdateBalance_def)


lemma deduct_days_balance: "balance_of (rdb (snd (deduct_days e p w))) v = balance_of (rdb w) v"
  by (simp add: deduct_days_def split: extend_answer.split)

lemma DeductAvailable_balance:
  assumes "DeductAvailableBalance e u x w = (Some d, w')"
  shows "0 \<le> d" "\<exists>b. balance_of (rdb w) u = Some b \<and> d = min x (max b 0)"
    "balance_of (rdb w') v = map_option (\<lambda>b. if v = u then b - d else b) (balance_of (rdb w) v)"
    "orders (rdb w') = orders (rdb w)" "audits (rdb w') = audits (rdb w)"
proof -
  obtain b where b: "balance_of (rdb w) u = Some b" "d = min x (max b 0)" "0 \<le> x"
    "w' = (if d > 0 then w\<lparr>rdb := add_balance u (- d) (rdb w)\<rparr> else w)"
    using assms by (auto simp: DeductAvailableBalance_def Let_def split: if_splits option.splits)
  then show d: "0 \<le> d" "\<exists>b. balance_of (rdb w) u = Some b \<and> d = min x (max b 0)" by simp_all
  show "orders (rdb w') = orders (rdb w)" "audits (rdb w') = audits (rdb w)" using b(4) by simp_all
  show "balance_of (rdb w') v = map_option (\<lambda>b. if v = u then b - d else b) (balance_of (rdb w) v)"
  proof (cases "d > 0")
    case False
    with d(1) have "d = 0" by simp
    then show ?thesis using b(4) by (cases "balance_of (rdb w) v") simp_all
  next
    case True
    then show ?thesis using b(4) by (cases "balance_of (rdb w) v") simp_all
  qed
qed

lemma DeductAvailable_None: "DeductAvailableBalance e u x w = (None, w') \<Longrightarrow> w' = w"
  by (auto simp: DeductAvailableBalance_def Let_def split: if_splits option.splits)

text \<open>The plan a preparation returns.\<close>

lemma prepDeduct_plan:
  assumes "prepDeduct e r q force db = Inr p" "BalanceToDeduct q = 0" "DeductionType q = DeductNone"
  shows "p_order p = p_order q" "RefundAmount p = RefundAmount q" "GatewayAmount p = GatewayAmount q"
    "0 \<le> BalanceToDeduct p"
    "BalanceToDeduct p > 0 \<Longrightarrow> DeductionType p = DeductBalanceType \<and>
       (\<exists>b. balance_of db (ouser r) = Some b \<and> BalanceToDeduct p = max 0 (min (RefundAmount q) b))"
    "order_type r \<noteq> SubscriptionOrder \<Longrightarrow> user_found e \<Longrightarrow> balance_of db (ouser r) = Some b \<Longrightarrow>
       DeductionType p = DeductBalanceType \<and> BalanceToDeduct p = max 0 (min (RefundAmount q) b)"
    "order_type r = SubscriptionOrder \<Longrightarrow> DeductionType p \<noteq> DeductBalanceType"
  using assms by (auto simp: prepDeduct_def Let_def split: if_splits option.splits)

lemma PrepareRefund_plan:
  assumes "PrepareRefund rnd quot e i amt reason force deduct db = Inr p"
  obtains r q0 where "get_order db i = Some r" "refundable (status r)" "p_order p = r" "oid r = i" "amt = Finite q0"
    "RefundAmount p = (if q0 \<le> 0 then amount r else q0)"
    "RefundAmount p - amount r \<le> paymentAmountToleranceForCurrency (PaymentOrderCurrency r)"
    "GatewayAmount p = calculateGatewayRefundAmount rnd quot (amount r) (pay_amount r) (RefundAmount p) (PaymentOrderCurrency r)"
    "0 \<le> BalanceToDeduct p"
    "BalanceToDeduct p > 0 \<Longrightarrow> DeductionType p = DeductBalanceType \<and> deduct \<and>
       (\<exists>b. balance_of db (ouser r) = Some b \<and> BalanceToDeduct p = max 0 (min (RefundAmount p) b))"
    "\<And>b. deduct \<Longrightarrow> order_type r \<noteq> SubscriptionOrder \<Longrightarrow> user_found e \<Longrightarrow> balance_of db (ouser r) = Some b \<Longrightarrow>
       DeductionType p = DeductBalanceType \<and> BalanceToDeduct p = max 0 (min (RefundAmount p) b)"
    "\<not> deduct \<Longrightarrow> DeductionType p = DeductNone"
    "order_type r = SubscriptionOrder \<Longrightarrow> DeductionType p \<noteq> DeductBalanceType"
proof -
  obtain r where r: "get_order db i = Some r" using assms by (cases "get_order db i") (simp_all add: PrepareRefund_def)
  have st: "refundable (status r)" using assms r by (simp add: PrepareRefund_def split: if_splits)
  obtain inst where inst: "getRefundOrderProviderInstance (instances e) r = Inr (Some inst)" "pi_refund_enabled inst"
    using assms r st by (auto simp: PrepareRefund_def split: sum.splits option.splits if_splits)
  obtain q0 where q0: "amt = Finite q0"
    using assms r st inst by (cases amt) (simp_all add: PrepareRefund_def)
  let ?x = "if q0 \<le> 0 then amount r else q0"
  have x: "?x - amount r \<le> paymentAmountToleranceForCurrency (PaymentOrderCurrency r)"
    using assms r st inst q0 by (auto simp: PrepareRefund_def Let_def not_less split: if_splits)
  obtain rr where pl: "(let q = \<lparr>p_order = r, RefundAmount = ?x,
      GatewayAmount = calculateGatewayRefundAmount rnd quot (amount r) (pay_amount r) ?x (PaymentOrderCurrency r),
      Reason = rr, Force = force, DeductBalance = deduct, DeductionType = DeductNone,
      BalanceToDeduct = 0, SubDaysToDeduct = 0, SubscriptionID = 0\<rparr>
    in (if deduct then prepDeduct e r q force db else Inr q)) = Inr p"
    using assms r st inst q0 x by (simp add: PrepareRefund_def Let_def not_less [symmetric] split del: if_split)
  have o: "oid r = i" using get_orderD [OF r(1)] by simp
  show ?thesis
  proof (cases deduct)
    case False
    then show ?thesis using pl that [OF r st _ o q0] x by (auto simp: Let_def)
  next
    case True
    with pl have pd: "prepDeduct e r \<lparr>p_order = r, RefundAmount = ?x,
      GatewayAmount = calculateGatewayRefundAmount rnd quot (amount r) (pay_amount r) ?x (PaymentOrderCurrency r),
      Reason = rr, Force = force, DeductBalance = deduct, DeductionType = DeductNone,
      BalanceToDeduct = 0, SubDaysToDeduct = 0, SubscriptionID = 0\<rparr> force db = Inr p"
      by (simp add: Let_def)
    note d = prepDeduct_plan [OF pd, unfolded RefundPlan.select_convs, OF refl refl]
    show ?thesis using that [OF r st d(1) o q0 d(2)] d(2-7) x True by simp
  qed
qed

text \<open>\<open>taken d u\<close>: the user \<open>u\<close> has \<open>d\<close> less than before and every other balance is the same.\<close>

definition taken :: "rat \<Rightarrow> ident \<Rightarrow> refund_world \<Rightarrow> refund_world \<Rightarrow> bool" where
  "taken d u w w' = (\<forall>v. balance_of (rdb w') v = map_option (\<lambda>b. if v = u then b - d else b) (balance_of (rdb w) v))"

lemma taken_same: "(\<And>v. balance_of (rdb w') v = balance_of (rdb w) v) \<Longrightarrow> taken 0 u w w'"
proof -
  assume "\<And>v. balance_of (rdb w') v = balance_of (rdb w) v"
  moreover have "map_option (\<lambda>b. if v = u then b - 0 else b) x = x" for v and x :: "rat option"
    by (cases x) simp_all
  ultimately show ?thesis by (simp add: taken_def)
qed

lemma taken_refl [simp]: "taken 0 u w w"
  by (rule taken_same) simp

lemma taken_trans: "taken d u w w' \<Longrightarrow> taken d' u w' w'' \<Longrightarrow> taken (d + d') u w w''"
proof -
  assume a: "taken d u w w'" "taken d' u w' w''"
  have "map_option (\<lambda>b. if v = u then b - d' else b) (map_option (\<lambda>b. if v = u then b - d else b) x) =
    map_option (\<lambda>b. if v = u then b - (d + d') else b) x" for v x
    by (cases x) simp_all
  with a show ?thesis by (simp add: taken_def)
qed

lemma taken_frame: "taken d u w w' \<Longrightarrow> (\<And>v. balance_of (rdb w'') v = balance_of (rdb w') v) \<Longrightarrow> taken d u w w''"
  using taken_trans [of d u w w' 0 w''] taken_same [of w'' w' u] by simp

definition plan_ok :: "RefundPlan \<Rightarrow> bool" where
  "plan_ok p = (0 \<le> BalanceToDeduct p \<and> (BalanceToDeduct p > 0 \<longrightarrow> DeductionType p = DeductBalanceType))"

lemma deduct_balance_step_taken:
  assumes "deduct_balance_step e p w = (q, w')" "plan_ok p"
  shows "q = None \<Longrightarrow> taken 0 (ouser (p_order p)) w w'"
    "q = Some p' \<Longrightarrow> taken (BalanceToDeduct p') (ouser (p_order p)) w w' \<and> plan_ok p' \<and> p_order p' = p_order p \<and>
      RefundAmount p' = RefundAmount p \<and> DeductionType p' = DeductionType p \<and> BalanceToDeduct p' \<le> BalanceToDeduct p \<and>
      (BalanceToDeduct p' > 0 \<longrightarrow> balance_of (rdb w) (ouser (p_order p)) \<noteq> None) \<and>
      (\<not> has_audit (rdb w) (oid (p_order p)) ''REFUND_ROLLBACK_FAILED'' \<longrightarrow> balance_of (rdb w) (ouser (p_order p)) = Some b \<longrightarrow>
         BalanceToDeduct p' = min (BalanceToDeduct p) (max b 0)) \<and>
      orders (rdb w') = orders (rdb w) \<and> audits (rdb w') = audits (rdb w)"
proof -
  have no: "BalanceToDeduct p = 0" if "\<not> (DeductionType p = DeductBalanceType \<and> BalanceToDeduct p > 0)"
    using that assms(2) by (auto simp: plan_ok_def)
  show "q = None \<Longrightarrow> taken 0 (ouser (p_order p)) w w'"
    using assms(1) by (auto simp: deduct_balance_step_def split: if_splits prod.splits option.splits dest: DeductAvailable_None)
  assume q: "q = Some p'"
  show "taken (BalanceToDeduct p') (ouser (p_order p)) w w' \<and> plan_ok p' \<and> p_order p' = p_order p \<and>
      RefundAmount p' = RefundAmount p \<and> DeductionType p' = DeductionType p \<and> BalanceToDeduct p' \<le> BalanceToDeduct p \<and>
      (BalanceToDeduct p' > 0 \<longrightarrow> balance_of (rdb w) (ouser (p_order p)) \<noteq> None) \<and>
      (\<not> has_audit (rdb w) (oid (p_order p)) ''REFUND_ROLLBACK_FAILED'' \<longrightarrow> balance_of (rdb w) (ouser (p_order p)) = Some b \<longrightarrow>
         BalanceToDeduct p' = min (BalanceToDeduct p) (max b 0)) \<and>
      orders (rdb w') = orders (rdb w) \<and> audits (rdb w') = audits (rdb w)"
  proof (cases "DeductionType p = DeductBalanceType \<and> BalanceToDeduct p > 0")
    case False
    then have "p' = p" "w' = w" using assms(1) q by (auto simp: deduct_balance_step_def)
    with no [OF False] assms(2) show ?thesis by simp
  next
    case True
    show ?thesis
    proof (cases "has_audit (rdb w) (oid (p_order p)) ''REFUND_ROLLBACK_FAILED''")
      case audit: True
      then have "p' = p\<lparr>BalanceToDeduct := 0\<rparr>" "w' = w" using assms(1) q True by (auto simp: deduct_balance_step_def)
      with audit assms(2) show ?thesis by (simp add: plan_ok_def)
    next
      case False
      then obtain d where d: "DeductAvailableBalance e (ouser (p_order p)) (BalanceToDeduct p) w = (Some d, w')"
        "p' = p\<lparr>BalanceToDeduct := d\<rparr>"
        using assms(1) q True by (auto simp: deduct_balance_step_def split: prod.splits option.splits)
      from DeductAvailable_balance [OF d(1)] show ?thesis using d(2) True by (auto simp: taken_def plan_ok_def)
    qed
  qed
qed

lemma rollback_taken:
  assumes "RollbackRefund e p w = (ok, w')" "plan_ok p"
  shows "taken (if ok then - BalanceToDeduct p else 0) (ouser (p_order p)) w w'"
    "\<not> payback_fails e \<Longrightarrow> (BalanceToDeduct p > 0 \<longrightarrow> balance_of (rdb w) (ouser (p_order p)) \<noteq> None) \<Longrightarrow>
     ok \<or> BalanceToDeduct p = 0"
proof -
  let ?t = "DeductionType p = DeductBalanceType \<and> BalanceToDeduct p > 0"
  have no: "\<not> ?t \<Longrightarrow> BalanceToDeduct p = 0" using assms(2) by (auto simp: plan_ok_def)
  show "taken (if ok then - BalanceToDeduct p else 0) (ouser (p_order p)) w w'"
  proof (cases "?t \<and> ok")
    case True then show ?thesis using RollbackRefund_balance [OF assms(1)] by (simp add: taken_def cong: if_cong)
  next
    case False
    then have "(if ok then - BalanceToDeduct p else 0) = 0" using no by auto
    moreover have "balance_of (rdb w') v = balance_of (rdb w) v" for v
      using RollbackRefund_balance [OF assms(1), of v] False by (auto split: if_splits)
    ultimately show ?thesis using taken_same [of w' w] by simp
  qed
  assume "\<not> payback_fails e" "BalanceToDeduct p > 0 \<longrightarrow> balance_of (rdb w) (ouser (p_order p)) \<noteq> None"
  then show "ok \<or> BalanceToDeduct p = 0" using assms RollbackRefund_ok [of p e w] no by (cases ?t) auto
qed



text \<open>The stages of an execution after the lock.\<close>

lemma gwRefund_fields: "orders (rdb (snd (gwRefund e p w))) = orders (rdb w)"
  by (simp add: gwRefund_def Let_def log_action_def audit_log_def split: sum.split option.split gateway_reply.split)

lemma deduct_days_step_fields:
  assumes "deduct_days_step e p w = (Some q, w')" "plan_ok p"
  shows "plan_ok q" "p_order q = p_order p" "BalanceToDeduct q = BalanceToDeduct p" "RefundAmount q = RefundAmount p"
    "rdb w' = rdb w" "DeductionType q = DeductionType p"
  using assms by (auto simp: deduct_days_step_def deduct_days_def plan_ok_def split: if_splits extend_answer.splits bool.splits prod.splits)



section \<open>Pending refunds\<close>

definition pending_note :: string where "pending_note = ''gateway refund is pending confirmation''"

lemma handleGwFail_note: "handleGwFail e p err w = (RefundWarning (pending_note @ s) False, w') \<Longrightarrow> False"
  by (auto simp: handleGwFail_def Let_def pending_note_def split: prod.splits bool.splits)

lemma gwRefund_pending:
  assumes "gwRefund e p w = (Inr (Some r), w')" "TrimSpace (rsp_status r) = ''pending''"
  shows "w' = w"
proof -
  have "TrimSpace ''success'' = ''success''" by code_simp
  then have "payment_trade_no (p_order p) \<noteq> []" using assms by (auto simp: gwRefund_def)
  then show ?thesis using assms by (auto simp: gwRefund_def Let_def split: sum.splits option.splits if_splits gateway_reply.splits)
qed

text \<open>An execution that ends with a pending refund has taken the balance, and then tried to give it back.\<close>

lemma ExecuteRefund_pending:
  assumes "ExecuteRefund e p w = (RefundWarning (pending_note @ s) False, w')" "plan_ok p"
    and "\<not> has_audit (rdb w) (oid (p_order p)) ''REFUND_ROLLBACK_FAILED''"
    and "balance_of (rdb w) (ouser (p_order p)) = Some b"
  obtains p2 w3 resp where "markRefundPending e p2 resp w3 = (RefundWarning (pending_note @ s) False, w')"
    "plan_ok p2" "p_order p2 = p_order p" "RefundAmount p2 = RefundAmount p"
    "BalanceToDeduct p2 = min (BalanceToDeduct p) (max b 0)" "taken (BalanceToDeduct p2) (ouser (p_order p)) w w3"
    "audits (rdb w3) = audits (rdb w)"
    "\<And>r. get_order (rdb w) i = Some r \<Longrightarrow> \<exists>r'. get_order (rdb w3) i = Some r' \<and> same_order r r'"
    "BalanceToDeduct p = 0 \<Longrightarrow> DeductionType p = DeductNone \<Longrightarrow> DeductionType p2 = DeductNone"
proof -
  obtain c db where lock: "update_orders (\<lambda>r. oid r = oid (p_order p) \<and> refundable (status r))
      (\<lambda>r. r\<lparr>status := Refunding, updated_at := rnow e\<rparr>) (rdb w) = (c, db)" by fastforce
  let ?w0 = "w\<lparr>rdb := db\<rparr>" and ?u = "ouser (p_order p)"
  have dbs: "db = snd (update_orders (\<lambda>r. oid r = oid (p_order p) \<and> refundable (status r))
      (\<lambda>r. r\<lparr>status := Refunding, updated_at := rnow e\<rparr>) (rdb w))" by (simp add: lock)
  have b0: "balance_of db v = balance_of (rdb w) v" and a0: "audits db = audits (rdb w)" for v
    unfolding dbs by simp_all
  have o0: "\<exists>r'. get_order db i = Some r' \<and> same_order r r'" if "get_order (rdb w) i = Some r" for r
    unfolding dbs using that by (simp add: get_order_update same_order_def)
  have go: "\<not> lock_fails e" "c \<noteq> 0" using assms(1) lock by (auto simp: ExecuteRefund_def split: if_splits)
  obtain q1 w1 where d1: "deduct_balance_step e p ?w0 = (q1, w1)" by fastforce
  obtain p1 where q1: "q1 = Some p1" using assms(1) go lock d1 by (cases q1) (auto simp: ExecuteRefund_def)
  note s1 = deduct_balance_step_taken(2) [OF d1 assms(2) q1, of b]
  obtain q2 w2 where d2: "deduct_days_step e p1 w1 = (q2, w2)" by fastforce
  obtain p2 where q2: "q2 = Some p2" using assms(1) go lock d1 q1 d2 by (cases q2) (auto simp: ExecuteRefund_def)
  note s2 = deduct_days_step_fields [OF d2 [unfolded q2]]
  obtain g w3 where gw: "gwRefund e p2 w2 = (g, w3)" by fastforce
  obtain resp where g: "g = Inr resp"
    using assms(1) go lock d1 q1 d2 q2 gw by (cases g) (auto simp: ExecuteRefund_def dest: handleGwFail_note)
  have fin: "finishRefund e p2 resp w3 = (RefundWarning (pending_note @ s) False, w')"
    using assms(1) go lock d1 q1 d2 q2 gw g by (simp add: ExecuteRefund_def)
  then have mp: "markRefundPending e p2 resp w3 = (RefundWarning (pending_note @ s) False, w')"
    and "\<exists>r. resp = Some r \<and> TrimSpace (rsp_status r) = ''pending''"
    by (auto simp: finishRefund_def markRefundOk_def split: option.splits if_splits dest: handleGwFail_note)
  then have w3: "w3 = w2" using gwRefund_pending gw g by blast
  have t0: "taken 0 ?u w ?w0" by (rule taken_same) (simp add: b0)
  have "taken (BalanceToDeduct p1) ?u w w1" using taken_trans [OF t0] s1 by fastforce
  then have "taken (BalanceToDeduct p2) ?u w w3" using taken_frame [of "BalanceToDeduct p1" ?u w w1 w3] s1 s2 w3 by simp
  moreover have "audits (rdb w3) = audits (rdb w)" using w3 s1 s2 a0 by simp
  moreover have "\<exists>r'. get_order (rdb w3) i = Some r' \<and> same_order r r'" if "get_order (rdb w) i = Some r" for r
    using o0 [OF that] w3 s1 s2 by (simp add: get_order_def)
  moreover have "BalanceToDeduct p2 = min (BalanceToDeduct p) (max b 0)"
    using s1 s2 assms(3,4) b0 a0 by (simp add: has_audit_def)
  ultimately show ?thesis using that [OF mp] s1 s2 by simp
qed

lemma latest_detail_new:
  "\<not> has_audit db i ''REFUND_PENDING'' \<Longrightarrow> a_order a = i \<Longrightarrow> a_action a = ''REFUND_PENDING'' \<Longrightarrow>
   DeductionRollbackOK (latestRefundPendingDetail (snd (insert_audit a db)) i) = a_rollback_ok a"
  by (auto simp: latestRefundPendingDetail_def insert_audit_def)

lemma markRefundPending_result:
  assumes "markRefundPending e p resp w = (RefundWarning m False, w')" "plan_ok p"
    and "get_order (rdb w) i = Some r" "i = oid (p_order p)" "\<not> has_audit (rdb w) i ''REFUND_PENDING''"
  obtains ok r1 where "taken (if ok then - BalanceToDeduct p else 0) (ouser (p_order p)) w w'"
    "get_order (rdb w') i = Some r1" "same_order r r1" "status r1 = RefundPending" "refund_amount r1 = RefundAmount p"
    "DeductionRollbackOK (latestRefundPendingDetail (rdb w') i) = ok" "DeductionType p = DeductNone \<Longrightarrow> ok"
proof -
  obtain ok v where r: "RollbackRefund e p w = (ok, v)" by fastforce
  let ?f = "\<lambda>r. r\<lparr>status := RefundPending, refund_amount := RefundAmount p, refund_reason := Some (Reason p),
    force_refund := Force p, failed_reason := None, updated_at := rnow e\<rparr>"
  let ?a = "\<lparr>a_order = i, a_action = ''REFUND_PENDING'', a_refund_id = refundResponseID resp, a_rollback_ok = ok\<rparr>"
  have w': "w' = audit_log ?a (set_order i ?f v)"
    using assms(1,4) r by (auto simp: markRefundPending_def Let_def split: if_splits)
  have v: "get_order (rdb v) i = Some r" "\<not> has_audit (rdb v) i ''REFUND_PENDING''"
  proof -
    have "get_order (rdb v) i = get_order (rdb w) i"
      using r by (auto simp: RollbackRefund_def Let_def UpdateBalance_def log_action_def audit_log_def get_order_def split: if_splits)
    then show "get_order (rdb v) i = Some r" using assms(3) by simp
    have "has_audit (rdb v) i ''REFUND_PENDING'' = has_audit (rdb w) i ''REFUND_PENDING''"
      using r by (auto simp: RollbackRefund_def Let_def UpdateBalance_def log_action_def audit_log_def plain_audit_def has_audit_def
          insert_audit_def split: if_splits)
    then show "\<not> has_audit (rdb v) i ''REFUND_PENDING''" using assms(5) by simp
  qed
  have g: "get_order (rdb w') i = Some (?f r)"
    using v(1) get_orderD [OF v(1)] unfolding w' by (simp add: audit_log_def set_order_def get_order_update)
  have d: "DeductionRollbackOK (latestRefundPendingDetail (rdb w') i) = ok"
    using v(2) unfolding w' by (simp add: audit_log_def latest_detail_new set_order_def has_audit_def)
  have t: "taken (if ok then - BalanceToDeduct p else 0) (ouser (p_order p)) w w'"
    by (rule taken_frame [OF rollback_taken(1) [OF r assms(2)]]) (simp add: w')
  have "DeductionType p = DeductNone \<Longrightarrow> ok" using r by (auto simp: RollbackRefund_def Let_def)
  with t g d show ?thesis using that [of ok "?f r"] by (simp add: same_order_def)
qed

lemma finalize_taken:
  assumes "finalizePendingRefundSuccess e p w = (RefundOk d x, w')" "plan_ok p" "DeductionType p = DeductBalanceType"
    "balance_of (rdb w) (ouser (p_order p)) = Some b"
  shows "taken d (ouser (p_order p)) w w'" "d = (if BalanceToDeduct p > 0 then min (BalanceToDeduct p) (max b 0) else 0)"
    "\<forall>r\<in>set (orders (rdb w')). oid r = oid (p_order p) \<longrightarrow> status r = final_refund_status p"
proof -
  let ?u = "ouser (p_order p)"
  obtain c db where lock: "update_orders (\<lambda>r. oid r = oid (p_order p) \<and> status r = RefundPending)
      (\<lambda>r. r\<lparr>status := Refunding, updated_at := rnow e\<rparr>) (rdb w) = (c, db)" by fastforce
  have dbs: "db = snd (update_orders (\<lambda>r. oid r = oid (p_order p) \<and> status r = RefundPending)
      (\<lambda>r. r\<lparr>status := Refunding, updated_at := rnow e\<rparr>) (rdb w))" by (simp add: lock)
  have b0: "balance_of db v = balance_of (rdb w) v" for v unfolding dbs by simp
  let ?w0 = "w\<lparr>rdb := db\<rparr>"
  have t0: "taken 0 ?u w ?w0" by (rule taken_same) (simp add: b0)
  have go: "\<not> lock_fails e" "c \<noteq> 0" using assms(1) lock by (auto simp: finalizePendingRefundSuccess_def Let_def split: if_splits)
  obtain q w1 where ap: "applyRefundFinalDeduction e p ?w0 = (q, w1)" by fastforce
  obtain p1 where q: "q = Some p1" using assms(1) go lock ap by (cases q) (auto simp: finalizePendingRefundSuccess_def Let_def)
  have end': "d = BalanceToDeduct p1" "w' = log_action (oid (p_order p)) ''REFUND_SUCCESS'' (mark_refunded e p1 w1)"
    using assms(1) go lock ap q by (auto simp: finalizePendingRefundSuccess_def Let_def split: if_splits)
  have t1: "taken (BalanceToDeduct p1) ?u ?w0 w1 \<and> p_order p1 = p_order p \<and> RefundAmount p1 = RefundAmount p \<and>
    BalanceToDeduct p1 = (if BalanceToDeduct p > 0 then min (BalanceToDeduct p) (max b 0) else 0)"
  proof (cases "BalanceToDeduct p > 0")
    case False
    then have "p1 = p" "w1 = ?w0" using ap q assms(3) by (auto simp: applyRefundFinalDeduction_def)
    then show ?thesis using False assms(2) by (simp add: plan_ok_def)
  next
    case True
    then obtain x where x: "DeductAvailableBalance e ?u (BalanceToDeduct p) ?w0 = (Some x, w1)" "p1 = p\<lparr>BalanceToDeduct := x\<rparr>"
      using ap q assms(3) by (auto simp: applyRefundFinalDeduction_def split: prod.splits option.splits)
    from DeductAvailable_balance [OF x(1)] show ?thesis using x(2) True assms(4) b0 by (auto simp: taken_def)
  qed
  have "taken d ?u w w1" using taken_trans [OF t0 conjunct1 [OF t1]] end'(1) by simp
  then show "taken d ?u w w'" by (rule taken_frame) (simp add: end'(2))
  show "d = (if BalanceToDeduct p > 0 then min (BalanceToDeduct p) (max b 0) else 0)" using t1 end'(1) by simp
  show "\<forall>r\<in>set (orders (rdb w')). oid r = oid (p_order p) \<longrightarrow> status r = final_refund_status p"
    using t1 by (auto simp: end'(2) log_action_def audit_log_def mark_refunded_def set_order_def final_refund_status_def split: if_splits)
qed

lemma QueryAndFinalize_ok:
  assumes "QueryAndFinalizeRefund rnd quot e i w = (RefundOk d x, w')" "get_order (rdb w) i = Some r" "order_type r \<noteq> SubscriptionOrder"
  shows "finalizePendingRefundSuccess e
    (if DeductionRollbackOK (latestRefundPendingDetail (rdb w) i) then refundFinalizePlan rnd quot r
     else (refundFinalizePlan rnd quot r)\<lparr>BalanceToDeduct := 0, SubDaysToDeduct := 0\<rparr>) w = (RefundOk d x, w')"
  using assms by (auto simp: QueryAndFinalizeRefund_def Let_def finalizeRefundFailed_def
      split: if_splits sum.splits option.splits gateway_reply.splits)

section \<open>Bounds of the gateway amount\<close>

context decimals begin

lemma gateway_bounds:
  assumes "rnd 16 pay = pay" "x - due \<le> paymentAmountToleranceForCurrency cur"
  shows "0 \<le> calculateGatewayRefundAmount rnd quot due pay x cur"
    "0 \<le> pay \<Longrightarrow> calculateGatewayRefundAmount rnd quot due pay x cur \<le> rnd (CurrencyMaxFractionDigits cur) pay"
proof -
  show "0 \<le> calculateGatewayRefundAmount rnd quot due pay x cur"
    using rnd_nonneg quot_nonneg by (simp add: calculateGatewayRefundAmount_def not_le)
  show "calculateGatewayRefundAmount rnd quot due pay x cur \<le> rnd (CurrencyMaxFractionDigits cur) pay" if "0 \<le> pay"
  proof (cases "due \<le> 0 \<or> pay \<le> 0 \<or> x \<le> 0 \<or> \<bar>x - due\<bar> \<le> paymentAmountToleranceForCurrency cur")
    case True
    then show ?thesis using rnd_nonneg [OF that] by (auto simp: calculateGatewayRefundAmount_def)
  next
    case False
    then have "x \<le> due" using assms(2) by linarith
    then have "pay * x \<le> pay * due" using that by (rule mult_left_mono)
    with False have "quot (pay * x) due \<le> pay" by (intro quot_le assms(1)) simp_all
    then show ?thesis using False rnd_mono by (simp add: calculateGatewayRefundAmount_def)
  qed
qed

end

section \<open>Properties\<close>

text \<open>C28. A refund is bounded: every plan that is prepared refunds a positive amount that exceeds the order by at most
  one hundredth, asks the gateway for at most what a full refund would (with any decimal arithmetic that keeps the laws), and takes
  from the user at most the refund and at most what the user has.\<close>
theorem refund_plan_bounded:
  assumes "PrepareRefund rnd quot e i amt reason force deduct db = Inr p" "decimals rnd quot"
    and "0 < amount (p_order p)" "0 \<le> pay_amount (p_order p)" "rnd 16 (pay_amount (p_order p)) = pay_amount (p_order p)"
  shows "0 < RefundAmount p \<and> RefundAmount p \<le> amount (p_order p) + 1 / 100 \<and> 0 \<le> GatewayAmount p \<and>
    GatewayAmount p \<le> rnd (CurrencyMaxFractionDigits (PaymentOrderCurrency (p_order p))) (pay_amount (p_order p)) \<and>
    0 \<le> BalanceToDeduct p \<and> BalanceToDeduct p \<le> RefundAmount p \<and>
    (BalanceToDeduct p > 0 \<longrightarrow> (\<exists>b. balance_of db (ouser (p_order p)) = Some b \<and> BalanceToDeduct p \<le> b))"
proof -
  obtain r q0 where r: "p_order p = r" "RefundAmount p = (if q0 \<le> 0 then amount r else q0)"
    "RefundAmount p - amount r \<le> paymentAmountToleranceForCurrency (PaymentOrderCurrency r)"
    "GatewayAmount p = calculateGatewayRefundAmount rnd quot (amount r) (pay_amount r) (RefundAmount p) (PaymentOrderCurrency r)"
    "0 \<le> BalanceToDeduct p"
    "BalanceToDeduct p > 0 \<Longrightarrow> \<exists>b. balance_of db (ouser r) = Some b \<and> BalanceToDeduct p = max 0 (min (RefundAmount p) b)"
    using PrepareRefund_plan [OF assms(1)] by metis
  have pos: "0 < RefundAmount p" using r(1,2) assms(3) by simp
  have le: "RefundAmount p \<le> amount r + 1 / 100"
    using r(3) tolerance_bound [of "PaymentOrderCurrency r"] by linarith
  have bal: "\<exists>b. balance_of db (ouser r) = Some b \<and> BalanceToDeduct p \<le> b" "BalanceToDeduct p \<le> RefundAmount p"
    if "BalanceToDeduct p > 0"
    using r(6) [OF that] that pos by (auto simp: max_def min_def split: if_splits)
  have "BalanceToDeduct p \<le> RefundAmount p" using bal(2) pos by (cases "BalanceToDeduct p > 0") auto
  then show ?thesis
    using decimals.gateway_bounds [OF assms(2) _ r(3)] assms(4,5) pos le bal(1) r(1,4,5) by simp
qed

text \<open>Instances and environments for the concrete runs.\<close>

definition sample_inst :: ProviderInstance where
  "sample_inst = \<lparr>pi_id = 4, pi_key = ''alipay'', pi_enabled = True, pi_types = [], pi_mode = [], pi_config = [],
     pi_limits = [], pi_sort = 1, pi_refund_enabled = True, pi_allow_user_refund = True\<rparr>"

definition sample_order :: PaymentOrder where
  "sample_order = \<lparr>oid = 1, ouser = 7, amount = 10, pay_amount = 10, recharge_code = ''c'', out_trade_no = ''n1'',
     payment_type = ''alipay'', payment_trade_no = ''t'', order_type = BalanceOrder, status = Completed,
     provider_instance_id = Some ''4'', provider_key = Some ''alipay'', snapshot = None, sub_group = None, sub_days = None,
     refund_amount = 0, refund_reason = None, refund_request_reason = None, force_refund = False, failed_reason = None,
     paid_at = Some 0, expires_at = 0, updated_at = 0\<rparr>"

definition sample_world :: refund_world where
  "sample_world = \<lparr>rdb = \<lparr>orders = [sample_order], audits = [], codes = [], balances = [(7, 15)], credits = [], grants = [],
     rebates = []\<rparr>, sub_ops = []\<rparr>"

definition sample_renv :: "string \<Rightarrow> bool \<Rightarrow> refund_env" where
  "sample_renv st broken = \<lparr>rnow = 0, instances = [sample_inst], user_found = True, active_sub = None, lock_fails = False,
     deduct_fails = False, extends = Extended, revokes = True, provider_made = True, provider_is = ''alipay'', identity = [],
     gateway = GwRsp (Some \<lparr>rsp_status = st, rsp_id = ''r''\<rparr>), query_supported = True, update_fails = False,
     commit_fails = False, payback_fails = broken, extend_back_fails = False\<rparr>"

definition sample_plan :: "bool \<Rightarrow> RefundPlan" where
  "sample_plan deduct = (case PrepareRefund decimal_round decimal_div (sample_renv [] False) 1 (Finite 4) [] False deduct (rdb sample_world) of
     Inr p \<Rightarrow> p | Inl _ \<Rightarrow> undefined)"

lemma sample_prepared:
  "PrepareRefund decimal_round decimal_div (sample_renv [] False) 1 (Finite 4) [] False True (rdb sample_world) = Inr (sample_plan True)"
  "PrepareRefund decimal_round decimal_div (sample_renv [] False) 1 (Finite 4) [] False False (rdb sample_world) = Inr (sample_plan False)"
  "p_order (sample_plan True) = sample_order" "p_order (sample_plan False) = sample_order"
proof -
  have "case PrepareRefund decimal_round decimal_div (sample_renv [] False) 1 (Finite 4) [] False d (rdb sample_world) of
      Inr p \<Rightarrow> p_order p = sample_order | Inl _ \<Rightarrow> False" if "d \<in> {True, False}" for d
    using that by (elim insertE emptyE; hypsubst; code_simp)
  from this [of True] this [of False] show
    "PrepareRefund decimal_round decimal_div (sample_renv [] False) 1 (Finite 4) [] False True (rdb sample_world) = Inr (sample_plan True)"
    "PrepareRefund decimal_round decimal_div (sample_renv [] False) 1 (Finite 4) [] False False (rdb sample_world) = Inr (sample_plan False)"
    "p_order (sample_plan True) = sample_order" "p_order (sample_plan False) = sample_order"
    by (auto simp: sample_plan_def split: sum.splits)
qed

theorem refund_plan_bounded_witness:
  "0 < RefundAmount (sample_plan True) \<and> RefundAmount (sample_plan True) \<le> 10 + 1 / 100"
proof -
  have r: "decimal_round 16 (pay_amount (p_order (sample_plan True))) = pay_amount (p_order (sample_plan True))"
    unfolding sample_prepared(3) by code_simp
  have "0 < amount (p_order (sample_plan True))" "0 \<le> pay_amount (p_order (sample_plan True))" "amount (p_order (sample_plan True)) = 10"
    unfolding sample_prepared(3) by (simp_all add: sample_order_def)
  from refund_plan_bounded [OF sample_prepared(1) dec.decimals_axioms this(1,2) r] this(3) show ?thesis by simp
qed



text \<open>The two calls of a refund that the gateway settles later.\<close>

lemma pending_then_final:
  assumes ex: "ExecuteRefund e1 p w = (RefundWarning (pending_note @ s) False, w1)"
    and fin: "QueryAndFinalizeRefund rnd quot e2 i w1 = (RefundOk d x, w2)"
    and p: "plan_ok p" "oid (p_order p) = i" "order_type (p_order p) = BalanceOrder"
    and row: "get_order (rdb w) i = Some r" "same_order (p_order p) r"
    and log: "\<not> has_audit (rdb w) i ''REFUND_ROLLBACK_FAILED''" "\<not> has_audit (rdb w) i ''REFUND_PENDING''"
    and bal: "balance_of (rdb w) (ouser (p_order p)) = Some b" and pos: "0 < RefundAmount p"
  obtains ok where "taken (if ok then min (RefundAmount p) (max b 0) else min (BalanceToDeduct p) (max b 0)) (ouser (p_order p)) w w2"
    "BalanceToDeduct p = 0 \<Longrightarrow> DeductionType p = DeductNone \<Longrightarrow> ok"
    "\<forall>q\<in>set (orders (rdb w2)). oid q = i \<longrightarrow> status q = Refunded \<or> status q = PartiallyRefunded"
proof -
  let ?u = "ouser (p_order p)"
  obtain p2 w3 resp where m: "markRefundPending e1 p2 resp w3 = (RefundWarning (pending_note @ s) False, w1)"
    and p2: "plan_ok p2" "p_order p2 = p_order p" "RefundAmount p2 = RefundAmount p" "BalanceToDeduct p2 = min (BalanceToDeduct p) (max b 0)"
      "taken (BalanceToDeduct p2) ?u w w3" "audits (rdb w3) = audits (rdb w)"
    and o3: "\<And>r. get_order (rdb w) i = Some r \<Longrightarrow> \<exists>r'. get_order (rdb w3) i = Some r' \<and> same_order r r'"
    and none: "BalanceToDeduct p = 0 \<Longrightarrow> DeductionType p = DeductNone \<Longrightarrow> DeductionType p2 = DeductNone"
    using ExecuteRefund_pending [OF ex p(1), of b i] log(1) bal p(2) by metis
  obtain r3 where r3: "get_order (rdb w3) i = Some r3" "same_order r r3" using o3 [OF row(1)] by blast
  have na: "\<not> has_audit (rdb w3) i ''REFUND_PENDING''" using log(2) p2(6) by (simp add: has_audit_def)
  obtain ok r1 where k: "taken (if ok then - BalanceToDeduct p2 else 0) (ouser (p_order p2)) w3 w1"
    "get_order (rdb w1) i = Some r1" "same_order r3 r1" "refund_amount r1 = RefundAmount p2"
    "DeductionRollbackOK (latestRefundPendingDetail (rdb w1) i) = ok" "DeductionType p2 = DeductNone \<Longrightarrow> ok"
    using markRefundPending_result [OF m p2(1) r3(1) _ na] p(2) p2(2) by metis
  have same: "order_type r1 = BalanceOrder" "ouser r1 = ?u" "oid r1 = i"
    using row(2) r3(2) k(3) p(2,3) by (simp_all add: same_order_def)
  have t1: "taken (BalanceToDeduct p2 + (if ok then - BalanceToDeduct p2 else 0)) ?u w w1"
    using taken_trans [OF p2(5)] k(1) p2(2) by simp
  let ?B = "b - (BalanceToDeduct p2 + (if ok then - BalanceToDeduct p2 else 0))"
  have b1: "balance_of (rdb w1) ?u = Some ?B" using t1 bal by (simp add: taken_def)
  let ?q = "if ok then refundFinalizePlan rnd quot r1 else (refundFinalizePlan rnd quot r1)\<lparr>BalanceToDeduct := 0, SubDaysToDeduct := 0\<rparr>"
  have q: "plan_ok ?q" "DeductionType ?q = DeductBalanceType" "p_order ?q = r1" "BalanceToDeduct ?q = (if ok then RefundAmount p else 0)"
    using same k(4) p2(3) pos by (simp_all add: refundFinalizePlan_def Let_def plan_ok_def)
  have fq: "finalizePendingRefundSuccess e2 ?q w1 = (RefundOk d x, w2)"
    using QueryAndFinalize_ok [OF fin k(2)] same(1) k(5) by simp
  note f = finalize_taken [OF fq q(1,2), unfolded q(3) same, OF b1]
  have "d = (if ok then min (RefundAmount p) (max b 0) else 0)" using f(2) pos unfolding q(4) by (cases ok) simp_all
  then have "taken (if ok then min (RefundAmount p) (max b 0) else min (BalanceToDeduct p) (max b 0)) ?u w w2"
    using taken_trans [OF t1 f(1)] p2(4) by (cases ok) simp_all
  moreover have "\<forall>q\<in>set (orders (rdb w2)). oid q = i \<longrightarrow> status q = Refunded \<or> status q = PartiallyRefunded"
    using f(3) by (auto simp: final_refund_status_def)
  ultimately show ?thesis using that k(6) none by blast
qed


definition sample_pending :: "bool \<Rightarrow> bool \<Rightarrow> refund_world" where
  "sample_pending deduct broken = snd (ExecuteRefund (sample_renv ''pending'' broken) (sample_plan deduct) sample_world)"

definition sample_final :: "bool \<Rightarrow> bool \<Rightarrow> refund_world" where
  "sample_final deduct broken =
     snd (QueryAndFinalizeRefund decimal_round decimal_div (sample_renv ''success'' False) 1 (sample_pending deduct broken))"

lemma sample_two_calls:
  assumes "deduct \<in> {True, False}" "broken \<in> {True, False}"
  obtains s d where "ExecuteRefund (sample_renv ''pending'' broken) (sample_plan deduct) sample_world =
      (RefundWarning (pending_note @ s) False, sample_pending deduct broken)"
    "QueryAndFinalizeRefund decimal_round decimal_div (sample_renv ''success'' False) 1 (sample_pending deduct broken) =
      (RefundOk d 0, sample_final deduct broken)"
proof -
  let ?x = "ExecuteRefund (sample_renv ''pending'' broken) (sample_plan deduct) sample_world"
  let ?y = "QueryAndFinalizeRefund decimal_round decimal_div (sample_renv ''success'' False) 1 (sample_pending deduct broken)"
  have "case fst ?x of RefundWarning m False \<Rightarrow> take (length pending_note) m = pending_note | _ \<Rightarrow> False"
    using assms by (elim insertE emptyE; hypsubst; code_simp)
  then obtain m where m: "fst ?x = RefundWarning m False" "take (length pending_note) m = pending_note"
    by (auto split: refund_result.splits bool.splits)
  then have 1: "?x = (RefundWarning (pending_note @ drop (length pending_note) m) False, sample_pending deduct broken)"
    by (metis append_take_drop_id prod.collapse sample_pending_def)
  have "case fst ?y of RefundOk d x \<Rightarrow> x = 0 | _ \<Rightarrow> False"
    using assms by (elim insertE emptyE; hypsubst; code_simp)
  then obtain d where "fst ?y = RefundOk d 0" by (auto split: refund_result.splits)
  then have 2: "?y = (RefundOk d 0, sample_final deduct broken)" by (metis prod.collapse sample_final_def)
  from that [OF 1 2] show ?thesis .
qed

lemma sample_amounts: "RefundAmount (sample_plan True) = 4" "RefundAmount (sample_plan False) = 4"
  by code_simp+


text \<open>C40. What the confirmation of a pending refund does with a refund that was requested without deducting from the
  user: it deducts all the same, because the plan it builds always deducts.\<close>
theorem finalization_deducts_without_deduct:
  assumes "PrepareRefund rnd quot e0 i (Finite amt) reason force False (rdb w) = Inr p"
    and "ExecuteRefund e1 p w = (RefundWarning (pending_note @ s) False, w1)"
    and "QueryAndFinalizeRefund rnd quot e2 i w1 = (RefundOk d x, w2)"
    and "order_type (p_order p) = BalanceOrder" "0 < amount (p_order p)"
    and "balance_of (rdb w) (ouser (p_order p)) = Some b"
    and "\<not> has_audit (rdb w) i ''REFUND_ROLLBACK_FAILED''" "\<not> has_audit (rdb w) i ''REFUND_PENDING''"
  shows "DeductBalance p = False \<and> taken (min (RefundAmount p) (max b 0)) (ouser (p_order p)) w w2"
proof -
  have plan: "\<exists>r. get_order (rdb w) i = Some r \<and> p_order p = r \<and> oid r = i \<and>
    RefundAmount p = (if amt \<le> 0 then amount r else amt) \<and> plan_ok p \<and> BalanceToDeduct p = 0 \<and> DeductionType p = DeductNone"
    by (rule PrepareRefund_plan [OF assms(1)]) (use assms(4,6) in \<open>force simp: plan_ok_def\<close>)
  then obtain r where r: "get_order (rdb w) i = Some r" "p_order p = r" "oid r = i"
    "RefundAmount p = (if amt \<le> 0 then amount r else amt)" "plan_ok p" "BalanceToDeduct p = 0" "DeductionType p = DeductNone" by blast
  have pos: "0 < RefundAmount p" using r(2,4) assms(5) by simp
  have i: "oid (p_order p) = i" "same_order (p_order p) r" using r(2,3) by simp_all
  obtain ok where "taken (if ok then min (RefundAmount p) (max b 0) else min (BalanceToDeduct p) (max b 0)) (ouser (p_order p)) w w2" ok
    by (rule pending_then_final [OF assms(2,3) r(5) i(1) assms(4) r(1) i(2) assms(7,8,6) pos]) (use r(6,7) in blast)
  moreover have "DeductBalance p = False"
    using assms(1) by (auto simp: PrepareRefund_def Let_def split: option.splits if_splits sum.splits)
  ultimately show ?thesis by simp
qed

theorem finalization_deducts_without_deduct_witness:
  "taken 4 7 sample_world (sample_final False False)"
proof -
  obtain s d where c: "ExecuteRefund (sample_renv ''pending'' False) (sample_plan False) sample_world =
      (RefundWarning (pending_note @ s) False, sample_pending False False)"
    "QueryAndFinalizeRefund decimal_round decimal_div (sample_renv ''success'' False) 1 (sample_pending False False) =
      (RefundOk d 0, sample_final False False)"
    by (rule sample_two_calls [of False False]) simp_all
  have "taken (min (RefundAmount (sample_plan False)) (max 15 0)) (ouser (p_order (sample_plan False))) sample_world (sample_final False False)"
    by (rule conjunct2 [OF finalization_deducts_without_deduct [OF sample_prepared(2) c]])
      (simp_all add: sample_prepared(4) sample_order_def sample_world_def balance_of_def has_audit_def)
  then show ?thesis by (simp add: sample_amounts sample_prepared(4) sample_order_def)
qed

text \<open>A second pending refund of the same order cannot store its detail: the audit log takes one row per action.\<close>

lemma second_pending_detail_lost:
  assumes "has_audit (rdb w) (oid (p_order p)) ''REFUND_PENDING''" "\<not> update_fails e"
  shows "latestRefundPendingDetail (rdb (snd (markRefundPending e p resp w))) (oid (p_order p)) =
    latestRefundPendingDetail (rdb w) (oid (p_order p))"
proof -
  obtain ok v where r: "RollbackRefund e p w = (ok, v)" by fastforce
  have v: "has_audit (rdb v) (oid (p_order p)) ''REFUND_PENDING''"
    "latestRefundPendingDetail (rdb v) (oid (p_order p)) = latestRefundPendingDetail (rdb w) (oid (p_order p))"
    using r assms(1) by (auto simp: RollbackRefund_def Let_def UpdateBalance_def log_action_def audit_log_def plain_audit_def
        insert_audit_def has_audit_def latestRefundPendingDetail_def split: if_splits)
  then show ?thesis using r assms(2)
    by (simp add: markRefundPending_def Let_def audit_log_def set_order_def insert_audit_def latestRefundPendingDetail_def has_audit_def)
qed

end
