(* ===== verification/UsageBilling.thy ===== *)
theory UsageBilling
  imports Prelude Decimals
begin

text \<open>
  Usage billing: \<open>internal/service/usage_billing.go\<close>, \<open>internal/repository/usage_billing_repo.go\<close>, the commands
  \<open>internal/service/gateway_usage_billing.go\<close> builds and the clean-up of the claims in
  \<open>internal/repository/dashboard_aggregation_repo.go\<close>.

  The tables are \<open>billing_db\<close>. A method of the repository is one transaction: a function of the tables that returns
  its answer and the tables after commit or rollback. SQLite runs writing transactions one after the other, so the
  interleavings of concurrent calls are the sequences of calls. What the database answers is in \<open>billing_env\<close>: the
  statements that fail, the clock, and the outcome of the commit, which may take effect although it reports an error.
  Amounts are exact decimals (the rounding of doubles is not modelled). SHA-256, the rounding of the decimal package, the formatting
  of an amount to ten digits and of times in RFC 3339 are parameters, in \<open>billing_lib\<close>.
\<close>

section \<open>Commands and results\<close>

type_synonym money = rat

record UsageBillingCommand =
  RequestID :: string
  APIKeyID :: ident
  RequestFingerprint :: string
  RequestPayloadHash :: string
  UserID :: ident
  AccountID :: ident
  SubscriptionID :: "ident option"
  AccountType :: string
  Model :: string
  ServiceTier :: string
  ReasoningEffort :: string
  BillingType :: int
  InputTokens :: int
  OutputTokens :: int
  CacheCreationTokens :: int
  CacheReadTokens :: int
  ImageCount :: int
  MediaType :: string
  BalanceCost :: money
  SubscriptionCost :: money
  APIKeyQuotaCost :: money
  APIKeyRateLimitCost :: money
  AccountQuotaCost :: money

record BatchImageBalanceHoldCommand =
  hc_RequestID :: string
  hc_APIKeyID :: ident
  hc_Fingerprint :: string
  hc_PayloadHash :: string
  hc_UserID :: ident
  hc_BatchID :: string
  hc_HoldAmount :: money
  hc_ActualAmount :: money

record AccountQuotaState =
  TotalUsed :: money
  TotalLimit :: money
  DailyUsed :: money
  DailyLimit :: money
  WeeklyUsed :: money
  WeeklyLimit :: money

record UsageBillingApplyResult =
  Applied :: bool
  APIKeyQuotaExhausted :: bool
  NewBalance :: "money option"
  BalanceOverdrafted :: bool
  QuotaState :: "AccountQuotaState option"

definition no_result :: UsageBillingApplyResult where
  "no_result = \<lparr>Applied = False, APIKeyQuotaExhausted = False, NewBalance = None, BalanceOverdrafted = False, QuotaState = None\<rparr>"

record BatchImageBalanceHoldResult =
  hr_Applied :: bool
  hr_NewBalance :: "money option"
  hr_FrozenBalance :: "money option"

definition no_hold_result :: BatchImageBalanceHoldResult where
  "no_hold_result = \<lparr>hr_Applied = False, hr_NewBalance = None, hr_FrozenBalance = None\<rparr>"

datatype billing_error =
    DBError
  | ErrUsageBillingRequestIDRequired
  | ErrUsageBillingRequestConflict
  | ErrSubscriptionNotFound
  | ErrUserNotFound
  | ErrAPIKeyNotFound
  | ErrAccountNotFound
  | ErrDecodeQuotaExtra
  | ErrBatchImageInsufficientBalance
  | ErrBatchImageSettlementCostExceedsHold
  | ErrFrozenInsufficient

section \<open>The library\<close>

record billing_lib =
  sha256_hex :: "string \<Rightarrow> string"
  format_amount :: "rat \<Rightarrow> string"
  round_decimal :: "nat \<Rightarrow> rat \<Rightarrow> rat"
  parse_rfc3339 :: "string \<Rightarrow> time option"
  format_rfc3339 :: "time \<Rightarrow> string"

fun join_bar :: "string list \<Rightarrow> string" where
  "join_bar [] = []"
| "join_bar [s] = s"
| "join_bar (s # t # ts) = s @ CHR ''|'' # join_bar (t # ts)"

definition UsageBillingMonetaryScale :: nat where "UsageBillingMonetaryScale = 8"

definition QuantizeUsageBillingAmount :: "billing_lib \<Rightarrow> money \<Rightarrow> money" where
  "QuantizeUsageBillingAmount L v = (if v = 0 then v else round_decimal L UsageBillingMonetaryScale v)"

definition quantizeMonetaryFields :: "billing_lib \<Rightarrow> UsageBillingCommand \<Rightarrow> UsageBillingCommand" where
  "quantizeMonetaryFields L c = c\<lparr>
     BalanceCost := QuantizeUsageBillingAmount L (BalanceCost c),
     SubscriptionCost := QuantizeUsageBillingAmount L (SubscriptionCost c),
     APIKeyQuotaCost := QuantizeUsageBillingAmount L (APIKeyQuotaCost c),
     APIKeyRateLimitCost := QuantizeUsageBillingAmount L (APIKeyRateLimitCost c),
     AccountQuotaCost := QuantizeUsageBillingAmount L (AccountQuotaCost c)\<rparr>"

definition valueOrZero :: "ident option \<Rightarrow> int" where
  "valueOrZero v = (case v of None \<Rightarrow> 0 | Some i \<Rightarrow> i)"

definition with_payload_hash :: "string \<Rightarrow> string \<Rightarrow> string" where
  "with_payload_hash raw payload = (let h = TrimSpace payload in if h \<noteq> [] then raw @ CHR ''|'' # h else raw)"

definition buildUsageBillingFingerprint :: "billing_lib \<Rightarrow> UsageBillingCommand \<Rightarrow> string" where
  "buildUsageBillingFingerprint L c = sha256_hex L (with_payload_hash (join_bar
     [FormatInt (UserID c), FormatInt (AccountID c), FormatInt (APIKeyID c), TrimSpace (AccountType c), TrimSpace (Model c),
      TrimSpace (ServiceTier c), TrimSpace (ReasoningEffort c), FormatInt (BillingType c), FormatInt (InputTokens c),
      FormatInt (OutputTokens c), FormatInt (CacheCreationTokens c), FormatInt (CacheReadTokens c), FormatInt (ImageCount c),
      TrimSpace (MediaType c), FormatInt (valueOrZero (SubscriptionID c)), format_amount L (BalanceCost c),
      format_amount L (SubscriptionCost c), format_amount L (APIKeyQuotaCost c), format_amount L (APIKeyRateLimitCost c),
      format_amount L (AccountQuotaCost c)]) (RequestPayloadHash c))"

definition Normalize :: "billing_lib \<Rightarrow> UsageBillingCommand \<Rightarrow> UsageBillingCommand" where
  "Normalize L c =
     (let c = c\<lparr>RequestID := TrimSpace (RequestID c)\<rparr>;
          c = (if TrimSpace (RequestFingerprint c) = [] then c\<lparr>RequestFingerprint := buildUsageBillingFingerprint L c\<rparr> else c)
      in quantizeMonetaryFields L c)"

definition HashUsageRequestPayload :: "billing_lib \<Rightarrow> string \<Rightarrow> string" where
  "HashUsageRequestPayload L payload = (if payload = [] then [] else sha256_hex L payload)"

definition buildBatchImageBalanceHoldFingerprint :: "billing_lib \<Rightarrow> BatchImageBalanceHoldCommand \<Rightarrow> string" where
  "buildBatchImageBalanceHoldFingerprint L c = sha256_hex L (with_payload_hash (join_bar
     [FormatInt (hc_UserID c), FormatInt (hc_APIKeyID c), TrimSpace (hc_BatchID c), format_amount L (hc_HoldAmount c),
      format_amount L (hc_ActualAmount c)]) (hc_PayloadHash c))"

definition Normalize_hold :: "billing_lib \<Rightarrow> BatchImageBalanceHoldCommand \<Rightarrow> BatchImageBalanceHoldCommand" where
  "Normalize_hold L c =
     (let c = c\<lparr>hc_RequestID := TrimSpace (hc_RequestID c), hc_BatchID := TrimSpace (hc_BatchID c)\<rparr>
      in if TrimSpace (hc_Fingerprint c) = [] then c\<lparr>hc_Fingerprint := buildBatchImageBalanceHoldFingerprint L c\<rparr> else c)"

section \<open>Tables\<close>

record user_row =
  balance :: money
  frozen_balance :: "money option"
  user_deleted :: bool

record subscription_row =
  sub_group :: ident
  daily_usage_usd :: money
  weekly_usage_usd :: money
  monthly_usage_usd :: money
  sub_deleted :: bool

record api_key_row =
  quota :: money
  quota_used :: money
  key_status :: string
  usage_5h :: money
  usage_1d :: money
  usage_7d :: money
  window_5h_start :: "time option"
  window_1d_start :: "time option"
  window_7d_start :: "time option"
  key_deleted :: bool

datatype json = JNumber rat | JString string | JOther

record account_row =
  extra :: "(string \<rightharpoonup> json) option"
  account_deleted :: bool

text \<open>\<open>extra\<close> is the decoded JSON object of the column, \<open>None\<close> when it does not decode; a null column is the empty object.\<close>

record dedup_row =
  dd_request :: string
  dd_key :: ident
  dd_fingerprint :: string
  dd_created :: time

record billing_db =
  users :: "ident \<rightharpoonup> user_row"
  subs :: "ident \<rightharpoonup> subscription_row"
  live_groups :: "ident list"
  keys :: "ident \<rightharpoonup> api_key_row"
  accounts :: "ident \<rightharpoonup> account_row"
  dedup :: "dedup_row list"
  dedup_archive :: "dedup_row list"
  outbox :: "ident list"

text \<open>The statements of a transaction, each of which may fail, and the outcome of its commit.\<close>

datatype billing_call = BeginTx | ClaimInsert | ClaimSelect | ArchiveSelect | SubUpdate | BalanceUpdate | BalanceForce
  | QuotaUpdate | RateUpdate | AccountSelect | AccountUpdate | OutboxInsert | HoldUpdate | UserSelect | HoldClaimSelect | HoldArchiveSelect

datatype commit_outcome = Committed | CommitFailed | CommitLost

record billing_env =
  fails :: "billing_call \<Rightarrow> bool"
  commits :: commit_outcome
  clock :: time

section \<open>Claims\<close>

definition is_claim :: "string \<Rightarrow> ident \<Rightarrow> dedup_row \<Rightarrow> bool" where
  "is_claim rid kid r = (dd_request r = rid \<and> dd_key r = kid)"

definition lookup_claim :: "dedup_row list \<Rightarrow> string \<Rightarrow> ident \<Rightarrow> string option" where
  "lookup_claim rows rid kid = map_option dd_fingerprint (first_match (is_claim rid kid) rows)"

text \<open>The answer tells whether this call made the claim, with the tables inside the transaction.\<close>

definition claimUsageBillingRequest ::
  "billing_env \<Rightarrow> string \<Rightarrow> ident \<Rightarrow> string \<Rightarrow> billing_db \<Rightarrow> billing_error + bool \<times> billing_db" where
  "claimUsageBillingRequest e rid kid fp db =
     (if fails e ClaimInsert then Inl DBError
      else case lookup_claim (dedup db) rid kid of
        Some existing \<Rightarrow>
          if fails e ClaimSelect then Inl DBError
          else if TrimSpace existing \<noteq> TrimSpace fp then Inl ErrUsageBillingRequestConflict
          else Inr (False, db)
      | None \<Rightarrow>
          let db = db\<lparr>dedup := dedup db @ [\<lparr>dd_request = rid, dd_key = kid, dd_fingerprint = fp, dd_created = clock e\<rparr>]\<rparr>
          in if fails e ArchiveSelect then Inl DBError
             else case lookup_claim (dedup_archive db) rid kid of
               Some archived \<Rightarrow> if TrimSpace archived \<noteq> TrimSpace fp then Inl ErrUsageBillingRequestConflict else Inr (False, db)
             | None \<Rightarrow> Inr (True, db))"

definition claimUsageBillingKey :: "billing_env \<Rightarrow> UsageBillingCommand \<Rightarrow> billing_db \<Rightarrow> billing_error + bool \<times> billing_db" where
  "claimUsageBillingKey e c = claimUsageBillingRequest e (RequestID c) (APIKeyID c) (RequestFingerprint c)"

section \<open>Effects of a usage command\<close>

definition incrementUsageBillingSubscription :: "billing_env \<Rightarrow> ident \<Rightarrow> money \<Rightarrow> billing_db \<Rightarrow> billing_error + billing_db" where
  "incrementUsageBillingSubscription e i cost db =
     (if fails e SubUpdate then Inl DBError
      else case subs db i of
        None \<Rightarrow> Inl ErrSubscriptionNotFound
      | Some s \<Rightarrow>
          if sub_deleted s \<or> sub_group s \<notin> set (live_groups db) then Inl ErrSubscriptionNotFound
          else Inr (db\<lparr>subs := (subs db)(i \<mapsto> s\<lparr>daily_usage_usd := daily_usage_usd s + cost,
                 weekly_usage_usd := weekly_usage_usd s + cost, monthly_usage_usd := monthly_usage_usd s + cost\<rparr>)\<rparr>))"

text \<open>The new balance, and whether the balance was sufficient.\<close>

definition deductUsageBillingBalance ::
  "billing_env \<Rightarrow> ident \<Rightarrow> money \<Rightarrow> billing_db \<Rightarrow> billing_error + money \<times> bool \<times> billing_db" where
  "deductUsageBillingBalance e i amount db =
     (if fails e BalanceUpdate then Inl DBError
      else case users db i of
        Some u \<Rightarrow>
          let db' = db\<lparr>users := (users db)(i \<mapsto> u\<lparr>balance := balance u - amount\<rparr>)\<rparr> in
          if \<not> user_deleted u \<and> amount \<le> balance u then Inr (balance u - amount, True, db')
          else if fails e BalanceForce then Inl DBError
          else if user_deleted u then Inl ErrUserNotFound
          else Inr (balance u - amount, False, db')
      | None \<Rightarrow> if fails e BalanceForce then Inl DBError else Inl ErrUserNotFound)"

definition StatusAPIKeyActive :: string where "StatusAPIKeyActive = ''active''"
definition StatusAPIKeyQuotaExhausted :: string where "StatusAPIKeyQuotaExhausted = ''quota_exhausted''"

definition incrementUsageBillingAPIKeyQuota ::
  "billing_env \<Rightarrow> ident \<Rightarrow> money \<Rightarrow> billing_db \<Rightarrow> billing_error + bool \<times> billing_db" where
  "incrementUsageBillingAPIKeyQuota e i amount db =
     (if fails e QuotaUpdate then Inl DBError
      else case keys db i of
        None \<Rightarrow> Inl ErrAPIKeyNotFound
      | Some k \<Rightarrow>
          if key_deleted k then Inl ErrAPIKeyNotFound
          else let k' = k\<lparr>quota_used := quota_used k + amount,
                    key_status := (if 0 < quota k \<and> key_status k = StatusAPIKeyActive \<and> quota_used k < quota k \<and>
                                     quota k \<le> quota_used k + amount then StatusAPIKeyQuotaExhausted else key_status k)\<rparr>
               in Inr (0 < quota k' \<and> quota k' \<le> quota_used k' \<and> quota_used k' - amount < quota k',
                       db\<lparr>keys := (keys db)(i \<mapsto> k')\<rparr>))"

text \<open>SQLite's \<open>CURRENT_TIMESTAMP\<close> and \<open>datetime\<close> keep whole seconds; \<open>start of day\<close> is midnight UTC.\<close>

definition sql_seconds :: "time \<Rightarrow> time" where "sql_seconds t = t - t mod Second"
definition start_of_day :: "time \<Rightarrow> time" where "start_of_day t = t - t mod (24 * Hour)"

definition window_over :: "time \<Rightarrow> duration \<Rightarrow> time option \<Rightarrow> bool" where
  "window_over now d w = (case w of None \<Rightarrow> False | Some s \<Rightarrow> sql_seconds s + d \<le> now)"

definition incrementUsageBillingAPIKeyRateLimit :: "billing_env \<Rightarrow> ident \<Rightarrow> money \<Rightarrow> billing_db \<Rightarrow> billing_error + billing_db" where
  "incrementUsageBillingAPIKeyRateLimit e i cost db =
     (if fails e RateUpdate then Inl DBError
      else case keys db i of
        None \<Rightarrow> Inl ErrAPIKeyNotFound
      | Some k \<Rightarrow>
          if key_deleted k then Inl ErrAPIKeyNotFound
          else let now = sql_seconds (clock e) in
            Inr (db\<lparr>keys := (keys db)(i \<mapsto> k\<lparr>
              usage_5h := (if window_over now (5 * Hour) (window_5h_start k) then cost else usage_5h k + cost),
              usage_1d := (if window_over now (24 * Hour) (window_1d_start k) then cost else usage_1d k + cost),
              usage_7d := (if window_over now (7 * 24 * Hour) (window_7d_start k) then cost else usage_7d k + cost),
              window_5h_start := (if window_5h_start k = None \<or> window_over now (5 * Hour) (window_5h_start k)
                                  then Some now else window_5h_start k),
              window_1d_start := (if window_1d_start k = None \<or> window_over now (24 * Hour) (window_1d_start k)
                                  then Some (start_of_day now) else window_1d_start k),
              window_7d_start := (if window_7d_start k = None \<or> window_over now (7 * 24 * Hour) (window_7d_start k)
                                  then Some (start_of_day now) else window_7d_start k)\<rparr>)\<rparr>))"

definition quotaNumber :: "(string \<rightharpoonup> json) \<Rightarrow> string \<Rightarrow> money" where
  "quotaNumber x key = (case x key of Some (JNumber v) \<Rightarrow> v | _ \<Rightarrow> 0)"

definition json_string :: "json option \<Rightarrow> string option" where
  "json_string v = (case v of Some (JString s) \<Rightarrow> Some s | _ \<Rightarrow> None)"

definition quotaTimestampExpired :: "billing_lib \<Rightarrow> json option \<Rightarrow> time \<Rightarrow> bool" where
  "quotaTimestampExpired L v now =
     (case parse_rfc3339 L (case json_string v of Some s \<Rightarrow> s | None \<Rightarrow> []) of
        None \<Rightarrow> True | Some t \<Rightarrow> \<not> now < t)"

definition quota_window_expired :: "billing_lib \<Rightarrow> string \<Rightarrow> duration \<Rightarrow> time \<Rightarrow> (string \<rightharpoonup> json) \<Rightarrow> bool" where
  "quota_window_expired L name d now x =
     (if json_string (x (''quota_'' @ name @ ''_reset_mode'')) = Some ''fixed''
      then quotaTimestampExpired L (x (''quota_'' @ name @ ''_reset_at'')) now
      else case json_string (x (''quota_'' @ name @ ''_start'')) of
        None \<Rightarrow> True
      | Some raw \<Rightarrow> (case parse_rfc3339 L raw of None \<Rightarrow> True | Some s \<Rightarrow> \<not> now < s + d))"

definition updateUsageBillingQuotaWindow ::
  "billing_lib \<Rightarrow> string \<Rightarrow> duration \<Rightarrow> money \<Rightarrow> money \<Rightarrow> money \<Rightarrow> time \<Rightarrow> (string \<rightharpoonup> json) \<Rightarrow> money \<times> (string \<rightharpoonup> json)" where
  "updateUsageBillingQuotaWindow L name d limit used amount now x =
     (if limit \<le> 0 then (used, x)
      else let expired = quota_window_expired L name d now x;
               used = (if expired then amount else used + amount);
               x = (if expired then x(''quota_'' @ name @ ''_start'' \<mapsto> JString (format_rfc3339 L now)) else x)
           in (used, x(''quota_'' @ name @ ''_used'' \<mapsto> JNumber used)))"

definition crossed :: "money \<Rightarrow> money \<Rightarrow> money \<Rightarrow> bool" where
  "crossed limit used amount = (0 < limit \<and> limit \<le> used \<and> used - amount < limit)"

definition incrementUsageBillingAccountQuota ::
  "billing_lib \<Rightarrow> billing_env \<Rightarrow> ident \<Rightarrow> money \<Rightarrow> billing_db \<Rightarrow> billing_error + AccountQuotaState \<times> billing_db" where
  "incrementUsageBillingAccountQuota L e i amount db =
     (if fails e AccountSelect then Inl DBError
      else case accounts db i of
        None \<Rightarrow> Inl ErrAccountNotFound
      | Some a \<Rightarrow>
          if account_deleted a then Inl ErrAccountNotFound
          else case extra a of
            None \<Rightarrow> Inl ErrDecodeQuotaExtra
          | Some x \<Rightarrow>
              let total = quotaNumber x ''quota_used'' + amount;
                  dl = quotaNumber x ''quota_daily_limit''; du = quotaNumber x ''quota_daily_used'';
                  wl = quotaNumber x ''quota_weekly_limit''; wu = quotaNumber x ''quota_weekly_used'';
                  tl = quotaNumber x ''quota_limit'';
                  x = x(''quota_used'' \<mapsto> JNumber total);
                  (du, x) = updateUsageBillingQuotaWindow L ''daily'' (24 * Hour) dl du amount (clock e) x;
                  (wu, x) = updateUsageBillingQuotaWindow L ''weekly'' (7 * 24 * Hour) wl wu amount (clock e) x;
                  st = \<lparr>TotalUsed = total, TotalLimit = tl, DailyUsed = du, DailyLimit = dl, WeeklyUsed = wu, WeeklyLimit = wl\<rparr>
              in if fails e AccountUpdate then Inl DBError
                 else let db = db\<lparr>accounts := (accounts db)(i \<mapsto> a\<lparr>extra := Some x\<rparr>)\<rparr> in
                   if crossed tl total amount \<or> crossed dl du amount \<or> crossed wl wu amount
                   then if fails e OutboxInsert then Inl DBError else Inr (st, db\<lparr>outbox := outbox db @ [i]\<rparr>)
                   else Inr (st, db))"

definition EqualFold :: "string \<Rightarrow> string \<Rightarrow> bool" where
  "EqualFold s t = (ToLower s = ToLower t)"

definition AccountTypeAPIKey :: string where "AccountTypeAPIKey = ''apikey''"
definition AccountTypeBedrock :: string where "AccountTypeBedrock = ''bedrock''"

text \<open>The five effects, each skipped when the command has no such cost.\<close>

definition subscription_effect :: "billing_env \<Rightarrow> UsageBillingCommand \<Rightarrow> billing_db \<Rightarrow> billing_error + billing_db" where
  "subscription_effect e c db =
     (if 0 < SubscriptionCost c
      then case SubscriptionID c of None \<Rightarrow> Inr db | Some s \<Rightarrow> incrementUsageBillingSubscription e s (SubscriptionCost c) db
      else Inr db)"

definition balance_effect :: "billing_env \<Rightarrow> UsageBillingCommand \<Rightarrow> UsageBillingApplyResult \<Rightarrow> billing_db \<Rightarrow>
    billing_error + UsageBillingApplyResult \<times> billing_db" where
  "balance_effect e c r db =
     (if 0 < BalanceCost c
      then case deductUsageBillingBalance e (UserID c) (BalanceCost c) db of
          Inl err \<Rightarrow> Inl err
        | Inr (b, sufficient, db) \<Rightarrow> Inr (r\<lparr>NewBalance := Some b, BalanceOverdrafted := \<not> sufficient\<rparr>, db)
      else Inr (r, db))"

definition key_quota_effect :: "billing_env \<Rightarrow> UsageBillingCommand \<Rightarrow> UsageBillingApplyResult \<Rightarrow> billing_db \<Rightarrow>
    billing_error + UsageBillingApplyResult \<times> billing_db" where
  "key_quota_effect e c r db =
     (if 0 < APIKeyQuotaCost c
      then case incrementUsageBillingAPIKeyQuota e (APIKeyID c) (APIKeyQuotaCost c) db of
          Inl err \<Rightarrow> Inl err | Inr (ex, db) \<Rightarrow> Inr (r\<lparr>APIKeyQuotaExhausted := ex\<rparr>, db)
      else Inr (r, db))"

definition rate_limit_effect :: "billing_env \<Rightarrow> UsageBillingCommand \<Rightarrow> billing_db \<Rightarrow> billing_error + billing_db" where
  "rate_limit_effect e c db =
     (if 0 < APIKeyRateLimitCost c then incrementUsageBillingAPIKeyRateLimit e (APIKeyID c) (APIKeyRateLimitCost c) db else Inr db)"

definition account_effect :: "billing_lib \<Rightarrow> billing_env \<Rightarrow> UsageBillingCommand \<Rightarrow> UsageBillingApplyResult \<Rightarrow> billing_db \<Rightarrow>
    billing_error + UsageBillingApplyResult \<times> billing_db" where
  "account_effect L e c r db =
     (if 0 < AccountQuotaCost c \<and> (EqualFold (AccountType c) AccountTypeAPIKey \<or> EqualFold (AccountType c) AccountTypeBedrock)
      then case incrementUsageBillingAccountQuota L e (AccountID c) (AccountQuotaCost c) db of
          Inl err \<Rightarrow> Inl err | Inr (st, db) \<Rightarrow> Inr (r\<lparr>QuotaState := Some st\<rparr>, db)
      else Inr (r, db))"

definition applyUsageBillingEffects :: "billing_lib \<Rightarrow> billing_env \<Rightarrow> UsageBillingCommand \<Rightarrow> UsageBillingApplyResult \<Rightarrow> billing_db \<Rightarrow>
    billing_error + UsageBillingApplyResult \<times> billing_db" where
  "applyUsageBillingEffects L e c r db =
     (case subscription_effect e c db of Inl err \<Rightarrow> Inl err | Inr db \<Rightarrow>
      case balance_effect e c r db of Inl err \<Rightarrow> Inl err | Inr (r, db) \<Rightarrow>
      case key_quota_effect e c r db of Inl err \<Rightarrow> Inl err | Inr (r, db) \<Rightarrow>
      case rate_limit_effect e c db of Inl err \<Rightarrow> Inl err | Inr db \<Rightarrow>
      account_effect L e c r db)"

text \<open>Committing the tables \<open>db'\<close> of a transaction begun on \<open>db\<close>.\<close>

definition commit_tx :: "billing_env \<Rightarrow> 'a \<Rightarrow> billing_db \<Rightarrow> billing_db \<Rightarrow> (billing_error + 'a) \<times> billing_db" where
  "commit_tx e r db db' = (case commits e of
      Committed \<Rightarrow> (Inr r, db') | CommitFailed \<Rightarrow> (Inl DBError, db) | CommitLost \<Rightarrow> (Inl DBError, db'))"

definition Apply :: "billing_lib \<Rightarrow> billing_env \<Rightarrow> UsageBillingCommand \<Rightarrow> billing_db \<Rightarrow>
    (billing_error + UsageBillingApplyResult) \<times> billing_db" where
  "Apply L e c db =
     (let c = Normalize L c in
      if RequestID c = [] then (Inl ErrUsageBillingRequestIDRequired, db)
      else if fails e BeginTx then (Inl DBError, db)
      else case claimUsageBillingKey e c db of
        Inl err \<Rightarrow> (Inl err, db)
      | Inr (False, _) \<Rightarrow> (Inr no_result, db)
      | Inr (True, db') \<Rightarrow>
          (case applyUsageBillingEffects L e c (no_result\<lparr>Applied := True\<rparr>) db' of
             Inl err \<Rightarrow> (Inl err, db)
           | Inr (r, db') \<Rightarrow> commit_tx e r db db'))"

section \<open>Holds of batch image jobs\<close>

definition userExistsForBilling :: "billing_env \<Rightarrow> billing_db \<Rightarrow> ident \<Rightarrow> billing_error + bool" where
  "userExistsForBilling e db i =
     (if fails e UserSelect then Inl DBError
      else Inr (case users db i of None \<Rightarrow> False | Some u \<Rightarrow> \<not> user_deleted u))"

definition frozen :: "user_row \<Rightarrow> money" where
  "frozen u = (case frozen_balance u of None \<Rightarrow> 0 | Some f \<Rightarrow> f)"

text \<open>
  The three updates of a user's row have one shape: on a live user whose row passes a test the balance and the frozen
  balance change; when no row matched, a missing user and a failed test are told apart.
\<close>

definition move_funds :: "billing_env \<Rightarrow> ident \<Rightarrow> (user_row \<Rightarrow> bool) \<Rightarrow> money \<Rightarrow> money \<Rightarrow> billing_error \<Rightarrow> billing_db \<Rightarrow>
    billing_error + BatchImageBalanceHoldResult \<times> billing_db" where
  "move_funds e i test db_balance db_frozen err db =
     (if fails e HoldUpdate then Inl DBError
      else case users db i of
        Some u \<Rightarrow>
          if \<not> user_deleted u \<and> test u then
            let u' = u\<lparr>balance := balance u + db_balance, frozen_balance := Some (frozen u + db_frozen)\<rparr>
            in Inr (no_hold_result\<lparr>hr_NewBalance := Some (balance u'), hr_FrozenBalance := frozen_balance u'\<rparr>,
                    db\<lparr>users := (users db)(i \<mapsto> u')\<rparr>)
          else (case userExistsForBilling e db i of
                  Inl x \<Rightarrow> Inl x | Inr False \<Rightarrow> Inl ErrUserNotFound | Inr True \<Rightarrow> Inl err)
      | None \<Rightarrow> (case userExistsForBilling e db i of
                  Inl x \<Rightarrow> Inl x | Inr False \<Rightarrow> Inl ErrUserNotFound | Inr True \<Rightarrow> Inl err))"

definition reserveUsageBillingBatchImageBalance :: "billing_env \<Rightarrow> BatchImageBalanceHoldCommand \<Rightarrow> billing_db \<Rightarrow>
    billing_error + BatchImageBalanceHoldResult \<times> billing_db" where
  "reserveUsageBillingBatchImageBalance e c db =
     (if hc_HoldAmount c \<le> 0 then Inr (no_hold_result, db)
      else move_funds e (hc_UserID c) (\<lambda>u. hc_HoldAmount c \<le> balance u) (- hc_HoldAmount c) (hc_HoldAmount c)
             ErrBatchImageInsufficientBalance db)"

definition cost_epsilon :: money where "cost_epsilon = 1 / 10 ^ 8"

definition captureUsageBillingBatchImageBalance :: "billing_env \<Rightarrow> BatchImageBalanceHoldCommand \<Rightarrow> billing_db \<Rightarrow>
    billing_error + BatchImageBalanceHoldResult \<times> billing_db" where
  "captureUsageBillingBatchImageBalance e c db =
     (let h = hc_HoldAmount c; a = hc_ActualAmount c in
      if h \<le> 0 \<and> a \<le> 0 then Inr (no_hold_result, db)
      else if cost_epsilon < a - h then Inl ErrBatchImageSettlementCostExceedsHold
      else move_funds e (hc_UserID c) (\<lambda>u. h \<le> frozen u)
             ((if a < h then h - a else 0) - (if h < a then a - h else 0)) (- h) ErrFrozenInsufficient db)"

definition batchImageHoldRequestPrefix :: string where "batchImageHoldRequestPrefix = ''batch_image_hold:''"
definition batchImageCaptureRequestPrefix :: string where "batchImageCaptureRequestPrefix = ''batch_image_capture:''"
definition batchImageReleaseRequestPrefix :: string where "batchImageReleaseRequestPrefix = ''batch_image_release:''"

definition BatchImageHoldRequestID :: "string \<Rightarrow> string" where
  "BatchImageHoldRequestID b = batchImageHoldRequestPrefix @ TrimSpace b"
definition BatchImageCaptureRequestID :: "string \<Rightarrow> string" where
  "BatchImageCaptureRequestID b = batchImageCaptureRequestPrefix @ TrimSpace b"
definition BatchImageReleaseRequestID :: "string \<Rightarrow> string" where
  "BatchImageReleaseRequestID b = batchImageReleaseRequestPrefix @ TrimSpace b"

definition batchImageHoldClaimExists :: "billing_env \<Rightarrow> string \<Rightarrow> ident \<Rightarrow> billing_db \<Rightarrow> billing_error + bool" where
  "batchImageHoldClaimExists e rid kid db =
     (if fails e HoldClaimSelect then Inl DBError
      else if lookup_claim (dedup db) rid kid \<noteq> None then Inr True
      else if fails e HoldArchiveSelect then Inl DBError
      else Inr (lookup_claim (dedup_archive db) rid kid \<noteq> None))"

definition releaseUsageBillingBatchImageBalance :: "billing_env \<Rightarrow> BatchImageBalanceHoldCommand \<Rightarrow> billing_db \<Rightarrow>
    billing_error + BatchImageBalanceHoldResult \<times> billing_db" where
  "releaseUsageBillingBatchImageBalance e c db =
     (let h = hc_HoldAmount c in
      if h \<le> 0 then Inr (no_hold_result, db)
      else case batchImageHoldClaimExists e (BatchImageHoldRequestID (hc_BatchID c)) (hc_APIKeyID c) db of
        Inl err \<Rightarrow> Inl err
      | Inr False \<Rightarrow> Inr (no_hold_result, db)
      | Inr True \<Rightarrow> move_funds e (hc_UserID c) (\<lambda>u. h \<le> frozen u) h (- h) ErrFrozenInsufficient db)"

definition applyBatchImageBalanceHold ::
  "(billing_env \<Rightarrow> BatchImageBalanceHoldCommand \<Rightarrow> billing_db \<Rightarrow> billing_error + BatchImageBalanceHoldResult \<times> billing_db) \<Rightarrow>
   billing_lib \<Rightarrow> billing_env \<Rightarrow> BatchImageBalanceHoldCommand \<Rightarrow> billing_db \<Rightarrow>
   (billing_error + BatchImageBalanceHoldResult) \<times> billing_db" where
  "applyBatchImageBalanceHold act L e c db =
     (let c = Normalize_hold L c in
      if hc_RequestID c = [] then (Inl ErrUsageBillingRequestIDRequired, db)
      else if fails e BeginTx then (Inl DBError, db)
      else case claimUsageBillingRequest e (hc_RequestID c) (hc_APIKeyID c) (hc_Fingerprint c) db of
        Inl err \<Rightarrow> (Inl err, db)
      | Inr (False, _) \<Rightarrow> (Inr no_hold_result, db)
      | Inr (True, db') \<Rightarrow>
          (case act e c db' of
             Inl err \<Rightarrow> (Inl err, db)
           | Inr (r, db') \<Rightarrow> commit_tx e (r\<lparr>hr_Applied := True\<rparr>) db db'))"

definition ReserveBatchImageBalance where
  "ReserveBatchImageBalance = applyBatchImageBalanceHold reserveUsageBillingBatchImageBalance"
definition CaptureBatchImageBalance where
  "CaptureBatchImageBalance = applyBatchImageBalanceHold captureUsageBillingBatchImageBalance"
definition ReleaseBatchImageBalance where
  "ReleaseBatchImageBalance = applyBatchImageBalanceHold releaseUsageBillingBatchImageBalance"

section \<open>Archiving of claims\<close>

definition usageBillingDedupCleanupBatchSize :: nat where "usageBillingDedupCleanupBatchSize = 10000"

text \<open>One transaction: the first rows made before the cutoff, in the order of their row ids, move to the archive.\<close>

fun archive_rows :: "dedup_row list \<Rightarrow> dedup_row list \<Rightarrow> dedup_row list" where
  "archive_rows [] arch = arch"
| "archive_rows (r # rs) arch =
     archive_rows rs (if lookup_claim arch (dd_request r) (dd_key r) = None then arch @ [r] else arch)"

fun remove_old :: "time \<Rightarrow> nat \<Rightarrow> dedup_row list \<Rightarrow> dedup_row list \<times> dedup_row list" where
  "remove_old cutoff n [] = ([], [])"
| "remove_old cutoff n (r # rs) =
     (if 0 < n \<and> dd_created r < cutoff
      then let (gone, kept) = remove_old cutoff (n - 1) rs in (r # gone, kept)
      else let (gone, kept) = remove_old cutoff n rs in (gone, r # kept))"

definition cleanup_batch :: "time \<Rightarrow> nat \<Rightarrow> billing_db \<Rightarrow> nat \<times> billing_db" where
  "cleanup_batch cutoff n db =
     (let (gone, kept) = remove_old cutoff n (dedup db)
      in (length gone, db\<lparr>dedup := kept, dedup_archive := archive_rows gone (dedup_archive db)\<rparr>))"

text \<open>
  The loop over the batches; the list says which transactions of the run succeed (each of its statements may fail, which
  rolls it back and ends the run). A run that the list ends early was interrupted.
\<close>

fun CleanupUsageBillingDedup :: "time \<Rightarrow> commit_outcome list \<Rightarrow> nat \<Rightarrow> billing_db \<Rightarrow> bool \<times> billing_db" where
  "CleanupUsageBillingDedup cutoff [] n db = (False, db)"
| "CleanupUsageBillingDedup cutoff (t # ts) n db =
     (case t of CommitFailed \<Rightarrow> (False, db)
      | CommitLost \<Rightarrow> (False, snd (cleanup_batch cutoff n db))
      | Committed \<Rightarrow>
          (let (affected, db) = cleanup_batch cutoff n db
           in if affected < n then (True, db) else CleanupUsageBillingDedup cutoff ts n db))"

section \<open>Building a command\<close>

text \<open>
  What a finished request hands over: its costs, and the fields of its user, key, account, subscription and usage log that
  the command takes. A missing user, key, account or cost is the value \<open>None\<close> of the whole record.
\<close>

record usage_log =
  ul_Model :: string
  ul_BillingType :: int
  ul_InputTokens :: int
  ul_OutputTokens :: int
  ul_CacheCreationTokens :: int
  ul_CacheReadTokens :: int
  ul_ImageCount :: int
  ul_ServiceTier :: "string option"
  ul_ReasoningEffort :: "string option"
  ul_SubscriptionID :: "ident option"

record postUsageBillingParams =
  TotalCost :: money
  ActualCost :: money
  p_user :: ident
  p_key :: ident
  p_key_quota :: money
  p_key_limits :: "money list"
  p_account :: ident
  p_account_type :: string
  p_account_limits :: "money list"
  p_subscription :: "ident option"
  p_payload_hash :: string
  IsSubscriptionBill :: bool
  AccountRateMultiplier :: money
  has_key_service :: bool

definition HasRateLimits :: "money list \<Rightarrow> bool" where
  "HasRateLimits limits = list_ex (\<lambda>l. 0 < l) limits"

definition HasAnyQuotaLimit :: "money list \<Rightarrow> bool" where
  "HasAnyQuotaLimit limits = list_ex (\<lambda>l. 0 < l) limits"

definition IsAPIKeyOrBedrock :: "string \<Rightarrow> bool" where
  "IsAPIKeyOrBedrock t = (t = AccountTypeAPIKey \<or> t = AccountTypeBedrock)"

definition shouldDeductAPIKeyQuota :: "postUsageBillingParams \<Rightarrow> bool" where
  "shouldDeductAPIKeyQuota p = (0 < ActualCost p \<and> 0 < p_key_quota p \<and> has_key_service p)"

definition shouldUpdateRateLimits :: "postUsageBillingParams \<Rightarrow> bool" where
  "shouldUpdateRateLimits p = (0 < ActualCost p \<and> HasRateLimits (p_key_limits p) \<and> has_key_service p)"

definition shouldUpdateAccountQuota :: "postUsageBillingParams \<Rightarrow> bool" where
  "shouldUpdateAccountQuota p =
     (0 < TotalCost p \<and> IsAPIKeyOrBedrock (p_account_type p) \<and> HasAnyQuotaLimit (p_account_limits p))"

definition empty_command :: UsageBillingCommand where
  "empty_command = \<lparr>RequestID = [], APIKeyID = 0, RequestFingerprint = [], RequestPayloadHash = [], UserID = 0, AccountID = 0,
     SubscriptionID = None, AccountType = [], Model = [], ServiceTier = [], ReasoningEffort = [], BillingType = 0,
     InputTokens = 0, OutputTokens = 0, CacheCreationTokens = 0, CacheReadTokens = 0, ImageCount = 0, MediaType = [],
     BalanceCost = 0, SubscriptionCost = 0, APIKeyQuotaCost = 0, APIKeyRateLimitCost = 0, AccountQuotaCost = 0\<rparr>"

definition with_usage_log :: "usage_log option \<Rightarrow> UsageBillingCommand \<Rightarrow> UsageBillingCommand" where
  "with_usage_log ul c =
     (case ul of None \<Rightarrow> c
      | Some l \<Rightarrow> c\<lparr>Model := ul_Model l, BillingType := ul_BillingType l, InputTokens := ul_InputTokens l,
          OutputTokens := ul_OutputTokens l, CacheCreationTokens := ul_CacheCreationTokens l,
          CacheReadTokens := ul_CacheReadTokens l, ImageCount := ul_ImageCount l,
          ServiceTier := (case ul_ServiceTier l of None \<Rightarrow> ServiceTier c | Some t \<Rightarrow> t),
          ReasoningEffort := (case ul_ReasoningEffort l of None \<Rightarrow> ReasoningEffort c | Some t \<Rightarrow> t),
          SubscriptionID := (case ul_SubscriptionID l of None \<Rightarrow> SubscriptionID c | Some s \<Rightarrow> Some s)\<rparr>)"

definition buildUsageBillingCommand ::
  "billing_lib \<Rightarrow> string \<Rightarrow> usage_log option \<Rightarrow> postUsageBillingParams option \<Rightarrow> UsageBillingCommand option" where
  "buildUsageBillingCommand L rid ul params =
     (case params of None \<Rightarrow> None
      | Some p \<Rightarrow>
        (let c = empty_command\<lparr>RequestID := rid, APIKeyID := p_key p, UserID := p_user p, AccountID := p_account p,
               AccountType := p_account_type p, RequestPayloadHash := TrimSpace (p_payload_hash p)\<rparr>;
             c = with_usage_log ul c;
             c = (if IsSubscriptionBill p \<and> p_subscription p \<noteq> None \<and> 0 < TotalCost p
                  then c\<lparr>SubscriptionID := p_subscription p, SubscriptionCost := ActualCost p\<rparr>
                  else if 0 < ActualCost p then c\<lparr>BalanceCost := ActualCost p\<rparr> else c);
             c = (if shouldDeductAPIKeyQuota p then c\<lparr>APIKeyQuotaCost := ActualCost p\<rparr> else c);
             c = (if shouldUpdateRateLimits p then c\<lparr>APIKeyRateLimitCost := ActualCost p\<rparr> else c);
             c = (if shouldUpdateAccountQuota p then c\<lparr>AccountQuotaCost := TotalCost p * AccountRateMultiplier p\<rparr> else c)
         in Some (Normalize L c)))"

definition isForcedUsageBillingRequestID :: "string \<Rightarrow> bool" where
  "isForcedUsageBillingRequestID rid =
     (let i = TrimSpace rid in HasPrefix i ''web_search:'' \<or> HasPrefix i ''grok-video:'' \<or> HasPrefix i ''grok_audio:'' \<or>
        HasPrefix i ''grok_realtime:'')"

text \<open>The request context carries the id of the client and the id of the server's own request, each possibly absent.\<close>

definition context_id :: "string option \<Rightarrow> string option \<Rightarrow> string option" where
  "context_id client local =
     (case client of
        Some c \<Rightarrow> if TrimSpace c \<noteq> [] then Some (''client:'' @ TrimSpace c)
                  else (case local of Some l \<Rightarrow> if TrimSpace l \<noteq> [] then Some (''local:'' @ TrimSpace l) else None | None \<Rightarrow> None)
      | None \<Rightarrow> (case local of Some l \<Rightarrow> if TrimSpace l \<noteq> [] then Some (''local:'' @ TrimSpace l) else None | None \<Rightarrow> None))"

definition resolveUsageBillingRequestID :: "string option \<Rightarrow> string option \<Rightarrow> string \<Rightarrow> string \<Rightarrow> string" where
  "resolveUsageBillingRequestID client local upstream generated =
     (let u = TrimSpace upstream in
      if u \<noteq> [] \<and> isForcedUsageBillingRequestID u then u
      else case context_id client local of
        Some i \<Rightarrow> i
      | None \<Rightarrow> if u \<noteq> [] then u else ''generated:'' @ generated)"

definition resolveUsageBillingPayloadFingerprint :: "string option \<Rightarrow> string option \<Rightarrow> string \<Rightarrow> string" where
  "resolveUsageBillingPayloadFingerprint client local payload =
     (if TrimSpace payload \<noteq> [] then TrimSpace payload
      else case context_id client local of Some i \<Rightarrow> i | None \<Rightarrow> [])"

definition stable_id :: "string \<Rightarrow> string \<Rightarrow> string \<Rightarrow> string" where
  "stable_id prefix raw generated =
     (let u = TrimSpace raw in
      if HasPrefix u prefix then u else if u = [] then prefix @ generated else prefix @ u)"

definition StableGrokAudioBillingRequestID :: "string \<Rightarrow> string \<Rightarrow> string" where
  "StableGrokAudioBillingRequestID = stable_id ''grok_audio:''"

definition StableGrokRealtimeBillingRequestID :: "string \<Rightarrow> string \<Rightarrow> string" where
  "StableGrokRealtimeBillingRequestID = stable_id ''grok_realtime:''"

section \<open>Sequences of calls\<close>

datatype billing_event =
    EApply billing_env UsageBillingCommand
  | EReserve billing_env BatchImageBalanceHoldCommand
  | ECapture billing_env BatchImageBalanceHoldCommand
  | ERelease billing_env BatchImageBalanceHoldCommand
  | ECleanup time "commit_outcome list" nat

text \<open>Whether the call answered without error, and the tables after it.\<close>

definition answered :: "'e + 'a \<Rightarrow> bool" where "answered x = (case x of Inl e \<Rightarrow> False | Inr a \<Rightarrow> True)"

fun billing_step :: "billing_lib \<Rightarrow> billing_event \<Rightarrow> billing_db \<Rightarrow> bool \<times> billing_db" where
  "billing_step L (EApply e c) db = map_prod answered id (Apply L e c db)"
| "billing_step L (EReserve e c) db = map_prod answered id (ReserveBatchImageBalance L e c db)"
| "billing_step L (ECapture e c) db = map_prod answered id (CaptureBatchImageBalance L e c db)"
| "billing_step L (ERelease e c) db = map_prod answered id (ReleaseBatchImageBalance L e c db)"
| "billing_step L (ECleanup cutoff ts n) db = CleanupUsageBillingDedup cutoff ts n db"

fun hold_key :: "billing_lib \<Rightarrow> BatchImageBalanceHoldCommand \<Rightarrow> string \<times> ident" where
  "hold_key L c = (hc_RequestID (Normalize_hold L c), hc_APIKeyID c)"

fun event_key :: "billing_lib \<Rightarrow> billing_event \<Rightarrow> (string \<times> ident) option" where
  "event_key L (EApply e c) = Some (RequestID (Normalize L c), APIKeyID c)"
| "event_key L (EReserve e c) = Some (hold_key L c)"
| "event_key L (ECapture e c) = Some (hold_key L c)"
| "event_key L (ERelease e c) = Some (hold_key L c)"
| "event_key L (ECleanup cutoff ts n) = None"

definition claimed :: "billing_db \<Rightarrow> string \<times> ident \<Rightarrow> bool" where
  "claimed db k = (lookup_claim (dedup db) (fst k) (snd k) \<noteq> None \<or> lookup_claim (dedup_archive db) (fst k) (snd k) \<noteq> None)"

text \<open>The money of a user, frozen or not, and what a call takes from it when it is carried out.\<close>

definition funds :: "billing_db \<Rightarrow> ident \<Rightarrow> money" where
  "funds db u = (case users db u of None \<Rightarrow> 0 | Some r \<Rightarrow> balance r + frozen r)"

fun event_charge :: "billing_lib \<Rightarrow> ident \<Rightarrow> billing_event \<Rightarrow> money" where
  "event_charge L u (EApply e c) = (if UserID c = u \<and> 0 < BalanceCost (Normalize L c) then BalanceCost (Normalize L c) else 0)"
| "event_charge L u (ECapture e c) =
     (if hc_UserID c = u \<and> \<not> (hc_HoldAmount c \<le> 0 \<and> hc_ActualAmount c \<le> 0) then hc_ActualAmount c else 0)"
| "event_charge L u _ = 0"

fun run_events :: "('ev \<Rightarrow> 'db \<Rightarrow> bool \<times> 'db) \<Rightarrow> 'ev list \<Rightarrow> 'db \<Rightarrow> bool list \<times> 'db" where
  "run_events step [] db = ([], db)"
| "run_events step (ev # evs) db =
     (let (ok, db) = step ev db; (oks, db) = run_events step evs db in (ok # oks, db))"

text \<open>The events of a run that make a claim of their own.\<close>

definition makes_claim :: "('ev \<Rightarrow> 'db \<Rightarrow> bool \<times> 'db) \<Rightarrow> ('db \<Rightarrow> 'k \<Rightarrow> bool) \<Rightarrow> ('ev \<Rightarrow> 'k option) \<Rightarrow> 'ev \<Rightarrow> 'db \<Rightarrow> bool" where
  "makes_claim step cl key ev db =
     (case key ev of None \<Rightarrow> False | Some k \<Rightarrow> \<not> cl db k \<and> cl (snd (step ev db)) k)"

fun claiming :: "('ev \<Rightarrow> 'db \<Rightarrow> bool \<times> 'db) \<Rightarrow> ('db \<Rightarrow> 'k \<Rightarrow> bool) \<Rightarrow> ('ev \<Rightarrow> 'k option) \<Rightarrow> 'ev list \<Rightarrow> 'db \<Rightarrow> 'ev list" where
  "claiming step cl key [] db = []"
| "claiming step cl key (ev # evs) db =
     (if makes_claim step cl key ev db then [ev] else []) @ claiming step cl key evs (snd (step ev db))"

section \<open>Calls that claim their key before they act\<close>

locale claims_once =
  fixes step :: "'ev \<Rightarrow> 'db \<Rightarrow> bool \<times> 'db" and cl :: "'db \<Rightarrow> 'k \<Rightarrow> bool" and key :: "'ev \<Rightarrow> 'k option"
    and books :: "'db \<Rightarrow> 'b"
  assumes claim_kept: "cl db k \<Longrightarrow> cl (snd (step ev db)) k"
    and claim_own: "cl (snd (step ev db)) k \<Longrightarrow> cl db k \<or> key ev = Some k"
    and no_claim_no_effect: "\<not> makes_claim step cl key ev db \<Longrightarrow> books (snd (step ev db)) = books db"
    and answer_claimed: "fst (step ev db) \<Longrightarrow> key ev = Some k \<Longrightarrow> cl (snd (step ev db)) k"
begin

lemma run_keeps: "cl db k \<Longrightarrow> cl (snd (run_events step evs db)) k"
  by (induction evs arbitrary: db) (simp_all add: claim_kept case_prod_beta Let_def)

lemma claiming_unclaimed: "ev \<in> set (claiming step cl key evs db) \<Longrightarrow> \<exists>k. key ev = Some k \<and> \<not> cl db k"
proof (induction evs arbitrary: db)
  case (Cons e evs)
  then consider "makes_claim step cl key e db" "ev = e" | "ev \<in> set (claiming step cl key evs (snd (step e db)))"
    by (auto split: if_splits)
  then show ?case
  proof cases
    case 1
    then show ?thesis by (auto simp: makes_claim_def split: option.splits)
  next
    case 2
    then show ?thesis using Cons.IH claim_kept by blast
  qed
qed simp

lemma claiming_claimed: "ev \<in> set (claiming step cl key evs db) \<Longrightarrow> key ev = Some k \<Longrightarrow> cl (snd (run_events step evs db)) k"
proof (induction evs arbitrary: db)
  case (Cons e evs)
  then consider "makes_claim step cl key e db" "ev = e" | "ev \<in> set (claiming step cl key evs (snd (step e db)))"
    by (auto split: if_splits)
  then show ?case
  proof cases
    case 1
    then have "cl (snd (step e db)) k" using Cons.prems by (auto simp: makes_claim_def)
    then show ?thesis using run_keeps [of "snd (step e db)" k evs] by (simp add: case_prod_beta Let_def)
  next
    case 2
    then show ?thesis using Cons.IH [OF 2 Cons.prems(2)] by (simp add: case_prod_beta Let_def)
  qed
qed simp

lemma claiming_distinct: "distinct (map key (claiming step cl key evs db))"
proof (induction evs arbitrary: db)
  case (Cons e evs)
  have "key e \<notin> key ` set (claiming step cl key evs (snd (step e db)))" if m: "makes_claim step cl key e db"
  proof
    assume "key e \<in> key ` set (claiming step cl key evs (snd (step e db)))"
    then obtain f where f: "f \<in> set (claiming step cl key evs (snd (step e db)))" "key f = key e" by auto
    obtain k where k: "key e = Some k" "cl (snd (step e db)) k" using m by (auto simp: makes_claim_def split: option.splits)
    show False using claiming_unclaimed [OF f(1)] f(2) k by auto
  qed
  then show ?case using Cons.IH by auto
qed simp

text \<open>Whoever holds the claim in the end held it before the run or made it in the run, exactly once.\<close>

lemma run_claim: "cl (snd (run_events step evs db)) k \<Longrightarrow>
    cl db k \<or> (\<exists>ev\<in>set (claiming step cl key evs db). key ev = Some k)"
proof (induction evs arbitrary: db)
  case (Cons e evs)
  let ?d = "snd (step e db)"
  have "cl (snd (run_events step evs ?d)) k" using Cons.prems by (simp add: case_prod_beta Let_def)
  from Cons.IH [OF this] show ?case
  proof
    assume c: "cl ?d k"
    show ?thesis
    proof (cases "cl db k")
      case False
      then have "key e = Some k" using claim_own [OF c] by simp
      then have "makes_claim step cl key e db" using False c by (simp add: makes_claim_def)
      then show ?thesis using \<open>key e = Some k\<close> by simp
    qed simp
  qed auto
qed simp

lemma answered_claimed: "i < length evs \<Longrightarrow> fst (run_events step evs db) ! i \<Longrightarrow> key (evs ! i) = Some k \<Longrightarrow>
    cl (snd (run_events step evs db)) k"
proof (induction evs arbitrary: db i)
  case (Cons e evs)
  then show ?case
    using answer_claimed [of e db k] run_keeps [of "snd (step e db)" k evs]
    by (cases i) (auto simp: case_prod_beta Let_def)
qed simp

text \<open>A quantity of the books moves by exactly the charges of the calls that made a claim.\<close>

lemma run_charges:
  fixes v :: "'b \<Rightarrow> 'q :: ab_group_add"
  assumes "\<And>ev db. makes_claim step cl key ev db \<Longrightarrow> v (books (snd (step ev db))) = v (books db) - charge ev"
  shows "v (books (snd (run_events step evs db))) = v (books db) - sum_list (map charge (claiming step cl key evs db))"
proof (induction evs arbitrary: db)
  case (Cons e evs)
  show ?case
  proof (cases "makes_claim step cl key e db")
    case True
    from assms [OF True] show ?thesis using True Cons.IH [of "snd (step e db)"] by (simp add: case_prod_beta Let_def algebra_simps)
  next
    case False
    from no_claim_no_effect [OF False] show ?thesis using False Cons.IH [of "snd (step e db)"] by (simp add: case_prod_beta Let_def)
  qed
qed simp

end

section \<open>The claims of the repository\<close>

definition books :: "billing_db \<Rightarrow> billing_db" where
  "books db = db\<lparr>dedup := [], dedup_archive := []\<rparr>"

lemma books_simps [simp]:
  "users (books db) = users db" "keys (books db) = keys db" "accounts (books db) = accounts db"
  "books (db\<lparr>dedup := d\<rparr>) = books db" "books (db\<lparr>dedup_archive := a\<rparr>) = books db"
  by (simp_all add: books_def)

lemma funds_books [simp]: "funds (books db) u = funds db u"
  by (simp add: funds_def)

definition same_claims :: "billing_db \<Rightarrow> billing_db \<Rightarrow> bool" where
  "same_claims db db' = (dedup db' = dedup db \<and> dedup_archive db' = dedup_archive db)"

lemma same_claims_refl [simp]: "same_claims db db"
  by (simp add: same_claims_def)

lemma same_claims_trans: "same_claims a b \<Longrightarrow> same_claims b c \<Longrightarrow> same_claims a c"
  by (simp add: same_claims_def)

lemma same_claims_claimed: "same_claims db db' \<Longrightarrow> claimed db' k = claimed db k"
  by (simp add: same_claims_def claimed_def)

lemma effects_same_claims:
  "incrementUsageBillingSubscription e i m db = Inr db' \<Longrightarrow> same_claims db db'"
  "deductUsageBillingBalance e i m db = Inr (b, s, db') \<Longrightarrow> same_claims db db'"
  "incrementUsageBillingAPIKeyQuota e i m db = Inr (x, db') \<Longrightarrow> same_claims db db'"
  "incrementUsageBillingAPIKeyRateLimit e i m db = Inr db' \<Longrightarrow> same_claims db db'"
  "incrementUsageBillingAccountQuota L e i m db = Inr (st, db') \<Longrightarrow> same_claims db db'"
  "move_funds e i t p q err db = Inr (r, db') \<Longrightarrow> same_claims db db'"
  by (auto simp: incrementUsageBillingSubscription_def deductUsageBillingBalance_def incrementUsageBillingAPIKeyQuota_def
      incrementUsageBillingAPIKeyRateLimit_def incrementUsageBillingAccountQuota_def move_funds_def Let_def same_claims_def
      split: if_splits option.splits sum.splits bool.splits prod.splits)

lemma effects_users:
  "incrementUsageBillingSubscription e i m db = Inr db' \<Longrightarrow> users db' = users db"
  "incrementUsageBillingAPIKeyQuota e i m db = Inr (x, db') \<Longrightarrow> users db' = users db"
  "incrementUsageBillingAPIKeyRateLimit e i m db = Inr db' \<Longrightarrow> users db' = users db"
  "incrementUsageBillingAccountQuota L e i m db = Inr (st, db') \<Longrightarrow> users db' = users db"
  by (auto simp: incrementUsageBillingSubscription_def incrementUsageBillingAPIKeyQuota_def
      incrementUsageBillingAPIKeyRateLimit_def incrementUsageBillingAccountQuota_def Let_def
      split: if_splits option.splits sum.splits bool.splits prod.splits)

lemma deduct_funds:
  "deductUsageBillingBalance e i m db = Inr (b, s, db') \<Longrightarrow> funds db' u = funds db u - (if i = u then m else 0)"
  by (auto simp: deductUsageBillingBalance_def funds_def frozen_def Let_def split: if_splits option.splits)

lemma move_funds_funds:
  "move_funds e i t p q err db = Inr (r, db') \<Longrightarrow> funds db' u = funds db u + (if i = u then p + q else 0)"
  by (auto simp: move_funds_def funds_def frozen_def Let_def split: if_splits option.splits sum.splits bool.splits)

lemma funds_cong: "users db' = users db \<Longrightarrow> funds db' u = funds db u"
  by (simp add: funds_def)

lemma lookup_claim_iff: "lookup_claim rows rid kid \<noteq> None \<longleftrightarrow> (\<exists>r\<in>set rows. is_claim rid kid r)"
  using first_match_None_iff [of "is_claim rid kid" rows] by (auto simp: lookup_claim_def)

lemma claimed_iff: "claimed db k \<longleftrightarrow> (\<exists>r\<in>set (dedup db) \<union> set (dedup_archive db). is_claim (fst k) (snd k) r)"
  unfolding claimed_def lookup_claim_iff by blast

lemma claim_made:
  assumes "claimUsageBillingRequest e rid kid fp db = Inr (True, db')"
  shows "\<not> claimed db (rid, kid)" "claimed db' k \<longleftrightarrow> claimed db k \<or> k = (rid, kid)" "books db' = books db" "users db' = users db"
proof -
  from assms have n: "lookup_claim (dedup db) rid kid = None" "lookup_claim (dedup_archive db) rid kid = None"
    and d: "db' = db\<lparr>dedup := dedup db @ [\<lparr>dd_request = rid, dd_key = kid, dd_fingerprint = fp, dd_created = clock e\<rparr>]\<rparr>"
    by (auto simp: claimUsageBillingRequest_def Let_def split: if_splits option.splits)
  from n show "\<not> claimed db (rid, kid)" by (simp add: claimed_def)
  show "claimed db' k \<longleftrightarrow> claimed db k \<or> k = (rid, kid)" by (cases k) (auto simp: d claimed_iff is_claim_def)
  show "books db' = books db" "users db' = users db" by (simp_all add: d)
qed

lemma claim_held: "claimUsageBillingRequest e rid kid fp db = Inr (False, db') \<Longrightarrow> claimed db (rid, kid)"
  by (auto simp: claimUsageBillingRequest_def claimed_def Let_def split: if_splits option.splits)

text \<open>A transaction leaves the tables as they were, or made its claim and carried out its effects.\<close>

lemma Apply_cases:
  assumes "Apply L e c db = (ans, db')"
  obtains (nothing) "db' = db" "answered ans \<Longrightarrow> claimed db (RequestID (Normalize L c), APIKeyID c)"
  | (applied) d r where "claimUsageBillingKey e (Normalize L c) db = Inr (True, d)"
      "applyUsageBillingEffects L e (Normalize L c) (no_result\<lparr>Applied := True\<rparr>) d = Inr (r, db')"
      "ans = Inr r \<or> ans = Inl DBError"
proof -
  have k: "APIKeyID (Normalize L c) = APIKeyID c" by (simp add: Normalize_def quantizeMonetaryFields_def Let_def)
  have "db' = db \<and> (answered ans \<longrightarrow> claimed db (RequestID (Normalize L c), APIKeyID c)) \<or>
    (\<exists>d r. claimUsageBillingKey e (Normalize L c) db = Inr (True, d) \<and>
      applyUsageBillingEffects L e (Normalize L c) (no_result\<lparr>Applied := True\<rparr>) d = Inr (r, db') \<and> (ans = Inr r \<or> ans = Inl DBError))"
  proof (cases "claimUsageBillingKey e (Normalize L c) db")
    case (Inl err)
    with assms show ?thesis by (auto simp: Apply_def Let_def answered_def split: if_splits)
  next
    case (Inr x)
    obtain b d where x: "x = (b, d)" by (cases x)
    show ?thesis
    proof (cases b)
      case False
      with Inr x have "claimed db (RequestID (Normalize L c), APIKeyID c)"
        using claim_held [of e "RequestID (Normalize L c)" "APIKeyID c"] by (simp add: claimUsageBillingKey_def k)
      with assms Inr x False show ?thesis by (auto simp: Apply_def Let_def answered_def split: if_splits)
    next
      case True
      with assms Inr x show ?thesis
        by (auto simp: Apply_def Let_def answered_def commit_tx_def split: if_splits sum.splits commit_outcome.splits)
    qed
  qed
  then show ?thesis using that by blast
qed

lemma hold_cases:
  assumes "applyBatchImageBalanceHold act L e c db = (ans, db')"
  obtains (nothing) "db' = db" "answered ans \<Longrightarrow> claimed db (hold_key L c)"
  | (applied) d r where
      "claimUsageBillingRequest e (fst (hold_key L c)) (hc_APIKeyID c) (hc_Fingerprint (Normalize_hold L c)) db = Inr (True, d)"
      "act e (Normalize_hold L c) d = Inr (r, db')" "ans = Inr (r\<lparr>hr_Applied := True\<rparr>) \<or> ans = Inl DBError"
proof -
  have k: "hc_APIKeyID (Normalize_hold L c) = hc_APIKeyID c" by (simp add: Normalize_hold_def Let_def)
  have "db' = db \<and> (answered ans \<longrightarrow> claimed db (hold_key L c)) \<or>
    (\<exists>d r. claimUsageBillingRequest e (fst (hold_key L c)) (hc_APIKeyID c) (hc_Fingerprint (Normalize_hold L c)) db = Inr (True, d) \<and>
      act e (Normalize_hold L c) d = Inr (r, db') \<and> (ans = Inr (r\<lparr>hr_Applied := True\<rparr>) \<or> ans = Inl DBError))"
  proof (cases "claimUsageBillingRequest e (fst (hold_key L c)) (hc_APIKeyID c) (hc_Fingerprint (Normalize_hold L c)) db")
    case (Inl err)
    with assms show ?thesis by (auto simp: applyBatchImageBalanceHold_def Let_def answered_def k split: if_splits)
  next
    case (Inr x)
    obtain b d where x: "x = (b, d)" by (cases x)
    show ?thesis
    proof (cases b)
      case False
      with Inr x have "claimed db (hold_key L c)" using claim_held by fastforce
      with assms Inr x False show ?thesis by (auto simp: applyBatchImageBalanceHold_def Let_def answered_def k split: if_splits)
    next
      case True
      with assms Inr x show ?thesis
        by (auto simp: applyBatchImageBalanceHold_def Let_def answered_def commit_tx_def k
            split: if_splits sum.splits commit_outcome.splits)
    qed
  qed
  then show ?thesis using that by blast
qed

lemma acts_same_claims:
  "reserveUsageBillingBatchImageBalance e c db = Inr (r, db') \<Longrightarrow> same_claims db db'"
  "captureUsageBillingBatchImageBalance e c db = Inr (r, db') \<Longrightarrow> same_claims db db'"
  "releaseUsageBillingBatchImageBalance e c db = Inr (r, db') \<Longrightarrow> same_claims db db'"
  by (auto simp: reserveUsageBillingBatchImageBalance_def captureUsageBillingBatchImageBalance_def
      releaseUsageBillingBatchImageBalance_def Let_def effects_same_claims split: if_splits sum.splits bool.splits)

lemma acts_funds:
  "reserveUsageBillingBatchImageBalance e c db = Inr (r, db') \<Longrightarrow> funds db' u = funds db u"
  "captureUsageBillingBatchImageBalance e c db = Inr (r, db') \<Longrightarrow> funds db' u = funds db u -
     (if hc_UserID c = u \<and> \<not> (hc_HoldAmount c \<le> 0 \<and> hc_ActualAmount c \<le> 0) then hc_ActualAmount c else 0)"
  "releaseUsageBillingBatchImageBalance e c db = Inr (r, db') \<Longrightarrow> funds db' u = funds db u"
  by (auto simp: reserveUsageBillingBatchImageBalance_def captureUsageBillingBatchImageBalance_def
      releaseUsageBillingBatchImageBalance_def Let_def dest!: move_funds_funds [of _ _ _ _ _ _ _ _ _ u]
      split: if_splits sum.splits bool.splits)

lemma applied_effects:
  assumes "applyUsageBillingEffects L e c r db = Inr (r', db')"
  shows "same_claims db db'" "funds db' u = funds db u - (if UserID c = u \<and> 0 < BalanceCost c then BalanceCost c else 0)"
proof -
  from assms obtain d1 d2 d3 d4 r2 r3 where
    s: "subscription_effect e c db = Inr d1" "balance_effect e c r d1 = Inr (r2, d2)" "key_quota_effect e c r2 d2 = Inr (r3, d3)"
      "rate_limit_effect e c d3 = Inr d4" "account_effect L e c r3 d4 = Inr (r', db')"
    by (auto simp: applyUsageBillingEffects_def split: sum.splits)
  have 1: "same_claims db d1" "users d1 = users db" using s(1)
    by (auto simp: subscription_effect_def effects_same_claims effects_users split: if_splits option.splits)
  have 2: "same_claims d1 d2" "funds d2 u = funds d1 u - (if UserID c = u \<and> 0 < BalanceCost c then BalanceCost c else 0)"
    using s(2) by (auto simp: balance_effect_def effects_same_claims deduct_funds split: if_splits sum.splits)
  have 3: "same_claims d2 d3" "users d3 = users d2" using s(3)
    by (auto simp: key_quota_effect_def effects_same_claims effects_users split: if_splits sum.splits)
  have 4: "same_claims d3 d4" "users d4 = users d3" using s(4)
    by (auto simp: rate_limit_effect_def effects_same_claims effects_users split: if_splits)
  have 5: "same_claims d4 db'" "users db' = users d4" using s(5)
    by (auto simp: account_effect_def effects_same_claims effects_users split: if_splits sum.splits)
  show "same_claims db db'" using 1(1) 2(1) 3(1) 4(1) 5(1) by (blast intro: same_claims_trans)
  show "funds db' u = funds db u - (if UserID c = u \<and> 0 < BalanceCost c then BalanceCost c else 0)"
    using 2(2) funds_cong [OF 1(2)] funds_cong [OF 3(2)] funds_cong [OF 4(2)] funds_cong [OF 5(2)] by simp
qed

lemma remove_old_set: "remove_old cutoff n rows = (gone, kept) \<Longrightarrow> set gone \<union> set kept = set rows"
proof (induction rows arbitrary: n gone kept)
  case (Cons r rs)
  obtain g k where "remove_old cutoff (if 0 < n \<and> dd_created r < cutoff then n - 1 else n) rs = (g, k)" by fastforce
  note g = this and ih = Cons.IH [OF this]
  show ?case
  proof (cases "0 < n \<and> dd_created r < cutoff")
    case True
    with Cons.prems g have "gone = r # g" "kept = k" by simp_all
    then show ?thesis using ih by simp
  next
    case False
    with Cons.prems g have "gone = g" "kept = r # k" by (simp_all only: remove_old.simps if_False Let_def prod.case prod.inject)
    then show ?thesis using ih by simp
  qed
qed simp

lemma archive_rows_claim:
  "(\<exists>r\<in>set (archive_rows rows arch). is_claim rid kid r) \<longleftrightarrow> (\<exists>r\<in>set rows \<union> set arch. is_claim rid kid r)"
proof (induction rows arch rule: archive_rows.induct)
  case (2 r rs arch)
  show ?case
  proof (cases "lookup_claim arch (dd_request r) (dd_key r) = None")
    case True
    with 2 show ?thesis by auto
  next
    case False
    then have "\<exists>s\<in>set arch. is_claim (dd_request r) (dd_key r) s" by (simp only: lookup_claim_iff)
    then have "is_claim rid kid r \<Longrightarrow> \<exists>s\<in>set arch. is_claim rid kid s" by (auto simp: is_claim_def)
    with 2 False show ?thesis by auto
  qed
qed simp

lemma cleanup_batch_claimed: "claimed (snd (cleanup_batch cutoff n db)) k = claimed db k"
proof (cases "remove_old cutoff n (dedup db)")
  case (Pair gone kept)
  have "claimed (snd (cleanup_batch cutoff n db)) k \<longleftrightarrow>
    (\<exists>r\<in>set kept. is_claim (fst k) (snd k) r) \<or> (\<exists>r\<in>set (archive_rows gone (dedup_archive db)). is_claim (fst k) (snd k) r)"
    by (simp add: cleanup_batch_def Pair claimed_iff bex_Un)
  also have "\<dots> \<longleftrightarrow> claimed db k"
    unfolding archive_rows_claim claimed_iff remove_old_set [OF Pair, symmetric] by blast
  finally show ?thesis .
qed

lemma cleanup_batch_books: "books (snd (cleanup_batch cutoff n db)) = books db"
  by (simp add: cleanup_batch_def books_def split: prod.split)

lemma cleanup_step:
  assumes "\<And>n db. P (snd (cleanup_batch cutoff n db)) = P db"
  shows "P (snd (CleanupUsageBillingDedup cutoff ts n db)) = P db"
proof (induction ts arbitrary: db)
  case (Cons t ts)
  obtain a d where "cleanup_batch cutoff n db = (a, d)" by (cases "cleanup_batch cutoff n db")
  with Cons.IH [of d] assms [of n db] show ?case by (cases t) simp_all
qed simp

lemma cleanup_keeps:
  "claimed (snd (CleanupUsageBillingDedup cutoff ts n db)) k = claimed db k"
  "books (snd (CleanupUsageBillingDedup cutoff ts n db)) = books db"
  by (rule cleanup_step, rule cleanup_batch_claimed) (rule cleanup_step, rule cleanup_batch_books)

declare hold_key.simps [simp del]

lemma key_of_normalized [simp]: "hc_RequestID (Normalize_hold L c) = fst (hold_key L c)" "hc_APIKeyID (Normalize_hold L c) = hc_APIKeyID c"
  "hc_UserID (Normalize_hold L c) = hc_UserID c" "hc_HoldAmount (Normalize_hold L c) = hc_HoldAmount c"
  "hc_ActualAmount (Normalize_hold L c) = hc_ActualAmount c"
  by (simp_all add: hold_key.simps Normalize_hold_def Let_def)

lemma Normalize_fields [simp]: "APIKeyID (Normalize L c) = APIKeyID c" "UserID (Normalize L c) = UserID c"
  by (simp_all add: Normalize_def quantizeMonetaryFields_def Let_def)

text \<open>What one call does to the claims, the rest of the tables and the funds.\<close>

definition step_law :: "billing_lib \<Rightarrow> billing_event \<Rightarrow> billing_db \<Rightarrow> bool" where
  "step_law L ev db =
     (let db' = snd (billing_step L ev db) in
      (books db' = books db \<and> (\<forall>k. claimed db' k = claimed db k) \<and>
         (fst (billing_step L ev db) \<longrightarrow> (\<forall>k. event_key L ev = Some k \<longrightarrow> claimed db k))) \<or>
      (\<exists>k. event_key L ev = Some k \<and> \<not> claimed db k \<and> (\<forall>j. claimed db' j \<longleftrightarrow> claimed db j \<or> j = k) \<and>
         (\<forall>u. funds db' u = funds db u - event_charge L u ev)))"

lemma hold_step_law:
  assumes "\<And>d d' r u. act e (Normalize_hold L c) d = Inr (r, d') \<Longrightarrow> same_claims d d' \<and> funds d' u = funds d u - event_charge L u ev"
    and s: "billing_step L ev db = map_prod answered id (applyBatchImageBalanceHold act L e c db)" "event_key L ev = Some (hold_key L c)"
  shows "step_law L ev db"
proof -
  obtain ans db' where a: "applyBatchImageBalanceHold act L e c db = (ans, db')" by fastforce
  show ?thesis
  proof (rule hold_cases [OF a])
    assume n: "db' = db" "answered ans \<Longrightarrow> claimed db (hold_key L c)"
    from n(2) have "event_key L ev = Some k \<Longrightarrow> answered ans \<Longrightarrow> claimed db k" for k using s(2) by simp
    then show ?thesis unfolding step_law_def Let_def s(1) a map_prod_simp fst_conv snd_conv id_apply n(1) by blast
  next
    fix d r
    assume applied: "claimUsageBillingRequest e (fst (hold_key L c)) (hc_APIKeyID c) (hc_Fingerprint (Normalize_hold L c)) db = Inr (True, d)"
      "act e (Normalize_hold L c) d = Inr (r, db')" "ans = Inr (r\<lparr>hr_Applied := True\<rparr>) \<or> ans = Inl DBError"
    have hk: "(fst (hold_key L c), hc_APIKeyID c) = hold_key L c" by (simp only: hold_key.simps fst_conv)
    note m = claim_made [OF applied(1), unfolded hk]
    have "funds db' u = funds db u - event_charge L u ev" for u
      using assms(1) [OF applied(2)] funds_cong [OF m(4)] by simp
    moreover have "claimed db' j \<longleftrightarrow> claimed db j \<or> j = hold_key L c" for j
      using conjunct1 [OF assms(1) [OF applied(2)]] m(2) [of j] same_claims_claimed [of d db' j] by blast
    ultimately show ?thesis using m(1) by (simp add: step_law_def s a)
  qed
qed

lemma billing_step_law: "step_law L ev db"
proof (cases ev)
  case (EApply e c)
  obtain ans db' where a: "Apply L e c db = (ans, db')" by fastforce
  from a show ?thesis
  proof (cases rule: Apply_cases)
    case nothing
    then show ?thesis by (simp add: step_law_def EApply a)
  next
    case (applied d r)
    have "claimUsageBillingRequest e (RequestID (Normalize L c)) (APIKeyID c) (RequestFingerprint (Normalize L c)) db = Inr (True, d)"
      using applied(1) by (simp add: claimUsageBillingKey_def)
    note m = claim_made [OF this] and f = applied_effects [OF applied(2)]
    have "funds db' u = funds db u - event_charge L u ev" for u
      using f(2) [of u] funds_cong [OF m(4)] by (simp add: EApply)
    moreover have "claimed db' j \<longleftrightarrow> claimed db j \<or> j = (RequestID (Normalize L c), APIKeyID c)" for j
      using f(1) m(2) same_claims_claimed by simp
    ultimately show ?thesis using m(1) by (simp add: step_law_def EApply a)
  qed
next
  case (EReserve e c)
  show ?thesis
    by (rule hold_step_law [of reserveUsageBillingBatchImageBalance e L c])
      (auto simp: EReserve ReserveBatchImageBalance_def acts_same_claims acts_funds)
next
  case (ECapture e c)
  show ?thesis
  proof (rule hold_step_law [of captureUsageBillingBatchImageBalance e L c])
    fix d d' r u
    assume a: "captureUsageBillingBatchImageBalance e (Normalize_hold L c) d = Inr (r, d')"
    show "same_claims d d' \<and> funds d' u = funds d u - event_charge L u ev"
      using acts_same_claims(2) [OF a] acts_funds(2) [OF a, of u] by (auto simp: ECapture)
  qed (simp_all add: ECapture CaptureBatchImageBalance_def)
next
  case (ERelease e c)
  show ?thesis
    by (rule hold_step_law [of releaseUsageBillingBatchImageBalance e L c])
      (auto simp: ERelease ReleaseBatchImageBalance_def acts_same_claims acts_funds)
next
  case (ECleanup cutoff ts n)
  then show ?thesis by (simp add: step_law_def cleanup_keeps)
qed

interpretation billing: claims_once "billing_step L" claimed "event_key L" books for L
proof
  fix db ev k
  note law = billing_step_law [of L ev db, unfolded step_law_def Let_def]
  show "claimed db k \<Longrightarrow> claimed (snd (billing_step L ev db)) k" using law by blast
  show "claimed (snd (billing_step L ev db)) k \<Longrightarrow> claimed db k \<or> event_key L ev = Some k" using law by blast
  show "books (snd (billing_step L ev db)) = books db" if "\<not> makes_claim (billing_step L) claimed (event_key L) ev db"
    using law that by (auto simp: makes_claim_def)
  show "fst (billing_step L ev db) \<Longrightarrow> event_key L ev = Some k \<Longrightarrow> claimed (snd (billing_step L ev db)) k" using law by fastforce
qed

lemma claim_charges:
  "makes_claim (billing_step L) claimed (event_key L) ev db \<Longrightarrow>
   funds (books (snd (billing_step L ev db))) u = funds (books db) u - event_charge L u ev"
  using billing_step_law [of L ev db] by (auto simp: step_law_def Let_def makes_claim_def split: option.splits)

section \<open>Properties\<close>

text \<open>C5. Every charge is booked once. Whatever sequence of usage charges, holds, captures, releases and clean-ups runs, with
  whatever database failures and commits whose answer is lost, each request id of a key is carried out by at most one call; the funds of every
  user, frozen ones included, change by exactly the amounts of the carried out calls; and a call that is answered without an error
  has its request carried out, by itself or by an earlier call.\<close>
theorem every_charge_booked_once:
  "let (oks, db') = run_events (billing_step L) evs db; M = claiming (billing_step L) claimed (event_key L) evs db in
     distinct (map (event_key L) M) \<and>
     (\<forall>u. funds db' u = funds db u - (\<Sum>ev\<leftarrow>M. event_charge L u ev)) \<and>
     (\<forall>i k. i < length evs \<longrightarrow> oks ! i \<longrightarrow> event_key L (evs ! i) = Some k \<longrightarrow>
        claimed db k \<or> (\<exists>ev\<in>set M. event_key L ev = Some k))"
proof -
  obtain oks db' where r: "run_events (billing_step L) evs db = (oks, db')" by fastforce
  have "funds db' u = funds db u - sum_list (map (event_charge L u) (claiming (billing_step L) claimed (event_key L) evs db))" for u
    using billing.run_charges [of L "\<lambda>b. funds b u" "event_charge L u", OF claim_charges] by (metis funds_books r snd_conv)
  moreover have "claimed db k \<or> (\<exists>ev\<in>set (claiming (billing_step L) claimed (event_key L) evs db). event_key L ev = Some k)"
    if "i < length evs" "oks ! i" "event_key L (evs ! i) = Some k" for i k
    using billing.run_claim billing.answered_claimed [of i evs L db k] that by (simp add: r)
  ultimately show ?thesis using billing.claiming_distinct by (simp add: r)
qed

definition plain_lib :: billing_lib where
  "plain_lib = \<lparr>sha256_hex = \<lambda>s. s, format_amount = \<lambda>x. FormatInt \<lfloor>x\<rfloor>, round_decimal = \<lambda>n. decimal_round n,
     parse_rfc3339 = ParseInt, format_rfc3339 = FormatInt\<rparr>"

definition fine :: "time \<Rightarrow> billing_env" where
  "fine t = \<lparr>fails = \<lambda>c. False, commits = Committed, clock = t\<rparr>"

definition sample_billing_db :: billing_db where
  "sample_billing_db = \<lparr>users = [7 \<mapsto> \<lparr>balance = 10, frozen_balance = None, user_deleted = False\<rparr>], subs = Map.empty, live_groups = [],
     keys = Map.empty, accounts = Map.empty, dedup = [], dedup_archive = [], outbox = []\<rparr>"

definition sample_charge :: UsageBillingCommand where
  "sample_charge = empty_command\<lparr>RequestID := ''r'', RequestFingerprint := ''f'', UserID := 7, BalanceCost := 3\<rparr>"

text \<open>The first commit takes effect but reports an error; the retry is answered and changes nothing.\<close>

lemma every_charge_booked_once_witness:
  "let evs = [EApply ((fine 0)\<lparr>commits := CommitLost\<rparr>) sample_charge, EApply (fine 1) sample_charge];
       (oks, db') = run_events (billing_step plain_lib) evs sample_billing_db in
   oks = [False, True] \<and> funds db' 7 = 7 \<and>
   length (claiming (billing_step plain_lib) claimed (event_key plain_lib) evs sample_billing_db) = 1"
proof -
  let ?evs = "[EApply ((fine 0)\<lparr>commits := CommitLost\<rparr>) sample_charge, EApply (fine 1) sample_charge]"
  obtain oks db' where r: "run_events (billing_step plain_lib) ?evs sample_billing_db = (oks, db')" by fastforce
  have o: "fst (run_events (billing_step plain_lib) ?evs sample_billing_db) = [False, True]" by code_simp
  have m: "length (claiming (billing_step plain_lib) claimed (event_key plain_lib) ?evs sample_billing_db) = 1" by code_simp
  have s: "(\<Sum>ev\<leftarrow>claiming (billing_step plain_lib) claimed (event_key plain_lib) ?evs sample_billing_db. event_charge plain_lib 7 ev) = 3"
    by code_simp
  have f: "funds sample_billing_db 7 = 10" by code_simp
  from every_charge_booked_once [of plain_lib ?evs sample_billing_db] have "funds db' 7 = 10 - 3"
    unfolding r Let_def prod.case by (metis f s)
  with o m r show ?thesis by (simp add: r)
qed

text \<open>Charges of an account one after the other.\<close>

fun account_charges :: "billing_lib \<Rightarrow> ident \<Rightarrow> (billing_env \<times> money) list \<Rightarrow> billing_db \<Rightarrow>
    billing_error + AccountQuotaState list \<times> billing_db" where
  "account_charges L i [] db = Inr ([], db)"
| "account_charges L i ((e, m) # cs) db =
     (case incrementUsageBillingAccountQuota L e i m db of Inl err \<Rightarrow> Inl err
      | Inr (st, db) \<Rightarrow> (case account_charges L i cs db of Inl err \<Rightarrow> Inl err | Inr (sts, db) \<Rightarrow> Inr (st # sts, db)))"

text \<open>An account with a daily limit that is reset at fixed times, the next of which is \<open>t\<close>.\<close>

definition fixed_daily :: "billing_lib \<Rightarrow> time \<Rightarrow> (string \<rightharpoonup> json) \<Rightarrow> bool" where
  "fixed_daily L t x = (json_string (x ''quota_daily_reset_mode'') = Some ''fixed'' \<and> 0 < quotaNumber x ''quota_daily_limit'' \<and>
     (\<exists>r. json_string (x ''quota_daily_reset_at'') = Some r \<and> parse_rfc3339 L r = Some t))"

lemma window_frame:
  "updateUsageBillingQuotaWindow L name d limit used amount now x = (u, x') \<Longrightarrow>
   k \<noteq> ''quota_'' @ name @ ''_used'' \<Longrightarrow> k \<noteq> ''quota_'' @ name @ ''_start'' \<Longrightarrow> x' k = x k"
  by (auto simp: updateUsageBillingQuotaWindow_def Let_def split: if_splits)

lemma fixed_daily_charge:
  assumes "incrementUsageBillingAccountQuota L e i m db = Inr (st, db')" "accounts db i = Some a" "extra a = Some x"
    "fixed_daily L t x" "t \<le> clock e"
  shows "DailyUsed st = m" "\<exists>a' x'. accounts db' i = Some a' \<and> extra a' = Some x' \<and> fixed_daily L t x'"
proof -
  let ?x0 = "x(''quota_used'' \<mapsto> JNumber (quotaNumber x ''quota_used'' + m))"
  obtain du x1 where d: "updateUsageBillingQuotaWindow L ''daily'' (24 * Hour) (quotaNumber x ''quota_daily_limit'')
      (quotaNumber x ''quota_daily_used'') m (clock e) ?x0 = (du, x1)" by fastforce
  obtain wu x2 where w: "updateUsageBillingQuotaWindow L ''weekly'' (7 * 24 * Hour) (quotaNumber x ''quota_weekly_limit'')
      (quotaNumber x ''quota_weekly_used'') m (clock e) x1 = (wu, x2)" by fastforce
  have st: "DailyUsed st = du" "accounts db' i = Some (a\<lparr>extra := Some x2\<rparr>)"
    using assms(1-3) d w by (auto simp: incrementUsageBillingAccountQuota_def Let_def split: if_splits)
  have "quota_window_expired L ''daily'' (24 * Hour) (clock e) ?x0"
    using assms(4,5) by (auto simp: quota_window_expired_def fixed_daily_def quotaTimestampExpired_def)
  then have "du = m" using d assms(4) by (auto simp: updateUsageBillingQuotaWindow_def fixed_daily_def Let_def)
  then show "DailyUsed st = m" using st by simp
  have "x2 k = x k" if "k \<in> {''quota_daily_reset_mode'', ''quota_daily_limit'', ''quota_daily_reset_at''}" for k
    using that window_frame [OF w, of k] window_frame [OF d, of k] by auto
  then have "fixed_daily L t x2" using assms(4) by (simp add: fixed_daily_def quotaNumber_def)
  then show "\<exists>a' x'. accounts db' i = Some a' \<and> extra a' = Some x' \<and> fixed_daily L t x'" using st by auto
qed

text \<open>C22. Once the fixed daily reset of an account's quota is due, the transaction that bills a request never moves the reset on:
  every later charge counts as the first of its day, so the daily usage after each charge is that charge alone and the
  daily limit never fills up.\<close>
theorem fixed_reset_forgets_usage:
  assumes "account_charges L i cs db = Inr (sts, db')" "accounts db i = Some a" "extra a = Some x" "fixed_daily L t x"
    "\<forall>c\<in>set cs. t \<le> clock (fst c)"
  shows "map DailyUsed sts = map snd cs"
  using assms
proof (induction cs arbitrary: db a x sts)
  case (Cons c cs)
  obtain e m where c: "c = (e, m)" by (cases c)
  obtain st db1 sts1 where s: "incrementUsageBillingAccountQuota L e i m db = Inr (st, db1)" "account_charges L i cs db1 = Inr (sts1, db')"
    "sts = st # sts1" using Cons.prems(1) by (auto simp: c split: sum.splits prod.splits)
  have "t \<le> clock e" using Cons.prems(5) by (simp add: c)
  note f = fixed_daily_charge [OF s(1) Cons.prems(2-4) this]
  from f(2) obtain a' x' where "accounts db1 i = Some a'" "extra a' = Some x'" "fixed_daily L t x'" by blast
  from Cons.IH [OF s(2) this] Cons.prems(5) have "map DailyUsed sts1 = map snd cs" by simp
  with f(1) show ?case by (simp add: c s)
qed simp

definition quota_account :: account_row where
  "quota_account = \<lparr>extra = Some [''quota_daily_limit'' \<mapsto> JNumber 5, ''quota_daily_reset_mode'' \<mapsto> JString ''fixed'',
     ''quota_daily_reset_at'' \<mapsto> JString ''5''], account_deleted = False\<rparr>"

lemma fixed_reset_forgets_usage_witness:
  "\<exists>sts db'. account_charges plain_lib 1 [(fine 6, 4), (fine 7, 4), (fine 8, 4)]
     (sample_billing_db\<lparr>accounts := [1 \<mapsto> quota_account]\<rparr>) = Inr (sts, db') \<and> map DailyUsed sts = [4, 4, 4]"
proof -
  let ?cs = "[(fine 6, 4), (fine 7, 4), (fine 8, 4)]" and ?db = "sample_billing_db\<lparr>accounts := [1 \<mapsto> quota_account]\<rparr>"
  have "case account_charges plain_lib 1 ?cs ?db of Inl e \<Rightarrow> False | Inr p \<Rightarrow> True" by code_simp
  then obtain sts db' where r: "account_charges plain_lib 1 ?cs ?db = Inr (sts, db')" by (auto split: sum.splits)
  obtain x where x: "extra quota_account = Some x" "fixed_daily plain_lib 5 x"
    by (simp add: quota_account_def fixed_daily_def json_string_def quotaNumber_def plain_lib_def ParseInt_def is_digit_def digits_value_def)
  have "map DailyUsed sts = map snd ?cs"
    by (rule fixed_reset_forgets_usage [OF r _ x]) (simp_all add: fine_def)
  then show ?thesis using r by simp
qed

end
