(* ===== verification/BatchImage.thy ===== *)
theory BatchImage
  imports UsageBilling "HOL-Library.List_Lexorder" "HOL-Library.Char_ord"
begin

text \<open>
  Batch image jobs: \<open>internal/service/batch_image*.go\<close> and \<open>internal/repository/batch_image_repo.go\<close>.

  A job is a row of the job table, its items and its hold in the billing tables. The methods of the services are written as
  workers that stop between two calls of the database or of the provider, so that they interleave in every way: the
  constructors of the \<open>point\<close> types are the program points, \<open>worker_step\<close> makes the next call and goes on. A call may fail without
  effect, or take effect and report an error. The queue decides when a worker starts; since a worker may start at any
  time it is left out of the state. Log lines, events and notifications are left out.
\<close>

section \<open>Jobs\<close>

datatype batch_status = StCreated | StUploading | StSubmitted | StRunning | StIndexing | StSettling
  | StCompleted | StFailed | StCancelled | StOutputDeleted

definition IsTerminalBatchImageJobStatus :: "batch_status \<Rightarrow> bool" where
  "IsTerminalBatchImageJobStatus s = (s \<in> {StCompleted, StFailed, StCancelled, StOutputDeleted})"

fun allowed_transitions :: "batch_status \<Rightarrow> batch_status list" where
  "allowed_transitions StCreated = [StUploading, StSubmitted, StCancelled]"
| "allowed_transitions StUploading = [StSubmitted, StCancelled]"
| "allowed_transitions StSubmitted = [StRunning, StIndexing, StFailed, StCancelled]"
| "allowed_transitions StRunning = [StRunning, StIndexing, StFailed, StCancelled]"
| "allowed_transitions StIndexing = [StSettling, StFailed]"
| "allowed_transitions StSettling = [StCompleted]"
| "allowed_transitions _ = []"

definition CanTransitionBatchImageJob :: "batch_status \<Rightarrow> batch_status \<Rightarrow> bool" where
  "CanTransitionBatchImageJob from to =
     (if IsTerminalBatchImageJobStatus from
      then to = StOutputDeleted \<and> from \<noteq> StOutputDeleted \<and> from \<in> {StCompleted, StFailed, StCancelled}
      else if to = StFailed then True
      else to \<in> set (allowed_transitions from))"

definition isBatchImageProcessorDoneStatus :: "batch_status \<Rightarrow> bool" where
  "isBatchImageProcessorDoneStatus s = (s = StSettling \<or> IsTerminalBatchImageJobStatus s)"

fun PublicBatchImageStatus :: "batch_status \<Rightarrow> string" where
  "PublicBatchImageStatus StCreated = ''queued''"
| "PublicBatchImageStatus StUploading = ''queued''"
| "PublicBatchImageStatus StSubmitted = ''queued''"
| "PublicBatchImageStatus StRunning = ''running''"
| "PublicBatchImageStatus StIndexing = ''processing_results''"
| "PublicBatchImageStatus StSettling = ''settling''"
| "PublicBatchImageStatus StCompleted = ''completed''"
| "PublicBatchImageStatus StFailed = ''failed''"
| "PublicBatchImageStatus StCancelled = ''cancelled''"
| "PublicBatchImageStatus StOutputDeleted = ''output_deleted''"

record BatchImageJob =
  BatchID :: string
  j_UserID :: ident
  j_APIKeyID :: "ident option"
  j_AccountID :: "ident option"
  Provider :: string
  j_Model :: string
  Status :: batch_status
  ProviderJobName :: "string option"
  ProviderOutputRef :: "string option"
  ItemCount :: int
  SuccessCount :: int
  FailCount :: int
  EstimatedCost :: money
  HoldAmount :: "money option"
  j_ActualCost :: "money option"
  BillableUnitPrice :: money
  PricingSnapshotVersion :: int
  RequestHash :: "string option"
  ManifestHash :: "string option"
  RetryCount :: int
  LastErrorCode :: "string option"
  UpdatedAt :: time
  InputDeletedAt :: "time option"
  OutputDeletedAt :: "time option"
  UserDeletedAt :: "time option"

definition deref :: "string option \<Rightarrow> string" where
  "deref s = (case s of None \<Rightarrow> [] | Some t \<Rightarrow> t)"

datatype batch_error =
    JobDBError
  | ErrBatchImageJobNotFound
  | ErrBatchImageJobExists
  | ErrBatchImageInvalidProvider
  | ErrBatchImageItemExists
  | ErrBatchImageInvalidTransition
  | ErrBatchImageIndexStateConflict
  | ErrBatchImageIndexOutputMissing
  | ErrBatchImageIndexParseFailed
  | ErrBatchImageDuplicateCustomID
  | ErrBatchImageIndexNoResultLines
  | ErrBatchImageAlreadySettled
  | ErrBatchImageSettlementInvalidStatus
  | ErrBatchImageSettlementManifestConflict
  | ErrBatchImageSettlementPricingMissing
  | ErrBatchImageSettlementMissingAPIKeyID
  | ErrBatchImageSettlementBillingFailed
  | ErrBatchImageBillingHoldFailed
  | ErrInsufficientBalance
  | ErrBatchImageRecordDeleteNotReady
  | ErrBatchImageInvalidItems
  | ErrBatchImageTooManyOutputImages
  | ErrBatchImagePromptTooLong
  | ErrBatchImageInvalidReferenceImage
  | ErrBatchImageTooManyReferenceImages
  | ErrBatchImageReferenceImagesTooLarge
  | ErrBatchImageDuplicateCustomIDInRequest

section \<open>Pricing of a request\<close>

definition defaultBatchImageDiscountMultiplier :: money where "defaultBatchImageDiscountMultiplier = 1 / 2"
definition defaultBatchImageHoldMultiplier :: money where "defaultBatchImageHoldMultiplier = 3 / 5"

record BatchImagePricingSnapshot =
  snap_BillableUnitPrice :: money
  snap_HoldUnitPrice :: money
  snap_EstimatedCost :: money
  snap_HoldAmount :: money

text \<open>The fields of the owner's group that pricing reads; the rate of the user in the group and the price of the model are answers.\<close>

record pricing_group =
  AllowBatchImageGeneration :: bool
  RateMultiplier :: money
  ImageRateIndependent :: bool
  ImageRateMultiplier :: money
  BatchImageDiscountMultiplier :: money
  BatchImageHoldMultiplier :: money
  image_price :: "money option"

definition clamp0 :: "money \<Rightarrow> money" where "clamp0 x = (if x < 0 then 0 else x)"

definition group_multiplier :: "pricing_group \<Rightarrow> money option \<Rightarrow> money" where
  "group_multiplier g user_rate =
     clamp0 (if ImageRateIndependent g then ImageRateMultiplier g
             else case user_rate of Some r \<Rightarrow> r | None \<Rightarrow> clamp0 (RateMultiplier g))"

text \<open>The outer option of \<open>grp\<close>: whether the owner has a group; the inner one: whether it was found.\<close>

definition resolvePricingSnapshot ::
  "pricing_group option option \<Rightarrow> money option option \<Rightarrow> money option \<Rightarrow> money \<Rightarrow> nat \<Rightarrow> BatchImagePricingSnapshot option" where
  "resolvePricingSnapshot grp user_rate model_price account_rate n =
     (case (case grp of
              None \<Rightarrow> Some (1, defaultBatchImageDiscountMultiplier, defaultBatchImageHoldMultiplier, -1)
            | Some None \<Rightarrow> None
            | Some (Some g) \<Rightarrow>
                if \<not> AllowBatchImageGeneration g then None
                else case user_rate of None \<Rightarrow> None
                | Some r \<Rightarrow> Some (group_multiplier g r, clamp0 (BatchImageDiscountMultiplier g),
                    (if 0 \<le> BatchImageHoldMultiplier g then BatchImageHoldMultiplier g else defaultBatchImageHoldMultiplier),
                    (case image_price g of Some p \<Rightarrow> if 0 \<le> p then p else -1 | None \<Rightarrow> -1))) of
        None \<Rightarrow> None
      | Some (gm, discount, hold, unit) \<Rightarrow>
          (case (if unit < 0 then (case model_price of None \<Rightarrow> None | Some p \<Rightarrow> if p < 0 then None else Some p) else Some unit) of
             None \<Rightarrow> None
           | Some unit \<Rightarrow>
               let hold = (if hold < discount then discount else hold);
                   standard = unit * gm * clamp0 account_rate
               in Some \<lparr>snap_BillableUnitPrice = standard * discount, snap_HoldUnitPrice = standard * hold,
                        snap_EstimatedCost = standard * discount * of_nat n, snap_HoldAmount = standard * hold * of_nat n\<rparr>))"

section \<open>Items of a request\<close>

definition pad0 :: "nat \<Rightarrow> nat \<Rightarrow> string" where
  "pad0 w n = replicate (w - length (nat_digits n)) (CHR ''0'') @ nat_digits n"

definition batchImageRepeatSuffixWidth :: "nat \<Rightarrow> nat" where
  "batchImageRepeatSuffixWidth n = (if n < 10 then 2 else length (nat_digits n))"

definition repeat_ids :: "string \<Rightarrow> nat \<Rightarrow> string list" where
  "repeat_ids cid n = (if 1 < n then map (\<lambda>i. cid @ CHR ''_'' # pad0 (batchImageRepeatSuffixWidth n) i) [1..<Suc n] else [cid])"

text \<open>The limits of the service, and an item: its reference images are their number and inline bytes as they were checked, or the error.\<close>

record submit_limits =
  maxItems :: int
  maxOutputImagesPerItem :: int
  maxOutputImagesPerJob :: int
  maxPromptChars :: int
  maxReferenceImagesPerJob :: int
  maxReferenceInlineBytesPerJob :: int

record submit_item =
  item_id :: string
  OutputCount :: int
  Prompt :: string
  references :: "batch_error + int \<times> int"

text \<open>The custom ids \<open>validateSubmitRequest\<close> expands the items to; \<open>outputs\<close>, \<open>refs\<close> and \<open>bytes\<close> are the totals so far.\<close>

fun expand_items :: "submit_limits \<Rightarrow> nat \<Rightarrow> int \<Rightarrow> int \<Rightarrow> int \<Rightarrow> string list \<Rightarrow> submit_item list \<Rightarrow> batch_error + string list" where
  "expand_items lims i outputs refs bytes seen [] = Inr seen"
| "expand_items lims i outputs refs bytes seen (it # rest) =
     (let cid = TrimSpace (item_id it); cid = (if cid = [] then ''item_'' @ pad0 6 (Suc i) else cid);
          count = (if OutputCount it = 0 then 1 else OutputCount it);
          prompt = TrimSpace (Prompt it)
      in if count < 1 \<or> maxOutputImagesPerItem lims < count then Inl ErrBatchImageInvalidItems
         else if maxOutputImagesPerJob lims < outputs + count then Inl ErrBatchImageTooManyOutputImages
         else if prompt = [] then Inl ErrBatchImageInvalidItems
         else if maxPromptChars lims < int (length prompt) then Inl ErrBatchImagePromptTooLong
         else case references it of
           Inl err \<Rightarrow> Inl err
         | Inr (n, b) \<Rightarrow>
             if maxReferenceImagesPerJob lims < refs + n * count then Inl ErrBatchImageTooManyReferenceImages
             else if maxReferenceInlineBytesPerJob lims < bytes + b * count then Inl ErrBatchImageReferenceImagesTooLarge
             else let ids = repeat_ids cid (nat count) in
               if \<not> distinct (seen @ ids) then Inl ErrBatchImageDuplicateCustomIDInRequest
               else expand_items lims (Suc i) (outputs + count) (refs + n * count) (bytes + b * count) (seen @ ids) rest)"

definition submit_items :: "submit_limits \<Rightarrow> submit_item list \<Rightarrow> batch_error + string list" where
  "submit_items lims its =
     (if its = [] \<or> maxItems lims < int (length its) then Inl ErrBatchImageInvalidItems
      else expand_items lims 0 0 0 0 [] its)"

section \<open>Holds\<close>

definition hold_amount :: "BatchImageJob \<Rightarrow> money" where
  "hold_amount j = clamp0 (case HoldAmount j of Some h \<Rightarrow> h | None \<Rightarrow> EstimatedCost j)"

definition buildBatchImageHoldCommand ::
  "BatchImageJob \<Rightarrow> string \<Rightarrow> money \<Rightarrow> string \<Rightarrow> batch_error + BatchImageBalanceHoldCommand" where
  "buildBatchImageHoldCommand j rid actual payload =
     (case j_APIKeyID j of
        None \<Rightarrow> Inl ErrBatchImageSettlementMissingAPIKeyID
      | Some k \<Rightarrow>
          if k \<le> 0 then Inl ErrBatchImageSettlementMissingAPIKeyID
          else Inr \<lparr>hc_RequestID = rid, hc_APIKeyID = k, hc_Fingerprint = [], hc_PayloadHash = TrimSpace payload,
                 hc_UserID = j_UserID j, hc_BatchID = BatchID j, hc_HoldAmount = hold_amount j, hc_ActualAmount = clamp0 actual\<rparr>)"

text \<open>Each returns the error, if any, and the billing tables.\<close>

definition reserveBatchImageBalanceHold ::
  "billing_lib \<Rightarrow> billing_env \<Rightarrow> BatchImageJob \<Rightarrow> string \<Rightarrow> billing_db \<Rightarrow> batch_error option \<times> billing_db" where
  "reserveBatchImageBalanceHold L e j payload db =
     (case buildBatchImageHoldCommand j (BatchImageHoldRequestID (BatchID j)) 0 payload of
        Inl x \<Rightarrow> (Some x, db)
      | Inr c \<Rightarrow>
          if hc_HoldAmount c \<le> 0 then (None, db)
          else case ReserveBatchImageBalance L e c db of
            (Inr r, db) \<Rightarrow> (None, db)
          | (Inl x, db) \<Rightarrow> (Some (if x = ErrBatchImageInsufficientBalance then ErrInsufficientBalance else ErrBatchImageBillingHoldFailed), db))"

definition captureBatchImageBalanceHold ::
  "billing_lib \<Rightarrow> billing_env \<Rightarrow> BatchImageJob \<Rightarrow> money \<Rightarrow> string \<Rightarrow> billing_db \<Rightarrow> batch_error option \<times> billing_db" where
  "captureBatchImageBalanceHold L e j actual payload db =
     (case buildBatchImageHoldCommand j (BatchImageCaptureRequestID (BatchID j)) actual payload of
        Inl x \<Rightarrow> (Some x, db)
      | Inr c \<Rightarrow>
          case CaptureBatchImageBalance L e c db of
            (Inr r, db) \<Rightarrow> (None, db)
          | (Inl x, db) \<Rightarrow> (Some ErrBatchImageSettlementBillingFailed, db))"

definition releaseBatchImageBalanceHold ::
  "billing_lib \<Rightarrow> billing_env \<Rightarrow> BatchImageJob \<Rightarrow> string \<Rightarrow> billing_db \<Rightarrow> batch_error option \<times> billing_db" where
  "releaseBatchImageBalanceHold L e j payload db =
     (case buildBatchImageHoldCommand j (BatchImageReleaseRequestID (BatchID j)) 0 payload of
        Inl x \<Rightarrow> (Some x, db)
      | Inr c \<Rightarrow>
          if hc_HoldAmount c \<le> 0 then (None, db)
          else case ReleaseBatchImageBalance L e c db of
            (Inr r, db) \<Rightarrow> (None, db)
          | (Inl x, db) \<Rightarrow> (if x = ErrUsageBillingRequestConflict then None else Some ErrBatchImageBillingHoldFailed, db))"

section \<open>Tables and repository\<close>

datatype item_status = ItemPending | ItemSuccess | ItemFailed

record BatchImageItem =
  CustomID :: string
  item_state :: item_status

text \<open>
  \<open>upstream\<close> and \<open>upstream_cancels\<close> list the jobs the provider accepted (batch, name) and the names it was asked to cancel.
  \<open>caps\<close> and \<open>others\<close> record what the billing calls took from users: the captured holds and all other charges.
\<close>

record batch_world =
  jobs :: "string \<rightharpoonup> BatchImageJob"
  items :: "string \<Rightarrow> BatchImageItem list"
  bdb :: billing_db
  upstream :: "(string \<times> string) list"
  upstream_cancels :: "string list"
  caps :: "(string \<times> ident \<times> money) list"
  others :: "(ident \<times> money) list"

definition put_job :: "BatchImageJob \<Rightarrow> batch_world \<Rightarrow> batch_world" where
  "put_job j w = w\<lparr>jobs := (jobs w)(BatchID j \<mapsto> j)\<rparr>"

text \<open>A call of the job tables: it succeeds, fails without effect, or takes effect and reports an error.\<close>

definition attempt :: "commit_outcome \<Rightarrow> batch_world \<Rightarrow> (batch_error + 'a) \<times> batch_world \<Rightarrow> (batch_error + 'a) \<times> batch_world" where
  "attempt t w r = (case t of Committed \<Rightarrow> r | CommitFailed \<Rightarrow> (Inl JobDBError, w) | CommitLost \<Rightarrow> (Inl JobDBError, snd r))"

definition IsSupportedBatchImageProvider :: "string \<Rightarrow> bool" where
  "IsSupportedBatchImageProvider p = (p \<in> {''gemini_api'', ''vertex''})"

definition CreateBatchImageJob :: "BatchImageJob \<Rightarrow> batch_world \<Rightarrow> (batch_error + BatchImageJob) \<times> batch_world" where
  "CreateBatchImageJob j w =
     (if \<not> IsSupportedBatchImageProvider (Provider j) then (Inl ErrBatchImageInvalidProvider, w)
      else if jobs w (BatchID j) \<noteq> None then (Inl ErrBatchImageJobExists, w)
      else (Inr j, put_job j w))"

definition GetBatchImageJobByBatchID :: "string \<Rightarrow> batch_world \<Rightarrow> batch_error + BatchImageJob" where
  "GetBatchImageJobByBatchID b w = (case jobs w b of None \<Rightarrow> Inl ErrBatchImageJobNotFound | Some j \<Rightarrow> Inr j)"

definition GetBatchImageJobByBatchIDForOwner :: "ident \<Rightarrow> ident \<Rightarrow> string \<Rightarrow> batch_world \<Rightarrow> batch_error + BatchImageJob" where
  "GetBatchImageJobByBatchIDForOwner user key b w =
     (case jobs w b of None \<Rightarrow> Inl ErrBatchImageJobNotFound
      | Some j \<Rightarrow> if j_UserID j = user \<and> j_APIKeyID j = Some key \<and> UserDeletedAt j = None then Inr j else Inl ErrBatchImageJobNotFound)"

text \<open>Update of the row of a batch, when it satisfies the condition; the answer is whether a row was affected.\<close>

definition update_job :: "string \<Rightarrow> (BatchImageJob \<Rightarrow> bool) \<Rightarrow> (BatchImageJob \<Rightarrow> BatchImageJob) \<Rightarrow> batch_world \<Rightarrow> bool \<times> batch_world" where
  "update_job b P f w = (case jobs w b of None \<Rightarrow> (False, w)
     | Some j \<Rightarrow> if P j then (True, w\<lparr>jobs := (jobs w)(b \<mapsto> f j)\<rparr>) else (False, w))"

definition TransitionBatchImageJobStatus ::
  "string \<Rightarrow> batch_status \<Rightarrow> string option \<Rightarrow> time \<Rightarrow> batch_world \<Rightarrow> (batch_error + unit) \<times> batch_world" where
  "TransitionBatchImageJobStatus b to code now w =
     (case jobs w b of None \<Rightarrow> (Inl ErrBatchImageJobNotFound, w)
      | Some j \<Rightarrow>
          if \<not> CanTransitionBatchImageJob (Status j) to then (Inl ErrBatchImageInvalidTransition, w)
          else (Inr (), w\<lparr>jobs := (jobs w)(b \<mapsto> j\<lparr>Status := to, UpdatedAt := now,
                  LastErrorCode := (if to = StFailed then code else LastErrorCode j),
                  OutputDeletedAt := (if to = StOutputDeleted \<and> OutputDeletedAt j = None then Some now else OutputDeletedAt j)\<rparr>)\<rparr>))"

definition TouchBatchImageJobSubmitting :: "string \<Rightarrow> time \<Rightarrow> batch_world \<Rightarrow> batch_world" where
  "TouchBatchImageJobSubmitting b now w =
     snd (update_job b (\<lambda>j. Status j \<in> {StCreated, StUploading}) (\<lambda>j. j\<lparr>UpdatedAt := now\<rparr>) w)"

definition FailStaleUnsubmittedBatchImageJob :: "string \<Rightarrow> time \<Rightarrow> string \<Rightarrow> time \<Rightarrow> batch_world \<Rightarrow> bool \<times> batch_world" where
  "FailStaleUnsubmittedBatchImageJob b cutoff code now w =
     update_job b (\<lambda>j. Status j \<in> {StCreated, StUploading} \<and> ProviderJobName j = None \<and> UpdatedAt j \<le> cutoff)
       (\<lambda>j. j\<lparr>Status := StFailed, LastErrorCode := Some code, UpdatedAt := now\<rparr>) w"

definition UpdateBatchImageJobProviderOutputRef :: "string \<Rightarrow> string \<Rightarrow> time \<Rightarrow> batch_world \<Rightarrow> (batch_error + unit) \<times> batch_world" where
  "UpdateBatchImageJobProviderOutputRef b ref now w =
     (let (hit, w) = update_job b (\<lambda>j. True) (\<lambda>j. j\<lparr>ProviderOutputRef := Some ref, UpdatedAt := now\<rparr>) w
      in (if hit then Inr () else Inl ErrBatchImageJobNotFound, w))"

definition nullif :: "string \<Rightarrow> string option" where "nullif s = (if s = [] then None else Some s)"

definition UpdateBatchImageJobProviderSubmit :: "string \<Rightarrow> string \<Rightarrow> string \<Rightarrow> time \<Rightarrow> batch_world \<Rightarrow> (batch_error + unit) \<times> batch_world" where
  "UpdateBatchImageJobProviderSubmit b name ref now w =
     (case jobs w b of None \<Rightarrow> (Inl ErrBatchImageJobNotFound, w)
      | Some j \<Rightarrow>
          if \<not> CanTransitionBatchImageJob (Status j) StSubmitted then (Inl ErrBatchImageInvalidTransition, w)
          else (Inr (), w\<lparr>jobs := (jobs w)(b \<mapsto> j\<lparr>Status := StSubmitted, ProviderJobName := Some name,
                  ProviderOutputRef := nullif ref, UpdatedAt := now\<rparr>)\<rparr>))"

definition RecordBatchImageJobSubmitFailure :: "string \<Rightarrow> string \<Rightarrow> bool \<Rightarrow> time \<Rightarrow> batch_world \<Rightarrow> batch_world" where
  "RecordBatchImageJobSubmitFailure b code markFailed now w =
     snd (update_job b (\<lambda>j. True)
       (\<lambda>j. j\<lparr>Status := (if markFailed then StFailed else Status j), LastErrorCode := Some code, UpdatedAt := now\<rparr>) w)"

definition MarkBatchImageJobSettled :: "string \<Rightarrow> money \<Rightarrow> string \<Rightarrow> time \<Rightarrow> batch_world \<Rightarrow> (batch_error + unit) \<times> batch_world" where
  "MarkBatchImageJobSettled b actual manifest now w =
     (case update_job b (\<lambda>j. Status j = StSettling \<and> (ManifestHash j = None \<or> ManifestHash j = Some [] \<or> ManifestHash j = Some manifest))
         (\<lambda>j. j\<lparr>Status := StCompleted, j_ActualCost := Some actual, ManifestHash := Some manifest, UpdatedAt := now\<rparr>) w of
        (True, w) \<Rightarrow> (Inr (), w)
      | (False, w) \<Rightarrow>
          (case jobs w b of None \<Rightarrow> (Inl ErrBatchImageJobNotFound, w)
           | Some j \<Rightarrow> (Inl (if Status j = StCompleted then ErrBatchImageAlreadySettled
               else if Status j \<noteq> StSettling then ErrBatchImageSettlementInvalidStatus
               else ErrBatchImageSettlementManifestConflict), w)))"

definition SetBatchImageJobSettlementFailed :: "string \<Rightarrow> string \<Rightarrow> time \<Rightarrow> batch_world \<Rightarrow> (batch_error + int) \<times> batch_world" where
  "SetBatchImageJobSettlementFailed b code now w =
     (case jobs w b of None \<Rightarrow> (Inl ErrBatchImageJobNotFound, w)
      | Some j \<Rightarrow> (Inr (RetryCount j + 1),
          w\<lparr>jobs := (jobs w)(b \<mapsto> j\<lparr>LastErrorCode := Some code, RetryCount := RetryCount j + 1, UpdatedAt := now\<rparr>)\<rparr>))"

definition BulkCreateBatchImageItems :: "string \<Rightarrow> string list \<Rightarrow> batch_world \<Rightarrow> (batch_error + unit) \<times> batch_world" where
  "BulkCreateBatchImageItems b ids w =
     (if \<not> distinct (map CustomID (items w b) @ ids) then (Inl ErrBatchImageItemExists, w)
      else (Inr (), w\<lparr>items := (items w)(b := items w b @ map (\<lambda>i. \<lparr>CustomID = i, item_state = ItemPending\<rparr>) ids)\<rparr>))"

definition ReplaceBatchImageItemsForJob :: "string \<Rightarrow> BatchImageItem list \<Rightarrow> int \<Rightarrow> int \<Rightarrow> time \<Rightarrow> batch_world \<Rightarrow> (batch_error + unit) \<times> batch_world" where
  "ReplaceBatchImageItemsForJob b its succ fail now w =
     (case jobs w b of None \<Rightarrow> (Inl ErrBatchImageJobNotFound, w)
      | Some j \<Rightarrow>
          if Status j \<noteq> StIndexing then (Inl ErrBatchImageIndexStateConflict, w)
          else if \<not> distinct (map CustomID its) then (Inl ErrBatchImageItemExists, w)
          else (Inr (), w\<lparr>jobs := (jobs w)(b \<mapsto> j\<lparr>SuccessCount := succ, FailCount := fail, UpdatedAt := now\<rparr>),
                  items := (items w)(b := its)\<rparr>))"

definition MarkBatchImageOutputDeleted :: "string \<Rightarrow> time \<Rightarrow> batch_world \<Rightarrow> (batch_error + unit) \<times> batch_world" where
  "MarkBatchImageOutputDeleted b deletedAt w =
     (let (hit, w) = update_job b (\<lambda>j. True) (\<lambda>j. j\<lparr>Status := (if Status j = StCompleted then StOutputDeleted else Status j),
        OutputDeletedAt := (if OutputDeletedAt j = None then Some deletedAt else OutputDeletedAt j), UpdatedAt := deletedAt\<rparr>) w
      in (if hit then Inr () else Inl ErrBatchImageJobNotFound, w))"

definition MarkBatchImageInputDeleted :: "string \<Rightarrow> time \<Rightarrow> batch_world \<Rightarrow> (batch_error + unit) \<times> batch_world" where
  "MarkBatchImageInputDeleted b deletedAt w =
     (let (hit, w) = update_job b (\<lambda>j. True) (\<lambda>j. j\<lparr>InputDeletedAt := (if InputDeletedAt j = None then Some deletedAt else InputDeletedAt j),
        UpdatedAt := deletedAt\<rparr>) w
      in (if hit then Inr () else Inl ErrBatchImageJobNotFound, w))"

definition MarkBatchImageJobUserDeleted :: "ident \<Rightarrow> ident \<Rightarrow> string \<Rightarrow> time \<Rightarrow> batch_world \<Rightarrow> (batch_error + unit) \<times> batch_world" where
  "MarkBatchImageJobUserDeleted user key b deletedAt w =
     (let (hit, w) = update_job b (\<lambda>j. j_UserID j = user \<and> j_APIKeyID j = Some key \<and> UserDeletedAt j = None \<and>
          Status j \<in> {StCompleted, StFailed, StCancelled, StOutputDeleted}) (\<lambda>j. j\<lparr>UserDeletedAt := Some deletedAt, UpdatedAt := deletedAt\<rparr>) w
      in (if hit then Inr () else Inl ErrBatchImageRecordDeleteNotReady, w))"

definition RecordBatchImageCleanupFailure :: "string \<Rightarrow> string \<Rightarrow> time \<Rightarrow> batch_world \<Rightarrow> batch_world" where
  "RecordBatchImageCleanupFailure b code now w =
     snd (update_job b (\<lambda>j. True) (\<lambda>j. j\<lparr>LastErrorCode := Some code, RetryCount := RetryCount j + 1, UpdatedAt := now\<rparr>) w)"

section \<open>Indexing of the provider's output\<close>

text \<open>
  The lines of the output as \<open>ParseBatchImageResultLine\<close> reads them: a custom id with the success flag, or an error; blank
  lines are gone. Lines of unknown items are skipped, missing items are added as failed, in the order of their ids.
\<close>

fun index_lines :: "string list \<Rightarrow> BatchImageItem list \<Rightarrow> (batch_error + string \<times> bool) list \<Rightarrow> batch_error + BatchImageItem list" where
  "index_lines expected found [] = Inr found"
| "index_lines expected found (Inl err # ls) = Inl err"
| "index_lines expected found (Inr (cid, ok) # ls) =
     (if expected \<noteq> [] \<and> cid \<notin> set expected then index_lines expected found ls
      else if cid \<in> set (map CustomID found) then Inl ErrBatchImageDuplicateCustomID
      else index_lines expected (found @ [\<lparr>CustomID = cid, item_state = (if ok then ItemSuccess else ItemFailed)\<rparr>]) ls)"

definition missing_items :: "string list \<Rightarrow> BatchImageItem list \<Rightarrow> BatchImageItem list" where
  "missing_items expected found =
     map (\<lambda>i. \<lparr>CustomID = i, item_state = ItemFailed\<rparr>) (sort (filter (\<lambda>i. i \<notin> set (map CustomID found)) (remdups expected)))"

definition Index_results :: "string list \<Rightarrow> (batch_error + string \<times> bool) list \<Rightarrow> bool \<Rightarrow> batch_error + BatchImageItem list" where
  "Index_results expected ls read_error =
     (case index_lines expected [] ls of
        Inl err \<Rightarrow> Inl err
      | Inr found \<Rightarrow>
          if read_error then Inl ErrBatchImageIndexParseFailed
          else let its = found @ missing_items expected found
               in if its = [] then Inl ErrBatchImageIndexNoResultLines else Inr its)"

definition count_success :: "BatchImageItem list \<Rightarrow> int" where
  "count_success its = int (length (filter (\<lambda>i. item_state i = ItemSuccess) its))"

definition count_failed :: "BatchImageItem list \<Rightarrow> int" where
  "count_failed its = int (length (filter (\<lambda>i. item_state i \<noteq> ItemSuccess) its))"

section \<open>Settlement\<close>

definition batchImageSettlementMaxRetries :: int where "batchImageSettlementMaxRetries = 5"

definition isBatchImageSettlementRetryExhausted :: "BatchImageJob \<Rightarrow> bool" where
  "isBatchImageSettlementRetryExhausted j =
     (Status j = StSettling \<and> batchImageSettlementMaxRetries \<le> RetryCount j \<and> HasPrefix (deref (LastErrorCode j)) ''SETTLEMENT_'')"

fun join_nul :: "string list \<Rightarrow> string" where
  "join_nul [] = []"
| "join_nul [s] = s"
| "join_nul (s # t # ts) = s @ char_of (0::nat) # join_nul (t # ts)"

definition BuildBatchImageSettlementManifestHash :: "billing_lib \<Rightarrow> BatchImageJob \<Rightarrow> string" where
  "BuildBatchImageSettlementManifestHash L j = sha256_hex L (join_nul
     [TrimSpace (BatchID j), TrimSpace (Provider j), TrimSpace (j_Model j), deref (ProviderJobName j), deref (ProviderOutputRef j),
      FormatInt (SuccessCount j), FormatInt (FailCount j), FormatInt (ItemCount j)])"

text \<open>\<open>price\<close> is the price of the pricing service, asked for jobs without a price snapshot.\<close>

definition settlementUnitPrice :: "money option \<Rightarrow> BatchImageJob \<Rightarrow> money option" where
  "settlementUnitPrice price j =
     (if 1 \<le> PricingSnapshotVersion j then (if BillableUnitPrice j < 0 then None else Some (BillableUnitPrice j)) else price)"

datatype settle_plan = SettleStop | SettleExhausted | SettleProblem string | SettleAmount money

definition settle_checks :: "billing_lib \<Rightarrow> money option \<Rightarrow> BatchImageJob \<Rightarrow> settle_plan" where
  "settle_checks L price j =
     (if Status j \<noteq> StSettling then SettleStop
      else if (case j_APIKeyID j of None \<Rightarrow> True | Some k \<Rightarrow> k \<le> 0) then SettleStop
      else if (case j_AccountID j of None \<Rightarrow> True | Some k \<Rightarrow> k \<le> 0) then SettleStop
      else if isBatchImageSettlementRetryExhausted j then SettleExhausted
      else if SuccessCount j < 0 \<or> FailCount j < 0 \<or> ItemCount j < 0 \<or> ItemCount j < SuccessCount j + FailCount j
      then SettleProblem ''SETTLEMENT_INVALID_COUNTS''
      else if TrimSpace (deref (ManifestHash j)) \<noteq> [] \<and> deref (ManifestHash j) \<noteq> BuildBatchImageSettlementManifestHash L j
      then SettleProblem ''SETTLEMENT_MANIFEST_CONFLICT''
      else case settlementUnitPrice price j of
        None \<Rightarrow> SettleProblem ''SETTLEMENT_PRICING_MISSING''
      | Some unit \<Rightarrow>
          if unit < 0 then SettleProblem ''SETTLEMENT_PRICING_MISSING''
          else let actual = of_int (SuccessCount j) * unit in
            if cost_epsilon < actual - (case HoldAmount j of Some h \<Rightarrow> h | None \<Rightarrow> EstimatedCost j)
            then SettleProblem ''SETTLEMENT_COST_EXCEEDS_HOLD''
            else SettleAmount actual)"

section \<open>Workers\<close>

record submit_request =
  rq_batch :: string
  rq_user :: ident
  rq_key :: ident
  rq_account :: ident
  rq_provider :: string
  rq_model :: string
  rq_ids :: "string list"
  rq_price :: BatchImagePricingSnapshot
  rq_hash :: string

definition submitted_job :: "submit_request \<Rightarrow> time \<Rightarrow> BatchImageJob" where
  "submitted_job r now = \<lparr>BatchID = rq_batch r, j_UserID = rq_user r, j_APIKeyID = Some (rq_key r), j_AccountID = Some (rq_account r),
     Provider = rq_provider r, j_Model = rq_model r, Status = StCreated, ProviderJobName = None, ProviderOutputRef = None,
     ItemCount = int (length (rq_ids r)), SuccessCount = 0, FailCount = 0, EstimatedCost = snap_EstimatedCost (rq_price r),
     HoldAmount = Some (snap_HoldAmount (rq_price r)), j_ActualCost = None, BillableUnitPrice = snap_BillableUnitPrice (rq_price r),
     PricingSnapshotVersion = 1, RequestHash = Some (rq_hash r), ManifestHash = None, RetryCount = 0, LastErrorCode = None,
     UpdatedAt = now, InputDeletedAt = None, OutputDeletedAt = None, UserDeletedAt = None\<rparr>"

datatype provider_state = PsQueued | PsRunning | PsSucceeded | PsFailed string | PsExpired string | PsCancelled | PsUnknown

text \<open>The answers of one step: of the database, of the billing tables, of the provider and of the pricing service.\<close>

record batch_env =
  outcome :: commit_outcome
  benv :: billing_env
  now :: time
  submitted_as :: "(string \<times> string) option"
  call_ok :: bool
  provider_reply :: "(provider_state \<times> string) option"
  result_lines :: "(batch_error + string \<times> bool) list option"
  read_error :: bool
  unit_price :: "money option"

datatype submit_point =
    SubmitCreate submit_request
  | SubmitReserve BatchImageJob "string list"
  | SubmitItems BatchImageJob "string list"
  | SubmitUploading BatchImageJob
  | SubmitProvider BatchImageJob
  | SubmitUpdate BatchImageJob string string
  | SubmitQueueFailed BatchImageJob
  | SubmitAbort BatchImageJob string
  | SubmitRelease BatchImageJob "string option"
  | SubmitFail BatchImageJob string
  | SubmitHide BatchImageJob

datatype cancel_point =
    CancelRead ident ident string
  | CancelProvider BatchImageJob
  | CancelTransition BatchImageJob
  | CancelRelease BatchImageJob

datatype process_point =
    ProcessRead string
  | ProcessStatus BatchImageJob
  | ProcessPersist BatchImageJob provider_state string
  | ProcessState BatchImageJob provider_state
  | ProcessIndex BatchImageJob
  | ProcessScan BatchImageJob "string list"
  | ProcessReplace BatchImageJob "BatchImageItem list"
  | ProcessSettling BatchImageJob
  | ProcessFail BatchImageJob string
  | ProcessRelease BatchImageJob

datatype settle_point =
    SettleRead string
  | SettleCapture BatchImageJob money
  | SettleRecord BatchImageJob string
  | SettleMark BatchImageJob money
  | SettleRelease BatchImageJob
  | SettleNote BatchImageJob
  | SettleFail BatchImageJob

datatype upkeep_point =
    RecoverFail BatchImageJob time
  | RecoverRelease BatchImageJob
  | CleanupRead string bool
  | CleanupProvider BatchImageJob bool
  | CleanupMark BatchImageJob bool
  | CleanupFailed BatchImageJob
  | DeleteRead ident ident string
  | DeleteMark BatchImageJob

text \<open>\<open>Pipeline\<close> is a worker of the queue that has yet to see what the job needs.\<close>

datatype worker = Pipeline string | Submit submit_point | Cancel cancel_point | Process process_point | Settle settle_point | Upkeep upkeep_point

text \<open>
  A step of a billing call for a job: the tables after it, with the charge it made on record. A capture that made its claim is one
  of the \<open>caps\<close>.
\<close>

definition captured_by :: "billing_lib \<Rightarrow> billing_env \<Rightarrow> BatchImageJob \<Rightarrow> money \<Rightarrow> string \<Rightarrow> billing_db \<Rightarrow> (string \<times> ident \<times> money) list" where
  "captured_by L e j actual payload db =
     (case buildBatchImageHoldCommand j (BatchImageCaptureRequestID (BatchID j)) actual payload of
        Inl x \<Rightarrow> []
      | Inr c \<Rightarrow> if makes_claim (billing_step L) claimed (event_key L) (ECapture e c) db
                 then [(BatchID j, j_UserID j, event_charge L (j_UserID j) (ECapture e c))] else [])"

definition release_step :: "billing_lib \<Rightarrow> batch_env \<Rightarrow> BatchImageJob \<Rightarrow> batch_world \<Rightarrow> batch_error option \<times> batch_world" where
  "release_step L e j w =
     (let (err, db) = releaseBatchImageBalanceHold L (benv e) j (deref (RequestHash j)) (bdb w) in (err, w\<lparr>bdb := db\<rparr>))"

fun submit_step :: "billing_lib \<Rightarrow> batch_env \<Rightarrow> submit_point \<Rightarrow> batch_world \<Rightarrow> submit_point option \<times> batch_world" where
  "submit_step L e (SubmitCreate r) w =
     (case attempt (outcome e) w (CreateBatchImageJob (submitted_job r (now e)) w) of
        (Inr j, w) \<Rightarrow> (Some (SubmitReserve j (rq_ids r)), w) | (Inl x, w) \<Rightarrow> (None, w))"
| "submit_step L e (SubmitReserve j ids) w =
     (let (err, db) = reserveBatchImageBalanceHold L (benv e) j (deref (RequestHash j)) (bdb w); w = w\<lparr>bdb := db\<rparr> in
      case err of None \<Rightarrow> (Some (SubmitItems j ids), w)
      | Some x \<Rightarrow> (Some (SubmitFail j (if x = ErrInsufficientBalance then ''INSUFFICIENT_BALANCE'' else ''BILLING_HOLD_FAILED'')), w))"
| "submit_step L e (SubmitItems j ids) w =
     (case attempt (outcome e) w (BulkCreateBatchImageItems (BatchID j) ids w) of
        (Inr u, w) \<Rightarrow> (Some (SubmitUploading j), w) | (Inl x, w) \<Rightarrow> (Some (SubmitRelease j (Some ''ITEM_CREATE_FAILED'')), w))"
| "submit_step L e (SubmitUploading j) w =
     (case attempt (outcome e) w (TransitionBatchImageJobStatus (BatchID j) StUploading None (now e) w) of
        (Inr u, w) \<Rightarrow> (Some (SubmitProvider (j\<lparr>Status := StUploading\<rparr>)), w)
      | (Inl x, w) \<Rightarrow> (Some (SubmitRelease j (if x = ErrBatchImageInvalidTransition then None else Some ''UPLOAD_TRANSITION_FAILED'')), w))"
| "submit_step L e (SubmitProvider j) w =
     (case submitted_as e of
        None \<Rightarrow> (Some (SubmitRelease j (Some ''PROVIDER_SUBMIT_FAILED'')), w)
      | Some (name, ref) \<Rightarrow>
          if TrimSpace name = [] then (Some (SubmitRelease j (Some ''PROVIDER_SUBMIT_FAILED'')), w)
          else (Some (SubmitUpdate j name ref), w\<lparr>upstream := upstream w @ [(BatchID j, name)]\<rparr>))"
| "submit_step L e (SubmitUpdate j name ref) w =
     (case attempt (outcome e) w (UpdateBatchImageJobProviderSubmit (BatchID j) name ref (now e) w) of
        (Inr u, w) \<Rightarrow> (if call_ok e then None else Some (SubmitQueueFailed j), w)
      | (Inl x, w) \<Rightarrow> (Some (SubmitAbort j name), w))"
| "submit_step L e (SubmitQueueFailed j) w =
     (None, if outcome e = CommitFailed then w else RecordBatchImageJobSubmitFailure (BatchID j) ''QUEUE_FAILED'' False (now e) w)"
| "submit_step L e (SubmitAbort j name) w =
     (None, if call_ok e then w\<lparr>upstream_cancels := upstream_cancels w @ [name]\<rparr> else w)"
| "submit_step L e (SubmitRelease j code) w =
     (case release_step L e j w of
        (None, w) \<Rightarrow> (map_option (SubmitFail j) code, w) | (Some x, w) \<Rightarrow> (Some (SubmitFail j ''BILLING_RELEASE_FAILED''), w))"
| "submit_step L e (SubmitFail j code) w =
     (if code = ''BILLING_RELEASE_FAILED'' then None else Some (SubmitHide j),
      if outcome e = CommitFailed then w else RecordBatchImageJobSubmitFailure (BatchID j) code True (now e) w)"
| "submit_step L e (SubmitHide j) w =
     (None, if ProviderJobName j \<noteq> None then w
            else snd (attempt (outcome e) w (MarkBatchImageJobUserDeleted (j_UserID j) (valueOrZero (j_APIKeyID j)) (BatchID j) (now e) w)))"

fun cancel_step :: "billing_lib \<Rightarrow> batch_env \<Rightarrow> cancel_point \<Rightarrow> batch_world \<Rightarrow> cancel_point option \<times> batch_world" where
  "cancel_step L e (CancelRead user key b) w =
     (if outcome e \<noteq> Committed then (None, w)
      else case GetBatchImageJobByBatchIDForOwner user key b w of
        Inl x \<Rightarrow> (None, w)
      | Inr j \<Rightarrow>
          (if isBatchImageProcessorDoneStatus (Status j)
           then (if Status j = StFailed \<or> Status j = StCancelled then Some (CancelRelease j) else None)
           else if TrimSpace (deref (ProviderJobName j)) \<noteq> [] then Some (CancelProvider j)
           else Some (CancelTransition j), w))"
| "cancel_step L e (CancelProvider j) w =
     (None, if j_AccountID j \<noteq> None \<and> call_ok e
            then w\<lparr>upstream_cancels := upstream_cancels w @ [deref (ProviderJobName j)]\<rparr> else w)"
| "cancel_step L e (CancelTransition j) w =
     (case attempt (outcome e) w (TransitionBatchImageJobStatus (BatchID j) StCancelled None (now e) w) of
        (Inr u, w) \<Rightarrow> (Some (CancelRelease j), w) | (Inl x, w) \<Rightarrow> (None, w))"
| "cancel_step L e (CancelRelease j) w = (None, snd (release_step L e j w))"

definition transition_to :: "batch_env \<Rightarrow> BatchImageJob \<Rightarrow> batch_status \<Rightarrow> string option \<Rightarrow> 'p option \<Rightarrow> batch_world \<Rightarrow>
    'p option \<times> batch_world" where
  "transition_to e j st code next w =
     (case attempt (outcome e) w (TransitionBatchImageJobStatus (BatchID j) st code (now e) w) of
        (Inr u, w) \<Rightarrow> (next, w) | (Inl x, w) \<Rightarrow> (None, w))"

fun process_step :: "billing_lib \<Rightarrow> batch_env \<Rightarrow> process_point \<Rightarrow> batch_world \<Rightarrow> process_point option \<times> batch_world" where
  "process_step L e (ProcessRead b) w =
     (if outcome e \<noteq> Committed then (None, w)
      else case GetBatchImageJobByBatchID b w of
        Inl x \<Rightarrow> (None, w)
      | Inr j \<Rightarrow>
          (if isBatchImageProcessorDoneStatus (Status j)
           then (if Status j = StFailed \<or> Status j = StCancelled then Some (ProcessRelease j) else None)
           else if (case j_AccountID j of None \<Rightarrow> True | Some a \<Rightarrow> a \<le> 0) \<or> \<not> call_ok e then None
           else if TrimSpace (deref (ProviderJobName j)) = [] then None
           else if Status j = StIndexing then Some (ProcessIndex j)
           else Some (ProcessStatus j), w))"
| "process_step L e (ProcessStatus j) w =
     (case provider_reply e of
        None \<Rightarrow> (None, w)
      | Some (st, ref) \<Rightarrow>
          (let ref = TrimSpace ref in
           if ref = [] \<or> deref (ProviderOutputRef j) = ref then Some (ProcessState j st) else Some (ProcessPersist j st ref), w))"
| "process_step L e (ProcessPersist j st ref) w =
     (case attempt (outcome e) w (UpdateBatchImageJobProviderOutputRef (BatchID j) ref (now e) w) of
        (Inr u, w) \<Rightarrow> (Some (ProcessState (j\<lparr>ProviderOutputRef := Some ref\<rparr>) st), w) | (Inl x, w) \<Rightarrow> (None, w))"
| "process_step L e (ProcessState j st) w =
     (case st of
        PsQueued \<Rightarrow> (None, w)
      | PsUnknown \<Rightarrow> (None, w)
      | PsRunning \<Rightarrow> if Status j \<noteq> StRunning then transition_to e j StRunning None None w else (None, w)
      | PsSucceeded \<Rightarrow>
          if Status j \<noteq> StIndexing then transition_to e j StIndexing None (Some (ProcessIndex (j\<lparr>Status := StIndexing\<rparr>))) w
          else (Some (ProcessIndex j), w)
      | PsFailed code \<Rightarrow>
          transition_to e j StFailed (Some (if TrimSpace code = [] then ''PROVIDER_BATCH_FAILED'' else TrimSpace code))
            (Some (ProcessRelease (j\<lparr>Status := StFailed\<rparr>))) w
      | PsExpired code \<Rightarrow>
          transition_to e j StFailed (Some (if TrimSpace code = [] then ''PROVIDER_BATCH_EXPIRED'' else TrimSpace code))
            (Some (ProcessRelease (j\<lparr>Status := StFailed\<rparr>))) w
      | PsCancelled \<Rightarrow> transition_to e j StCancelled None (Some (ProcessRelease (j\<lparr>Status := StCancelled\<rparr>))) w)"
| "process_step L e (ProcessIndex j) w =
     (if outcome e \<noteq> Committed then (Some (ProcessFail j ''INDEX_PARSE_FAILED''), w)
      else (Some (ProcessScan j (map CustomID (items w (BatchID j)))), w))"
| "process_step L e (ProcessScan j expected) w =
     (case result_lines e of
        None \<Rightarrow> (None, w)
      | Some ls \<Rightarrow>
          (case Index_results expected ls (read_error e) of
             Inr its \<Rightarrow> (Some (ProcessReplace j its), w)
           | Inl x \<Rightarrow> (Some (ProcessFail j (if x = ErrBatchImageDuplicateCustomID then ''DUPLICATE_CUSTOM_ID_IN_OUTPUT''
                                         else ''INDEX_PARSE_FAILED'')), w)))"
| "process_step L e (ProcessReplace j its) w =
     (case attempt (outcome e) w (ReplaceBatchImageItemsForJob (BatchID j) its (count_success its) (count_failed its) (now e) w) of
        (Inr u, w) \<Rightarrow> (Some (ProcessSettling j), w)
      | (Inl x, w) \<Rightarrow> (if x = ErrBatchImageIndexStateConflict then None else Some (ProcessFail j ''INDEX_PARSE_FAILED''), w))"
| "process_step L e (ProcessSettling j) w = transition_to e j StSettling None None w"
| "process_step L e (ProcessFail j code) w =
     transition_to e j StFailed (Some code) (Some (ProcessRelease (j\<lparr>Status := StFailed\<rparr>))) w"
| "process_step L e (ProcessRelease j) w =
     (None, if Status j = StFailed \<or> Status j = StCancelled then snd (release_step L e j w) else w)"

fun settle_step :: "billing_lib \<Rightarrow> batch_env \<Rightarrow> settle_point \<Rightarrow> batch_world \<Rightarrow> settle_point option \<times> batch_world" where
  "settle_step L e (SettleRead b) w =
     (if outcome e \<noteq> Committed then (None, w)
      else case GetBatchImageJobByBatchID b w of
        Inl x \<Rightarrow> (None, w)
      | Inr j \<Rightarrow>
          (case settle_checks L (unit_price e) j of
             SettleStop \<Rightarrow> None
           | SettleExhausted \<Rightarrow> Some (SettleRelease j)
           | SettleProblem code \<Rightarrow> Some (SettleRecord j code)
           | SettleAmount actual \<Rightarrow> Some (SettleCapture j actual), w))"
| "settle_step L e (SettleCapture j actual) w =
     (let manifest = BuildBatchImageSettlementManifestHash L j;
          cap = captured_by L (benv e) j actual manifest (bdb w);
          (err, db) = captureBatchImageBalanceHold L (benv e) j actual manifest (bdb w);
          w = w\<lparr>bdb := db, caps := caps w @ cap\<rparr>
      in (Some (if err = None then SettleMark j actual else SettleRecord j ''SETTLEMENT_BILLING_FAILED''), w))"
| "settle_step L e (SettleRecord j code) w =
     (case attempt (outcome e) w (SetBatchImageJobSettlementFailed (BatchID j) code (now e) w) of
        (Inl x, w) \<Rightarrow> (None, w)
      | (Inr n, w) \<Rightarrow>
          (if batchImageSettlementMaxRetries \<le> n then Some (SettleRelease (j\<lparr>RetryCount := n, LastErrorCode := Some code\<rparr>)) else None, w))"
| "settle_step L e (SettleMark j actual) w =
     (None, snd (attempt (outcome e) w (MarkBatchImageJobSettled (BatchID j) actual (BuildBatchImageSettlementManifestHash L j) (now e) w)))"
| "settle_step L e (SettleRelease j) w =
     (case release_step L e j w of (None, w) \<Rightarrow> (Some (SettleFail j), w) | (Some x, w) \<Rightarrow> (Some (SettleNote j), w))"
| "settle_step L e (SettleNote j) w =
     (None, snd (attempt (outcome e) w (SetBatchImageJobSettlementFailed (BatchID j) ''SETTLEMENT_RELEASE_FAILED'' (now e) w)))"
| "settle_step L e (SettleFail j) w = transition_to e j StFailed (Some ''SETTLEMENT_BILLING_RETRY_EXHAUSTED'') None w"

text \<open>The recovery of stale jobs works on rows it listed; clean-up and deletion of records.\<close>

definition listed_stale :: "batch_world \<Rightarrow> BatchImageJob \<Rightarrow> time \<Rightarrow> bool" where
  "listed_stale w j cutoff = (jobs w (BatchID j) = Some j \<and> Status j \<in> {StCreated, StUploading} \<and> ProviderJobName j = None \<and>
     0 < (case HoldAmount j of Some h \<Rightarrow> h | None \<Rightarrow> EstimatedCost j) \<and> UpdatedAt j \<le> cutoff)"

fun upkeep_step :: "billing_lib \<Rightarrow> batch_env \<Rightarrow> upkeep_point \<Rightarrow> batch_world \<Rightarrow> upkeep_point option \<times> batch_world" where
  "upkeep_step L e (RecoverFail j cutoff) w =
     (if outcome e = CommitFailed then (None, w)
      else let (applied, w) = FailStaleUnsubmittedBatchImageJob (BatchID j) cutoff ''SUBMIT_STALE_BEFORE_PROVIDER'' (now e) w
           in (if applied then Some (RecoverRelease (j\<lparr>Status := StFailed\<rparr>)) else None, w))"
| "upkeep_step L e (RecoverRelease j) w = (None, snd (release_step L e j w))"
| "upkeep_step L e (CleanupRead b output) w =
     (if outcome e \<noteq> Committed then (None, w)
      else case GetBatchImageJobByBatchID b w of
        Inl x \<Rightarrow> (None, w)
      | Inr j \<Rightarrow>
          (if output then (if OutputDeletedAt j \<noteq> None \<or> Status j \<notin> {StCompleted, StFailed, StCancelled} then None
                           else Some (CleanupProvider j output))
           else (if InputDeletedAt j \<noteq> None \<or> \<not> IsTerminalBatchImageJobStatus (Status j) then None
                 else Some (CleanupProvider j output)), w))"
| "upkeep_step L e (CleanupProvider j output) w = (Some (if call_ok e then CleanupMark j output else CleanupFailed j), w)"
| "upkeep_step L e (CleanupMark j output) w =
     (None, snd (attempt (outcome e) w (if output then MarkBatchImageOutputDeleted (BatchID j) (now e) w
                                        else MarkBatchImageInputDeleted (BatchID j) (now e) w)))"
| "upkeep_step L e (CleanupFailed j) w =
     (None, if outcome e = CommitFailed then w else RecordBatchImageCleanupFailure (BatchID j) ''CLEANUP_FAILED'' (now e) w)"
| "upkeep_step L e (DeleteRead user key b) w =
     (if outcome e \<noteq> Committed then (None, w)
      else case GetBatchImageJobByBatchIDForOwner user key b w of
        Inl x \<Rightarrow> (None, w)
      | Inr j \<Rightarrow> (if isBatchImageProcessorDoneStatus (Status j) then Some (DeleteMark j) else None, w))"
| "upkeep_step L e (DeleteMark j) w =
     (None, snd (attempt (outcome e) w (MarkBatchImageJobUserDeleted (j_UserID j) (valueOrZero (j_APIKeyID j)) (BatchID j) (now e) w)))"

definition worker_step :: "billing_lib \<Rightarrow> batch_env \<Rightarrow> worker \<Rightarrow> batch_world \<Rightarrow> worker option \<times> batch_world" where
  "worker_step L e c w =
     (case c of
        Pipeline b \<Rightarrow>
          (if outcome e \<noteq> Committed then (None, w)
           else case GetBatchImageJobByBatchID b w of
             Inl x \<Rightarrow> (None, w)
           | Inr j \<Rightarrow> (Some (if Status j = StSettling then Settle (SettleRead b) else Process (ProcessRead b)), w))
      | Submit p \<Rightarrow> map_prod (map_option Submit) id (submit_step L e p w)
      | Cancel p \<Rightarrow> map_prod (map_option Cancel) id (cancel_step L e p w)
      | Process p \<Rightarrow> map_prod (map_option Process) id (process_step L e p w)
      | Settle p \<Rightarrow> map_prod (map_option Settle) id (settle_step L e p w)
      | Upkeep p \<Rightarrow> map_prod (map_option Upkeep) id (upkeep_step L e p w))"

end
