(* ===== verification/BatchImageSystem.thy ===== *)
theory BatchImageSystem
  imports BatchImage
begin

text \<open>
  The batch image system: the job tables, the billing tables and all running workers, under every interleaving of their calls,
  crashes, failing calls and other billing traffic. A run is a list of actions; actions that are not possible do nothing.
\<close>

section \<open>Runs\<close>

text \<open>What \<open>Submit\<close> works on before it creates the job: the request, the limits, and what it reads of group, user and prices.\<close>

record submit_input =
  in_batch :: string
  in_user :: ident
  in_key :: ident
  in_account :: ident
  in_provider :: string
  in_model :: string
  in_items :: "submit_item list"
  in_limits :: submit_limits
  in_group :: "pricing_group option option"
  in_user_rate :: "money option option"
  in_model_price :: "money option"
  in_account_rate :: money
  in_hash :: string

text \<open>Batch ids are \<open>imgbatch_\<close> and hexadecimal digits; keys of requests are positive.\<close>

definition valid_batch_id :: "string \<Rightarrow> bool" where
  "valid_batch_id b = (HasPrefix b ''imgbatch_'' \<and> list_all (\<lambda>c. \<not> is_space c) b)"

definition submit_start :: "submit_input \<Rightarrow> submit_request option" where
  "submit_start i =
     (if \<not> valid_batch_id (in_batch i) \<or> in_key i \<le> 0 then None
      else case submit_items (in_limits i) (in_items i) of
        Inl x \<Rightarrow> None
      | Inr ids \<Rightarrow>
          (case resolvePricingSnapshot (in_group i) (in_user_rate i) (in_model_price i) (in_account_rate i) (length ids) of
             None \<Rightarrow> None
           | Some p \<Rightarrow> Some \<lparr>rq_batch = in_batch i, rq_user = in_user i, rq_key = in_key i, rq_account = in_account i,
               rq_provider = in_provider i, rq_model = in_model i, rq_ids = ids, rq_price = p, rq_hash = in_hash i\<rparr>))"

record batch_system =
  world :: batch_world
  workers :: "worker list"

datatype action =
    StartSubmit submit_input
  | StartPipeline string
  | StartCancel ident ident string
  | StartRecover string time
  | StartCleanup string bool
  | StartDelete ident ident string
  | StepWorker nat batch_env
  | CrashWorker nat
  | TouchJob string time
  | OtherBilling billing_event

text \<open>Billing calls of the rest of the program use other request ids than the holds.\<close>

definition foreign :: "billing_lib \<Rightarrow> billing_event \<Rightarrow> bool" where
  "foreign L ev = (case ev of EApply e c \<Rightarrow> \<not> HasPrefix (RequestID (Normalize L c)) ''batch_image_''
     | ECleanup cutoff ts n \<Rightarrow> True | _ \<Rightarrow> False)"

definition foreign_charges :: "billing_lib \<Rightarrow> billing_event \<Rightarrow> billing_db \<Rightarrow> (ident \<times> money) list" where
  "foreign_charges L ev db = (case ev of
     EApply e c \<Rightarrow> if makes_claim (billing_step L) claimed (event_key L) ev db then [(UserID c, event_charge L (UserID c) ev)] else []
   | _ \<Rightarrow> [])"

definition add_worker :: "worker \<Rightarrow> batch_system \<Rightarrow> batch_system" where
  "add_worker c s = s\<lparr>workers := workers s @ [c]\<rparr>"

definition drop_worker :: "nat \<Rightarrow> 'a list \<Rightarrow> 'a list" where
  "drop_worker i cs = take i cs @ drop (Suc i) cs"

fun system_step :: "billing_lib \<Rightarrow> action \<Rightarrow> batch_system \<Rightarrow> batch_system" where
  "system_step L (StartSubmit i) s =
     (case submit_start i of None \<Rightarrow> s | Some r \<Rightarrow> add_worker (Submit (SubmitCreate r)) s)"
| "system_step L (StartPipeline b) s = add_worker (Pipeline b) s"
| "system_step L (StartCancel u k b) s = add_worker (Cancel (CancelRead u k b)) s"
| "system_step L (StartRecover b cutoff) s =
     (case jobs (world s) b of None \<Rightarrow> s
      | Some j \<Rightarrow> if listed_stale (world s) j cutoff then add_worker (Upkeep (RecoverFail j cutoff)) s else s)"
| "system_step L (StartCleanup b target) s = add_worker (Upkeep (CleanupRead b target)) s"
| "system_step L (StartDelete u k b) s = add_worker (Upkeep (DeleteRead u k b)) s"
| "system_step L (StepWorker i e) s =
     (if i < length (workers s)
      then (case worker_step L e (workers s ! i) (world s) of
              (None, w) \<Rightarrow> \<lparr>world = w, workers = drop_worker i (workers s)\<rparr>
            | (Some c, w) \<Rightarrow> \<lparr>world = w, workers = (workers s)[i := c]\<rparr>)
      else s)"
| "system_step L (CrashWorker i) s = s\<lparr>workers := drop_worker i (workers s)\<rparr>"
| "system_step L (TouchJob b t) s = s\<lparr>world := TouchBatchImageJobSubmitting b t (world s)\<rparr>"
| "system_step L (OtherBilling ev) s =
     (if foreign L ev
      then s\<lparr>world := (world s)\<lparr>bdb := snd (billing_step L ev (bdb (world s))),
              others := others (world s) @ foreign_charges L ev (bdb (world s))\<rparr>\<rparr>
      else s)"

definition run_system :: "billing_lib \<Rightarrow> action list \<Rightarrow> batch_system \<Rightarrow> batch_system" where
  "run_system L acts s = fold (system_step L) acts s"

text \<open>The start: no jobs, and no claims in the billing tables.\<close>

definition start_system :: "billing_db \<Rightarrow> batch_system" where
  "start_system db = \<lparr>world = \<lparr>jobs = Map.empty, items = \<lambda>b. [], bdb = db\<lparr>dedup := [], dedup_archive := []\<rparr>, upstream = [],
     upstream_cancels = [], caps = [], others = []\<rparr>, workers = []\<rparr>"

text \<open>What a settled job owes.\<close>

definition due :: "BatchImageJob \<Rightarrow> money" where
  "due j = of_int (SuccessCount j) * BillableUnitPrice j"

section \<open>The invariant\<close>

fun rank :: "batch_status \<Rightarrow> nat" where
  "rank StCreated = 0" | "rank StUploading = 1" | "rank StSubmitted = 2" | "rank StRunning = 3" | "rank StIndexing = 4"
| "rank StSettling = 5" | "rank _ = 6"

definition settled_phase :: "batch_status \<Rightarrow> bool" where
  "settled_phase s = (s \<in> {StSettling, StCompleted, StFailed, StOutputDeleted})"

definition counts_ok :: "BatchImageJob \<Rightarrow> bool" where
  "counts_ok j = (0 \<le> SuccessCount j \<and> 0 \<le> FailCount j \<and> SuccessCount j + FailCount j = ItemCount j)"

definition same_counts :: "BatchImageJob \<Rightarrow> BatchImageJob \<Rightarrow> bool" where
  "same_counts j j' = (SuccessCount j' = SuccessCount j \<and> FailCount j' = FailCount j)"

text \<open>The fields of a job that never change.\<close>

definition same_terms :: "BatchImageJob \<Rightarrow> BatchImageJob \<Rightarrow> bool" where
  "same_terms j j' = (BatchID j' = BatchID j \<and> j_UserID j' = j_UserID j \<and> j_APIKeyID j' = j_APIKeyID j \<and> HoldAmount j' = HoldAmount j \<and>
     EstimatedCost j' = EstimatedCost j \<and> BillableUnitPrice j' = BillableUnitPrice j \<and> ItemCount j' = ItemCount j \<and>
     PricingSnapshotVersion j' = PricingSnapshotVersion j \<and> RequestHash j' = RequestHash j)"

text \<open>What one update may do to a row.\<close>

definition row_step :: "BatchImageJob \<Rightarrow> BatchImageJob \<Rightarrow> bool" where
  "row_step j j' = (same_terms j j' \<and> rank (Status j) \<le> rank (Status j') \<and>
     (settled_phase (Status j) \<longrightarrow> settled_phase (Status j') \<and> same_counts j j') \<and>
     (Status j = StIndexing \<longrightarrow> Status j' = StIndexing \<longrightarrow> counts_ok j \<longrightarrow> counts_ok j'))"

definition terms_ok :: "string \<Rightarrow> BatchImageJob \<Rightarrow> bool" where
  "terms_ok b j = (BatchID j = b \<and> valid_batch_id b \<and> (\<exists>k. j_APIKeyID j = Some k \<and> 0 < k) \<and> PricingSnapshotVersion j = 1 \<and>
     0 \<le> BillableUnitPrice j \<and> (\<exists>h. HoldAmount j = Some h \<and> BillableUnitPrice j * of_int (ItemCount j) \<le> h))"

text \<open>\<open>W b\<close> are the custom ids batch \<open>b\<close> was submitted with.\<close>

definition row_ok :: "(string \<Rightarrow> string list) \<Rightarrow> batch_world \<Rightarrow> string \<Rightarrow> BatchImageJob \<Rightarrow> bool" where
  "row_ok W w b j = (terms_ok b j \<and> W b \<noteq> [] \<and> distinct (W b) \<and> ItemCount j = int (length (W b)) \<and>
     (Status j \<in> {StSubmitted, StRunning, StIndexing} \<longrightarrow> items w b \<noteq> []) \<and>
     (Status j \<in> {StSettling, StCompleted, StOutputDeleted} \<longrightarrow> counts_ok j) \<and>
     (Status j \<in> {StCompleted, StOutputDeleted} \<longrightarrow> (b, j_UserID j, due j) \<in> set (caps w) \<and> j_ActualCost j = Some (due j)))"

definition items_ok :: "(string \<Rightarrow> string list) \<Rightarrow> batch_world \<Rightarrow> bool" where
  "items_ok W w = (\<forall>b. items w b \<noteq> [] \<longrightarrow> jobs w b \<noteq> None \<and> distinct (map CustomID (items w b)) \<and> set (map CustomID (items w b)) = set (W b))"

definition cap_ok :: "batch_world \<Rightarrow> string \<times> ident \<times> money \<Rightarrow> bool" where
  "cap_ok w c = (case c of (b, u, m) \<Rightarrow> \<exists>j k. jobs w b = Some j \<and> u = j_UserID j \<and> m = due j \<and> settled_phase (Status j) \<and> counts_ok j \<and>
     j_APIKeyID j = Some k \<and> claimed (bdb w) (BatchImageCaptureRequestID b, k))"

definition caps_ok :: "batch_world \<Rightarrow> bool" where
  "caps_ok w = (distinct (map fst (caps w)) \<and> (\<forall>c\<in>set (caps w). cap_ok w c) \<and>
     (\<forall>b k. valid_batch_id b \<longrightarrow> claimed (bdb w) (BatchImageCaptureRequestID b, k) \<longrightarrow> b \<in> fst ` set (caps w)))"

definition taken_from :: "ident \<Rightarrow> batch_world \<Rightarrow> money" where
  "taken_from u w = (\<Sum>c\<leftarrow>caps w. if fst (snd c) = u then snd (snd c) else 0) + (\<Sum>c\<leftarrow>others w. if fst c = u then snd c else 0)"

definition world_inv :: "(ident \<Rightarrow> money) \<Rightarrow> (string \<Rightarrow> string list) \<Rightarrow> batch_world \<Rightarrow> bool" where
  "world_inv F W w = ((\<forall>b j. jobs w b = Some j \<longrightarrow> row_ok W w b j) \<and> items_ok W w \<and> caps_ok w \<and>
     (\<forall>u. funds (bdb w) u = F u - taken_from u w))"

text \<open>Later worlds.\<close>

definition later :: "(string \<Rightarrow> string list) \<Rightarrow> batch_world \<Rightarrow> (string \<Rightarrow> string list) \<Rightarrow> batch_world \<Rightarrow> bool" where
  "later W w W' w' = ((\<forall>b j. jobs w b = Some j \<longrightarrow> W' b = W b \<and> (\<exists>j'. jobs w' b = Some j' \<and> row_step j j')) \<and>
     (\<forall>b. items w b \<noteq> [] \<longrightarrow> items w' b \<noteq> []) \<and> set (caps w) \<subseteq> set (caps w'))"

text \<open>What a worker knows of the job it read.\<close>

definition knows :: "batch_world \<Rightarrow> BatchImageJob \<Rightarrow> bool" where
  "knows w j = (\<exists>row. jobs w (BatchID j) = Some row \<and> same_terms row j)"

definition knows_items :: "batch_world \<Rightarrow> BatchImageJob \<Rightarrow> bool" where
  "knows_items w j = (knows w j \<and> items w (BatchID j) \<noteq> [])"

definition knows_settling :: "batch_world \<Rightarrow> BatchImageJob \<Rightarrow> bool" where
  "knows_settling w j = (\<exists>row. jobs w (BatchID j) = Some row \<and> same_terms row j \<and> same_counts row j \<and> settled_phase (Status row) \<and>
     counts_ok row)"

fun submit_inv :: "(string \<Rightarrow> string list) \<Rightarrow> batch_world \<Rightarrow> submit_point \<Rightarrow> bool" where
  "submit_inv W w (SubmitCreate r) = (valid_batch_id (rq_batch r) \<and> 0 < rq_key r \<and> rq_ids r \<noteq> [] \<and> distinct (rq_ids r) \<and>
     0 \<le> snap_BillableUnitPrice (rq_price r) \<and>
     snap_BillableUnitPrice (rq_price r) * of_nat (length (rq_ids r)) \<le> snap_HoldAmount (rq_price r))"
| "submit_inv W w (SubmitReserve j ids) = (knows w j \<and> ids = W (BatchID j))"
| "submit_inv W w (SubmitItems j ids) = (knows w j \<and> ids = W (BatchID j))"
| "submit_inv W w (SubmitUploading j) = knows_items w j"
| "submit_inv W w (SubmitProvider j) = knows_items w j"
| "submit_inv W w (SubmitUpdate j x y) = knows_items w j"
| "submit_inv W w (SubmitQueueFailed j) = knows w j"
| "submit_inv W w (SubmitAbort j x) = knows w j"
| "submit_inv W w (SubmitRelease j x) = knows w j"
| "submit_inv W w (SubmitFail j x) = knows w j"
| "submit_inv W w (SubmitHide j) = knows w j"

fun cancel_inv :: "batch_world \<Rightarrow> cancel_point \<Rightarrow> bool" where
  "cancel_inv w (CancelRead u k b) = True"
| "cancel_inv w (CancelProvider j) = knows w j"
| "cancel_inv w (CancelTransition j) = knows w j"
| "cancel_inv w (CancelRelease j) = knows w j"

fun process_inv :: "(string \<Rightarrow> string list) \<Rightarrow> batch_world \<Rightarrow> process_point \<Rightarrow> bool" where
  "process_inv W w (ProcessRead b) = True"
| "process_inv W w (ProcessStatus j) = (knows w j \<and> Status j \<noteq> StIndexing)"
| "process_inv W w (ProcessPersist j st ref) = (knows w j \<and> Status j \<noteq> StIndexing)"
| "process_inv W w (ProcessState j st) = (knows w j \<and> Status j \<noteq> StIndexing)"
| "process_inv W w (ProcessIndex j) = knows_items w j"
| "process_inv W w (ProcessScan j expected) = (knows w j \<and> expected \<noteq> [] \<and> distinct expected \<and> set expected = set (W (BatchID j)))"
| "process_inv W w (ProcessReplace j its) = (knows w j \<and> distinct (map CustomID its) \<and> set (map CustomID its) = set (W (BatchID j)))"
| "process_inv W w (ProcessSettling j) = (\<exists>row. jobs w (BatchID j) = Some row \<and> same_terms row j \<and> 4 \<le> rank (Status row) \<and>
     (Status row = StIndexing \<longrightarrow> counts_ok row))"
| "process_inv W w (ProcessFail j x) = knows w j"
| "process_inv W w (ProcessRelease j) = knows w j"

fun settle_inv :: "batch_world \<Rightarrow> settle_point \<Rightarrow> bool" where
  "settle_inv w (SettleRead b) = True"
| "settle_inv w (SettleCapture j m) = (knows_settling w j \<and> m = due j)"
| "settle_inv w (SettleRecord j x) = knows w j"
| "settle_inv w (SettleMark j m) = (knows_settling w j \<and> m = due j \<and> (BatchID j, j_UserID j, due j) \<in> set (caps w))"
| "settle_inv w (SettleRelease j) = knows w j"
| "settle_inv w (SettleNote j) = knows w j"
| "settle_inv w (SettleFail j) = knows w j"

fun upkeep_inv :: "batch_world \<Rightarrow> upkeep_point \<Rightarrow> bool" where
  "upkeep_inv w (RecoverFail j t) = knows w j"
| "upkeep_inv w (RecoverRelease j) = knows w j"
| "upkeep_inv w (CleanupRead b x) = True"
| "upkeep_inv w (CleanupProvider j x) = knows w j"
| "upkeep_inv w (CleanupMark j x) = knows w j"
| "upkeep_inv w (CleanupFailed j) = knows w j"
| "upkeep_inv w (DeleteRead u k b) = True"
| "upkeep_inv w (DeleteMark j) = knows w j"

fun worker_inv :: "(string \<Rightarrow> string list) \<Rightarrow> batch_world \<Rightarrow> worker \<Rightarrow> bool" where
  "worker_inv W w (Pipeline b) = True"
| "worker_inv W w (Submit p) = submit_inv W w p"
| "worker_inv W w (Cancel p) = cancel_inv w p"
| "worker_inv W w (Process p) = process_inv W w p"
| "worker_inv W w (Settle p) = settle_inv w p"
| "worker_inv W w (Upkeep p) = upkeep_inv w p"

definition system_inv :: "(ident \<Rightarrow> money) \<Rightarrow> batch_system \<Rightarrow> bool" where
  "system_inv F s = (\<exists>W. world_inv F W (world s) \<and> (\<forall>c\<in>set (workers s). worker_inv W (world s) c))"

section \<open>What workers know stays true\<close>

lemma same_terms_refl [simp]: "same_terms j j"
  by (simp add: same_terms_def)

lemma same_terms_trans: "same_terms a b \<Longrightarrow> same_terms b c \<Longrightarrow> same_terms a c"
  by (simp add: same_terms_def)

lemma same_terms_sym: "same_terms a b \<Longrightarrow> same_terms b a"
  by (simp add: same_terms_def)

lemma same_terms_id: "same_terms a b \<Longrightarrow> BatchID b = BatchID a"
  by (simp add: same_terms_def)

lemma row_step_refl [simp]: "row_step j j"
  by (simp add: row_step_def same_counts_def)

lemma row_step_terms: "row_step j j' \<Longrightarrow> same_terms j j'"
  by (simp add: row_step_def)

lemma later_refl [simp]: "later W w W w"
  by (simp add: later_def)

lemma laterE:
  assumes "later W w W' w'" "jobs w b = Some j"
  obtains j' where "jobs w' b = Some j'" "row_step j j'" "W' b = W b"
  using assms unfolding later_def by blast

lemma knows_later:
  assumes l: "later W w W' w'" and k: "knows w j"
  shows "knows w' j" "W' (BatchID j) = W (BatchID j)"
proof -
  from k obtain row where row: "jobs w (BatchID j) = Some row" "same_terms row j" unfolding knows_def by blast
  from l row(1) obtain row' where r: "jobs w' (BatchID j) = Some row'" "row_step row row'" "W' (BatchID j) = W (BatchID j)" by (rule laterE)
  have "same_terms row' j" using row_step_terms [OF r(2)] row(2) same_terms_sym same_terms_trans by blast
  with r show "knows w' j" "W' (BatchID j) = W (BatchID j)" by (auto simp: knows_def)
qed

lemma knows_items_later: "later W w W' w' \<Longrightarrow> knows_items w j \<Longrightarrow> knows_items w' j"
  unfolding knows_items_def using knows_later by (auto simp: later_def)

lemma counts_ok_step: "same_terms j j' \<Longrightarrow> same_counts j j' \<Longrightarrow> counts_ok j' = counts_ok j"
  by (simp add: same_terms_def same_counts_def counts_ok_def)

lemma due_step: "same_terms j j' \<Longrightarrow> same_counts j j' \<Longrightarrow> due j' = due j"
  by (simp add: same_terms_def same_counts_def due_def)

lemma knows_settling_later:
  assumes l: "later W w W' w'" and k: "knows_settling w j"
  shows "knows_settling w' j"
proof -
  from k obtain row where row: "jobs w (BatchID j) = Some row" "same_terms row j" "same_counts row j" "settled_phase (Status row)" "counts_ok row"
    unfolding knows_settling_def by blast
  from l row(1) obtain row' where r: "jobs w' (BatchID j) = Some row'" "row_step row row'" by (rule laterE)
  from r(2) row(4) have s: "settled_phase (Status row')" "same_counts row row'" "same_terms row row'" by (simp_all add: row_step_def)
  have "same_terms row' j" using s(3) row(2) same_terms_sym same_terms_trans by blast
  moreover have "same_counts row' j" using s(2) row(3) by (simp add: same_counts_def)
  ultimately show ?thesis using r(1) s row(5) counts_ok_step by (auto simp: knows_settling_def)
qed

lemma worker_inv_later:
  assumes l: "later W w W' w'" and c: "worker_inv W w c"
  shows "worker_inv W' w' c"
proof -
  have s: "process_inv W' w' (ProcessSettling j)" if pc: "process_inv W w (ProcessSettling j)" for j
  proof -
    from pc obtain row where row: "jobs w (BatchID j) = Some row" "same_terms row j" "4 \<le> rank (Status row)"
      "Status row = StIndexing \<longrightarrow> counts_ok row" by auto
    from l row(1) obtain row' where r: "jobs w' (BatchID j) = Some row'" "row_step row row'" by (rule laterE)
    have "same_terms row' j" using row_step_terms [OF r(2)] row(2) same_terms_sym same_terms_trans by blast
    moreover have "4 \<le> rank (Status row')" using r(2) row(3) by (simp add: row_step_def)
    moreover have "counts_ok row'" if i: "Status row' = StIndexing"
    proof -
      have "rank (Status row) \<le> 4" using r(2) i by (simp add: row_step_def)
      then have "Status row = StIndexing" using row(3) by (cases "Status row") simp_all
      then show ?thesis using r(2) row(4) i by (simp add: row_step_def)
    qed
    ultimately show ?thesis using r(1) by simp
  qed
  show ?thesis
  proof (cases c)
    case (Submit p)
    with c show ?thesis by (cases p) (auto simp: knows_later [OF l] knows_items_later [OF l])
  next
    case (Cancel p)
    with c show ?thesis by (cases p) (auto simp: knows_later [OF l])
  next
    case (Process p)
    with c s show ?thesis
      by (cases p) (auto simp: knows_later [OF l] knows_items_later [OF l] simp del: process_inv.simps(8))
  next
    case (Settle p)
    have "set (caps w) \<subseteq> set (caps w')" using l by (simp add: later_def)
    with Settle c show ?thesis by (cases p) (auto simp: knows_later [OF l] knows_settling_later [OF l])
  next
    case (Upkeep p)
    with c show ?thesis by (cases p) (auto simp: knows_later [OF l])
  qed simp
qed

section \<open>Calls of the job tables keep the invariant\<close>

definition good :: "(ident \<Rightarrow> money) \<Rightarrow> (string \<Rightarrow> string list) \<Rightarrow> batch_world \<Rightarrow> batch_world \<Rightarrow> bool" where
  "good F W w w' = (world_inv F W w' \<and> later W w W w')"

lemma good_refl: "world_inv F W w \<Longrightarrow> good F W w w"
  by (simp add: good_def)

lemma good_attempt: "world_inv F W w \<Longrightarrow> good F W w (snd r) \<Longrightarrow> good F W w (snd (attempt t w r))"
  by (cases t) (simp_all add: attempt_def good_refl)

lemma attempt_Inr: "attempt t w r = (Inr x, w') \<Longrightarrow> r = (Inr x, w')"
  by (cases t) (auto simp: attempt_def)

lemma row_ok_mono:
  "row_ok W w b j \<Longrightarrow> (items w b \<noteq> [] \<Longrightarrow> items w' b \<noteq> []) \<Longrightarrow> set (caps w) \<subseteq> set (caps w') \<Longrightarrow> row_ok W w' b j"
  by (auto simp: row_ok_def)

lemma row_ok_same:
  "row_ok W w b j \<Longrightarrow> same_terms j j' \<Longrightarrow> same_counts j j' \<Longrightarrow> Status j' = Status j \<Longrightarrow> j_ActualCost j' = j_ActualCost j \<Longrightarrow> row_ok W w b j'"
  using counts_ok_step [of j j'] due_step [of j j'] by (auto simp: row_ok_def terms_ok_def same_terms_def)

lemma row_ok_terms: "row_ok W w b j \<Longrightarrow> same_terms j j' \<Longrightarrow> terms_ok b j' \<and> ItemCount j' = int (length (W b))"
  by (auto simp: row_ok_def terms_ok_def same_terms_def)

lemma cap_ok_update:
  assumes "cap_ok w c" "jobs w b = Some j" "row_step j j'"
  shows "cap_ok (w\<lparr>jobs := (jobs w)(b \<mapsto> j')\<rparr>) c"
proof (cases c)
  case (fields b' u m)
  show ?thesis
  proof (cases "b' = b")
    case True
    with assms(1,2) fields obtain k where
      c: "u = j_UserID j" "m = due j" "settled_phase (Status j)" "counts_ok j" "j_APIKeyID j = Some k"
        "claimed (bdb w) (BatchImageCaptureRequestID b, k)" by (auto simp: cap_ok_def)
    from assms(3) c(3) have s: "same_terms j j'" "settled_phase (Status j')" "same_counts j j'" by (simp_all add: row_step_def)
    from s c have "u = j_UserID j'" "m = due j'" "counts_ok j'" "j_APIKeyID j' = Some k"
      using due_step [OF s(1,3)] counts_ok_step [OF s(1,3)] by (simp_all add: same_terms_def)
    with True fields s(2) c(6) show ?thesis by (simp add: cap_ok_def)
  next
    case False
    with assms(1) fields show ?thesis by (simp add: cap_ok_def)
  qed
qed

lemma row_update:
  assumes inv: "world_inv F W w" and j: "jobs w b = Some j" and st: "row_step j j'" and ok: "row_ok W w b j'"
  shows "good F W w (w\<lparr>jobs := (jobs w)(b \<mapsto> j')\<rparr>)"
proof -
  let ?w = "w\<lparr>jobs := (jobs w)(b \<mapsto> j')\<rparr>"
  have "row_ok W ?w b' j''" if "jobs ?w b' = Some j''" for b' j''
    using that ok inv row_ok_mono [of W w b' j'' ?w] by (auto simp: world_inv_def split: if_splits)
  moreover have "caps_ok ?w" using inv cap_ok_update [OF _ j st] by (simp add: world_inv_def caps_ok_def)
  moreover have "items_ok W ?w" using inv by (simp add: world_inv_def items_ok_def)
  ultimately have "world_inv F W ?w" using inv by (simp add: world_inv_def taken_from_def)
  moreover have "later W w W ?w" using j st by (auto simp: later_def)
  ultimately show ?thesis by (simp add: good_def)
qed

lemma inv_row: "world_inv F W w \<Longrightarrow> jobs w b = Some j \<Longrightarrow> row_ok W w b j"
  by (simp add: world_inv_def)

lemma update_good:
  assumes "world_inv F W w" "\<And>j. jobs w b = Some j \<Longrightarrow> P j \<Longrightarrow> row_step j (f j) \<and> row_ok W w b (f j)"
  shows "good F W w (snd (update_job b P f w))"
  using assms row_update [OF assms(1)] by (auto simp: update_job_def good_refl split: option.splits)

text \<open>Updates that touch neither the status nor the counts, and updates to a failed status.\<close>

lemma plain_update:
  "row_ok W w b j \<Longrightarrow> same_terms j j' \<Longrightarrow> same_counts j j' \<Longrightarrow> Status j' = Status j \<Longrightarrow> j_ActualCost j' = j_ActualCost j \<Longrightarrow>
   row_step j j' \<and> row_ok W w b j'"
  using counts_ok_step [of j j'] row_ok_same by (auto simp: row_step_def)

lemma failing_update:
  assumes "row_ok W w b j" "same_terms j j'" "same_counts j j'" "Status j' = StFailed"
  shows "row_step j j' \<and> row_ok W w b j'"
proof
  show "row_step j j'" using assms by (cases "Status j") (simp_all add: row_step_def settled_phase_def)
  show "row_ok W w b j'" using row_ok_terms [OF assms(1,2)] assms by (auto simp: row_ok_def)
qed

lemma touch_good: "world_inv F W w \<Longrightarrow> good F W w (TouchBatchImageJobSubmitting b t w)"
  unfolding TouchBatchImageJobSubmitting_def
  by (rule update_good, assumption, rule plain_update, erule inv_row, assumption) (simp_all add: same_terms_def same_counts_def)

lemma output_ref_good: "world_inv F W w \<Longrightarrow> good F W w (snd (UpdateBatchImageJobProviderOutputRef b ref t w))"
  unfolding UpdateBatchImageJobProviderOutputRef_def case_prod_beta Let_def snd_conv
  by (rule update_good, assumption, rule plain_update, erule inv_row, assumption) (simp_all add: same_terms_def same_counts_def)

lemma input_deleted_good: "world_inv F W w \<Longrightarrow> good F W w (snd (MarkBatchImageInputDeleted b t w))"
  unfolding MarkBatchImageInputDeleted_def case_prod_beta Let_def snd_conv
  by (rule update_good, assumption, rule plain_update, erule inv_row, assumption) (simp_all add: same_terms_def same_counts_def)

lemma user_deleted_good: "world_inv F W w \<Longrightarrow> good F W w (snd (MarkBatchImageJobUserDeleted u k b t w))"
  unfolding MarkBatchImageJobUserDeleted_def case_prod_beta Let_def snd_conv
  by (rule update_good, assumption, rule plain_update, erule inv_row, assumption) (simp_all add: same_terms_def same_counts_def)

lemma cleanup_failure_good: "world_inv F W w \<Longrightarrow> good F W w (RecordBatchImageCleanupFailure b code t w)"
  unfolding RecordBatchImageCleanupFailure_def
  by (rule update_good, assumption, rule plain_update, erule inv_row, assumption) (simp_all add: same_terms_def same_counts_def)

lemma submit_failure_good: "world_inv F W w \<Longrightarrow> good F W w (RecordBatchImageJobSubmitFailure b code m t w)"
  unfolding RecordBatchImageJobSubmitFailure_def
  apply (rule update_good, assumption)
  apply (cases m)
   apply (rule failing_update, erule inv_row, assumption)
     apply (simp_all add: same_terms_def same_counts_def)
  apply (rule plain_update, erule inv_row, assumption)
     apply (simp_all add: same_terms_def same_counts_def)
  done

lemma stale_good: "world_inv F W w \<Longrightarrow> good F W w (snd (FailStaleUnsubmittedBatchImageJob b cutoff code t w))"
  unfolding FailStaleUnsubmittedBatchImageJob_def
  by (rule update_good, assumption, rule failing_update, erule inv_row, assumption) (simp_all add: same_terms_def same_counts_def)

lemma settlement_failed_good:
  assumes inv: "world_inv F W w"
  shows "good F W w (snd (SetBatchImageJobSettlementFailed b code t w))"
proof (cases "jobs w b")
  case None
  then show ?thesis using inv by (simp add: SetBatchImageJobSettlementFailed_def good_refl)
next
  case (Some j)
  let ?j = "j\<lparr>LastErrorCode := Some code, RetryCount := RetryCount j + 1, UpdatedAt := t\<rparr>"
  have "row_step j ?j \<and> row_ok W w b ?j"
    by (rule plain_update [OF inv_row [OF inv Some]]) (simp_all add: same_terms_def same_counts_def)
  then show ?thesis using row_update [OF inv Some] by (simp add: SetBatchImageJobSettlementFailed_def Some)
qed

lemma output_deleted_good: "world_inv F W w \<Longrightarrow> good F W w (snd (MarkBatchImageOutputDeleted b t w))"
  unfolding MarkBatchImageOutputDeleted_def case_prod_beta Let_def snd_conv
proof (rule update_good, assumption)
  fix j
  assume inv: "world_inv F W w" and j: "jobs w b = Some j"
  let ?j = "j\<lparr>Status := (if Status j = StCompleted then StOutputDeleted else Status j),
      OutputDeletedAt := (if OutputDeletedAt j = None then Some t else OutputDeletedAt j), UpdatedAt := t\<rparr>"
  have s: "same_terms j ?j" "same_counts j ?j" by (simp_all add: same_terms_def same_counts_def)
  note r = inv_row [OF inv j]
  show "row_step j ?j \<and> row_ok W w b ?j"
  proof (cases "Status j = StCompleted")
    case True
    then show ?thesis using r s row_ok_terms [OF r s(1)] counts_ok_step [OF s] due_step [OF s]
      by (simp add: row_step_def settled_phase_def row_ok_def)
  next
    case False
    then show ?thesis using plain_update [OF r s] by simp
  qed
qed

lemma transition_good:
  assumes inv: "world_inv F W w" and to: "to \<in> {StUploading, StCancelled, StFailed, StRunning, StIndexing, StSettling}"
    and c: "\<And>j. to = StSettling \<Longrightarrow> jobs w b = Some j \<Longrightarrow> Status j = StIndexing \<Longrightarrow> counts_ok j"
  shows "good F W w (snd (TransitionBatchImageJobStatus b to code t w))"
proof (cases "jobs w b")
  case None
  then show ?thesis using inv by (simp add: TransitionBatchImageJobStatus_def good_refl)
next
  case (Some j)
  let ?j = "j\<lparr>Status := to, UpdatedAt := t, LastErrorCode := (if to = StFailed then code else LastErrorCode j),
      OutputDeletedAt := (if to = StOutputDeleted \<and> OutputDeletedAt j = None then Some t else OutputDeletedAt j)\<rparr>"
  have s: "same_terms j ?j" "same_counts j ?j" by (simp_all add: same_terms_def same_counts_def)
  note r = inv_row [OF inv Some]
  have "row_step j ?j \<and> row_ok W w b ?j" if ct: "CanTransitionBatchImageJob (Status j) to"
  proof (cases "to = StFailed")
    case True
    then show ?thesis using failing_update [OF r s] by simp
  next
    case False
    have "row_step j ?j" using ct to False s counts_ok_step [OF s]
      by (cases "Status j") (auto simp: row_step_def CanTransitionBatchImageJob_def IsTerminalBatchImageJobStatus_def settled_phase_def)
    moreover have "to \<in> {StRunning, StIndexing} \<Longrightarrow> items w b \<noteq> []" "to = StSettling \<Longrightarrow> counts_ok j"
      using ct r c Some by (cases "Status j"; auto simp: row_ok_def CanTransitionBatchImageJob_def IsTerminalBatchImageJobStatus_def)+
    then have "row_ok W w b ?j" using row_ok_terms [OF r s(1)] r to counts_ok_step [OF s] by (auto simp: row_ok_def)
    ultimately show ?thesis by simp
  qed
  then show ?thesis using row_update [OF inv Some] good_refl [OF inv] by (simp add: TransitionBatchImageJobStatus_def Some)
qed

lemma submitted_good:
  assumes inv: "world_inv F W w" and it: "items w b \<noteq> []"
  shows "good F W w (snd (UpdateBatchImageJobProviderSubmit b name ref t w))"
proof (cases "jobs w b")
  case None
  then show ?thesis using inv by (simp add: UpdateBatchImageJobProviderSubmit_def good_refl)
next
  case (Some j)
  let ?j = "j\<lparr>Status := StSubmitted, ProviderJobName := Some name, ProviderOutputRef := nullif ref, UpdatedAt := t\<rparr>"
  have s: "same_terms j ?j" "same_counts j ?j" by (simp_all add: same_terms_def same_counts_def)
  note r = inv_row [OF inv Some]
  have "row_step j ?j \<and> row_ok W w b ?j" if ct: "CanTransitionBatchImageJob (Status j) StSubmitted"
  proof
    show "row_step j ?j" using ct s
      by (cases "Status j") (auto simp: row_step_def CanTransitionBatchImageJob_def IsTerminalBatchImageJobStatus_def settled_phase_def)
    show "row_ok W w b ?j" using row_ok_terms [OF r s(1)] r it by (auto simp: row_ok_def)
  qed
  then show ?thesis using row_update [OF inv Some] good_refl [OF inv] by (simp add: UpdateBatchImageJobProviderSubmit_def Some)
qed

lemma settled_good:
  assumes inv: "world_inv F W w"
    and c: "\<And>j. jobs w b = Some j \<Longrightarrow> actual = due j \<and> (b, j_UserID j, due j) \<in> set (caps w)"
  shows "good F W w (snd (MarkBatchImageJobSettled b actual manifest t w))"
proof -
  let ?P = "\<lambda>j. Status j = StSettling \<and> (ManifestHash j = None \<or> ManifestHash j = Some [] \<or> ManifestHash j = Some manifest)"
  let ?f = "\<lambda>j. j\<lparr>Status := StCompleted, j_ActualCost := Some actual, ManifestHash := Some manifest, UpdatedAt := t\<rparr>"
  have "row_step j (?f j) \<and> row_ok W w b (?f j)" if j: "jobs w b = Some j" "?P j" for j
  proof
    have s: "same_terms j (?f j)" "same_counts j (?f j)" by (simp_all add: same_terms_def same_counts_def)
    note r = inv_row [OF inv j(1)]
    show "row_step j (?f j)" using s j(2) by (simp add: row_step_def settled_phase_def)
    show "row_ok W w b (?f j)" using row_ok_terms [OF r s(1)] r j c [OF j(1)] counts_ok_step [OF s] due_step [OF s]
      by (auto simp: row_ok_def)
  qed
  then have "good F W w (snd (update_job b ?P ?f w))" by (rule update_good [OF inv])
  moreover have "snd (MarkBatchImageJobSettled b actual manifest t w) \<in> {w, snd (update_job b ?P ?f w)}"
    by (auto simp: MarkBatchImageJobSettled_def update_job_def split: option.splits)
  ultimately show ?thesis using good_refl [OF inv] by auto
qed

text \<open>Items: a set of items with the ids of the batch replaces the old ones.\<close>

lemma put_items:
  assumes inv: "world_inv F W w" and j0: "jobs w b = Some j0"
    and its: "its \<noteq> []" "distinct (map CustomID its)" "set (map CustomID its) = set (W b)"
  shows "good F W w (w\<lparr>items := (items w)(b := its)\<rparr>)"
proof -
  let ?w = "w\<lparr>items := (items w)(b := its)\<rparr>"
  have "row_ok W ?w b' j" if "jobs w b' = Some j" for b' j
    by (rule row_ok_mono [OF inv_row [OF inv]]) (use that its(1) in \<open>auto split: if_splits\<close>)
  moreover have "items_ok W ?w" using inv j0 its by (simp add: world_inv_def items_ok_def)
  moreover have "caps_ok ?w" using inv by (simp add: world_inv_def caps_ok_def cap_ok_def)
  ultimately have "world_inv F W ?w" using inv by (simp add: world_inv_def taken_from_def)
  moreover have "later W w W ?w" using its(1) by (auto simp: later_def)
  ultimately show ?thesis by (simp add: good_def)
qed

lemma later_trans:
  assumes a: "later W w W w1" and b: "later W w1 W w2" and rs: "\<And>b j j1 j2. jobs w b = Some j \<Longrightarrow> jobs w1 b = Some j1 \<Longrightarrow> jobs w2 b = Some j2 \<Longrightarrow> row_step j j2"
  shows "later W w W w2"
  unfolding later_def
proof (intro conjI allI impI)
  fix b j
  assume j: "jobs w b = Some j"
  from a j obtain j1 where j1: "jobs w1 b = Some j1" by (rule laterE)
  from b j1 obtain j2 where "jobs w2 b = Some j2" by (rule laterE)
  with rs [OF j j1] show "\<exists>j'. jobs w2 b = Some j' \<and> row_step j j'" by blast
qed (use a b in \<open>auto simp: later_def\<close>)

lemma bulk_good:
  assumes inv: "world_inv F W w" and j0: "jobs w b = Some j0" and ids: "ids = W b" "ids \<noteq> []" "distinct ids"
  shows "good F W w (snd (BulkCreateBatchImageItems b ids w))"
    "BulkCreateBatchImageItems b ids w = (Inr x, w') \<Longrightarrow> items w' b \<noteq> []"
proof -
  let ?new = "map (\<lambda>i. \<lparr>CustomID = i, item_state = ItemPending\<rparr>) ids"
  show "good F W w (snd (BulkCreateBatchImageItems b ids w))"
  proof (cases "distinct (map CustomID (items w b) @ ids)")
    case True
    have "items w b = []"
    proof (rule ccontr)
      assume "items w b \<noteq> []"
      then have "set (map CustomID (items w b)) = set ids" using inv ids(1) by (simp add: world_inv_def items_ok_def)
      then show False using True ids(2) by auto
    qed
    moreover have "map CustomID ?new = ids" by (simp add: map_idI)
    ultimately show ?thesis using put_items [OF inv j0, of ?new] ids True by (simp add: BulkCreateBatchImageItems_def o_def)
  qed (simp add: BulkCreateBatchImageItems_def good_refl inv)
  show "BulkCreateBatchImageItems b ids w = (Inr x, w') \<Longrightarrow> items w' b \<noteq> []"
    using ids(2) by (auto simp: BulkCreateBatchImageItems_def split: if_splits)
qed

lemma counts_sum: "count_success its + count_failed its = int (length its)"
  using sum_length_filter_compl [of "\<lambda>i. item_state i = ItemSuccess" its]
  by (simp add: count_success_def count_failed_def flip: of_nat_add)

lemma replace_good:
  assumes inv: "world_inv F W w" and its: "distinct (map CustomID its)" "set (map CustomID its) = set (W b)"
  shows "good F W w (snd (ReplaceBatchImageItemsForJob b its (count_success its) (count_failed its) t w))"
    "ReplaceBatchImageItemsForJob b its (count_success its) (count_failed its) t w = (Inr x, w') \<Longrightarrow>
     \<exists>row. jobs w' b = Some row \<and> 4 \<le> rank (Status row) \<and> counts_ok row"
proof -
  let ?f = "\<lambda>j. j\<lparr>SuccessCount := count_success its, FailCount := count_failed its, UpdatedAt := t\<rparr>"
  have ok: "counts_ok (?f j)" if "jobs w b = Some j" for j
  proof -
    have "length its = length (W b)"
      using inv_row [OF inv that] its by (metis distinct_card length_map row_ok_def)
    then show ?thesis using inv_row [OF inv that] counts_sum [of its]
      by (simp add: counts_ok_def row_ok_def count_success_def count_failed_def)
  qed
  show "good F W w (snd (ReplaceBatchImageItemsForJob b its (count_success its) (count_failed its) t w))"
  proof (cases "\<exists>j. jobs w b = Some j \<and> Status j = StIndexing")
    case True
    then obtain j where j: "jobs w b = Some j" "Status j = StIndexing" by blast
    note r = inv_row [OF inv j(1)]
    have ne: "its \<noteq> []" using r its(2) by (auto simp: row_ok_def)
    let ?w1 = "w\<lparr>jobs := (jobs w)(b \<mapsto> ?f j)\<rparr>"
    have s: "same_terms j (?f j)" by (simp add: same_terms_def)
    have st: "row_step j (?f j)" using s ok [OF j(1)] j(2) by (simp add: row_step_def settled_phase_def)
    have "row_ok W w b (?f j)" using row_ok_terms [OF r s] r j(2) by (auto simp: row_ok_def)
    then have g1: "good F W w ?w1" using row_update [OF inv j(1) st] by blast
    then have "world_inv F W ?w1" by (simp add: good_def)
    then have g2: "good F W ?w1 (?w1\<lparr>items := (items ?w1)(b := its)\<rparr>)" using put_items [of F W ?w1 b "?f j" its] ne its by simp
    have "later W w W (?w1\<lparr>items := (items ?w1)(b := its)\<rparr>)"
    proof (rule later_trans)
      show "later W w W ?w1" "later W ?w1 W (?w1\<lparr>items := (items ?w1)(b := its)\<rparr>)" using g1 g2 by (simp_all add: good_def)
      fix b' a c d
      assume "jobs w b' = Some a" "jobs (?w1\<lparr>items := (items ?w1)(b := its)\<rparr>) b' = Some d"
      then show "row_step a d" using st j(1) by (cases "b' = b") simp_all
    qed
    then show ?thesis using g2 j its(1) by (simp add: good_def ReplaceBatchImageItemsForJob_def)
  qed (auto simp: ReplaceBatchImageItemsForJob_def good_refl inv split: option.splits)
  show "ReplaceBatchImageItemsForJob b its (count_success its) (count_failed its) t w = (Inr x, w') \<Longrightarrow>
     \<exists>row. jobs w' b = Some row \<and> 4 \<le> rank (Status row) \<and> counts_ok row"
    using ok by (auto simp: ReplaceBatchImageItemsForJob_def split: option.splits if_splits)
qed

lemma create_good:
  assumes inv: "world_inv F W w" and r: "submit_inv W w (SubmitCreate r)"
    and c: "CreateBatchImageJob (submitted_job r t) w = (ans, w')"
  obtains "w' = w" "\<And>j. ans \<noteq> Inr j"
  | W' where "world_inv F W' w'" "later W w W' w'" "ans = Inr (submitted_job r t)" "knows w' (submitted_job r t)" "W' (rq_batch r) = rq_ids r"
proof (cases "ans = Inr (submitted_job r t)")
  case False
  then show ?thesis using c that(1) by (auto simp: CreateBatchImageJob_def split: if_splits)
next
  case True
  let ?b = "rq_batch r" and ?j = "submitted_job r t" and ?W = "W(rq_batch r := rq_ids r)"
  have id: "BatchID ?j = ?b" by (simp add: submitted_job_def)
  have n: "jobs w ?b = None" and w': "w' = w\<lparr>jobs := (jobs w)(?b \<mapsto> ?j)\<rparr>"
    using c True by (auto simp: CreateBatchImageJob_def put_job_def id split: if_splits)
  have it: "items w ?b = []" using inv n by (auto simp: world_inv_def items_ok_def)
  have nc: "(?b, u, m) \<notin> set (caps w)" for u m using inv n by (auto simp: world_inv_def caps_ok_def cap_ok_def)
  have j: "row_ok ?W w' ?b ?j" using r
    by (simp add: row_ok_def terms_ok_def submitted_job_def w')
  have "row_ok ?W w' b j'" if "jobs w' b = Some j'" for b j'
  proof (cases "b = ?b")
    case False
    then have "row_ok W w b j'" using that inv by (simp add: w' world_inv_def)
    then show ?thesis using False by (simp add: row_ok_def w')
  qed (use that j in \<open>simp add: w'\<close>)
  moreover have "items_ok ?W w'" using inv it by (auto simp: world_inv_def items_ok_def w')
  moreover have "caps_ok w'" using inv nc n by (fastforce simp: world_inv_def caps_ok_def cap_ok_def w')
  ultimately have "world_inv F ?W w'" using inv by (simp add: world_inv_def taken_from_def w')
  moreover have "later W w ?W w'" using n by (auto simp: later_def w')
  moreover have "knows w' ?j" by (simp add: knows_def w' id)
  ultimately show ?thesis using that(2) True by simp
qed

section \<open>Billing calls keep the invariant\<close>

lemma TrimSpace_no_space: "list_all (\<lambda>c. \<not> is_space c) s \<Longrightarrow> TrimSpace s = s"
proof -
  assume "list_all (\<lambda>c. \<not> is_space c) s"
  then have n: "dropWhile is_space t = t" if "set t = set s" for t using that by (cases t) (auto simp: list_all_iff)
  show ?thesis by (simp add: TrimSpace_def n)
qed

lemma hold_ids:
  assumes "valid_batch_id b"
  shows "TrimSpace (BatchImageHoldRequestID b) = batchImageHoldRequestPrefix @ b"
    "TrimSpace (BatchImageCaptureRequestID b) = BatchImageCaptureRequestID b"
    "TrimSpace (BatchImageReleaseRequestID b) = batchImageReleaseRequestPrefix @ b"
    "BatchImageCaptureRequestID b = batchImageCaptureRequestPrefix @ b"
proof -
  have b: "list_all (\<lambda>c. \<not> is_space c) b" using assms by (simp add: valid_batch_id_def)
  have p: "list_all (\<lambda>c. \<not> is_space c) batchImageHoldRequestPrefix" "list_all (\<lambda>c. \<not> is_space c) batchImageCaptureRequestPrefix"
    "list_all (\<lambda>c. \<not> is_space c) batchImageReleaseRequestPrefix"
    by (simp_all add: batchImageHoldRequestPrefix_def batchImageCaptureRequestPrefix_def batchImageReleaseRequestPrefix_def is_space_def)
  show "TrimSpace (BatchImageHoldRequestID b) = batchImageHoldRequestPrefix @ b"
    "TrimSpace (BatchImageCaptureRequestID b) = BatchImageCaptureRequestID b"
    "TrimSpace (BatchImageReleaseRequestID b) = batchImageReleaseRequestPrefix @ b"
    "BatchImageCaptureRequestID b = batchImageCaptureRequestPrefix @ b"
    using b p by (simp_all add: BatchImageHoldRequestID_def BatchImageCaptureRequestID_def BatchImageReleaseRequestID_def TrimSpace_no_space)
qed

definition capture_key :: "string \<times> ident \<Rightarrow> bool" where
  "capture_key k = (\<exists>b i. valid_batch_id b \<and> k = (BatchImageCaptureRequestID b, i))"

lemma bdb_step:
  assumes inv: "world_inv F W w" and k: "\<And>k. event_key L ev = Some k \<Longrightarrow> \<not> capture_key k"
    and os: "\<And>u. (\<Sum>c\<leftarrow>os. if fst c = u then snd c else 0) =
      (if makes_claim (billing_step L) claimed (event_key L) ev (bdb w) then event_charge L u ev else 0)"
  shows "good F W w (w\<lparr>bdb := snd (billing_step L ev (bdb w)), others := others w @ os\<rparr>)"
proof -
  let ?db = "snd (billing_step L ev (bdb w))" and ?w = "w\<lparr>bdb := snd (billing_step L ev (bdb w)), others := others w @ os\<rparr>"
  have same: "claimed ?db c = claimed (bdb w) c" if "capture_key c" for c
    using billing.claim_kept billing.claim_own k that by blast
  have "funds ?db u = funds (bdb w) u - (\<Sum>c\<leftarrow>os. if fst c = u then snd c else 0)" for u
  proof (cases "makes_claim (billing_step L) claimed (event_key L) ev (bdb w)")
    case True
    then show ?thesis using claim_charges [OF True, of u] by (simp add: os)
  next
    case False
    then have "funds (books ?db) u = funds (books (bdb w)) u" using billing.no_claim_no_effect by simp
    then show ?thesis using False by (simp add: os)
  qed
  then have fu: "funds ?db u = funds (bdb w) u - (\<Sum>c\<leftarrow>os. if fst c = u then snd c else 0)" for u .
  have f: "funds ?db u = F u - taken_from u ?w" for u
  proof -
    have "funds (bdb w) u = F u - taken_from u w" using inv by (simp add: world_inv_def)
    then show ?thesis unfolding fu by (simp add: taken_from_def)
  qed
  have rows: "row_ok W ?w b j" if "jobs w b = Some j" for b j by (rule row_ok_mono [OF inv_row [OF inv that]]) simp_all
  have "cap_ok ?w c" if c: "c \<in> set (caps w)" for c
  proof -
    from c inv have "cap_ok w c" by (simp add: world_inv_def caps_ok_def)
    then obtain b u m j i where x: "c = (b, u, m)" "jobs w b = Some j" "u = j_UserID j" "m = due j" "settled_phase (Status j)" "counts_ok j"
      "j_APIKeyID j = Some i" "claimed (bdb w) (BatchImageCaptureRequestID b, i)" by (cases c) (auto simp: cap_ok_def)
    have "valid_batch_id b" using inv_row [OF inv x(2)] by (simp add: row_ok_def terms_ok_def)
    then show ?thesis using x same [of "(BatchImageCaptureRequestID b, i)"] by (auto simp: cap_ok_def capture_key_def)
  qed
  moreover have "claimed ?db (BatchImageCaptureRequestID b, i) = claimed (bdb w) (BatchImageCaptureRequestID b, i)" if "valid_batch_id b" for b i
    using same [of "(BatchImageCaptureRequestID b, i)"] that by (auto simp: capture_key_def)
  ultimately have "caps_ok ?w" using inv by (simp add: world_inv_def caps_ok_def)
  then have "world_inv F W ?w" using inv f rows by (simp add: world_inv_def items_ok_def)
  moreover have "later W w W ?w" by (simp add: later_def)
  ultimately show ?thesis by (simp add: good_def)
qed

lemma job_command:
  assumes inv: "world_inv F W w" and k: "knows w j"
  obtains i where "j_APIKeyID j = Some i" "0 < i" "valid_batch_id (BatchID j)"
    "\<forall>rid actual payload. buildBatchImageHoldCommand j rid actual payload =
       Inr \<lparr>hc_RequestID = rid, hc_APIKeyID = i, hc_Fingerprint = [], hc_PayloadHash = TrimSpace payload,
         hc_UserID = j_UserID j, hc_BatchID = BatchID j, hc_HoldAmount = hold_amount j, hc_ActualAmount = clamp0 actual\<rparr>"
proof -
  from k obtain row where row: "jobs w (BatchID j) = Some row" "same_terms row j" unfolding knows_def by blast
  from inv_row [OF inv row(1)] row(2) obtain i where "j_APIKeyID j = Some i" "0 < i" "valid_batch_id (BatchID j)"
    by (auto simp: row_ok_def terms_ok_def same_terms_def)
  then show ?thesis using that by (simp add: buildBatchImageHoldCommand_def)
qed

lemma hold_key_of: "hold_key L \<lparr>hc_RequestID = rid, hc_APIKeyID = i, hc_Fingerprint = f, hc_PayloadHash = p, hc_UserID = u,
     hc_BatchID = b, hc_HoldAmount = h, hc_ActualAmount = a\<rparr> = (TrimSpace rid, i)"
  by (simp only: hold_key.simps) (simp add: Normalize_hold_def Let_def)

lemma not_capture_key:
  assumes "valid_batch_id b"
  shows "\<not> capture_key (TrimSpace (BatchImageHoldRequestID b), i)" "\<not> capture_key (TrimSpace (BatchImageReleaseRequestID b), i)"
  using hold_ids [OF assms] hold_ids(4)
  by (auto simp: capture_key_def batchImageHoldRequestPrefix_def batchImageReleaseRequestPrefix_def batchImageCaptureRequestPrefix_def)

lemma neutral_step:
  assumes "world_inv F W w" "\<And>k. event_key L ev = Some k \<Longrightarrow> \<not> capture_key k" "\<And>u. event_charge L u ev = 0"
  shows "good F W w (w\<lparr>bdb := snd (billing_step L ev (bdb w))\<rparr>)"
  using bdb_step [where ev = ev and L = L and os = "[]", OF assms(1)] assms(2,3) by simp

lemma reserve_good:
  assumes inv: "world_inv F W w" and k: "knows w j"
  shows "good F W w (w\<lparr>bdb := snd (reserveBatchImageBalanceHold L e j payload (bdb w))\<rparr>)"
proof -
  from inv k obtain i where c: "j_APIKeyID j = Some i" "0 < i" "valid_batch_id (BatchID j)"
    "\<forall>rid actual payload. buildBatchImageHoldCommand j rid actual payload =
       Inr \<lparr>hc_RequestID = rid, hc_APIKeyID = i, hc_Fingerprint = [], hc_PayloadHash = TrimSpace payload,
         hc_UserID = j_UserID j, hc_BatchID = BatchID j, hc_HoldAmount = hold_amount j, hc_ActualAmount = clamp0 actual\<rparr>"
    by (rule job_command)
  obtain cmd where cmd: "buildBatchImageHoldCommand j (BatchImageHoldRequestID (BatchID j)) 0 payload = Inr cmd"
    "event_key L (EReserve e cmd) = Some (TrimSpace (BatchImageHoldRequestID (BatchID j)), i)"
    using c(4) by (auto simp: hold_key_of)
  have "snd (reserveBatchImageBalanceHold L e j payload (bdb w)) \<in> {bdb w, snd (billing_step L (EReserve e cmd) (bdb w))}"
    by (auto simp: reserveBatchImageBalanceHold_def cmd split: sum.splits prod.splits)
  moreover have "good F W w (w\<lparr>bdb := snd (billing_step L (EReserve e cmd) (bdb w))\<rparr>)"
    using not_capture_key [OF c(3)] cmd(2) by (intro neutral_step [OF inv]) auto
  ultimately show ?thesis using good_refl [OF inv] by auto
qed

lemma release_good:
  assumes inv: "world_inv F W w" and k: "knows w j"
  shows "good F W w (snd (release_step L e j w))"
proof -
  from inv k obtain i where c: "j_APIKeyID j = Some i" "0 < i" "valid_batch_id (BatchID j)"
    "\<forall>rid actual payload. buildBatchImageHoldCommand j rid actual payload =
       Inr \<lparr>hc_RequestID = rid, hc_APIKeyID = i, hc_Fingerprint = [], hc_PayloadHash = TrimSpace payload,
         hc_UserID = j_UserID j, hc_BatchID = BatchID j, hc_HoldAmount = hold_amount j, hc_ActualAmount = clamp0 actual\<rparr>"
    by (rule job_command)
  let ?p = "deref (RequestHash j)"
  obtain cmd where cmd: "buildBatchImageHoldCommand j (BatchImageReleaseRequestID (BatchID j)) 0 ?p = Inr cmd"
    "event_key L (ERelease (benv e) cmd) = Some (TrimSpace (BatchImageReleaseRequestID (BatchID j)), i)"
    using c(4) by (auto simp: hold_key_of)
  have "snd (releaseBatchImageBalanceHold L (benv e) j ?p (bdb w)) \<in> {bdb w, snd (billing_step L (ERelease (benv e) cmd) (bdb w))}"
    by (auto simp: releaseBatchImageBalanceHold_def cmd split: sum.splits prod.splits)
  moreover have "good F W w (w\<lparr>bdb := snd (billing_step L (ERelease (benv e) cmd) (bdb w))\<rparr>)"
    using not_capture_key [OF c(3)] cmd(2) by (intro neutral_step [OF inv]) auto
  ultimately show ?thesis using good_refl [OF inv] by (auto simp: release_step_def split: prod.split)
qed

text \<open>A capture of what the job owes.\<close>

lemma due_bounds:
  assumes "row_ok W w b j" "counts_ok j"
  shows "0 \<le> due j" "due j \<le> hold_amount j"
proof -
  from assms obtain h where h: "HoldAmount j = Some h" "BillableUnitPrice j * of_int (ItemCount j) \<le> h" and p: "0 \<le> BillableUnitPrice j"
    by (auto simp: row_ok_def terms_ok_def)
  show nn: "0 \<le> due j" using p assms(2) by (simp add: due_def counts_ok_def)
  have "SuccessCount j \<le> ItemCount j" using assms(2) by (simp add: counts_ok_def)
  then have "(of_int (SuccessCount j) :: rat) * BillableUnitPrice j \<le> of_int (ItemCount j) * BillableUnitPrice j"
    using p by (intro mult_right_mono) simp_all
  then show "due j \<le> hold_amount j" using h nn by (simp add: due_def hold_amount_def clamp0_def mult.commute)
qed

lemma capture_good:
  fixes L e j m
  defines "manifest \<equiv> BuildBatchImageSettlementManifestHash L j"
  assumes inv: "world_inv F W w" and k: "knows_settling w j" and m: "m = due j"
    and r: "captureBatchImageBalanceHold L e j m manifest (bdb w) = (err, db')"
  defines "w' \<equiv> w\<lparr>bdb := db', caps := caps w @ captured_by L e j m manifest (bdb w)\<rparr>"
  shows "good F W w w'" "err = None \<Longrightarrow> (BatchID j, j_UserID j, due j) \<in> set (caps w')"
proof -
  let ?b = "BatchID j"
  from k obtain row where row: "jobs w ?b = Some row" "same_terms row j" "same_counts row j" "settled_phase (Status row)" "counts_ok row"
    unfolding knows_settling_def by blast
  have kn: "knows w j" using row by (auto simp: knows_def)
  note rok = inv_row [OF inv row(1)]
  have dj: "due row = due j" "j_UserID row = j_UserID j" "j_APIKeyID row = j_APIKeyID j"
    using due_step [OF row(2,3)] row(2) by (simp_all add: same_terms_def)
  from inv kn obtain i where c: "j_APIKeyID j = Some i" "0 < i" "valid_batch_id ?b"
    "\<forall>rid actual payload. buildBatchImageHoldCommand j rid actual payload =
       Inr \<lparr>hc_RequestID = rid, hc_APIKeyID = i, hc_Fingerprint = [], hc_PayloadHash = TrimSpace payload,
         hc_UserID = j_UserID j, hc_BatchID = BatchID j, hc_HoldAmount = hold_amount j, hc_ActualAmount = clamp0 actual\<rparr>"
    by (rule job_command)
  have d0: "clamp0 m = due j" using due_bounds(1) [OF rok row(5)] dj m by (simp add: clamp0_def)
  let ?key = "(BatchImageCaptureRequestID ?b, i)"
  obtain cmd where cmd: "buildBatchImageHoldCommand j (BatchImageCaptureRequestID ?b) m manifest = Inr cmd"
    "event_key L (ECapture e cmd) = Some ?key" "hc_UserID cmd = j_UserID j" "hc_ActualAmount cmd = due j" "hc_HoldAmount cmd = hold_amount j"
    using c(4) hold_ids(2) [OF c(3)] d0 by (auto simp: hold_key_of)
  let ?ev = "ECapture e cmd"
  have db': "db' = snd (billing_step L ?ev (bdb w))" "err = None \<longleftrightarrow> fst (billing_step L ?ev (bdb w))"
    using r by (auto simp: captureBatchImageBalanceHold_def cmd answered_def split: sum.splits prod.splits)
  have charge: "event_charge L u ?ev = (if j_UserID j = u then due j else 0)" for u
  proof -
    have "hold_amount j \<le> 0 \<Longrightarrow> due j \<le> 0 \<Longrightarrow> due j = 0" using due_bounds(1) [OF rok row(5)] dj by simp
    then show ?thesis using cmd by auto
  qed
  have cap: "captured_by L e j m manifest (bdb w) =
      (if makes_claim (billing_step L) claimed (event_key L) ?ev (bdb w) then [(?b, j_UserID j, due j)] else [])"
    by (simp add: captured_by_def cmd(1) charge del: event_charge.simps)
  have held: "?b \<in> fst ` set (caps w) \<longleftrightarrow> claimed (bdb w) ?key"
  proof
    assume "?b \<in> fst ` set (caps w)"
    then obtain u x where "(?b, u, x) \<in> set (caps w)" by auto
    then have "cap_ok w (?b, u, x)" using inv by (simp add: world_inv_def caps_ok_def)
    then show "claimed (bdb w) ?key" using row(1) dj c(1) by (simp add: cap_ok_def)
  next
    assume "claimed (bdb w) ?key"
    then show "?b \<in> fst ` set (caps w)" using inv c(3) by (auto simp: world_inv_def caps_ok_def)
  qed
  show "err = None \<Longrightarrow> (?b, j_UserID j, due j) \<in> set (caps w')"
  proof -
    assume "err = None"
    then have cl: "claimed (snd (billing_step L ?ev (bdb w))) ?key" using billing.answer_claimed cmd(2) db'(2) by blast
    show ?thesis
    proof (cases "claimed (bdb w) ?key")
      case True
      then obtain u x where x: "(?b, u, x) \<in> set (caps w)" using held by auto
      then have "cap_ok w (?b, u, x)" using inv by (simp add: world_inv_def caps_ok_def)
      then have "u = j_UserID j" "x = due j" using row(1) dj by (simp_all add: cap_ok_def)
      then show ?thesis using x by (simp add: w'_def)
    next
      case False
      then have "makes_claim (billing_step L) claimed (event_key L) ?ev (bdb w)" using cl cmd(2) by (simp add: makes_claim_def)
      then show ?thesis by (simp add: w'_def cap)
    qed
  qed
  show "good F W w w'"
  proof (cases "makes_claim (billing_step L) claimed (event_key L) ?ev (bdb w)")
    case True
    then have new: "\<not> claimed (bdb w) ?key" "claimed db' ?key" using cmd(2) by (simp_all add: makes_claim_def db'(1))
    have w': "w' = w\<lparr>bdb := db', caps := caps w @ [(?b, j_UserID j, due j)]\<rparr>" using True by (simp add: w'_def cap)
    have kept: "claimed db' x" if "claimed (bdb w) x" for x using that unfolding db'(1) by (rule billing.claim_kept)
    have own: "claimed db' x \<Longrightarrow> claimed (bdb w) x \<or> x = ?key" for x using billing.claim_own [of L ?ev "bdb w" x] cmd(2) db'(1) by auto
    have "funds db' u = funds (bdb w) u - (if j_UserID j = u then due j else 0)" for u
      using claim_charges [OF True, of u] charge [of u] by (simp add: db'(1) del: event_charge.simps)
    then have f: "funds db' u = F u - taken_from u w'" for u using inv by (simp add: world_inv_def taken_from_def w')
    have rows: "row_ok W w' b x" if "jobs w b = Some x" for b x
      by (rule row_ok_mono [OF inv_row [OF inv that]]) (auto simp: w')
    have old: "cap_ok w' x" if "x \<in> set (caps w)" for x
    proof -
      have "cap_ok w x" using inv that by (simp add: world_inv_def caps_ok_def)
      then show ?thesis using kept by (cases x) (auto simp: cap_ok_def w')
    qed
    moreover have "cap_ok w' (?b, j_UserID j, due j)" using row dj c(1) new(2) by (simp add: cap_ok_def w')
    moreover have "b \<in> fst ` set (caps w')" if "valid_batch_id b" "claimed db' (BatchImageCaptureRequestID b, x)" for b x
      using own [OF that(2)] inv that(1) hold_ids(4) [OF c(3)] hold_ids(4) [OF that(1)] by (auto simp: world_inv_def caps_ok_def w')
    ultimately have "caps_ok w'" using inv new(1) held by (auto simp: world_inv_def caps_ok_def w')
    then have "world_inv F W w'" using inv f rows by (simp add: world_inv_def items_ok_def w')
    moreover have "later W w W w'" by (auto simp: later_def w')
    ultimately show ?thesis by (simp add: good_def)
  next
    case False
    have w': "w' = w\<lparr>bdb := db'\<rparr>" using False by (simp add: w'_def cap)
    have "claimed (bdb w) x" if "claimed db' x" for x
      using billing.claim_own [of L ?ev "bdb w" x] that False cmd(2) db'(1) by (auto simp: makes_claim_def)
    moreover have "claimed db' x" if "claimed (bdb w) x" for x using that unfolding db'(1) by (rule billing.claim_kept)
    ultimately have same: "claimed db' x = claimed (bdb w) x" for x by blast
    have "funds (books db') u = funds (books (bdb w)) u" for u using billing.no_claim_no_effect [OF False] db'(1) by simp
    then have f: "funds db' u = F u - taken_from u w'" for u using inv by (simp add: world_inv_def taken_from_def w')
    have rows: "row_ok W w' b x" if "jobs w b = Some x" for b x
      by (rule row_ok_mono [OF inv_row [OF inv that]]) (auto simp: w')
    have "cap_ok w' x = cap_ok w x" for x by (cases x) (simp add: cap_ok_def w' same)
    then have "caps_ok w'" using inv by (simp add: world_inv_def caps_ok_def w' same)
    then have "world_inv F W w'" using inv f rows by (simp add: world_inv_def items_ok_def w')
    moreover have "later W w W w'" by (auto simp: later_def w')
    ultimately show ?thesis by (simp add: good_def)
  qed
qed

end
