(* ===== verification/BatchImageSafety.thy ===== *)
theory BatchImageSafety
  imports BatchImageSystem
begin

text \<open>Every step of every worker, and so every run, keeps the invariant of the batch image system.\<close>

section \<open>Steps of the workers\<close>

definition keeps :: "(ident \<Rightarrow> money) \<Rightarrow> (string \<Rightarrow> string list) \<Rightarrow> batch_world \<Rightarrow> worker option \<times> batch_world \<Rightarrow> bool" where
  "keeps F W w r = (\<exists>W'. world_inv F W' (snd r) \<and> later W w W' (snd r) \<and> (\<forall>c. fst r = Some c \<longrightarrow> worker_inv W' (snd r) c))"

lemma keeps_good:
  "good F W w w' \<Longrightarrow> keeps F W w (None, w')"
  "good F W w w' \<Longrightarrow> worker_inv W w' c \<Longrightarrow> keeps F W w (Some c, w')"
  by (auto simp: keeps_def good_def)

lemma keeps_stay:
  "world_inv F W w \<Longrightarrow> keeps F W w (None, w)"
  "world_inv F W w \<Longrightarrow> worker_inv W w c \<Longrightarrow> keeps F W w (Some c, w)"
  by (auto intro: keeps_good good_refl)

lemma good_inv: "good F W w w' \<Longrightarrow> world_inv F W w'"
  by (simp add: good_def)

lemma good_knows: "good F W w w' \<Longrightarrow> knows w j \<Longrightarrow> knows w' j"
  unfolding good_def using knows_later(1) by blast

lemma good_items: "good F W w w' \<Longrightarrow> knows_items w j \<Longrightarrow> knows_items w' j"
  unfolding good_def using knows_items_later by blast

lemma good_settling: "good F W w w' \<Longrightarrow> knows_settling w j \<Longrightarrow> knows_settling w' j"
  unfolding good_def using knows_settling_later by blast

lemma attempted: "world_inv F W w \<Longrightarrow> good F W w (snd r) \<Longrightarrow> attempt t w r = (a, w') \<Longrightarrow> good F W w w'"
  using good_attempt by (metis snd_conv)

lemma knows_items_knows: "knows_items w j \<Longrightarrow> knows w j"
  by (simp add: knows_items_def)

lemma knows_settling_knows: "knows_settling w j \<Longrightarrow> knows w j"
  by (auto simp: knows_settling_def knows_def)

lemma knows_same: "knows w j \<Longrightarrow> same_terms j j' \<Longrightarrow> knows w j'"
  using same_terms_id same_terms_trans by (fastforce simp: knows_def)

lemma knows_items_same: "knows_items w j \<Longrightarrow> same_terms j j' \<Longrightarrow> knows_items w j'"
  using knows_same same_terms_id by (fastforce simp: knows_items_def)

lemma knows_row: "jobs w (BatchID j) = Some j \<Longrightarrow> knows w j"
  by (auto simp: knows_def)

lemma read_row:
  assumes inv: "world_inv F W w" and r: "jobs w b = Some j"
  shows "jobs w (BatchID j) = Some j" "knows w j"
proof -
  have "BatchID j = b" using inv_row [OF inv r] by (simp add: row_ok_def terms_ok_def)
  with r show "jobs w (BatchID j) = Some j" "knows w j" by (auto intro: knows_row)
qed

lemma read_found:
  "GetBatchImageJobByBatchID b w = Inr j \<Longrightarrow> jobs w b = Some j"
  "GetBatchImageJobByBatchIDForOwner u k b w = Inr j \<Longrightarrow> jobs w b = Some j"
  by (auto simp: GetBatchImageJobByBatchID_def GetBatchImageJobByBatchIDForOwner_def split: option.splits if_splits)

lemma known_ids: "world_inv F W w \<Longrightarrow> knows w j \<Longrightarrow> W (BatchID j) \<noteq> [] \<and> distinct (W (BatchID j))"
  unfolding knows_def using inv_row row_ok_def by blast

lemma submit_keeps:
  assumes inv: "world_inv F W w" and p: "submit_inv W w p"
  shows "keeps F W w (map_prod (map_option Submit) id (submit_step L e p w))"
proof (cases p)
  case (SubmitCreate r)
  obtain a w1 where c: "CreateBatchImageJob (submitted_job r (now e)) w = (a, w1)" by fastforce
  have p': "submit_inv W w (SubmitCreate r)" using p SubmitCreate by blast
  from inv p' c show ?thesis
  proof (rule create_good)
    assume w1: "w1 = w" and a: "\<And>j. a \<noteq> Inr j"
    then obtain x where "a = Inl x" by (cases a) auto
    then show ?thesis using w1 keeps_stay(1) [OF inv] by (cases "outcome e") (simp_all add: SubmitCreate c attempt_def)
  next
    fix W'
    assume g: "world_inv F W' w1" "later W w W' w1" "a = Inr (submitted_job r (now e))" "knows w1 (submitted_job r (now e))"
      "W' (rq_batch r) = rq_ids r"
    moreover have "BatchID (submitted_job r (now e)) = rq_batch r" by (simp add: submitted_job_def)
    ultimately have "keeps F W w (Some (Submit (SubmitReserve (submitted_job r (now e)) (rq_ids r))), w1)" "keeps F W w (None, w1)"
      by (auto simp: keeps_def)
    then show ?thesis using g(3) keeps_stay(1) [OF inv] by (cases "outcome e") (simp_all add: SubmitCreate c attempt_def)
  qed
next
  case (SubmitReserve j ids)
  with p have k: "knows w j" "ids = W (BatchID j)" by simp_all
  have g: "good F W w (w\<lparr>bdb := snd (reserveBatchImageBalanceHold L (benv e) j (deref (RequestHash j)) (bdb w))\<rparr>)"
    by (rule reserve_good [OF inv k(1)])
  show ?thesis unfolding SubmitReserve
    using keeps_good [OF g] good_knows [OF g k(1)] k(2) by (auto simp: Let_def split: prod.split option.split)
next
  case (SubmitItems j ids)
  with p have k: "knows w j" "ids = W (BatchID j)" by simp_all
  then obtain row where row: "jobs w (BatchID j) = Some row" by (auto simp: knows_def)
  have i: "ids \<noteq> []" "distinct ids" using known_ids [OF inv k(1)] k(2) by simp_all
  obtain a w1 where c: "attempt (outcome e) w (BulkCreateBatchImageItems (BatchID j) ids w) = (a, w1)" by fastforce
  have g: "good F W w w1" by (rule attempted [OF inv bulk_good(1) [OF inv row k(2) i] c])
  have it: "a = Inr u \<Longrightarrow> items w1 (BatchID j) \<noteq> []" for u
    using bulk_good(2) [OF inv row k(2) i] attempt_Inr c by metis
  show ?thesis unfolding SubmitItems
    using keeps_good [OF g] good_knows [OF g k(1)] it by (auto simp: c knows_items_def split: sum.split)
next
  case (SubmitUploading j)
  with p have k: "knows_items w j" by simp
  obtain a w1 where c: "attempt (outcome e) w (TransitionBatchImageJobStatus (BatchID j) StUploading None (now e) w) = (a, w1)" by fastforce
  have g: "good F W w w1" by (rule attempted [OF inv transition_good [OF inv] c]) simp_all
  have k1: "knows_items w1 j" by (rule good_items [OF g k])
  have "knows_items w1 (j\<lparr>Status := StUploading\<rparr>)" by (rule knows_items_same [OF k1]) (simp add: same_terms_def)
  then show ?thesis unfolding SubmitUploading
    using keeps_good [OF g] knows_items_knows [OF k1] by (auto simp: c split: sum.split)
next
  case (SubmitProvider j)
  with p have k: "knows_items w j" by simp
  have g: "good F W w (w\<lparr>upstream := u\<rparr>)" for u
    using inv by (auto simp: good_def world_inv_def later_def row_ok_def items_ok_def caps_ok_def cap_ok_def taken_from_def split: prod.splits)
  show ?thesis unfolding SubmitProvider
    using keeps_good [OF g] keeps_stay [OF inv] good_items [OF g k] knows_items_knows [OF k] by (auto split: option.split prod.split)
next
  case (SubmitUpdate j name ref)
  with p have k: "knows_items w j" by simp
  obtain a w1 where c: "attempt (outcome e) w (UpdateBatchImageJobProviderSubmit (BatchID j) name ref (now e) w) = (a, w1)" by fastforce
  have g: "good F W w w1" by (rule attempted [OF inv submitted_good [OF inv] c]) (use k in \<open>simp add: knows_items_def\<close>)
  show ?thesis unfolding SubmitUpdate
    using keeps_good [OF g] knows_items_knows [OF good_items [OF g k]] by (auto simp: c split: sum.split)
next
  case (SubmitQueueFailed j)
  show ?thesis unfolding SubmitQueueFailed using keeps_stay [OF inv] keeps_good [OF submit_failure_good [OF inv]] by auto
next
  case (SubmitAbort j name)
  have g: "good F W w (w\<lparr>upstream_cancels := u\<rparr>)" for u
    using inv by (auto simp: good_def world_inv_def later_def row_ok_def items_ok_def caps_ok_def cap_ok_def taken_from_def split: prod.splits)
  show ?thesis unfolding SubmitAbort using keeps_stay [OF inv] keeps_good [OF g] by auto
next
  case (SubmitRelease j code)
  with p have k: "knows w j" by simp
  obtain a w1 where c: "release_step L e j w = (a, w1)" by fastforce
  have g: "good F W w w1" using release_good [OF inv k, of L e] c by simp
  show ?thesis unfolding SubmitRelease using keeps_good [OF g] good_knows [OF g k] by (cases code) (auto simp: c split: option.split)
next
  case (SubmitFail j code)
  with p have k: "knows w j" by simp
  show ?thesis unfolding SubmitFail
    using keeps_stay [OF inv] keeps_good [OF submit_failure_good [OF inv]] good_knows [OF submit_failure_good [OF inv] k] k by auto
next
  case (SubmitHide j)
  have g: "good F W w (snd (attempt (outcome e) w (MarkBatchImageJobUserDeleted u k b t w)))" for u k b t
    by (rule good_attempt [OF inv user_deleted_good [OF inv]])
  show ?thesis unfolding SubmitHide using keeps_stay [OF inv] keeps_good [OF g] by auto
qed

lemma cancel_keeps:
  assumes inv: "world_inv F W w" and p: "cancel_inv w p"
  shows "keeps F W w (map_prod (map_option Cancel) id (cancel_step L e p w))"
proof (cases p)
  case (CancelRead u k b)
  have "knows w j" if "GetBatchImageJobByBatchIDForOwner u k b w = Inr j" for j
    using read_row(2) [OF inv read_found(2) [OF that]] .
  then show ?thesis unfolding CancelRead by (auto intro!: keeps_stay [OF inv] split: sum.split)
next
  case (CancelProvider j)
  have g: "good F W w (w\<lparr>upstream_cancels := u\<rparr>)" for u
    using inv by (auto simp: good_def world_inv_def later_def row_ok_def items_ok_def caps_ok_def cap_ok_def taken_from_def split: prod.splits)
  show ?thesis unfolding CancelProvider using keeps_stay [OF inv] keeps_good [OF g] by auto
next
  case (CancelTransition j)
  with p have k: "knows w j" by simp
  obtain a w1 where c: "attempt (outcome e) w (TransitionBatchImageJobStatus (BatchID j) StCancelled None (now e) w) = (a, w1)" by fastforce
  have g: "good F W w w1" by (rule attempted [OF inv transition_good [OF inv] c]) simp_all
  show ?thesis unfolding CancelTransition using keeps_good [OF g] good_knows [OF g k] by (auto simp: c split: sum.split)
next
  case (CancelRelease j)
  with p have k: "knows w j" by simp
  show ?thesis unfolding CancelRelease using keeps_good [OF release_good [OF inv k]] by auto
qed

text \<open>The items an indexing run writes are the items of the batch.\<close>

lemma index_lines_found:
  assumes "index_lines expected found ls = Inr found'" "distinct (map CustomID found)" "set (map CustomID found) \<subseteq> set expected" "expected \<noteq> []"
  shows "distinct (map CustomID found') \<and> set (map CustomID found') \<subseteq> set expected"
  using assms by (induction expected found ls rule: index_lines.induct) (auto split: if_splits)

lemma missing_ids: "map CustomID (missing_items expected found) = sort (filter (\<lambda>i. i \<notin> set (map CustomID found)) (remdups expected))"
  by (simp add: missing_items_def o_def)

lemma Index_results_ids:
  assumes r: "Index_results expected ls re = Inr its" and ne: "expected \<noteq> []"
  shows "distinct (map CustomID its) \<and> set (map CustomID its) = set expected"
proof -
  from r obtain found where f: "index_lines expected [] ls = Inr found" "its = found @ missing_items expected found"
    by (auto simp: Index_results_def Let_def split: sum.splits if_splits)
  have ok: "distinct (map CustomID found)" "set (map CustomID found) \<subseteq> set expected"
    using index_lines_found [OF f(1)] ne by simp_all
  have m: "map CustomID its = map CustomID found @ sort (filter (\<lambda>i. i \<notin> set (map CustomID found)) (remdups expected))"
    by (simp only: f(2) map_append missing_ids)
  show ?thesis unfolding m using ok by auto
qed

lemma transition_keeps:
  assumes inv: "world_inv F W w" and to: "st \<in> {StUploading, StCancelled, StFailed, StRunning, StIndexing, StSettling}"
    and c: "\<And>j'. st = StSettling \<Longrightarrow> jobs w (BatchID j) = Some j' \<Longrightarrow> Status j' = StIndexing \<Longrightarrow> counts_ok j'"
    and n: "\<And>w' p. good F W w w' \<Longrightarrow> transition_to e j st code next w = (Some p, w') \<Longrightarrow> next = Some p \<Longrightarrow>
        TransitionBatchImageJobStatus (BatchID j) st code (now e) w = (Inr (), w') \<Longrightarrow> worker_inv W w' (f p)"
  shows "keeps F W w (map_prod (map_option f) id (transition_to e j st code next w))"
proof -
  obtain a w1 where c1: "attempt (outcome e) w (TransitionBatchImageJobStatus (BatchID j) st code (now e) w) = (a, w1)" by fastforce
  have g: "good F W w w1" by (rule attempted [OF inv transition_good [OF inv to c] c1])
  show ?thesis
  proof (cases a)
    case (Inl x)
    then show ?thesis using keeps_good [OF g] by (simp add: transition_to_def c1)
  next
    case (Inr u)
    then have "transition_to e j st code next w = (next, w1)" by (simp add: transition_to_def c1)
    moreover have "TransitionBatchImageJobStatus (BatchID j) st code (now e) w = (Inr (), w1)" using attempt_Inr c1 Inr by fastforce
    ultimately show ?thesis using keeps_good [OF g] n [OF g] by (cases "next") auto
  qed
qed

lemma indexing_items:
  assumes "world_inv F W w" "knows w j"
    "TransitionBatchImageJobStatus (BatchID j) StIndexing code t w = (Inr (), w')" "good F W w w'"
  shows "knows_items w' j"
proof -
  from assms(3) obtain row where "jobs w' (BatchID j) = Some row" "Status row = StIndexing"
    by (auto simp: TransitionBatchImageJobStatus_def split: option.splits if_splits)
  then have "items w' (BatchID j) \<noteq> []" using inv_row [OF good_inv [OF assms(4)]] by (auto simp: row_ok_def)
  then show ?thesis using good_knows [OF assms(4,2)] by (simp add: knows_items_def)
qed

lemma process_keeps:
  assumes inv: "world_inv F W w" and p: "process_inv W w p"
  shows "keeps F W w (map_prod (map_option Process) id (process_step L e p w))"
proof (cases p)
  case (ProcessRead b)
  have "knows w j \<and> (Status j = StIndexing \<longrightarrow> knows_items w j)" if j: "GetBatchImageJobByBatchID b w = Inr j" for j
    using read_row [OF inv read_found(1) [OF j]] inv_row [OF inv, of "BatchID j" j] by (simp add: knows_items_def row_ok_def)
  then show ?thesis unfolding ProcessRead by (auto intro!: keeps_stay [OF inv] split: sum.split)
next
  case (ProcessStatus j)
  with p show ?thesis using keeps_stay [OF inv] by (auto simp: Let_def split: option.split)
next
  case (ProcessPersist j st ref)
  with p have k: "knows w j" "Status j \<noteq> StIndexing" by simp_all
  obtain a w1 where c: "attempt (outcome e) w (UpdateBatchImageJobProviderOutputRef (BatchID j) ref (now e) w) = (a, w1)" by fastforce
  have g: "good F W w w1" by (rule attempted [OF inv output_ref_good [OF inv] c])
  have "knows w1 (j\<lparr>ProviderOutputRef := r\<rparr>)" for r
    by (rule knows_same [OF good_knows [OF g k(1)]]) (simp add: same_terms_def)
  then show ?thesis unfolding ProcessPersist using keeps_good [OF g] k(2) by (auto simp: c split: sum.split)
next
  case (ProcessState j st)
  with p have k: "knows w j" "Status j \<noteq> StIndexing" by simp_all
  have r: "knows w1 (j\<lparr>Status := s\<rparr>)" if "good F W w w1" for s w1
    by (rule knows_same [OF good_knows [OF that k(1)]]) (simp add: same_terms_def)
  have i: "knows_items w1 (j\<lparr>Status := StIndexing\<rparr>)" if "good F W w w1"
    "TransitionBatchImageJobStatus (BatchID j) StIndexing None (now e) w = (Inr (), w1)" for w1
    by (rule knows_items_same [OF indexing_items [OF inv k(1) that(2,1)]]) (simp add: same_terms_def)
  show ?thesis
  proof (cases st)
    case PsRunning
    then show ?thesis unfolding ProcessState
      using keeps_stay [OF inv] transition_keeps [OF inv, of StRunning j e None None Process] by auto
  next
    case PsSucceeded
    have "keeps F W w (map_prod (map_option Process) id
      (transition_to e j StIndexing None (Some (ProcessIndex (j\<lparr>Status := StIndexing\<rparr>))) w))"
      by (rule transition_keeps [OF inv]) (use i in auto)
    then show ?thesis using PsSucceeded k(2) by (simp add: ProcessState)
  qed (use keeps_stay [OF inv] ProcessState in \<open>auto intro!: transition_keeps [OF inv] r\<close>)
next
  case (ProcessIndex j)
  with p have k: "knows_items w j" by simp
  then have k': "knows w j" by (rule knows_items_knows)
  have "items_ok W w" using inv by (simp add: world_inv_def)
  with k have "distinct (map CustomID (items w (BatchID j)))" "set (map CustomID (items w (BatchID j))) = set (W (BatchID j))"
    by (simp_all add: items_ok_def knows_items_def)
  then show ?thesis unfolding ProcessIndex using keeps_stay [OF inv] k k' by (auto simp: knows_items_def)
next
  case (ProcessScan j expected)
  with p have k: "knows w j" "expected \<noteq> []" "set expected = set (W (BatchID j))" by simp_all
  have "process_inv W w (ProcessReplace j its)" if "Index_results expected ls (read_error e) = Inr its" for ls its
    using Index_results_ids [OF that k(2)] k by simp
  then show ?thesis unfolding ProcessScan using keeps_stay [OF inv] k(1) by (auto split: option.split sum.split)
next
  case (ProcessReplace j its)
  with p have k: "knows w j" and i: "distinct (map CustomID its)" "set (map CustomID its) = set (W (BatchID j))" by simp_all
  obtain a w1 where c: "attempt (outcome e) w (ReplaceBatchImageItemsForJob (BatchID j) its (count_success its) (count_failed its) (now e) w) = (a, w1)"
    by fastforce
  have g: "good F W w w1" by (rule attempted [OF inv replace_good(1) [OF inv i] c])
  have k1: "knows w1 j" by (rule good_knows [OF g k])
  have "process_inv W w1 (ProcessSettling j)" if "a = Inr u" for u
  proof -
    have "ReplaceBatchImageItemsForJob (BatchID j) its (count_success its) (count_failed its) (now e) w = (Inr u, w1)"
      using c that by (auto dest!: attempt_Inr)
    from replace_good(2) [OF inv i this] k1 show ?thesis by (auto simp: knows_def)
  qed
  then show ?thesis unfolding ProcessReplace using keeps_good [OF g] k1 by (auto simp: c split: sum.split)
next
  case (ProcessSettling j)
  with p have "\<And>row. jobs w (BatchID j) = Some row \<Longrightarrow> Status row = StIndexing \<Longrightarrow> counts_ok row" by auto
  then show ?thesis unfolding ProcessSettling
    using transition_keeps [OF inv, of StSettling j e None None Process] by auto
next
  case (ProcessFail j code)
  with p have k: "knows w j" by simp
  have r: "knows w1 (j\<lparr>Status := StFailed\<rparr>)" if "good F W w w1" for w1
    by (rule knows_same [OF good_knows [OF that k]]) (simp add: same_terms_def)
  have "keeps F W w (map_prod (map_option Process) id
      (transition_to e j StFailed (Some code) (Some (ProcessRelease (j\<lparr>Status := StFailed\<rparr>))) w))"
    by (rule transition_keeps [OF inv]) (use r in auto)
  then show ?thesis by (simp add: ProcessFail)
next
  case (ProcessRelease j)
  with p have k: "knows w j" by simp
  show ?thesis unfolding ProcessRelease using keeps_good [OF release_good [OF inv k]] keeps_stay [OF inv] by auto
qed

lemma settle_amount:
  assumes "settle_checks L price j = SettleAmount m" "PricingSnapshotVersion j = 1"
  shows "Status j = StSettling" "m = due j"
  using assms by (auto simp: settle_checks_def settlementUnitPrice_def due_def Let_def split: if_splits option.splits)

lemma settle_keeps:
  assumes inv: "world_inv F W w" and p: "settle_inv w p"
  shows "keeps F W w (map_prod (map_option Settle) id (settle_step L e p w))"
proof (cases p)
  case (SettleRead b)
  have k: "knows w j" if "GetBatchImageJobByBatchID b w = Inr j" for j
    using read_row(2) [OF inv read_found(1) [OF that]] .
  have s: "knows_settling w j \<and> m = due j" if r: "GetBatchImageJobByBatchID b w = Inr j" "settle_checks L (unit_price e) j = SettleAmount m" for j m
  proof -
    have row: "jobs w (BatchID j) = Some j" by (rule read_row(1) [OF inv read_found(1) [OF r(1)]])
    then have ok: "row_ok W w (BatchID j) j" by (rule inv_row [OF inv])
    then have "PricingSnapshotVersion j = 1" by (simp add: row_ok_def terms_ok_def)
    note a = settle_amount [OF r(2) this]
    then show ?thesis using row ok by (simp add: knows_settling_def row_ok_def settled_phase_def same_counts_def)
  qed
  from k s show ?thesis unfolding SettleRead by (auto intro!: keeps_stay [OF inv] split: sum.split settle_plan.split)
next
  case (SettleCapture j m)
  with p have k: "knows_settling w j" "m = due j" by simp_all
  let ?h = "BuildBatchImageSettlementManifestHash L j"
  obtain err db where c: "captureBatchImageBalanceHold L (benv e) j m ?h (bdb w) = (err, db)" by fastforce
  let ?w = "w\<lparr>bdb := db, caps := caps w @ captured_by L (benv e) j m ?h (bdb w)\<rparr>"
  note g = capture_good [OF inv k c]
  have k': "knows_settling ?w j" by (rule good_settling [OF g(1) k(1)])
  have "settle_inv ?w (if err = None then SettleMark j m else SettleRecord j ''SETTLEMENT_BILLING_FAILED'')"
    using g(2) k' k(2) knows_settling_knows [OF k'] by simp
  then have "keeps F W w (Some (Settle (if err = None then SettleMark j m else SettleRecord j ''SETTLEMENT_BILLING_FAILED'')), ?w)"
    by (intro keeps_good(2) [OF g(1)]) simp
  then show ?thesis unfolding SettleCapture by (simp only: settle_step.simps Let_def c prod.case map_prod_simp option.map id_apply)
next
  case (SettleRecord j code)
  with p have k: "knows w j" by simp
  obtain a w1 where c: "attempt (outcome e) w (SetBatchImageJobSettlementFailed (BatchID j) code (now e) w) = (a, w1)" by fastforce
  have g: "good F W w w1" by (rule attempted [OF inv settlement_failed_good [OF inv] c])
  have "knows w1 (j\<lparr>RetryCount := n, LastErrorCode := x\<rparr>)" for n x
    by (rule knows_same [OF good_knows [OF g k]]) (simp add: same_terms_def)
  then show ?thesis unfolding SettleRecord by (auto simp: c intro!: keeps_good [OF g] split: sum.split)
next
  case (SettleMark j m)
  with p have k: "knows_settling w j" "m = due j" "(BatchID j, j_UserID j, due j) \<in> set (caps w)" by simp_all
  have d: "m = due row \<and> (BatchID j, j_UserID row, due row) \<in> set (caps w)" if "jobs w (BatchID j) = Some row" for row
  proof -
    from k(1) that have "same_terms row j" "same_counts row j" by (auto simp: knows_settling_def)
    then show ?thesis using k due_step [of row j] by (simp add: same_terms_def)
  qed
  have "good F W w (snd (attempt (outcome e) w (MarkBatchImageJobSettled (BatchID j) m x (now e) w)))" for x
    by (rule good_attempt [OF inv settled_good [OF inv d]])
  then show ?thesis unfolding SettleMark by (auto intro!: keeps_good)
next
  case (SettleRelease j)
  with p have k: "knows w j" by simp
  obtain a w1 where c: "release_step L e j w = (a, w1)" by fastforce
  have g: "good F W w w1" using release_good [OF inv k, of L e] c by simp
  show ?thesis unfolding SettleRelease using good_knows [OF g k] by (auto simp: c intro!: keeps_good [OF g] split: option.split)
next
  case (SettleNote j)
  show ?thesis unfolding SettleNote using keeps_good [OF good_attempt [OF inv settlement_failed_good [OF inv]]] by auto
next
  case (SettleFail j)
  show ?thesis unfolding SettleFail
    using transition_keeps [OF inv, of StFailed j e "Some ''SETTLEMENT_BILLING_RETRY_EXHAUSTED''" None Settle] by auto
qed

lemma upkeep_keeps:
  assumes inv: "world_inv F W w" and p: "upkeep_inv w p"
  shows "keeps F W w (map_prod (map_option Upkeep) id (upkeep_step L e p w))"
proof (cases p)
  case (RecoverFail j cutoff)
  with p have k: "knows w j" by simp
  obtain a w1 where c: "FailStaleUnsubmittedBatchImageJob (BatchID j) cutoff ''SUBMIT_STALE_BEFORE_PROVIDER'' (now e) w = (a, w1)" by fastforce
  have g: "good F W w w1" using stale_good [OF inv, of "BatchID j" cutoff "''SUBMIT_STALE_BEFORE_PROVIDER''" "now e"] c by simp
  have "knows w1 (j\<lparr>Status := StFailed\<rparr>)"
    by (rule knows_same [OF good_knows [OF g k]]) (simp add: same_terms_def)
  then show ?thesis unfolding RecoverFail using keeps_good [OF g] keeps_stay [OF inv] by (auto simp: c)
next
  case (RecoverRelease j)
  with p have k: "knows w j" by simp
  show ?thesis unfolding RecoverRelease using keeps_good [OF release_good [OF inv k]] by auto
next
  case (CleanupRead b x)
  have "knows w j" if "GetBatchImageJobByBatchID b w = Inr j" for j
    using read_row(2) [OF inv read_found(1) [OF that]] .
  then show ?thesis unfolding CleanupRead by (auto intro!: keeps_stay [OF inv] split: sum.split)
next
  case (CleanupProvider j x)
  with p show ?thesis using keeps_stay [OF inv] by auto
next
  case (CleanupMark j x)
  have "good F W w (snd (attempt (outcome e) w (MarkBatchImageOutputDeleted b t w)))"
    "good F W w (snd (attempt (outcome e) w (MarkBatchImageInputDeleted b t w)))" for b t
    by (rule good_attempt [OF inv output_deleted_good [OF inv]], rule good_attempt [OF inv input_deleted_good [OF inv]])
  then show ?thesis unfolding CleanupMark by (auto intro!: keeps_good)
next
  case (CleanupFailed j)
  show ?thesis unfolding CleanupFailed using keeps_stay [OF inv] keeps_good [OF cleanup_failure_good [OF inv]] by auto
next
  case (DeleteRead u k b)
  have "knows w j" if "GetBatchImageJobByBatchIDForOwner u k b w = Inr j" for j
    using read_row(2) [OF inv read_found(2) [OF that]] .
  then show ?thesis unfolding DeleteRead by (auto intro!: keeps_stay [OF inv] split: sum.split)
next
  case (DeleteMark j)
  show ?thesis unfolding DeleteMark using keeps_good [OF good_attempt [OF inv user_deleted_good [OF inv]]] by auto
qed

lemma worker_keeps:
  assumes inv: "world_inv F W w" and c: "worker_inv W w c"
  shows "keeps F W w (worker_step L e c w)"
proof (cases c)
  case (Pipeline b)
  show ?thesis unfolding Pipeline by (auto simp: worker_step_def intro!: keeps_stay [OF inv] split: sum.split)
qed (use assms submit_keeps cancel_keeps process_keeps settle_keeps upkeep_keeps in \<open>simp_all add: worker_step_def\<close>)

section \<open>Runs\<close>

text \<open>A run changes no terms of a job, never moves it back, and fixes its counts once it is settled.\<close>

definition forward :: "BatchImageJob \<Rightarrow> BatchImageJob \<Rightarrow> bool" where
  "forward j j' = (same_terms j j' \<and> rank (Status j) \<le> rank (Status j') \<and>
     (settled_phase (Status j) \<longrightarrow> settled_phase (Status j') \<and> same_counts j j'))"

definition forward_to :: "batch_world \<Rightarrow> batch_world \<Rightarrow> bool" where
  "forward_to w w' = (\<forall>b j. jobs w b = Some j \<longrightarrow> (\<exists>j'. jobs w' b = Some j' \<and> forward j j'))"

lemma forward_trans: "forward a b \<Longrightarrow> forward b c \<Longrightarrow> forward a c"
  by (auto simp: forward_def same_terms_def same_counts_def)

lemma forward_to_refl: "forward_to w w"
  by (simp add: forward_to_def forward_def same_counts_def)

lemma forward_to_trans: "forward_to a b \<Longrightarrow> forward_to b c \<Longrightarrow> forward_to a c"
  unfolding forward_to_def using forward_trans by blast

lemma later_forward: "later W w W' w' \<Longrightarrow> forward_to w w'"
  unfolding later_def forward_to_def row_step_def forward_def by blast

definition advances :: "(ident \<Rightarrow> money) \<Rightarrow> batch_system \<Rightarrow> batch_system \<Rightarrow> bool" where
  "advances F s s' = (system_inv F s' \<and> forward_to (world s) (world s'))"

lemma system_keeps:
  assumes s: "world_inv F W (world s)" "\<forall>c\<in>set (workers s). worker_inv W (world s) c"
    and w: "world_inv F W' w'" "later W (world s) W' w'"
    and c: "\<And>c. c \<in> set cs \<Longrightarrow> c \<in> set (workers s) \<or> worker_inv W' w' c"
  shows "advances F s \<lparr>world = w', workers = cs\<rparr>"
proof -
  have "worker_inv W' w' d" if "d \<in> set cs" for d
    using c [OF that] worker_inv_later [OF w(2)] s(2) by blast
  then show ?thesis using w later_forward by (auto simp: system_inv_def advances_def)
qed

lemma drop_worker_set: "set (drop_worker i cs) \<subseteq> set cs"
  by (auto simp: drop_worker_def dest: in_set_takeD in_set_dropD)

lemma expand_items_ids:
  "expand_items lims i n r b seen its = Inr ids \<Longrightarrow> distinct seen \<Longrightarrow> seen \<noteq> [] \<or> its \<noteq> [] \<Longrightarrow> distinct ids \<and> ids \<noteq> []"
proof (induction its arbitrary: i n r b seen)
  case (Cons x its)
  from Cons.prems(1) have "\<exists>i' n' r' b' c k. expand_items lims i' n' r' b' (seen @ repeat_ids c k) its = Inr ids \<and> distinct (seen @ repeat_ids c k)"
    unfolding expand_items.simps Let_def by (auto split: if_splits sum.splits prod.splits; blast)
  then obtain i' n' r' b' c k where r: "expand_items lims i' n' r' b' (seen @ repeat_ids c k) its = Inr ids" "distinct (seen @ repeat_ids c k)"
    by blast
  moreover have "repeat_ids c k \<noteq> []" by (simp add: repeat_ids_def)
  ultimately show ?case using Cons.IH by simp
qed simp

lemma submit_items_ids: "submit_items lims its = Inr ids \<Longrightarrow> distinct ids \<and> ids \<noteq> []"
  using expand_items_ids [of lims 0 0 0 0 "[]" its ids] by (simp add: submit_items_def split: if_splits)

lemma snapshot_bounds:
  assumes "resolvePricingSnapshot g ur mp ar n = Some p"
  shows "0 \<le> snap_BillableUnitPrice p" "snap_BillableUnitPrice p * of_nat n \<le> snap_HoldAmount p"
proof -
  define c where "c = (case g of
              None \<Rightarrow> Some (1, defaultBatchImageDiscountMultiplier, defaultBatchImageHoldMultiplier, -1)
            | Some None \<Rightarrow> None
            | Some (Some g) \<Rightarrow>
                if \<not> AllowBatchImageGeneration g then None
                else case ur of None \<Rightarrow> None
                | Some r \<Rightarrow> Some (group_multiplier g r, clamp0 (BatchImageDiscountMultiplier g),
                    (if 0 \<le> BatchImageHoldMultiplier g then BatchImageHoldMultiplier g else defaultBatchImageHoldMultiplier),
                    (case image_price g of Some p \<Rightarrow> if 0 \<le> p then p else -1 | None \<Rightarrow> -1)))"
  from assms obtain gm discount hold unit0 where c: "c = Some (gm, discount, hold, unit0)"
    by (auto simp: resolvePricingSnapshot_def c_def [symmetric] split: option.splits)
  then have u: "0 \<le> gm" "0 \<le> discount"
    by (auto simp: c_def group_multiplier_def clamp0_def defaultBatchImageDiscountMultiplier_def split: option.splits if_splits)
  define up where "up = (if unit0 < 0 then (case mp of None \<Rightarrow> None | Some p \<Rightarrow> if p < 0 then None else Some p) else Some unit0)"
  from assms obtain unit where up: "up = Some unit"
    by (auto simp: resolvePricingSnapshot_def c_def [symmetric] c up_def [symmetric] split: option.splits)
  then have un: "0 \<le> unit" by (auto simp: up_def split: option.splits if_splits)
  have h: "max hold discount = (if hold < discount then discount else hold)" by (simp add: max_def)
  have p: "p = \<lparr>snap_BillableUnitPrice = unit * gm * clamp0 ar * discount, snap_HoldUnitPrice = unit * gm * clamp0 ar * max hold discount,
      snap_EstimatedCost = unit * gm * clamp0 ar * discount * of_nat n, snap_HoldAmount = unit * gm * clamp0 ar * max hold discount * of_nat n\<rparr>"
    using assms unfolding h by (simp add: resolvePricingSnapshot_def c_def [symmetric] c up_def [symmetric] up Let_def)
  have a: "0 \<le> clamp0 ar" by (simp add: clamp0_def)
  then have s: "0 \<le> unit * gm * clamp0 ar" using u un by simp
  show "0 \<le> snap_BillableUnitPrice p" using s u(2) by (simp add: p)
  have "unit * gm * clamp0 ar * discount \<le> unit * gm * clamp0 ar * max hold discount" using s by (intro mult_left_mono) simp_all
  then show "snap_BillableUnitPrice p * of_nat n \<le> snap_HoldAmount p" by (simp add: p mult_right_mono)
qed

lemma submit_start_inv:
  assumes "submit_start i = Some r"
  shows "submit_inv W w (SubmitCreate r)"
proof -
  from assms obtain ids p where "valid_batch_id (in_batch i)" "0 < in_key i" "submit_items (in_limits i) (in_items i) = Inr ids"
    "resolvePricingSnapshot (in_group i) (in_user_rate i) (in_model_price i) (in_account_rate i) (length ids) = Some p"
    "r = \<lparr>rq_batch = in_batch i, rq_user = in_user i, rq_key = in_key i, rq_account = in_account i,
               rq_provider = in_provider i, rq_model = in_model i, rq_ids = ids, rq_price = p, rq_hash = in_hash i\<rparr>"
    by (auto simp: submit_start_def split: if_splits sum.splits option.splits)
  then show ?thesis using submit_items_ids snapshot_bounds by simp
qed

lemma foreign_keeps:
  assumes inv: "world_inv F W w" and f: "foreign L ev"
  shows "good F W w (w\<lparr>bdb := snd (billing_step L ev (bdb w)), others := others w @ foreign_charges L ev (bdb w)\<rparr>)"
proof (rule bdb_step [OF inv])
  fix k
  assume k: "event_key L ev = Some k"
  show "\<not> capture_key k"
  proof
    assume "capture_key k"
    then obtain b i where "valid_batch_id b" "k = (batchImageCaptureRequestPrefix @ b, i)" using hold_ids(4) by (auto simp: capture_key_def)
    then have "HasPrefix (fst k) ''batch_image_''" by (simp add: batchImageCaptureRequestPrefix_def HasPrefix_def)
    then show False using k f by (cases ev) (auto simp: foreign_def)
  qed
next
  fix u
  show "(\<Sum>c\<leftarrow>foreign_charges L ev (bdb w). if fst c = u then snd c else 0) =
      (if makes_claim (billing_step L) claimed (event_key L) ev (bdb w) then event_charge L u ev else 0)"
    using f by (cases ev) (auto simp: foreign_charges_def foreign_def makes_claim_def)
qed

lemma system_step_inv:
  assumes "system_inv F s"
  shows "advances F s (system_step L a s)"
proof -
  from assms obtain W where W: "world_inv F W (world s)" "\<forall>c\<in>set (workers s). worker_inv W (world s) c" by (auto simp: system_inv_def)
  have add: "advances F s (add_worker c s)" if "worker_inv W (world s) c" for c
    using W that by (auto simp: advances_def system_inv_def add_worker_def forward_to_refl)
  have moved: "advances F s (s\<lparr>world := w\<rparr>)" if "good F W (world s) w" for w
    using system_keeps [OF W, of W w "workers s"] that by (cases s) (simp add: good_def)
  have stay: "advances F s s" using assms by (simp add: advances_def forward_to_refl)
  show ?thesis
  proof (cases a)
    case (StartSubmit i)
    then show ?thesis using stay add submit_start_inv by (auto split: option.split)
  next
    case (StartRecover b cutoff)
    then show ?thesis using stay add knows_row by (auto simp: listed_stale_def split: option.split)
  next
    case (StepWorker i e)
    show ?thesis
    proof (cases "i < length (workers s)")
      case True
      let ?c = "workers s ! i"
      obtain n w' where st: "worker_step L e ?c (world s) = (n, w')" by fastforce
      have "keeps F W (world s) (n, w')" using worker_keeps [OF W(1), of ?c L e] W(2) True st by simp
      then obtain W' where k: "world_inv F W' w'" "later W (world s) W' w'" "\<And>c. n = Some c \<Longrightarrow> worker_inv W' w' c" by (auto simp: keeps_def)
      have "advances F s \<lparr>world = w', workers = drop_worker i (workers s)\<rparr>"
        by (rule system_keeps [OF W k(1,2)]) (rule disjI1, erule subsetD [OF drop_worker_set])
      moreover have "advances F s \<lparr>world = w', workers = (workers s)[i := c]\<rparr>" if "n = Some c" for c
      proof (rule system_keeps [OF W k(1,2)])
        fix d
        assume "d \<in> set ((workers s)[i := c])"
        then have "d = c \<or> d \<in> set (workers s)" using set_update_subset_insert [of "workers s" i c] by auto
        then show "d \<in> set (workers s) \<or> worker_inv W' w' d" using k(3) [OF that] by auto
      qed
      ultimately show ?thesis using True st StepWorker by (cases n) simp_all
    qed (use StepWorker stay in simp)
  next
    case (CrashWorker i)
    then show ?thesis using W drop_worker_set [of i "workers s"] by (auto simp: advances_def system_inv_def forward_to_refl)
  next
    case (TouchJob b t)
    then show ?thesis using moved touch_good [OF W(1)] by simp
  next
    case (OtherBilling ev)
    then show ?thesis using moved foreign_keeps [OF W(1)] stay by simp
  qed (use add in simp_all)
qed

lemma start_system_inv: "system_inv (funds db) (start_system db)"
  by (auto simp: system_inv_def start_system_def world_inv_def items_ok_def caps_ok_def claimed_def taken_from_def funds_def lookup_claim_def)

lemma run_system_advances: "system_inv F s \<Longrightarrow> advances F s (run_system L acts s)"
proof (induction acts arbitrary: s)
  case (Cons a acts)
  have a: "advances F s (system_step L a s)" using Cons.prems by (rule system_step_inv)
  then have "advances F (system_step L a s) (run_system L acts (system_step L a s))" using Cons.IH by (simp add: advances_def)
  with a have "advances F s (run_system L acts (system_step L a s))" unfolding advances_def using forward_to_trans by blast
  then show ?case by (simp add: run_system_def)
qed (simp add: run_system_def advances_def forward_to_refl)

lemma reachable_inv: "system_inv (funds db) (run_system L acts (start_system db))"
  using run_system_advances [OF start_system_inv] by (simp add: advances_def)


section \<open>What users pay\<close>

text \<open>C4. Whatever the workers, failures, crashes and other charges: each batch is charged at most once, to its owner, for the
  images it delivered at the price of its submission and never more than it held; a completed batch has been charged exactly
  the cost it shows; and a user has what he started with less these charges and the other charges made to him.\<close>
theorem batch_charged_once:
  "let w = world (run_system L acts (start_system db)) in
     distinct (map fst (caps w)) \<and>
     (\<forall>(b, u, m)\<in>set (caps w). \<exists>j. jobs w b = Some j \<and> u = j_UserID j \<and> m = of_int (SuccessCount j) * BillableUnitPrice j \<and>
        0 \<le> m \<and> m \<le> hold_amount j) \<and>
     (\<forall>b j. jobs w b = Some j \<longrightarrow> Status j \<in> {StCompleted, StOutputDeleted} \<longrightarrow>
        (\<exists>m. j_ActualCost j = Some m \<and> (b, j_UserID j, m) \<in> set (caps w))) \<and>
     (\<forall>u. funds (bdb w) u = funds db u - (\<Sum>(b, u', m)\<leftarrow>caps w. if u' = u then m else 0)
        - (\<Sum>(u', m)\<leftarrow>others w. if u' = u then m else 0))"
proof -
  define w where "w = world (run_system L acts (start_system db))"
  obtain W where inv: "world_inv (funds db) W w" using reachable_inv [of db L acts] by (auto simp: system_inv_def w_def)
  have c: "\<exists>j. jobs w b = Some j \<and> u = j_UserID j \<and> m = of_int (SuccessCount j) * BillableUnitPrice j \<and> 0 \<le> m \<and> m \<le> hold_amount j"
    if c: "(b, u, m) \<in> set (caps w)" for b u m
  proof -
    from c inv have "cap_ok w (b, u, m)" by (simp add: world_inv_def caps_ok_def)
    then obtain j where j: "jobs w b = Some j" "u = j_UserID j" "m = due j" "counts_ok j" by (auto simp: cap_ok_def)
    show ?thesis using j due_bounds [OF inv_row [OF inv j(1)] j(4)] by (auto simp: due_def)
  qed
  have s: "\<exists>m. j_ActualCost j = Some m \<and> (b, j_UserID j, m) \<in> set (caps w)"
    if "jobs w b = Some j" "Status j \<in> {StCompleted, StOutputDeleted}" for b j
    using inv_row [OF inv that(1)] that(2) by (auto simp: row_ok_def)
  have d: "distinct (map fst (caps w))" using inv by (simp add: world_inv_def caps_ok_def)
  have f: "funds (bdb w) u = funds db u - (\<Sum>(b, u', m)\<leftarrow>caps w. if u' = u then m else 0)
        - (\<Sum>(u', m)\<leftarrow>others w. if u' = u then m else 0)" for u
    using inv by (simp add: world_inv_def taken_from_def split_def)
  show ?thesis unfolding Let_def w_def [symmetric] using c s d f by blast
qed

text \<open>A sample: a user with 10, and requests for two images at 1 each, with 6/5 each held.\<close>

definition sample_item :: "string \<Rightarrow> submit_item" where
  "sample_item c = \<lparr>item_id = c, OutputCount = 1, Prompt = ''p'', references = Inr (0, 0)\<rparr>"

definition sample_submit :: "string \<Rightarrow> submit_input" where
  "sample_submit b = \<lparr>in_batch = b, in_user = 7, in_key = 1, in_account = 2, in_provider = ''vertex'', in_model = ''m'',
     in_items = [sample_item ''a'', sample_item ''b''],
     in_limits = \<lparr>maxItems = 10, maxOutputImagesPerItem = 4, maxOutputImagesPerJob = 20, maxPromptChars = 100,
       maxReferenceImagesPerJob = 0, maxReferenceInlineBytesPerJob = 0\<rparr>,
     in_group = None, in_user_rate = None, in_model_price = Some 2, in_account_rate = 1, in_hash = ''h''\<rparr>"

definition sample_env :: batch_env where
  "sample_env = \<lparr>outcome = Committed, benv = fine 0, now = 0, submitted_as = Some (''jobs/1'', ''''), call_ok = True,
     provider_reply = Some (PsSucceeded, ''''), result_lines = Some [Inr (''a'', True), Inr (''b'', False)], read_error = False,
     unit_price = None\<rparr>"

definition lost_commit :: batch_env where "lost_commit = sample_env\<lparr>benv := (fine 0)\<lparr>commits := CommitLost\<rparr>\<rparr>"

definition steps :: "nat \<Rightarrow> action list" where "steps n = replicate n (StepWorker 0 sample_env)"
definition submit_run :: "string \<Rightarrow> action list" where "submit_run b = StartSubmit (sample_submit b) # steps 6"
definition index_run :: "string \<Rightarrow> action list" where "index_run b = StartPipeline b # steps 8"

definition failing_capture :: "string \<Rightarrow> batch_env \<Rightarrow> action list" where
  "failing_capture b e = StartPipeline b # steps 2 @ [StepWorker 0 e, StepWorker 0 sample_env]"

text \<open>Two batches, the first of which is indexed and settled after a capture whose commit reported an error.\<close>

definition settling_run :: "action list" where
  "settling_run = submit_run ''imgbatch_1'' @ submit_run ''imgbatch_2'' @ index_run ''imgbatch_1'' @
     failing_capture ''imgbatch_1'' lost_commit @ StartPipeline ''imgbatch_1'' # steps 4"

lemma batch_charged_once_witness:
  "let w = world (run_system plain_lib settling_run (start_system sample_billing_db)) in
     caps w = [(''imgbatch_1'', 7, 1)] \<and> map_option Status (jobs w ''imgbatch_1'') = Some StCompleted \<and>
     map_option j_ActualCost (jobs w ''imgbatch_1'') = Some (Some 1) \<and> funds (bdb w) 7 = 9"
proof -
  define w where "w = world (run_system plain_lib settling_run (start_system sample_billing_db))"
  have c: "caps w = [(''imgbatch_1'', 7, 1)]" and o: "others w = []" and s: "map_option Status (jobs w ''imgbatch_1'') = Some StCompleted"
    unfolding w_def by code_simp+
  have f: "funds sample_billing_db 7 = 10" by code_simp
  note t = batch_charged_once [of plain_lib settling_run sample_billing_db, unfolded Let_def, folded w_def]
  from s obtain j where j: "jobs w ''imgbatch_1'' = Some j" "Status j = StCompleted" by auto
  have "\<exists>m. j_ActualCost j = Some m \<and> (''imgbatch_1'', j_UserID j, m) \<in> set (caps w)" using t j by blast
  moreover have "funds (bdb w) 7 = 9" using t c o f by simp
  ultimately show ?thesis using c s j by (simp add: w_def [symmetric])
qed



section \<open>Where holds go wrong\<close>





end
