(* ===== verification/Spec2Isabelle.thy ===== *)
theory Spec2Isabelle
  imports Failover ProxyFallback ProxyCircuit Idempotency ConcurrencyCache ConcurrencyService KeywordMatcher Ranking CompositeRouting Channels PaymentOrders PaymentFulfillment PaymentSystem PaymentProviders PaymentRefund Decimals UsageBilling BatchImage BatchImageSystem BatchImageSafety
begin

text \<open>
  A verification library for the gateway of this repository (package paths below are relative to
  \<open>src/backend/internal\<close>). The gateway takes a client's API call, finds an upstream account for it
  and forwards the call. Around every call it keeps the books this library models:

  \<^item> \<^bold>\<open>Failover\<close>: \<open>handler/failover_loop.go\<close>, \<open>service/pool_mode.go\<close> and the error record of
    \<open>service/gateway_service.go\<close>. When an upstream answers with an error the handler retries the same account, excludes it,
    or gives up; the theory has the loop state, each decision and the loop over a selection function.
  \<^item> \<^bold>\<open>ProxyFallback\<close>: \<open>service/proxy_fallback_resolver.go\<close>. An account reaches its upstream through a proxy with
    a chain of backups; the resolver walks that chain past dead proxies and cycles.
  \<^item> \<^bold>\<open>ProxyCircuit\<close>: the circuit that counts stream failures of a proxy and opens.
  \<^item> \<^bold>\<open>Idempotency\<close>: \<open>service/idempotency.go\<close> and \<open>repository/idempotency_repo.go\<close>. Write requests with an
    idempotency key run at most once: a coordinator of atomic steps over the SQL statements of the repository.
  \<^item> \<^bold>\<open>ConcurrencyCache\<close>: \<open>repository/concurrency_cache.go\<close>. The Redis sets and counters behind the slots of accounts, users
    and API keys, with every Lua script and every method.
  \<^item> \<^bold>\<open>ConcurrencyService\<close>: \<open>service/concurrency_service.go\<close>, the client of that cache: request identifiers, release
    functions, leases and the cache of load batches.
  \<^item> \<^bold>\<open>KeywordMatcher\<close>: \<open>service/content_moderation_keyword_matcher.go\<close>, the automaton that blocks keywords.
  \<^item> \<^bold>\<open>PaymentOrders\<close>, \<^bold>\<open>PaymentFulfillment\<close>, \<^bold>\<open>PaymentSystem\<close>: \<open>payment/currency.go\<close>, \<open>payment/types.go\<close>,
    \<open>service/payment_order.go\<close>, \<open>service/payment_order_lifecycle.go\<close>, \<open>service/payment_fulfillment.go\<close> and the balance codes of
    \<open>service/redeem_service.go\<close>. A user pays an order at a provider; the notification, a retry or an upstream check makes it paid,
    a leased fulfillment credits the balance through a redeem code or extends a subscription. The last theory has the step
    relation over all running calls and the invariant behind exactly-once crediting.
  \<^item> \<^bold>\<open>PaymentProviders\<close>: \<open>payment/load_balancer.go\<close> and the instance lookups of \<open>service/payment_refund.go\<close>.
  \<^item> \<^bold>\<open>PaymentRefund\<close>: \<open>service/payment_refund.go\<close>, \<open>service/payment_amounts.go\<close>; refunds against failing gateways, payback of
    the deduction, and refunds that are confirmed later. \<^bold>\<open>Decimals\<close> holds the decimal arithmetic of refunds and charges.
  \<^item> \<^bold>\<open>UsageBilling\<close>: \<open>service/usage_billing.go\<close>, \<open>repository/usage_billing_repo.go\<close>, the commands and request ids of
    \<open>service/gateway_usage_billing.go\<close> and the clean-up of \<open>repository/dashboard_aggregation_repo.go\<close>. After every call its cost is
    booked in one transaction that first claims the request id; the holds of batch images go through the same claims.
  \<^item> \<^bold>\<open>BatchImage\<close>, \<^bold>\<open>BatchImageSystem\<close>, \<^bold>\<open>BatchImageSafety\<close>: \<open>service/batch_image*.go\<close> and \<open>repository/batch_image_repo.go\<close>. A request
    for many images is priced, held, handed to a provider, polled, indexed and settled by workers that stop between any two calls.
    The first theory has the operations and the workers, the second the step relation over all of them with its invariant, the
    third the proof that every step keeps it, what users pay, and two runs in which a hold goes wrong.
  \<^item> \<^bold>\<open>CompositeRouting\<close>: \<open>service/composite_model_route.go\<close>, \<open>service/composite_route_resolver.go\<close>,
    \<open>service/composite_platform.go\<close>, the route operations of \<open>service/admin_group.go\<close> and \<open>repository/composite_model_route_repo.go\<close>.
    A composite group sends each public model to one of several platforms; the theory has the table of routes with its operations,
    the resolution of a request and the decision in the request's context. \<^bold>\<open>Ranking\<close> holds Go's stable sort.
  \<^item> \<^bold>\<open>Channels\<close>: \<open>service/channel.go\<close>, \<open>service/channel_service.go\<close> and \<open>repository/channel_repo*.go\<close>. A channel prices and
    renames the models of its groups. The theory has the validation of a channel, the operations of administrators, the cache that
    requests read, and the proof that the cache answers what the tables say unless a read just failed or a rebuild was late.
  The theories follow the code: a record per struct, a function per function or method with its name (prefixed where the
  name is taken), \<open>option\<close> or a datatype for error results, state passed and returned where the code mutates it. Machine
  integers are written as integers or naturals where the code cannot leave their range and as words or with the wrap-around
  where it can. What the modelled code calls outside \<open>src\<close>, or in parts that are not modelled, is a parameter: the Redis server
  (locale \<open>redis_store\<close> states its commands' laws), hash functions, JSON, the SQL server's answer or failure, clocks.

  Each component theory first holds the definitions in the order of the code, then the lemmas about each operation, then
  the properties, marked with their number, each followed by a witness that applies it to concrete data. Interfaces between
  components are locales: \<open>redis_store\<close> (what the scripts need from Redis, interpreted by an in-memory store),
  \<open>idempotency_repository\<close> (what the coordinator needs from its repository, interpreted by the SQL statements),
  \<open>slot_provider\<close> (what the service needs from the cache, shown for the methods over Redis), \<open>decimals\<close> (the laws of decimal
  rounding that refunds rest on) \<open>claims_once\<close> (what a table of claims promises, interpreted by all billing calls) and \<open>weak_order\<close> (what a comparison
  has to be for a sorted slice to start with its best element, interpreted by the comparisons of the routes).

  Fuel and bounds: the linked lists of the keyword trie carry the number of edges as fuel and its failure loops the number
  of nodes; the correctness theorem includes that it is enough. All other loops are structural or have a termination proof.

  Not modelled: the HTTP layer and the protocol converters of the upstreams (\<open>handler\<close>, \<open>pkg/apicompat\<close>), the generated database
  client (\<open>ent\<close>), configuration, dependency injection, logging and metrics. They are listed in the project manifest with the
  reason.
\<close>

end
